(* ===== verification/RMR_Prelude.thy ===== *)
theory RMR_Prelude
  imports Main "HOL-Library.Word"
begin

text \<open>
  Shared material of the development: the type names of the C program, the collections of
  rewrite rules the component proofs use, and generic lemmas on lists and machine words.

  C strings are \<^typ>\<open>string\<close>s holding the characters before the terminating nil; a pointer to
  a string that may be nil is a \<^typ>\<open>string option\<close>. Bytes are \<^typ>\<open>8 word\<close>s. A pointer to a
  heap object is a \<^typ>\<open>nat\<close> address into the store the component keeps, and a pointer that may
  be nil is an \<^typ>\<open>nat option\<close>.
\<close>

unbundle bit_operations_syntax

type_synonym u8 = "8 word"
type_synonym u16 = "16 word"
type_synonym u32 = "32 word"
type_synonym i32 = "32 word"
type_synonym u64 = "64 word"

named_theorems list_upd_simps
  \<open>rewriting of \<open>upd_first\<close> and \<open>del_first\<close>\<close>

subsection \<open>Replacing and deleting the first match of a list\<close>

text \<open>
  The C code walks a chain to the first element that satisfies a test and then changes or
  unlinks it. These are the two list functions for it.
\<close>

fun upd_first :: "('a \<Rightarrow> bool) \<Rightarrow> ('a \<Rightarrow> 'a) \<Rightarrow> 'a list \<Rightarrow> 'a list" where
  "upd_first P f [] = []"
| "upd_first P f (x # xs) = (if P x then f x # xs else x # upd_first P f xs)"

fun del_first :: "('a \<Rightarrow> bool) \<Rightarrow> 'a list \<Rightarrow> 'a list" where
  "del_first P [] = []"
| "del_first P (x # xs) = (if P x then xs else x # del_first P xs)"

lemma length_upd_first [simp]: "length (upd_first P f xs) = length xs"
  by (induction xs) auto

lemma map_upd_first [list_upd_simps]:
  "(\<And>x. P x \<Longrightarrow> g (f x) = g x) \<Longrightarrow> map g (upd_first P f xs) = map g xs"
  by (induction xs) auto

lemma set_upd_first: "set (upd_first P f xs) \<subseteq> set xs \<union> f ` {x \<in> set xs. P x}"
  by (induction xs) auto

lemma upd_first_id [list_upd_simps]: "\<forall>x\<in>set xs. \<not> P x \<Longrightarrow> upd_first P f xs = xs"
  by (induction xs) auto

lemma set_del_first: "set (del_first P xs) \<subseteq> set xs"
  by (induction xs) auto

lemma distinct_del_first: "distinct (map g xs) \<Longrightarrow> distinct (map g (del_first P xs))"
proof (induction xs)
  case (Cons x xs)
  then show ?case using set_del_first [of P xs] by auto
qed simp

lemma del_first_id [list_upd_simps]: "\<forall>x\<in>set xs. \<not> P x \<Longrightarrow> del_first P xs = xs"
  by (induction xs) auto

lemma length_del_first:
  "length (del_first P xs) = (if \<exists>x\<in>set xs. P x then length xs - 1 else length xs)"
proof (induction xs)
  case (Cons x xs)
  then show ?case by (cases xs) auto
qed simp

lemma find_upd_first [list_upd_simps]:
  assumes "\<And>x. P x \<Longrightarrow> P (f x)"
  shows "find P (upd_first P f xs) = map_option f (find P xs)"
  by (induction xs) (auto simp: assms)

lemma find_cong_set: "(\<And>x. x \<in> set xs \<Longrightarrow> P x = Q x) \<Longrightarrow> find P xs = find Q xs"
  by (induction xs) auto

lemma upd_first_cong_set:
  "(\<And>x. x \<in> set xs \<Longrightarrow> P x = Q x) \<Longrightarrow> upd_first P f xs = upd_first Q f xs"
  by (induction xs) auto

lemma del_first_cong_set:
  "(\<And>x. x \<in> set xs \<Longrightarrow> P x = Q x) \<Longrightarrow> del_first P xs = del_first Q xs"
  by (induction xs) auto

lemma find_upd_first_other [list_upd_simps]:
  assumes "\<And>x. P x \<Longrightarrow> \<not> Q x" "\<And>x. P x \<Longrightarrow> \<not> Q (f x)"
  shows "find Q (upd_first P f xs) = find Q xs"
  by (induction xs) (auto simp: assms)

lemma find_del_first_same:
  "distinct (map g xs) \<Longrightarrow> find (\<lambda>x. g x = k) (del_first (\<lambda>x. g x = k) xs) = None"
proof (induction xs)
  case (Cons a xs)
  then have "\<forall>x\<in>set xs. g x \<noteq> g a" by (metis distinct.simps(2) image_eqI list.set_map list.simps(9))
  with Cons show ?case by (auto simp: find_None_iff)
qed simp

lemma find_del_first_other [list_upd_simps]:
  assumes "\<And>x. P x \<Longrightarrow> \<not> Q x"
  shows "find Q (del_first P xs) = find Q xs"
  by (induction xs) (auto simp: assms)

lemma find_key_other_upd:
  "k' \<noteq> k \<Longrightarrow> (\<And>e. g (f e) = g e) \<Longrightarrow>
    find (\<lambda>e. g e = k') (upd_first (\<lambda>e. g e = k) f xs) = find (\<lambda>e. g e = k') xs"
  by (rule find_upd_first_other) auto

lemma find_key_other:
  "k' \<noteq> k \<Longrightarrow> find (\<lambda>e. g e = k') (del_first (\<lambda>e. g e = k) xs) = find (\<lambda>e. g e = k') xs"
  by (rule find_del_first_other) auto

lemma find_key_unique:
  "distinct (map g xs) \<Longrightarrow> x \<in> set xs \<Longrightarrow> find (\<lambda>y. g y = g x) xs = Some x"
  by (induction xs) (auto simp: rev_image_eqI)

lemma find_SomeD: "find P xs = Some x \<Longrightarrow> x \<in> set xs \<and> P x"
  by (induction xs) (auto split: if_splits)

lemma sum_list_update_nat:
  fixes f :: "'a \<Rightarrow> int"
  assumes "i < length xs"
  shows "sum_list (map f (xs[i := y])) = sum_list (map f xs) - f (xs ! i) + f y"
  using assms by (induction xs arbitrary: i) (auto split: nat.split)

subsection \<open>C characters as integers\<close>

text \<open>
  \<^verbatim>\<open>char\<close> is signed on the platforms the library is built for: its values are
  \<open>-128 .. 127\<close>.
\<close>

definition schar :: "char \<Rightarrow> int" where
  "schar c = (let n = of_char c in if n \<ge> 128 then n - 256 else n)"

lemma schar_ascii: "of_char c < (128::int) \<Longrightarrow> schar c = of_char c"
  by (simp add: schar_def Let_def)

end
