(* ===== verification/Bytes.thy ===== *)
theory Bytes
  imports RMR_Prelude
begin

text \<open>
  Blocks of memory as lists of bytes: reading and overwriting a range, 32 bit integers in network
  and in native (little endian) order, nil terminated text, and \<^verbatim>\<open>memcpy\<close> with its bounds. These
  are the primitives the message header, the transport header and the inbound byte streams are
  modelled with.

  A C function whose behaviour is undefined for some arguments (a copy out of bounds or of
  negative length) has no value there: its model returns \<open>None\<close>.
\<close>

type_synonym bytes = "u8 list"

text \<open>The values of \<^verbatim>\<open>errno\<close> the library sets itself.\<close>

datatype errno = E0 | EINVAL | EOVERFLOW | EMSGSIZE | ENOMEM | ENXIO | EBADMSG | EAGAIN | ENOTSUP
  | ETIMEDOUT | EBADFD | ENOTCONN | ENOBUFS | ECONNREFUSED | EACCES | EFBIG | EBUSY | EINTR | ECONNABORTED

definition bget :: "nat \<Rightarrow> nat \<Rightarrow> bytes \<Rightarrow> bytes" where
  "bget off n b = take n (drop off b)"

definition bput :: "nat \<Rightarrow> bytes \<Rightarrow> bytes \<Rightarrow> bytes" where
  "bput off s b = take off b @ s @ drop (off + length s) b"

text \<open>\<^verbatim>\<open>memcpy( &dst[off], &src[soff], n )\<close>\<close>

definition memcpy :: "bytes \<Rightarrow> int \<Rightarrow> bytes \<Rightarrow> int \<Rightarrow> int \<Rightarrow> bytes option" where
  "memcpy dst off src soff n =
     (if n < 0 \<or> off < 0 \<or> soff < 0 \<or> off + n > int (length dst) \<or> soff + n > int (length src)
      then None else Some (bput (nat off) (bget (nat soff) (nat n) src) dst))"

text \<open>A block as \<^verbatim>\<open>malloc\<close> returns it: its contents are whatever was there.\<close>

definition malloc_block :: "(nat \<Rightarrow> u8) \<Rightarrow> int \<Rightarrow> bytes" where
  "malloc_block junk n = map junk [0..<nat n]"

subsection \<open>Integers in a block\<close>

definition be32 :: "u32 \<Rightarrow> bytes" where
  "be32 w = [ucast (drop_bit 24 w), ucast (drop_bit 16 w), ucast (drop_bit 8 w), ucast w]"

definition un_be32 :: "bytes \<Rightarrow> u32" where
  "un_be32 bs = push_bit 24 (ucast (bs ! 0)) OR push_bit 16 (ucast (bs ! 1))
     OR push_bit 8 (ucast (bs ! 2)) OR ucast (bs ! 3)"

definition le32 :: "u32 \<Rightarrow> bytes" where
  "le32 w = rev (be32 w)"

definition un_le32 :: "bytes \<Rightarrow> u32" where
  "un_le32 bs = un_be32 [bs ! 3, bs ! 2, bs ! 1, bs ! 0]"

lemma length_be32 [simp]: "length (be32 w) = 4" "length (le32 w) = 4"
  by (simp_all add: be32_def le32_def)

lemma un_be32_be32 [simp]: "un_be32 (be32 w) = w"
proof (rule bit_word_eqI)
  fix n :: nat assume "n < LENGTH(32)"
  then consider "n < 8" | "8 \<le> n" "n < 16" | "16 \<le> n" "n < 24" | "24 \<le> n" "n < 32" by fastforce
  then show "bit (un_be32 (be32 w)) n = bit w n"
    by cases (auto simp: un_be32_def be32_def bit_simps)
qed

lemma un_le32_le32 [simp]: "un_le32 (le32 w) = w"
proof -
  have "[le32 w ! 3, le32 w ! 2, le32 w ! 1, le32 w ! 0] = be32 w"
    by (simp add: le32_def be32_def numeral_eq_Suc)
  then show ?thesis by (simp add: un_le32_def)
qed

subsection \<open>Reading what was written\<close>

named_theorems block_simps \<open>reads and lengths of overwritten blocks\<close>

lemma length_bput [block_simps]: "off + length s \<le> length b \<Longrightarrow> length (bput off s b) = length b"
  by (simp add: bput_def)

lemma length_bget [block_simps]: "off + n \<le> length b \<Longrightarrow> length (bget off n b) = n"
  by (simp add: bget_def)

lemma bget_bput_same [block_simps]:
  "off + length s \<le> length b \<Longrightarrow> n = length s \<Longrightarrow> bget off n (bput off s b) = s"
  by (simp add: bget_def bput_def)

lemma bget_bput_before [block_simps]:
  "off + length s \<le> length b \<Longrightarrow> o2 + n \<le> off \<Longrightarrow> bget o2 n (bput off s b) = bget o2 n b"
  by (simp add: bget_def bput_def take_drop)

lemma bget_bput_after [block_simps]:
  "off + length s \<le> length b \<Longrightarrow> off + length s \<le> o2 \<Longrightarrow> bget o2 n (bput off s b) = bget o2 n b"
  by (simp add: bget_def bput_def)

lemma bget_bput_other:
  assumes "off + length s \<le> length b" "o2 + n \<le> off \<or> off + length s \<le> o2"
  shows "bget o2 n (bput off s b) = bget o2 n b"
  using assms by (auto simp: bget_bput_before bget_bput_after)

lemma bget_prefix: "n \<le> m \<Longrightarrow> take n (bget off m b) = bget off n b"
  by (simp add: bget_def min_def)

lemma bget_append [block_simps]: "off + n \<le> length a \<Longrightarrow> bget off n (a @ b) = bget off n a"
  by (simp add: bget_def)

lemma bput_nth:
  "off + length s \<le> length b \<Longrightarrow> i < length b \<Longrightarrow>
     bput off s b ! i = (if off \<le> i \<and> i < off + length s then s ! (i - off) else b ! i)"
  by (auto simp: bput_def nth_append min_def)

lemma bget_nth: "i < n \<Longrightarrow> off + n \<le> length b \<Longrightarrow> bget off n b ! i = b ! (off + i)"
  by (simp add: bget_def)

lemma take_bput: "n \<le> off \<Longrightarrow> off + length s \<le> length b \<Longrightarrow> take n (bput off s b) = take n b"
  by (simp add: bput_def min_def)

lemma take_bput_end:
  "off + length s \<le> length b \<Longrightarrow> n = off + length s \<Longrightarrow> take n (bput off s b) = take off b @ s"
  by (simp add: bput_def)

lemma length_malloc_block [simp]: "length (malloc_block junk n) = nat n"
  by (simp add: malloc_block_def)

lemma memcpy_ok:
  "0 \<le> n \<Longrightarrow> 0 \<le> off \<Longrightarrow> 0 \<le> soff \<Longrightarrow> off + n \<le> int (length dst) \<Longrightarrow> soff + n \<le> int (length src) \<Longrightarrow>
     memcpy dst off src soff n = Some (bput (nat off) (bget (nat soff) (nat n) src) dst)"
  by (simp add: memcpy_def)

subsection \<open>Nil terminated text\<close>

definition cstr :: "bytes \<Rightarrow> bytes" where
  "cstr b = takeWhile (\<lambda>c. c \<noteq> 0) b"

definition str_bytes :: "string \<Rightarrow> bytes" where
  "str_bytes s = map (\<lambda>c. of_nat (of_char c)) s"

definition bytes_str :: "bytes \<Rightarrow> string" where
  "bytes_str b = map (\<lambda>w. char_of (unat w)) b"

lemma cstr_append_nil [simp]: "0 \<notin> set s \<Longrightarrow> cstr (s @ 0 # r) = s"
  unfolding cstr_def by (induction s) auto

lemma cstr_no_nil: "0 \<notin> set (cstr b)"
  unfolding cstr_def by (auto dest: set_takeWhileD)

lemma length_cstr: "length (cstr b) \<le> length b"
  unfolding cstr_def by (rule length_takeWhile_le)

lemma length_cstr_less: "0 \<in> set b \<Longrightarrow> length (cstr b) < length b"
  unfolding cstr_def by (induction b) auto

lemma cstr_id: "0 \<notin> set b \<Longrightarrow> cstr b = b"
  unfolding cstr_def by (induction b) auto

lemma bytes_str_inverse [simp]: "bytes_str (str_bytes s) = s"
proof -
  have "char_of (unat (of_nat (of_char c) :: u8)) = c" for c :: char
    by (simp add: unsigned_of_nat take_bit_eq_mod)
  then show ?thesis by (induction s) (simp_all add: str_bytes_def bytes_str_def)
qed

lemma bget_bput_inside:
  assumes "off + length s \<le> length b" "off \<le> o2" "o2 + n \<le> off + length s"
  shows "bget o2 n (bput off s b) = bget (o2 - off) n s"
proof -
  have "take n (drop (o2 - off) (s @ drop (off + length s) b)) = take n (drop (o2 - off) s)"
    using assms by simp
  then show ?thesis using assms by (simp add: bget_def bput_def min_def)
qed

lemma bget_bget: "o2 + n \<le> m \<Longrightarrow> bget o2 n (bget off m b) = bget (off + o2) n b"
  by (simp add: bget_def drop_take add.commute)

end
