(* ===== verification/Tools.thy ===== *)
theory Tools
  imports Bytes
begin

text \<open>
  The string tools (\<^verbatim>\<open>common/src/tools_static.c\<close>): filling a fixed size text field, splitting
  text into tokens, and the list of addresses that belong to this process.

  The name resolver, the environment and the list of network interfaces are arguments of the
  functions that consult them.
\<close>

subsection \<open>Filling a text field\<close>

text \<open>
  \<open>zt_buf_fill\<close> copies up to \<open>len - 1\<close> bytes of the source up to its nil, and then writes a nil.
\<close>

definition zt_buf_fill :: "bytes option \<Rightarrow> bytes option \<Rightarrow> int \<Rightarrow> int \<times> bytes option" where
  "zt_buf_fill dest src len =
     (case (dest, src) of
        (Some d, Some s) \<Rightarrow>
          (let t = cstr (take (nat (len - 1)) s) in (int (length t), Some (bput 0 (t @ [0]) d)))
      | _ \<Rightarrow> (-1, dest))"

subsection \<open>Tokens\<close>

text \<open>
  \<open>tok_loop k sep s\<close>: the tokens from \<open>s\<close> on when \<open>k\<close> more than the current one may be recorded.
  The last one recorded is not cut any more and keeps its separators.
\<close>

fun tok_loop :: "nat \<Rightarrow> char \<Rightarrow> string \<Rightarrow> string list" where
  "tok_loop 0 sep s = [s]"
| "tok_loop (Suc k) sep s =
     (if s \<noteq> [] \<and> sep \<in> set s
      then takeWhile (\<lambda>c. c \<noteq> sep) s # tok_loop k sep (tl (dropWhile (\<lambda>c. c \<noteq> sep) s))
      else [s])"

definition uta_tokenise :: "string option \<Rightarrow> int \<Rightarrow> char \<Rightarrow> string list" where
  "uta_tokenise buf mx sep = (case buf of
      None \<Rightarrow> []
    | Some s \<Rightarrow> if s = [] then [] else tok_loop (nat (mx - 1)) sep s)"

definition is_this_myip :: "string list option \<Rightarrow> string option \<Rightarrow> bool" where
  "is_this_myip l addr = (case (l, addr) of (Some as, Some a) \<Rightarrow> a \<in> set as | _ \<Rightarrow> False)"

fun rmip_prune :: "string list option \<Rightarrow> string list \<Rightarrow> string list" where
  "rmip_prune iplist [] = []"
| "rmip_prune iplist (t # ts) =
     (if is_this_myip iplist (Some t) then rmip_prune iplist ts else t # rmip_prune iplist ts)"

definition uta_rmip_tokenise :: "string option \<Rightarrow> string list option \<Rightarrow> int \<Rightarrow> char \<Rightarrow> string list" where
  "uta_rmip_tokenise buf iplist mx sep = rmip_prune iplist (uta_tokenise buf mx sep)"

text \<open>The index of the first token equal to \<open>str\<close>, or -1.\<close>

fun tok_index :: "string \<Rightarrow> int \<Rightarrow> string list \<Rightarrow> int" where
  "tok_index str i [] = -1"
| "tok_index str i (t # ts) = (if t = str then i else tok_index str (i + 1) ts)"

definition uta_has_str :: "string \<Rightarrow> string \<Rightarrow> char \<Rightarrow> int \<Rightarrow> int" where
  "uta_has_str buf str sep mx = (if mx < 2 then -1 else tok_index str 0 (uta_tokenise (Some buf) mx sep))"

fun any_myip :: "string list option \<Rightarrow> string list \<Rightarrow> bool" where
  "any_myip l [] = False"
| "any_myip l (t # ts) = (if is_this_myip l (Some t) then True else any_myip l ts)"

definition has_myip :: "string option \<Rightarrow> string list option \<Rightarrow> char \<Rightarrow> int \<Rightarrow> bool" where
  "has_myip buf list sep mx =
     (if mx < 2 then False else if buf = None then False else if list = None then False
      else any_myip list (uta_tokenise buf mx sep))"

subsection \<open>Addresses\<close>

fun dec_str :: "nat \<Rightarrow> string" where
  "dec_str n = (if n < 10 then [char_of (48 + n)] else dec_str (n div 10) @ [char_of (48 + n mod 10)])"

declare dec_str.simps [simp del]

definition is_digit :: "char \<Rightarrow> bool" where
  "is_digit c = (48 \<le> (of_char c :: nat) \<and> (of_char c :: nat) \<le> 57)"

definition ip_like :: "string \<Rightarrow> bool" where
  "ip_like s = (s \<noteq> [] \<and> (is_digit (hd s) \<or> hd s = CHR ''[''))"

text \<open>
  \<open>resolve\<close> stands for \<^verbatim>\<open>gethostbyname\<close> followed by \<^verbatim>\<open>ntohl\<close>: the first address of the name in
  host order. The text buffer holds 120 bytes.
\<close>

definition octets :: "u32 \<Rightarrow> nat list" where
  "octets a = [unat (drop_bit 24 a AND 255), unat (drop_bit 16 a AND 255),
     unat (drop_bit 8 a AND 255), unat (a AND 255)]"

definition dotted :: "u32 \<Rightarrow> string" where
  "dotted a = (let os = octets a in
     dec_str (os ! 0) @ ''.'' @ dec_str (os ! 1) @ ''.'' @ dec_str (os ! 2) @ ''.'' @ dec_str (os ! 3))"

definition uta_h2ip :: "(string \<Rightarrow> u32 option) \<Rightarrow> string \<Rightarrow> string option" where
  "uta_h2ip resolve hname =
     (if ip_like hname then Some hname
      else let name = takeWhile (\<lambda>c. c \<noteq> CHR '':'') hname;
               tok = (if CHR '':'' \<in> set hname then Some (tl (dropWhile (\<lambda>c. c \<noteq> CHR '':'') hname)) else None)
           in case resolve name of
                None \<Rightarrow> None
              | Some a \<Rightarrow> Some (take 119 (case tok of
                    Some port \<Rightarrow> dotted a @ '':'' @ port
                  | None \<Rightarrow> dotted a)))"

definition get_default_ip :: "string list option \<Rightarrow> string option" where
  "get_default_ip iplist = (case iplist of Some (a # _) \<Rightarrow> Some a | _ \<Rightarrow> None)"

datatype addr_family = AF_INET | AF_INET6 | AF_UNKNOWN

record if_addr =
  ifa_name :: string
  ifa_addr :: "(addr_family \<times> string) option"

text \<open>
  One interface of the list: the loopback and, when an interface was named, the others are
  skipped; \<open>octs\<close> is the numeric host name \<^verbatim>\<open>getnameinfo\<close> writes; at most 128 are kept.
\<close>

definition ip_list_add :: "string option \<Rightarrow> string \<Rightarrow> string list \<Rightarrow> if_addr \<Rightarrow> string list" where
  "ip_list_add target_if port l ele =
     (if ifa_name ele \<noteq> ''lo'' \<and> (target_if = None \<or> target_if = Some (ifa_name ele))
      then case ifa_addr ele of
             None \<Rightarrow> l
           | Some (AF_UNKNOWN, _) \<Rightarrow> l
           | Some (fam, octs0) \<Rightarrow>
               (if octs0 = [] then l
                else let octs = takeWhile (\<lambda>c. c \<noteq> CHR ''%'') octs0 in
                  if length l < 128
                  then l @ [take 1152 (if fam = AF_INET then octs @ '':'' @ port
                                       else ''['' @ octs @ '']:'' @ port)]
                  else l)
      else l)"

definition mk_ip_list :: "string option \<Rightarrow> if_addr list \<Rightarrow> string \<Rightarrow> string list" where
  "mk_ip_list bind_if ifs port =
     (case bind_if of
        Some envp \<Rightarrow>
          if ip_like envp then [take 1152 (envp @ '':'' @ port)]
          else fold (\<lambda>ele l. ip_list_add bind_if port l ele) ifs []
      | None \<Rightarrow> fold (\<lambda>ele l. ip_list_add None port l ele) ifs [])"

subsection \<open>\<^verbatim>\<open>atoi\<close>\<close>

definition is_space :: "char \<Rightarrow> bool" where
  "is_space c = (let n = (of_char c :: nat) in n = 32 \<or> 9 \<le> n \<and> n \<le> 13)"

definition digits_val :: "string \<Rightarrow> int" where
  "digits_val ds = fold (\<lambda>c v. 10 * v + (of_char c - 48)) ds 0"

text \<open>The C library converts to a 64 bit integer, with saturation, and keeps its low 32 bits.\<close>

definition to_int32 :: "int \<Rightarrow> int" where
  "to_int32 v = sint (word_of_int v :: i32)"

definition atoi :: "string \<Rightarrow> int" where
  "atoi s = (let s1 = dropWhile is_space s;
                 neg = (s1 \<noteq> [] \<and> hd s1 = CHR ''-'');
                 s2 = (if s1 \<noteq> [] \<and> (hd s1 = CHR ''-'' \<or> hd s1 = CHR ''+'') then tl s1 else s1);
                 v = digits_val (takeWhile is_digit s2);
                 l = (if neg then max (- (2 ^ 63)) (- v) else min (2 ^ 63 - 1) v)
             in to_int32 l)"

subsection \<open>Lemmas\<close>

fun join :: "char \<Rightarrow> string list \<Rightarrow> string" where
  "join sep [] = []"
| "join sep [t] = t"
| "join sep (t # u # us) = t @ sep # join sep (u # us)"

lemma tok_loop_Nil [simp]: "tok_loop k sep s \<noteq> []"
  by (cases k) auto

lemma join_Cons: "ts \<noteq> [] \<Longrightarrow> join sep (t # ts) = t @ sep # join sep ts"
  by (cases ts) auto

lemma split_at_sep:
  "sep \<in> set s \<Longrightarrow> takeWhile (\<lambda>c. c \<noteq> sep) s @ sep # tl (dropWhile (\<lambda>c. c \<noteq> sep) s) = s"
  by (induction s) auto

lemma join_tok_loop: "join sep (tok_loop k sep s) = s"
  by (induction k sep s rule: tok_loop.induct) (auto simp: join_Cons split_at_sep)

lemma length_tok_loop: "length (tok_loop k sep s) \<le> Suc k"
  by (induction k sep s rule: tok_loop.induct) auto

lemma count_tail:
  "sep \<in> set s \<Longrightarrow> count_list s sep = Suc (count_list (tl (dropWhile (\<lambda>c. c \<noteq> sep) s)) sep)"
  by (induction s) auto

lemma tok_loop_clean: "count_list s sep \<le> k \<Longrightarrow> t \<in> set (tok_loop k sep s) \<Longrightarrow> sep \<notin> set t"
proof (induction k sep s rule: tok_loop.induct)
  case (1 sep s)
  then show ?case by (simp add: count_list_0_iff)
next
  case (2 k sep s)
  then show ?case using count_tail [of sep s] by (auto split: if_splits dest: set_takeWhileD)
qed

lemma length_tok_loop_exact:
  "length (tok_loop k sep s) = min (Suc k) (Suc (count_list s sep))"
proof (induction k sep s rule: tok_loop.induct)
  case (2 k sep s)
  then show ?case using count_tail [of sep s] by (auto simp: count_notin)
qed simp

lemma tok_index_spec:
  "tok_index str i ts = (if str \<in> set ts then i + int (length (takeWhile (\<lambda>t. t \<noteq> str) ts)) else -1)"
  by (induction str i ts rule: tok_index.induct) auto

lemma rmip_prune_filter: "rmip_prune l ts = filter (\<lambda>t. \<not> is_this_myip l (Some t)) ts"
  by (induction ts) auto

lemma any_myip_ex: "any_myip l ts = (\<exists>t\<in>set ts. is_this_myip l (Some t))"
  by (induction ts) auto

lemma cstr_take: "cstr (take n s) = take n (cstr s)"
  unfolding cstr_def by (induction s arbitrary: n) (auto simp: take_Cons' split: nat.splits)

lemma zt_buf_fill_spec:
  assumes "zt_buf_fill (Some d) (Some s) len = (n, Some d')" "0 < len" "len \<le> int (length d)"
  shows "cstr d' = take (nat (len - 1)) (cstr s)" "n = int (length (cstr d'))" "n < len"
    "length d' = length d" "drop (nat n + 1) d' = drop (nat n + 1) d"
proof -
  let ?t = "cstr (take (nat (len - 1)) s)"
  have d: "d' = bput 0 (?t @ [0]) d" "n = int (length ?t)"
    using assms(1) by (auto simp: zt_buf_fill_def Let_def)
  have l: "length ?t < nat len" using length_cstr [of "take (nat (len - 1)) s"] assms(2) by auto
  have "cstr d' = ?t" using cstr_no_nil [of "take (nat (len - 1)) s"] by (simp add: d bput_def)
  then show "cstr d' = take (nat (len - 1)) (cstr s)" "n = int (length (cstr d'))"
    using d(2) by (simp_all add: cstr_take)
  show "n < len" "length d' = length d" "drop (nat n + 1) d' = drop (nat n + 1) d"
    using d l assms(3) by (simp_all add: bput_def)
qed

subsection \<open>Properties\<close>

text \<open>
  Splitting text loses nothing. Joining the tokens with the separator gives the text back; the
  number of tokens is the number of separators plus one, but never more than the maximum; and when
  the maximum was not reached no token contains a separator.
\<close>

theorem tokenise_roundtrip:
  assumes "s \<noteq> []" "1 \<le> mx"
  shows "join sep (uta_tokenise (Some s) mx sep) = s
    \<and> length (uta_tokenise (Some s) mx sep) = min (nat mx) (count_list s sep + 1)
    \<and> (int (count_list s sep) < mx \<longrightarrow> (\<forall>t\<in>set (uta_tokenise (Some s) mx sep). sep \<notin> set t))"
proof -
  have t: "uta_tokenise (Some s) mx sep = tok_loop (nat (mx - 1)) sep s"
    using assms(1) by (simp add: uta_tokenise_def)
  have m: "Suc (nat (mx - 1)) = nat mx" using assms(2) by simp
  have c: "int (count_list s sep) < mx \<Longrightarrow> count_list s sep \<le> nat (mx - 1)" by simp
  show ?thesis
    unfolding t join_tok_loop length_tok_loop_exact m using tok_loop_clean [OF c] by simp
qed

theorem tokenise_roundtrip_witness:
  "uta_tokenise (Some ''mse|1,host:4560|-1|a:1;b:2'') 128 CHR ''|'' = [''mse'', ''1,host:4560'', ''-1'', ''a:1;b:2'']
   \<and> join CHR ''|'' (uta_tokenise (Some ''mse|1,host:4560|-1|a:1;b:2'') 128 CHR ''|'') = ''mse|1,host:4560|-1|a:1;b:2''"
proof
  show "uta_tokenise (Some ''mse|1,host:4560|-1|a:1;b:2'') 128 CHR ''|'' = [''mse'', ''1,host:4560'', ''-1'', ''a:1;b:2'']"
    by code_simp
  show "join CHR ''|'' (uta_tokenise (Some ''mse|1,host:4560|-1|a:1;b:2'') 128 CHR ''|'') = ''mse|1,host:4560|-1|a:1;b:2''"
    using tokenise_roundtrip [of "''mse|1,host:4560|-1|a:1;b:2''" 128 "CHR ''|''"] by simp
qed

text \<open>
  A text field is filled safely. With a field of at least \<open>len\<close> bytes, the text afterwards is
  the source cut to \<open>len - 1\<close> characters, the count returned is its length, and no byte after its
  nil is touched.
\<close>

theorem zt_buf_fill_safe:
  assumes "zt_buf_fill (Some d) (Some s) len = (n, Some d')" "0 < len" "len \<le> int (length d)"
  shows "cstr d' = take (nat (len - 1)) (cstr s) \<and> n = int (length (cstr d')) \<and> n < len
    \<and> length d' = length d \<and> drop (nat n + 1) d' = drop (nat n + 1) d"
  using zt_buf_fill_spec [OF assms] by simp

theorem zt_buf_fill_safe_witness:
  "cstr (the (snd (zt_buf_fill (Some [9, 9, 9, 9, 9]) (Some [65, 66, 67, 68, 69, 70, 0]) 4))) = [65, 66, 67]"
proof -
  let ?r = "zt_buf_fill (Some [9, 9, 9, 9, 9]) (Some [65, 66, 67, 68, 69, 70, 0]) 4"
  have "?r = (fst ?r, Some (the (snd ?r)))" by code_simp
  then have "cstr (the (snd ?r)) = take (nat (4 - 1)) (cstr [65, 66, 67, 68, 69, 70, 0])"
    using zt_buf_fill_safe [of "[9, 9, 9, 9, 9]" _ 4] by simp
  also have "\<dots> = [65, 66, 67]" by code_simp
  finally show ?thesis .
qed

text \<open>
  The three token searches agree. An address list of a route record contains an address of
  this process (\<open>has_myip\<close>) exactly when pruning removes a token (\<open>uta_rmip_tokenise\<close>), and
  \<open>uta_has_str\<close> gives the position of the first token that equals the string, or -1.
\<close>

theorem token_searches:
  assumes "2 \<le> mx"
  shows "has_myip (Some s) (Some l) sep mx =
      (length (uta_rmip_tokenise (Some s) (Some l) mx sep) < length (uta_tokenise (Some s) mx sep))
    \<and> uta_has_str s str sep mx =
      (if str \<in> set (uta_tokenise (Some s) mx sep)
       then int (length (takeWhile (\<lambda>t. t \<noteq> str) (uta_tokenise (Some s) mx sep))) else -1)"
proof -
  let ?ts = "uta_tokenise (Some s) mx sep"
  have "(length (filter (\<lambda>t. \<not> P t) ts) < length ts) = (\<exists>t\<in>set ts. P t)" for P and ts :: "string list"
    by (metis (mono_tags, lifting) filter_True length_filter_less nat_neq_iff)
  then have "has_myip (Some s) (Some l) sep mx =
      (length (uta_rmip_tokenise (Some s) (Some l) mx sep) < length ?ts)"
    using assms by (simp add: has_myip_def uta_rmip_tokenise_def rmip_prune_filter any_myip_ex)
  moreover have "uta_has_str s str sep mx = (if str \<in> set ?ts
       then int (length (takeWhile (\<lambda>t. t \<noteq> str) ?ts)) else -1)"
    using assms by (simp add: uta_has_str_def tok_index_spec)
  ultimately show ?thesis by blast
qed

theorem token_searches_witness:
  "has_myip (Some ''a:1,b:2'') (Some [''b:2'']) CHR '','' 5 \<and> uta_has_str ''a:1,b:2'' ''b:2'' CHR '','' 5 = 1"
proof -
  have "length (uta_rmip_tokenise (Some ''a:1,b:2'') (Some [''b:2'']) 5 CHR '','') < length (uta_tokenise (Some ''a:1,b:2'') 5 CHR '','')"
    "''b:2'' \<in> set (uta_tokenise (Some ''a:1,b:2'') 5 CHR '','')"
    "length (takeWhile (\<lambda>t. t \<noteq> ''b:2'') (uta_tokenise (Some ''a:1,b:2'') 5 CHR '','')) = 1"
    by code_simp+
  then show ?thesis using token_searches [of 5 "''a:1,b:2''" "[''b:2'']" "CHR '',''" "''b:2''"] by simp
qed

end
