(* ===== verification/Ring.thy ===== *)
theory Ring
  imports RMR_Prelude
begin

text \<open>
  The pointer ring (\<^verbatim>\<open>common/src/ring_static.c\<close>) through which the receive thread hands messages
  to the application and through which message buffers are recycled. Indices are 16 bit words;
  \<open>head\<close> is where the next pointer goes and \<open>tail\<close> is the next one to leave.

  The event descriptor is the counter it keeps in semaphore mode (\<open>None\<close>: the descriptor could
  not be opened, and reads and writes on it fail without effect). A gate is whether the mutex
  exists. \<open>lk\<close> is whether the lock call the operation makes returns 0. The pointer stored may be
  nil (\<open>None\<close>).
\<close>

record 'a ring =
  r_head :: u16
  r_tail :: u16
  nelements :: u16
  r_data :: "'a option list"
  r_pfd :: "nat option"
  r_flags :: u32
  rgate :: bool
  wgate :: bool

datatype ring_err = EXFULL | NOLOCK

subsection \<open>Operations\<close>

definition uta_ring_getpfd :: "bool \<Rightarrow> 'a ring \<Rightarrow> 'a ring" where
  "uta_ring_getpfd evfd r =
     (if r_pfd r = None then r\<lparr>r_pfd := (if evfd then Some 0 else None)\<rparr> else r)"

text \<open>
  The size is compared with the 16 bit \<open>max\<close> and then stored in 16 bits. One more slot than
  \<open>nelements\<close> is allocated.
\<close>

definition uta_mk_ring :: "bool \<Rightarrow> bool \<Rightarrow> int \<Rightarrow> 'a ring option" where
  "uta_mk_ring mem evfd sz =
     (if sz \<le> 0 then None
      else if \<not> mem then None
      else let mx = (0 :: u16) - 1;
               sz' = (if sz \<ge> uint mx then sz - 1 else sz);
               n = (word_of_int sz' :: u16)
           in Some \<lparr>r_head = 0, r_tail = 0, nelements = n,
                    r_data = replicate (unat n + 1) None,
                    r_pfd = (if evfd then Some 0 else None),
                    r_flags = 0, rgate = False, wgate = False\<rparr>)"

abbreviation (input) RING_RLOCK :: u32 where "RING_RLOCK \<equiv> 1"
abbreviation (input) RING_WLOCK :: u32 where "RING_WLOCK \<equiv> 2"
abbreviation (input) RING_FRLOCK :: u32 where "RING_FRLOCK \<equiv> 4"
abbreviation (input) RING_FL_FLOCK :: u32 where "RING_FL_FLOCK \<equiv> 1"

definition uta_ring_config :: "bool \<Rightarrow> bool \<Rightarrow> 'a ring \<Rightarrow> u32 \<Rightarrow> nat \<times> 'a ring" where
  "uta_ring_config wmem rmem r options =
     (if options AND RING_WLOCK \<noteq> 0 \<and> \<not> wgate r \<and> \<not> wmem then (0, r)
      else let r1 = (if options AND RING_WLOCK \<noteq> 0 then r\<lparr>wgate := True\<rparr> else r) in
        if options AND (RING_RLOCK OR RING_FRLOCK) \<noteq> 0
        then (if \<not> rgate r1 \<and> \<not> rmem then (0, r1)
              else let r2 = r1\<lparr>rgate := True\<rparr> in
                (1, if options AND RING_FRLOCK \<noteq> 0
                    then r2\<lparr>r_flags := r_flags r2 OR RING_FL_FLOCK\<rparr> else r2))
        else (1, r1))"

text \<open>
  The step of an index: increment, and back to 0 once it is past the last element. The increment
  itself is a 16 bit one.
\<close>

definition ring_step :: "u16 \<Rightarrow> u16 \<Rightarrow> u16" where
  "ring_step n i = (if i + 1 \<ge> n then 0 else i + 1)"

definition uta_ring_extract :: "bool \<Rightarrow> 'a ring \<Rightarrow> 'a option \<times> 'a ring" where
  "uta_ring_extract lk r =
     (if r_tail r = r_head r then (None, r)
      else if rgate r \<and> \<not> lk then (None, r)
      else if rgate r \<and> r_tail r = r_head r then (None, r)
      else let ti = unat (r_tail r) in
        (r_data r ! ti,
         r\<lparr>r_tail := ring_step (nelements r) (r_tail r),
           r_pfd := map_option (\<lambda>c. c - 1) (r_pfd r),
           r_data := (r_data r)[ti := None]\<rparr>))"

text \<open>The comparison of \<open>head + 1\<close> is made in \<^verbatim>\<open>int\<close> and does not wrap.\<close>

definition ring_full :: "'a ring \<Rightarrow> bool" where
  "ring_full r = (unat (r_head r) + 1 = unat (r_tail r) \<or>
     unat (r_head r) + 1 \<ge> unat (nelements r) \<and> r_tail r = 0)"

definition uta_ring_insert :: "bool \<Rightarrow> 'a ring \<Rightarrow> 'a option \<Rightarrow> (ring_err + unit) \<times> 'a ring" where
  "uta_ring_insert lk r new_data =
     (if wgate r \<and> \<not> lk then (Inl NOLOCK, r)
      else if ring_full r then (Inl EXFULL, r)
      else (Inr (),
        r\<lparr>r_data := (r_data r)[unat (r_head r) := new_data],
          r_head := ring_step (nelements r) (r_head r),
          r_pfd := map_option Suc (r_pfd r)\<rparr>))"

subsection \<open>The queue a ring stands for\<close>

definition ring_wf :: "'a ring \<Rightarrow> bool" where
  "ring_wf r = (unat (r_head r) < max 1 (unat (nelements r)) \<and>
     unat (r_tail r) < max 1 (unat (nelements r)) \<and>
     length (r_data r) = unat (nelements r) + 1)"

definition ring_count :: "'a ring \<Rightarrow> nat" where
  "ring_count r = (if unat (r_tail r) \<le> unat (r_head r)
     then unat (r_head r) - unat (r_tail r)
     else unat (r_head r) + unat (nelements r) - unat (r_tail r))"

definition ring_abs :: "'a ring \<Rightarrow> 'a option list" where
  "ring_abs r = (if unat (r_tail r) \<le> unat (r_head r)
     then take (unat (r_head r) - unat (r_tail r)) (drop (unat (r_tail r)) (r_data r))
     else take (unat (nelements r) - unat (r_tail r)) (drop (unat (r_tail r)) (r_data r))
          @ take (unat (r_head r)) (r_data r))"

definition ring_cap :: "'a ring \<Rightarrow> nat" where
  "ring_cap r = unat (nelements r) - 1"

definition ring_pfd_ok :: "'a ring \<Rightarrow> bool" where
  "ring_pfd_ok r = (case r_pfd r of None \<Rightarrow> True | Some c \<Rightarrow> c = length (ring_abs r))"

lemma unat_ring_step:
  assumes "unat i < unat n"
  shows "unat (ring_step n i) = (if Suc (unat i) \<ge> unat n then 0 else Suc (unat i))"
proof -
  have "unat n < 2 ^ 16" using unsigned_less [of n] by simp
  with assms have "unat (i + 1) = Suc (unat i)" by (simp add: unat_word_ariths)
  then show ?thesis by (simp add: ring_step_def word_le_nat_alt)
qed

lemma length_ring_abs: "ring_wf r \<Longrightarrow> length (ring_abs r) = ring_count r"
  by (auto simp: ring_abs_def ring_wf_def ring_count_def Let_def)

lemma ring_abs_nth:
  assumes "ring_wf r" "i < ring_count r"
  shows "ring_abs r ! i = r_data r ! (if unat (r_tail r) + i < unat (nelements r)
    then unat (r_tail r) + i else unat (r_tail r) + i - unat (nelements r))"
  using assms
  by (auto simp: ring_abs_def ring_wf_def ring_count_def nth_append not_le
      intro!: arg_cong [where f = "(!) (r_data r)"] split: if_splits)

lemma ring_abs_eqI:
  assumes "ring_wf r" "length q = ring_count r"
    "\<And>i. i < ring_count r \<Longrightarrow> q ! i = r_data r ! (if unat (r_tail r) + i < unat (nelements r)
      then unat (r_tail r) + i else unat (r_tail r) + i - unat (nelements r))"
  shows "ring_abs r = q"
  by (rule nth_equalityI) (use assms in \<open>simp_all add: length_ring_abs ring_abs_nth\<close>)

lemma ring_wfD:
  assumes "ring_wf r"
  shows "ring_count r \<le> ring_cap r" "ring_full r = (ring_count r = ring_cap r)"
    "(r_tail r = r_head r) = (ring_count r = 0)"
proof -
  have z: "(r_tail r = 0) = (unat (r_tail r) = 0)" by (simp add: unat_eq_zero)
  have e: "(r_tail r = r_head r) = (unat (r_tail r) = unat (r_head r))" by (metis unsigned_word_eqI)
  show "ring_count r \<le> ring_cap r" "ring_full r = (ring_count r = ring_cap r)"
    "(r_tail r = r_head r) = (ring_count r = 0)"
    using assms unfolding ring_wf_def ring_count_def ring_cap_def ring_full_def z e
    by (simp_all split: if_splits) linarith+
qed

text \<open>The state after a successful insert or extract.\<close>

definition ring_put :: "'a ring \<Rightarrow> 'a option \<Rightarrow> 'a ring" where
  "ring_put r x = r\<lparr>r_data := (r_data r)[unat (r_head r) := x],
     r_head := ring_step (nelements r) (r_head r), r_pfd := map_option Suc (r_pfd r)\<rparr>"

definition ring_pop :: "'a ring \<Rightarrow> 'a ring" where
  "ring_pop r = r\<lparr>r_tail := ring_step (nelements r) (r_tail r),
     r_pfd := map_option (\<lambda>c. c - 1) (r_pfd r), r_data := (r_data r)[unat (r_tail r) := None]\<rparr>"

lemma ring_put_spec:
  assumes wf: "ring_wf r" and nf: "ring_count r < ring_cap r"
  shows "ring_wf (ring_put r x)" "ring_abs (ring_put r x) = ring_abs r @ [x]"
proof -
  have n: "unat (r_head r) < unat (nelements r)"
    using assms by (auto simp: ring_wf_def ring_cap_def)
  note st = unat_ring_step [OF n]
  show wf': "ring_wf (ring_put r x)"
    using wf n st by (auto simp: ring_wf_def ring_put_def)
  have c: "ring_count (ring_put r x) = Suc (ring_count r)"
    using wf nf n st by (auto simp: ring_wf_def ring_count_def ring_cap_def ring_put_def split: if_splits)
  show "ring_abs (ring_put r x) = ring_abs r @ [x]"
  proof (rule ring_abs_eqI [OF wf'])
    show "length (ring_abs r @ [x]) = ring_count (ring_put r x)"
      by (simp add: c length_ring_abs wf)
  next
    fix i assume "i < ring_count (ring_put r x)"
    then consider "i < ring_count r" | "i = ring_count r" using c by linarith
    then show "(ring_abs r @ [x]) ! i = r_data (ring_put r x) !
        (if unat (r_tail (ring_put r x)) + i < unat (nelements (ring_put r x))
         then unat (r_tail (ring_put r x)) + i
         else unat (r_tail (ring_put r x)) + i - unat (nelements (ring_put r x)))"
    proof cases
      case 1
      then show ?thesis using wf n nf
        by (auto simp: nth_append length_ring_abs ring_abs_nth ring_put_def ring_count_def ring_cap_def
            ring_wf_def nth_list_update split: if_splits)
    next
      case 2
      then show ?thesis using wf n nf
        by (auto simp: nth_append length_ring_abs ring_put_def ring_count_def ring_wf_def ring_cap_def
            split: if_splits)
    qed
  qed
qed

lemma ring_pop_spec:
  assumes wf: "ring_wf r" and ne: "0 < ring_count r"
  shows "ring_wf (ring_pop r)" "ring_abs r = r_data r ! unat (r_tail r) # ring_abs (ring_pop r)"
proof -
  have n: "unat (r_tail r) < unat (nelements r)"
    using assms by (auto simp: ring_wf_def ring_count_def split: if_splits)
  note st = unat_ring_step [OF n]
  show wf': "ring_wf (ring_pop r)"
    using wf n st by (auto simp: ring_wf_def ring_pop_def)
  have c: "ring_count r = Suc (ring_count (ring_pop r))"
    using wf ne n st by (auto simp: ring_wf_def ring_count_def ring_pop_def split: if_splits)
  have "ring_abs (ring_pop r) = tl (ring_abs r)"
  proof (rule ring_abs_eqI [OF wf'])
    show "length (tl (ring_abs r)) = ring_count (ring_pop r)"
      by (simp add: c length_ring_abs wf)
  next
    fix i assume i: "i < ring_count (ring_pop r)"
    then have "tl (ring_abs r) ! i = ring_abs r ! Suc i"
      by (simp add: nth_tl length_ring_abs wf c)
    then show "tl (ring_abs r) ! i = r_data (ring_pop r) !
        (if unat (r_tail (ring_pop r)) + i < unat (nelements (ring_pop r))
         then unat (r_tail (ring_pop r)) + i
         else unat (r_tail (ring_pop r)) + i - unat (nelements (ring_pop r)))"
      using i wf n st c
      by (auto simp: ring_abs_nth ring_pop_def ring_count_def ring_wf_def nth_list_update
          intro!: arg_cong [where f = "(!) (r_data r)"] split: if_splits)
  qed
  moreover have "ring_abs r ! 0 = r_data r ! unat (r_tail r)"
    using ring_abs_nth [OF wf ne] n by simp
  moreover have "ring_abs r \<noteq> []" using length_ring_abs [OF wf] ne by auto
  ultimately show "ring_abs r = r_data r ! unat (r_tail r) # ring_abs (ring_pop r)"
    by (cases "ring_abs r") auto
qed

subsection \<open>The contract of a bounded queue\<close>

text \<open>
  What the message ring and the buffer ring promise to their users: a first in first out queue
  of bounded size that refuses an insert only when it is full, and that answers an extract with
  \<open>nil\<close> only when it is empty.
\<close>

datatype 'x q_op = QIns 'x | QExt

fun fifo_run :: "('s \<Rightarrow> 'x \<Rightarrow> (ring_err + unit) \<times> 's) \<Rightarrow> ('s \<Rightarrow> 'x \<times> 's) \<Rightarrow> 'x q_op list \<Rightarrow> 's
    \<Rightarrow> 'x list \<times> 'x list \<times> 's" where
  "fifo_run ins ext [] s = ([], [], s)"
| "fifo_run ins ext (QIns x # ops) s =
     (let (rc, s1) = ins s x; (acc, out, s2) = fifo_run ins ext ops s1
      in (if rc = Inr () then x # acc else acc, out, s2))"
| "fifo_run ins ext (QExt # ops) s =
     (let (x, s1) = ext s; (acc, out, s2) = fifo_run ins ext ops s1
      in (acc, x # out, s2))"

fun q_inserts :: "'x q_op list \<Rightarrow> 'x list" where
  "q_inserts [] = []"
| "q_inserts (QIns x # ops) = x # q_inserts ops"
| "q_inserts (QExt # ops) = q_inserts ops"

locale bounded_fifo =
  fixes inv :: "'s \<Rightarrow> bool" and cap :: "'s \<Rightarrow> nat" and abs :: "'s \<Rightarrow> 'x list" and nil :: 'x
    and ins :: "'s \<Rightarrow> 'x \<Rightarrow> (ring_err + unit) \<times> 's" and ext :: "'s \<Rightarrow> 'x \<times> 's"
  assumes bound: "inv s \<Longrightarrow> length (abs s) \<le> cap s"
    and ins_ok: "inv s \<Longrightarrow> length (abs s) < cap s \<Longrightarrow> fst (ins s x) = Inr () \<and> inv (snd (ins s x))
      \<and> abs (snd (ins s x)) = abs s @ [x] \<and> cap (snd (ins s x)) = cap s"
    and ins_full: "inv s \<Longrightarrow> length (abs s) = cap s \<Longrightarrow> ins s x = (Inl EXFULL, s)"
    and ext_ok: "inv s \<Longrightarrow> abs s = x # q \<Longrightarrow> fst (ext s) = x \<and> inv (snd (ext s))
      \<and> abs (snd (ext s)) = q \<and> cap (snd (ext s)) = cap s"
    and ext_none: "inv s \<Longrightarrow> abs s = [] \<Longrightarrow> ext s = (nil, s)"
begin

lemma step_inv:
  assumes "inv s"
  shows "inv (snd (ins s x)) \<and> cap (snd (ins s x)) = cap s"
    "inv (snd (ext s)) \<and> cap (snd (ext s)) = cap s"
proof -
  show "inv (snd (ins s x)) \<and> cap (snd (ins s x)) = cap s"
    using ins_ok [OF assms, of x] ins_full [OF assms, of x] bound [OF assms] assms
    by (cases "length (abs s) = cap s") auto
  show "inv (snd (ext s)) \<and> cap (snd (ext s)) = cap s"
    using ext_ok [OF assms] ext_none [OF assms] assms by (cases "abs s") auto
qed

lemma ins_abs:
  "inv s \<Longrightarrow> abs (snd (ins s x)) = abs s @ (if fst (ins s x) = Inr () then [x] else [])"
  using ins_ok [of s x] ins_full [of s x] bound [of s]
  by (cases "length (abs s) = cap s") auto

lemma ext_abs:
  "inv s \<Longrightarrow> nil \<notin> set (abs s) \<Longrightarrow>
     filter (\<lambda>x. x \<noteq> nil) [fst (ext s)] @ abs (snd (ext s)) = abs s"
  using ext_ok [of s] ext_none [of s] by (cases "abs s") auto

lemma run_fifo:
  assumes "inv s" "nil \<notin> set (abs s)" "nil \<notin> set (q_inserts ops)"
    "fifo_run ins ext ops s = (acc, out, s')"
  shows "abs s @ acc = filter (\<lambda>x. x \<noteq> nil) out @ abs s' \<and> inv s' \<and> cap s' = cap s"
  using assms
proof (induction ops arbitrary: s acc out)
  case (Cons op ops)
  show ?case
  proof (cases op)
    case (QIns x)
    obtain rc s1 acc1 where 1: "ins s x = (rc, s1)" "fifo_run ins ext ops s1 = (acc1, out, s')"
      "acc = (if rc = Inr () then x # acc1 else acc1)"
      using Cons.prems(4) QIns by (auto split: prod.splits)
    have "nil \<notin> set (abs s1)" using ins_abs [OF Cons.prems(1), of x] Cons.prems 1 QIns by auto
    from Cons.IH [OF _ this _ 1(2)] show ?thesis
      using step_inv(1) [OF Cons.prems(1), of x] ins_abs [OF Cons.prems(1), of x] Cons.prems(3) 1 QIns
      by auto
  next
    case QExt
    obtain x s1 out1 where 1: "ext s = (x, s1)" "fifo_run ins ext ops s1 = (acc, out1, s')"
      "out = x # out1"
      using Cons.prems(4) QExt by (auto split: prod.splits)
    note e = ext_abs [OF Cons.prems(1,2)]
    then have "set (abs s1) \<subseteq> set (abs s)" using 1 by (metis Un_upper2 set_append snd_conv)
    then have "nil \<notin> set (abs s1)" using Cons.prems(2) by auto
    from Cons.IH [OF _ this _ 1(2)] show ?thesis
      using step_inv(2) [OF Cons.prems(1)] e Cons.prems(3) 1 QExt
      by (auto simp flip: e split: if_splits)
  qed
qed simp

end

lemma uta_ring_insert_put:
  "ring_wf r \<Longrightarrow> uta_ring_insert lk r x =
     (if wgate r \<and> \<not> lk then (Inl NOLOCK, r)
      else if ring_count r = ring_cap r then (Inl EXFULL, r) else (Inr (), ring_put r x))"
  by (simp add: uta_ring_insert_def ring_wfD(2) ring_put_def)

lemma uta_ring_extract_pop:
  "ring_wf r \<Longrightarrow> uta_ring_extract lk r =
     (if ring_count r = 0 \<or> rgate r \<and> \<not> lk then (None, r)
      else (r_data r ! unat (r_tail r), ring_pop r))"
  by (auto simp: uta_ring_extract_def ring_wfD(3) ring_pop_def Let_def)

lemma ring_cap_simps [simp]:
  "ring_cap (ring_put r x) = ring_cap r" "ring_cap (ring_pop r) = ring_cap r"
  by (simp_all add: ring_cap_def ring_put_def ring_pop_def)

text \<open>
  The invariant the rings keep: well formed, and the event counter is the number of pointers
  queued.
\<close>

definition ring_ok :: "'a ring \<Rightarrow> bool" where
  "ring_ok r = (ring_wf r \<and> ring_pfd_ok r)"

lemma ring_pfd_simps [simp]:
  "r_pfd (ring_put r x) = map_option Suc (r_pfd r)"
  "r_pfd (ring_pop r) = map_option (\<lambda>c. c - 1) (r_pfd r)"
  by (simp_all add: ring_put_def ring_pop_def)

lemma ring_ok_put: "ring_ok r \<Longrightarrow> ring_count r < ring_cap r \<Longrightarrow> ring_ok (ring_put r x)"
  by (cases "r_pfd r") (simp_all add: ring_ok_def ring_pfd_ok_def ring_put_spec)

lemma ring_ok_pop:
  assumes "ring_ok r" "0 < ring_count r"
  shows "ring_ok (ring_pop r)"
proof -
  have wf: "ring_wf r" using assms(1) by (simp add: ring_ok_def)
  have "length (ring_abs r) = Suc (length (ring_abs (ring_pop r)))"
    using ring_pop_spec(2) [OF wf assms(2)] by (metis length_Cons)
  then show ?thesis using assms ring_pop_spec(1) [OF wf assms(2)]
    by (cases "r_pfd r") (simp_all add: ring_ok_def ring_pfd_ok_def)
qed

lemma ring_okD: "ring_ok r \<Longrightarrow> ring_wf r"
  by (simp add: ring_ok_def)

interpretation msg_ring: bounded_fifo ring_ok ring_cap ring_abs None
  "uta_ring_insert True" "uta_ring_extract True"
proof (unfold_locales, goal_cases)
  case (1 s)
  then show ?case by (simp add: length_ring_abs ring_wfD(1) ring_okD)
next
  case (2 s x)
  then show ?case by (simp add: uta_ring_insert_put length_ring_abs ring_put_spec ring_okD ring_ok_put)
next
  case (3 s x)
  then show ?case by (simp add: uta_ring_insert_put length_ring_abs ring_okD)
next
  case (4 s x q)
  then have "0 < ring_count s" using length_ring_abs [OF ring_okD [OF 4(1)]] by auto
  with 4 ring_pop_spec [OF ring_okD [OF 4(1)]] show ?case
    by (simp add: uta_ring_extract_pop ring_okD ring_ok_pop)
next
  case (5 s)
  then show ?case using length_ring_abs [OF ring_okD [OF 5(1)]] by (simp add: uta_ring_extract_pop ring_okD)
qed

lemma uta_mk_ring_ok:
  assumes "uta_mk_ring True evfd sz = Some r"
  shows "ring_ok r" "ring_abs r = []"
  using assms
  by (auto simp: uta_mk_ring_def ring_ok_def ring_wf_def ring_pfd_ok_def ring_abs_def Let_def
      split: if_splits option.splits)

lemma uta_mk_ring_cap:
  assumes "0 < sz" "sz < 65535"
  shows "ring_cap (the (uta_mk_ring True evfd sz)) = nat sz - 1"
proof -
  have "unat (word_of_int sz :: u16) = nat sz"
    using assms by (simp add: unsigned_of_int take_bit_int_eq_self)
  moreover have "uint (- 1 :: u16) = 65535"
    by (simp add: unsigned_minus_1_eq_mask mask_eq_exp_minus_1)
  ultimately show ?thesis using assms by (simp add: uta_mk_ring_def ring_cap_def Let_def)
qed

subsection \<open>One producer and one consumer, store by store\<close>

text \<open>
  The message ring is filled by the receive thread, without a write lock, while application
  threads extract under the read lock: an insert and an extract do run at the same time. Here
  each store of \<open>uta_ring_insert\<close> and \<open>uta_ring_extract\<close> to the shared ring is one step. As
  written, an index moves in two stores: the increment, and the reset to 0 if it is past the end.
\<close>

datatype 'a prod_pc = PIdle | PStore 'a | PIncr 'a | PWrap 'a
datatype cons_pc = CIdle | CIncr | CWrap nat | CRead nat

record 'a ring_conc =
  rc_ring :: "'a ring"
  rc_prod :: "'a prod_pc"
  rc_cons :: cons_pc
  rc_sent :: "'a list"
  rc_got :: "'a option list"

inductive ring_cstep :: "'a ring_conc \<Rightarrow> 'a ring_conc \<Rightarrow> bool" where
  ins_start: "rc_prod s = PIdle \<Longrightarrow> \<not> ring_full (rc_ring s) \<Longrightarrow>
     ring_cstep s (s\<lparr>rc_prod := PStore x\<rparr>)"
| ins_store: "rc_prod s = PStore x \<Longrightarrow> r = rc_ring s \<Longrightarrow>
     ring_cstep s (s\<lparr>rc_ring := r\<lparr>r_data := (r_data r)[unat (r_head r) := Some x]\<rparr>, rc_prod := PIncr x\<rparr>)"
| ins_incr: "rc_prod s = PIncr x \<Longrightarrow> r = rc_ring s \<Longrightarrow>
     ring_cstep s (s\<lparr>rc_ring := r\<lparr>r_head := r_head r + 1\<rparr>, rc_prod := PWrap x\<rparr>)"
| ins_wrap: "rc_prod s = PWrap x \<Longrightarrow> r = rc_ring s \<Longrightarrow>
     ring_cstep s (s\<lparr>rc_ring := (if r_head r \<ge> nelements r then r\<lparr>r_head := 0\<rparr> else r),
       rc_prod := PIdle, rc_sent := rc_sent s @ [x]\<rparr>)"
| ext_empty: "rc_cons s = CIdle \<Longrightarrow> r_tail (rc_ring s) = r_head (rc_ring s) \<Longrightarrow>
     ring_cstep s (s\<lparr>rc_got := rc_got s @ [None]\<rparr>)"
| ext_start: "rc_cons s = CIdle \<Longrightarrow> r_tail (rc_ring s) \<noteq> r_head (rc_ring s) \<Longrightarrow>
     ring_cstep s (s\<lparr>rc_cons := CIncr\<rparr>)"
| ext_incr: "rc_cons s = CIncr \<Longrightarrow> r = rc_ring s \<Longrightarrow>
     ring_cstep s (s\<lparr>rc_ring := r\<lparr>r_tail := r_tail r + 1\<rparr>, rc_cons := CWrap (unat (r_tail r))\<rparr>)"
| ext_wrap: "rc_cons s = CWrap ti \<Longrightarrow> r = rc_ring s \<Longrightarrow>
     ring_cstep s (s\<lparr>rc_ring := (if r_tail r \<ge> nelements r then r\<lparr>r_tail := 0\<rparr> else r),
       rc_cons := CRead ti\<rparr>)"
| ext_read: "rc_cons s = CRead ti \<Longrightarrow> r = rc_ring s \<Longrightarrow>
     ring_cstep s (s\<lparr>rc_ring := r\<lparr>r_data := (r_data r)[ti := None]\<rparr>, rc_cons := CIdle,
       rc_got := rc_got s @ [r_data r ! ti]\<rparr>)"

definition ring_quiet :: "'a ring_conc \<Rightarrow> bool" where
  "ring_quiet s = (rc_prod s = PIdle \<and> rc_cons s = CIdle)"

text \<open>
  A whole extract and a whole insert, run without interruption from any state of the other side.
\<close>

lemma ring_cstep_extract:
  assumes "t \<noteq> h"
  shows "ring_cstep\<^sup>*\<^sup>*
    \<lparr>rc_ring = \<lparr>r_head = h, r_tail = t, nelements = n, r_data = d, r_pfd = e, r_flags = f,
       rgate = g, wgate = w\<rparr>, rc_prod = p, rc_cons = CIdle, rc_sent = xs, rc_got = ys\<rparr>
    \<lparr>rc_ring = \<lparr>r_head = h, r_tail = ring_step n t, nelements = n, r_data = d[unat t := None],
       r_pfd = e, r_flags = f, rgate = g, wgate = w\<rparr>, rc_prod = p, rc_cons = CIdle,
       rc_sent = xs, rc_got = ys @ [d ! unat t]\<rparr>"
    (is "ring_cstep\<^sup>*\<^sup>* ?a ?e")
proof -
  let ?r = "rc_ring ?a"
  let ?b = "?a\<lparr>rc_cons := CIncr\<rparr>"
  let ?c = "?b\<lparr>rc_ring := ?r\<lparr>r_tail := t + 1\<rparr>, rc_cons := CWrap (unat t)\<rparr>"
  let ?d = "?c\<lparr>rc_ring := ?r\<lparr>r_tail := ring_step n t\<rparr>, rc_cons := CRead (unat t)\<rparr>"
  have "ring_cstep ?a ?b" using ring_cstep.ext_start [of ?a] assms by simp
  moreover have "ring_cstep ?b ?c" using ring_cstep.ext_incr [of ?b ?r] by simp
  moreover have "ring_cstep ?c ?d" using ring_cstep.ext_wrap [of ?c "unat t" "rc_ring ?c"]
    by (simp add: ring_step_def split: if_splits)
  moreover have "ring_cstep ?d ?e" using ring_cstep.ext_read [of ?d "unat t" "rc_ring ?d"] by simp
  ultimately show ?thesis by (meson converse_rtranclp_into_rtranclp rtranclp.rtrancl_refl)
qed

lemma ring_cstep_insert_upto_wrap:
  assumes "\<not> ring_full r"
  shows "ring_cstep\<^sup>*\<^sup>*
    \<lparr>rc_ring = r, rc_prod = PIdle, rc_cons = c, rc_sent = xs, rc_got = ys\<rparr>
    \<lparr>rc_ring = r\<lparr>r_data := (r_data r)[unat (r_head r) := Some x], r_head := r_head r + 1\<rparr>,
       rc_prod = PWrap x, rc_cons = c, rc_sent = xs, rc_got = ys\<rparr>"
    (is "ring_cstep\<^sup>*\<^sup>* ?a ?d")
proof -
  let ?b = "?a\<lparr>rc_prod := PStore x\<rparr>"
  let ?c = "?b\<lparr>rc_ring := r\<lparr>r_data := (r_data r)[unat (r_head r) := Some x]\<rparr>, rc_prod := PIncr x\<rparr>"
  have "ring_cstep ?a ?b" using ring_cstep.ins_start [of ?a] assms by simp
  moreover have "ring_cstep ?b ?c" using ring_cstep.ins_store [of ?b x r] by simp
  moreover have "ring_cstep ?c ?d" using ring_cstep.ins_incr [of ?c x "rc_ring ?c"] by simp
  ultimately show ?thesis by (meson converse_rtranclp_into_rtranclp rtranclp.rtrancl_refl)
qed

subsection \<open>Properties\<close>

text \<open>
  C21: a ring is a first in first out queue. Over any sequence of inserts of non-nil pointers and
  extracts on a fresh ring, the pointers the inserts accepted are, in order, those that extracts
  returned followed by those still queued. At most \<open>size - 1\<close> are ever queued, and the event
  counter that readers poll equals the number queued.
\<close>

theorem ring_history_fifo:
  fixes ops :: "'a option q_op list"
  assumes "0 < sz" "sz < 65535" "None \<notin> set (q_inserts ops)"
    "fifo_run (uta_ring_insert True) (uta_ring_extract True) ops (the (uta_mk_ring True True sz)) = (acc, out, r)"
  shows "acc = filter (\<lambda>x. x \<noteq> None) out @ ring_abs r \<and> length (ring_abs r) < nat sz
    \<and> ring_wf r \<and> ring_pfd_ok r"
proof -
  let ?r = "the (uta_mk_ring True True sz) :: 'a ring"
  have mk: "uta_mk_ring True True sz = Some ?r" using assms(1) by (simp add: uta_mk_ring_def Let_def)
  have "None \<notin> set (ring_abs ?r)" by (simp add: uta_mk_ring_ok(2) [OF mk])
  note f = msg_ring.run_fifo [OF uta_mk_ring_ok(1) [OF mk] this assms(3,4)]
  then have "acc = filter (\<lambda>x. x \<noteq> None) out @ ring_abs r \<and> ring_ok r \<and> ring_cap r = nat sz - 1"
    using uta_mk_ring_ok(2) [OF mk] uta_mk_ring_cap [OF assms(1,2), where ?'a = 'a] by simp
  then show ?thesis using msg_ring.bound [of r] assms(1) by (auto simp: ring_ok_def)
qed

theorem ring_history_fifo_witness:
  "fst (fifo_run (uta_ring_insert True) (uta_ring_extract True)
     [QIns (Some (1::nat)), QIns (Some 2), QExt, QIns (Some 3), QExt] (the (uta_mk_ring True True 3)))
   = [Some 1, Some 2, Some 3]
   \<and> fst (snd (fifo_run (uta_ring_insert True) (uta_ring_extract True)
     [QIns (Some (1::nat)), QIns (Some 2), QExt, QIns (Some 3), QExt] (the (uta_mk_ring True True 3))))
   = [Some 1, Some 2]
   \<and> ring_abs (snd (snd (fifo_run (uta_ring_insert True) (uta_ring_extract True)
     [QIns (Some (1::nat)), QIns (Some 2), QExt, QIns (Some 3), QExt] (the (uta_mk_ring True True 3)))))
   = [Some 3]"
proof -
  let ?run = "fifo_run (uta_ring_insert True) (uta_ring_extract True)
     [QIns (Some (1::nat)), QIns (Some 2), QExt, QIns (Some 3), QExt] (the (uta_mk_ring True True 3))"
  have e: "fst ?run = [Some 1, Some 2, Some 3]" "fst (snd ?run) = [Some 1, Some 2]"
    by code_simp+
  have "fst ?run = filter (\<lambda>x. x \<noteq> None) (fst (snd ?run)) @ ring_abs (snd (snd ?run))"
    using ring_history_fifo [of 3 "[QIns (Some (1::nat)), QIns (Some 2), QExt, QIns (Some 3), QExt]"
        "fst ?run" "fst (snd ?run)" "snd (snd ?run)"] by simp
  then show ?thesis using e by (simp only: e) simp
qed

text \<open>
  The size a ring is asked for is stored in 16 bits after it was lowered by one, so a request
  for 65537 elements yields a ring on which every insert fails.
\<close>

theorem ring_size_wraps:
  "fst (uta_ring_insert lk (the (uta_mk_ring True evfd 65537)) x) = Inl EXFULL"
  by (simp add: uta_mk_ring_def uta_ring_insert_def ring_full_def Let_def)

text \<open>
  C38: the two stores with which \<open>uta_ring_insert\<close> moves its index can lose a queue. Take an empty
  ring whose indices stand at the last element, and let the receive thread insert while an
  application thread extracts. Between the increment of \<open>head\<close> and its reset to 0 the consumer
  may take the message, wrap to 0 and find 0 different from \<open>head\<close>: it then extracts a nil. When
  both threads are idle again every message was delivered, yet the ring reports that it is full.
\<close>

theorem ring_wrap_race:
  assumes "2 \<le> n" "length d = unat n + 1" "d ! 0 = None"
  defines "r \<equiv> \<lparr>r_head = n - 1, r_tail = n - 1, nelements = n, r_data = d, r_pfd = Some 0,
    r_flags = 0, rgate = True, wgate = False\<rparr>"
  shows "ring_abs r = [] \<and> (\<exists>s. ring_cstep\<^sup>*\<^sup>*
      \<lparr>rc_ring = r, rc_prod = PIdle, rc_cons = CIdle, rc_sent = [], rc_got = []\<rparr> s
    \<and> ring_quiet s \<and> rc_sent s = [x] \<and> rc_got s = [Some x, None] \<and> ring_full (rc_ring s))"
proof -
  have n0: "n \<noteq> 0" using assms(1) by auto
  have u: "unat (n - 1) = unat n - 1" "unat (n - 1) < length d" "unat (n - 1) \<noteq> 0"
    using assms(1,2) n0 by (auto simp: unat_sub word_le_nat_alt unat_eq_zero)
  have nf: "\<not> ring_full r" using u n0 by (auto simp: ring_full_def r_def unat_eq_zero)
  have s: "ring_step n (n - 1) = 0" "ring_step n 0 = 1"
    using assms(1) by (auto simp: ring_step_def word_le_nat_alt)
  define d1 where "d1 = d[unat (n - 1) := Some x]"
  define d2 where "d2 = d1[unat (n - 1) := None]"
  let ?c = "\<lambda>t dd ys. \<lparr>rc_ring = \<lparr>r_head = n, r_tail = t, nelements = n, r_data = dd, r_pfd = Some 0,
    r_flags = 0, rgate = True, wgate = False\<rparr>,
    rc_prod = PWrap x, rc_cons = CIdle, rc_sent = [], rc_got = ys\<rparr>"
  define s0 where "s0 = \<lparr>rc_ring = r, rc_prod = PIdle, rc_cons = CIdle, rc_sent = [], rc_got = []\<rparr>"
  define s1 where "s1 = ?c (n - 1) d1 []"
  define s2 where "s2 = ?c 0 d2 [Some x]"
  define s3 where "s3 = ?c 1 (d2[0 := None]) [Some x, None]"
  define s4 where "s4 = s3\<lparr>rc_ring := (rc_ring s3)\<lparr>r_head := 0\<rparr>, rc_prod := PIdle, rc_sent := [x]\<rparr>"
  have 1: "ring_cstep\<^sup>*\<^sup>* s0 s1"
    using ring_cstep_insert_upto_wrap [OF nf, of CIdle "[]" "[]" x]
    by (simp add: r_def s0_def s1_def d1_def)
  have "d1 ! unat (n - 1) = Some x" "n - 1 \<noteq> n" using u by (simp_all add: d1_def)
  then have 2: "ring_cstep\<^sup>*\<^sup>* s1 s2"
    using ring_cstep_extract [of "n - 1" n n d1 "Some 0" 0 True False "PWrap x" "[]" "[]"] s
    by (simp add: s1_def s2_def d2_def)
  have "d2 ! 0 = None" using u(3) assms(3) by (simp add: d2_def d1_def)
  then have 3: "ring_cstep\<^sup>*\<^sup>* s2 s3"
    using ring_cstep_extract [of 0 n n d2 "Some 0" 0 True False "PWrap x" "[]" "[Some x]"] s n0
    by (simp add: s2_def s3_def)
  have 4: "ring_cstep s3 s4"
    using ring_cstep.ins_wrap [of s3 x "rc_ring s3"] by (simp add: s3_def s4_def)
  have "ring_cstep\<^sup>*\<^sup>* s0 s4"
    by (rule rtranclp.rtrancl_into_rtrancl [OF rtranclp_trans [OF rtranclp_trans [OF 1 2] 3] 4])
  moreover have "ring_quiet s4 \<and> rc_sent s4 = [x] \<and> rc_got s4 = [Some x, None] \<and> ring_full (rc_ring s4)"
    by (simp add: ring_quiet_def ring_full_def s4_def s3_def)
  moreover have "ring_abs r = []" by (simp add: r_def ring_abs_def)
  ultimately show ?thesis unfolding s0_def by blast
qed

theorem ring_wrap_race_witness:
  "\<exists>s. ring_cstep\<^sup>*\<^sup>*
      \<lparr>rc_ring = \<lparr>r_head = 1, r_tail = 1, nelements = 2, r_data = [None, None, None], r_pfd = Some 0,
         r_flags = 0, rgate = True, wgate = False\<rparr>,
       rc_prod = PIdle, rc_cons = CIdle, rc_sent = [], rc_got = []\<rparr> s
    \<and> rc_sent s = [5::nat] \<and> ring_full (rc_ring s)"
  using ring_wrap_race [of 2 "[None, None, None]" "5::nat"] by auto

end
