(* ===== verification/Mbuf.thy ===== *)
theory Mbuf
  imports Tools Ring
begin

text \<open>
  Messages: the transport buffer with its size field, the RMR header inside it, the message
  buffer (\<^verbatim>\<open>rmr_mbuf_t\<close>) that points into it, allocation and cloning of buffers
  (\<^verbatim>\<open>si/src/sr_si_static.c\<close>), and the user functions that set and read header fields
  (\<^verbatim>\<open>common/src/mbuf_api.c\<close>).

  A transport buffer is its bytes. The header is a C structure laid over the bytes; the layout is
  the one of a 64 bit platform (natural alignment; \<^verbatim>\<open>sizeof( uta_mhdr_t )\<close> is 280), with 32 bit
  integers in network order. Pointers into the buffer (header, payload, transaction id) are byte
  offsets from its start.
\<close>

subsection \<open>The transport size field\<close>

abbreviation (input) TP_HDR_LEN :: nat where "TP_HDR_LEN \<equiv> 50"
abbreviation (input) TP_SZFIELD_LEN :: nat where "TP_SZFIELD_LEN \<equiv> 9"
abbreviation (input) TP_SZ_MARKER :: u8 where "TP_SZ_MARKER \<equiv> 36"

text \<open>
  The length goes in twice: in native order for old receivers, then in network order; a marker
  follows, and four bytes after it are cleared.
\<close>

definition insert_mlen :: "u32 \<Rightarrow> bytes \<Rightarrow> bytes" where
  "insert_mlen len buf =
     bput (TP_SZFIELD_LEN - 1) [TP_SZ_MARKER]
       (bput TP_SZFIELD_LEN [0, 0, 0, 0] (bput 4 (be32 len) (bput 0 (le32 len) buf)))"

definition extract_mlen :: "bytes \<Rightarrow> u32" where
  "extract_mlen buf =
     (if buf ! 8 = TP_SZ_MARKER
      then let osize = un_le32 (bget 0 4 buf); sz = un_be32 (bget 4 4 buf)
           in if osize \<noteq> sz then osize else sz
      else un_le32 (bget 0 4 buf))"

subsection \<open>The message header\<close>

abbreviation (input) MHDR_SIZE :: nat where "MHDR_SIZE \<equiv> 280"
abbreviation (input) RMR_MAX_XID :: nat where "RMR_MAX_XID \<equiv> 32"
abbreviation (input) RMR_MAX_MEID :: nat where "RMR_MAX_MEID \<equiv> 32"
abbreviation (input) RMR_MAX_SRC :: nat where "RMR_MAX_SRC \<equiv> 64"

text \<open>Offsets of the fields of \<^verbatim>\<open>uta_mhdr_t\<close>.\<close>

datatype hfield = F_mtype | F_plen | F_rmr_ver | F_xid | F_sid | F_src | F_meid | F_ts | F_flags
  | F_len0 | F_len1 | F_len2 | F_len3 | F_sub_id | F_srcip

fun uta_mhdr_t :: "hfield \<Rightarrow> nat" where
  "uta_mhdr_t F_mtype = 0"
| "uta_mhdr_t F_plen = 4"
| "uta_mhdr_t F_rmr_ver = 8"
| "uta_mhdr_t F_xid = 12"
| "uta_mhdr_t F_sid = 44"
| "uta_mhdr_t F_src = 76"
| "uta_mhdr_t F_meid = 140"
| "uta_mhdr_t F_ts = 176"
| "uta_mhdr_t F_flags = 192"
| "uta_mhdr_t F_len0 = 196"
| "uta_mhdr_t F_len1 = 200"
| "uta_mhdr_t F_len2 = 204"
| "uta_mhdr_t F_len3 = 208"
| "uta_mhdr_t F_sub_id = 212"
| "uta_mhdr_t F_srcip = 216"

definition hget :: "nat \<Rightarrow> hfield \<Rightarrow> bytes \<Rightarrow> u32" where
  "hget h f b = un_be32 (bget (h + uta_mhdr_t f) 4 b)"

definition hset :: "nat \<Rightarrow> hfield \<Rightarrow> u32 \<Rightarrow> bytes \<Rightarrow> bytes" where
  "hset h f w b = bput (h + uta_mhdr_t f) (be32 w) b"

text \<open>
  The header flags are the one integer the code does not convert: they are in native order.
\<close>

definition hflags :: "nat \<Rightarrow> bytes \<Rightarrow> u32" where
  "hflags h b = un_le32 (bget (h + uta_mhdr_t F_flags) 4 b)"

definition set_hflags :: "nat \<Rightarrow> u32 \<Rightarrow> bytes \<Rightarrow> bytes" where
  "set_hflags h w b = bput (h + uta_mhdr_t F_flags) (le32 w) b"

text \<open>
  The length macros. The sum of the lengths is 32 bit unsigned; the address macros add each length
  to a pointer, so their sum does not wrap.
\<close>

definition RMR_HDR_LEN :: "nat \<Rightarrow> bytes \<Rightarrow> u32" where
  "RMR_HDR_LEN h b = hget h F_len0 b + hget h F_len1 b + hget h F_len2 b + hget h F_len3 b"

definition RMR_TR_LEN :: "nat \<Rightarrow> bytes \<Rightarrow> u32" where "RMR_TR_LEN h b = hget h F_len1 b"
definition RMR_D1_LEN :: "nat \<Rightarrow> bytes \<Rightarrow> u32" where "RMR_D1_LEN h b = hget h F_len2 b"
definition RMR_D2_LEN :: "nat \<Rightarrow> bytes \<Rightarrow> u32" where "RMR_D2_LEN h b = hget h F_len3 b"

definition PAYLOAD_ADDR :: "nat \<Rightarrow> bytes \<Rightarrow> nat" where
  "PAYLOAD_ADDR h b = h + unat (hget h F_len0 b) + unat (hget h F_len1 b) + unat (hget h F_len2 b)
     + unat (hget h F_len3 b)"

definition TRACE_ADDR :: "nat \<Rightarrow> bytes \<Rightarrow> nat" where
  "TRACE_ADDR h b = h + unat (hget h F_len0 b)"

definition DATA1_ADDR :: "nat \<Rightarrow> bytes \<Rightarrow> nat" where
  "DATA1_ADDR h b = h + unat (hget h F_len0 b) + unat (hget h F_len1 b)"

definition DATA2_ADDR :: "nat \<Rightarrow> bytes \<Rightarrow> nat" where
  "DATA2_ADDR h b = h + unat (hget h F_len0 b) + unat (hget h F_len1 b) + unat (hget h F_len2 b)"

text \<open>Filling one of the text fields of the header.\<close>

definition fill_field :: "nat \<Rightarrow> hfield \<Rightarrow> bytes \<Rightarrow> bytes \<Rightarrow> bytes" where
  "fill_field h f src b =
     bput (h + uta_mhdr_t f)
       (the (snd (zt_buf_fill (Some (bget (h + uta_mhdr_t f) RMR_MAX_SRC b)) (Some src) (int RMR_MAX_SRC)))) b"

subsection \<open>Message buffers\<close>

abbreviation (input) RMR_OK :: int where "RMR_OK \<equiv> 0"
abbreviation (input) RMR_ERR_BADARG :: int where "RMR_ERR_BADARG \<equiv> 1"
abbreviation (input) RMR_ERR_NOENDPT :: int where "RMR_ERR_NOENDPT \<equiv> 2"
abbreviation (input) RMR_ERR_NOHDR :: int where "RMR_ERR_NOHDR \<equiv> 4"
abbreviation (input) RMR_ERR_SENDFAILED :: int where "RMR_ERR_SENDFAILED \<equiv> 5"
abbreviation (input) RMR_ERR_WHID :: int where "RMR_ERR_WHID \<equiv> 8"
abbreviation (input) RMR_ERR_NOWHOPEN :: int where "RMR_ERR_NOWHOPEN \<equiv> 7"
abbreviation (input) RMR_ERR_OVERFLOW :: int where "RMR_ERR_OVERFLOW \<equiv> 9"
abbreviation (input) RMR_ERR_RETRY :: int where "RMR_ERR_RETRY \<equiv> 10"
abbreviation (input) RMR_ERR_TIMEOUT :: int where "RMR_ERR_TIMEOUT \<equiv> 12"
abbreviation (input) RMR_ERR_UNSET :: int where "RMR_ERR_UNSET \<equiv> 13"
abbreviation (input) RMR_ERR_TRUNC :: int where "RMR_ERR_TRUNC \<equiv> 14"
abbreviation (input) RMR_ERR_INITFAILED :: int where "RMR_ERR_INITFAILED \<equiv> 15"
abbreviation (input) RMR_ERR_NOTSUPP :: int where "RMR_ERR_NOTSUPP \<equiv> 16"

abbreviation (input) MFL_ZEROCOPY :: u32 where "MFL_ZEROCOPY \<equiv> 1"
abbreviation (input) MFL_NOALLOC :: u32 where "MFL_NOALLOC \<equiv> 2"
abbreviation (input) MFL_ADDSRC :: u32 where "MFL_ADDSRC \<equiv> 4"
abbreviation (input) MFL_HUGE :: u32 where "MFL_HUGE \<equiv> 16"
abbreviation (input) HFL_CALL_MSG :: u32 where "HFL_CALL_MSG \<equiv> 4"

record mbuf =
  mb_state :: int
  mb_mtype :: int
  mb_len :: int
  mb_payload :: "nat option"
  mb_xaction :: "nat option"
  mb_sub_id :: int
  mb_tp_state :: errno
  mb_tp_buf :: "bytes option"
  mb_header :: "nat option"
  mb_flags :: u32
  mb_alloc_len :: int
  mb_ring :: bool
  mb_rts_fd :: int
  mb_cookie :: int

text \<open>The all zero message buffer \<^verbatim>\<open>memset\<close> leaves.\<close>

definition mbuf_zero :: mbuf where
  "mbuf_zero = \<lparr>mb_state = 0, mb_mtype = 0, mb_len = 0, mb_payload = None, mb_xaction = None,
     mb_sub_id = 0, mb_tp_state = E0, mb_tp_buf = None, mb_header = None, mb_flags = 0,
     mb_alloc_len = 0, mb_ring = False, mb_rts_fd = 0, mb_cookie = 0\<rparr>"

text \<open>The part of the context (\<^verbatim>\<open>uta_ctx\<close>) that buffers depend on.\<close>

record mb_ctx =
  my_name :: bytes
  my_ip :: bytes
  max_plen :: int
  trace_data_len :: int
  d1_len :: int
  d2_len :: int
  zcb_mring :: "mbuf ring"

text \<open>The header and the buffer a message points at.\<close>

definition mb_hdr :: "mbuf \<Rightarrow> (nat \<times> bytes) option" where
  "mb_hdr m = (case (mb_header m, mb_tp_buf m) of (Some h, Some b) \<Rightarrow> Some (h, b) | _ \<Rightarrow> None)"

subsection \<open>Allocation and cloning\<close>

text \<open>
  The fresh header of a sendable buffer: zeroed, then the version, the unset subscription id and
  the lengths. The trace length written is the one of the context.
\<close>

definition init_header :: "('c) mb_ctx_scheme \<Rightarrow> bytes \<Rightarrow> bytes" where
  "init_header ctx b =
     hset TP_HDR_LEN F_len2 (word_of_int (d1_len ctx))
      (hset TP_HDR_LEN F_len1 (word_of_int (trace_data_len ctx))
        (hset TP_HDR_LEN F_len0 (of_nat MHDR_SIZE)
          (hset TP_HDR_LEN F_sub_id (- 1)
            (hset TP_HDR_LEN F_rmr_ver 3
              (bput TP_HDR_LEN (replicate MHDR_SIZE 0) b)))))"

text \<open>
  \<open>alloc_zcmsg\<close>. The buffer comes from the caller, from the ring of free buffers or from the heap.
  It is enlarged when it is too small, and otherwise keeps its size. \<open>None\<close>: no memory for the
  message structure (nil is returned). (No memory for the transport buffer aborts the process.) A
  message with a recorded size has a buffer; the empty block stands for the other case, in which
  the code would write through nil.
\<close>

definition alloc_zcmsg ::
    "bool \<Rightarrow> (nat \<Rightarrow> u8) \<Rightarrow> ('c) mb_ctx_scheme \<Rightarrow> mbuf option \<Rightarrow> int \<Rightarrow> int \<Rightarrow> int
      \<Rightarrow> mbuf option \<times> ('c) mb_ctx_scheme" where
  "alloc_zcmsg mem junk ctx msg sz state trlo =
     (let tr_len = (if trlo > 0 then trlo else trace_data_len ctx);
          mlen0 = int MHDR_SIZE + tr_len + d1_len ctx + d2_len ctx
                  + (if sz > 0 then sz else max_plen ctx) + int TP_HDR_LEN;
          (m0, ctx1) = (case msg of
             Some m \<Rightarrow> (Some m, ctx)
           | None \<Rightarrow> let (x, r) = uta_ring_extract True (zcb_mring ctx) in (x, ctx\<lparr>zcb_mring := r\<rparr>));
          got = (case m0 of
             None \<Rightarrow> (if mem then Some (mbuf_zero, mlen0) else None)
           | Some m \<Rightarrow> Some (if mlen0 > mb_alloc_len m
                             then (m\<lparr>mb_alloc_len := 0, mb_tp_buf := None\<rparr>, mlen0)
                             else (m, mb_alloc_len m)))
      in case got of
           None \<Rightarrow> (None, ctx1)
         | Some (m, mlen) \<Rightarrow>
             (let tp0 = (if mb_alloc_len m = 0 then malloc_block junk mlen
                         else case mb_tp_buf m of Some b \<Rightarrow> b | None \<Rightarrow> []);
                  b1 = init_header ctx1 (insert_mlen (word_of_int mlen) tp0);
                  b2 = fill_field TP_HDR_LEN F_srcip (my_ip ctx1)
                         (fill_field TP_HDR_LEN F_src (my_name ctx1) b1)
              in (Some (m\<lparr>mb_rts_fd := -1, mb_tp_buf := Some b2, mb_header := Some TP_HDR_LEN,
                     mb_len := 0, mb_cookie := 0x4942, mb_alloc_len := mlen, mb_sub_id := -1,
                     mb_mtype := -1, mb_payload := Some (PAYLOAD_ADDR TP_HDR_LEN b1),
                     mb_xaction := Some (TP_HDR_LEN + uta_mhdr_t F_xid), mb_state := state,
                     mb_flags := MFL_ZEROCOPY, mb_ring := True\<rparr>), ctx1)))"

definition alloc_mbuf :: "bool \<Rightarrow> ('c) mb_ctx_scheme \<Rightarrow> int \<Rightarrow> mbuf option \<times> ('c) mb_ctx_scheme" where
  "alloc_mbuf mem ctx state =
     (let (x, r) = uta_ring_extract True (zcb_mring ctx); ctx1 = ctx\<lparr>zcb_mring := r\<rparr> in
      if x = None \<and> \<not> mem then (None, ctx1)
      else (Some (mbuf_zero\<lparr>mb_cookie := 0x4942, mb_sub_id := -1, mb_mtype := -1, mb_len := -1,
                   mb_state := state, mb_ring := True\<rparr>), ctx1))"

text \<open>
  \<open>ref_tpbuf\<close>: point a message at the parts of its transport buffer and check the payload length
  the sender gave against the space. All header versions take the same branch.
\<close>

definition ref_tpbuf :: "mbuf \<Rightarrow> int \<Rightarrow> mbuf" where
  "ref_tpbuf msg alen =
     (let h = TP_HDR_LEN; b = the (mb_tp_buf msg);
          hlen = sint (RMR_HDR_LEN h b);
          m1 = msg\<lparr>mb_header := Some h, mb_len := sint (hget h F_plen b), mb_alloc_len := alen,
                   mb_payload := Some (PAYLOAD_ADDR h b), mb_xaction := Some (h + uta_mhdr_t F_xid),
                   mb_flags := mb_flags msg OR MFL_ZEROCOPY, mb_mtype := sint (hget h F_mtype b),
                   mb_sub_id := sint (hget h F_sub_id b)\<rparr>
      in if mb_len m1 > mb_alloc_len m1 - hlen
         then m1\<lparr>mb_state := RMR_ERR_TRUNC, mb_len := mb_alloc_len m1 - hlen\<rparr>
         else m1\<lparr>mb_state := RMR_OK\<rparr>)"

text \<open>\<open>None\<close>: a copy leaves one of the two buffers.\<close>

definition clone_msg :: "(nat \<Rightarrow> u8) \<Rightarrow> mbuf \<Rightarrow> mbuf option" where
  "clone_msg junk old_msg =
     (case (mb_hdr old_msg, mb_payload old_msg) of
        (Some (oh, ob), Some op) \<Rightarrow>
          (let mlen = mb_alloc_len old_msg; h = TP_HDR_LEN;
               n = RMR_HDR_LEN oh ob + RMR_TR_LEN oh ob + RMR_D1_LEN oh ob + RMR_D2_LEN oh ob
           in Option.bind (memcpy (malloc_block junk (mlen + int TP_HDR_LEN)) (int h) ob (int oh) (uint n)) (\<lambda>b1.
              let p = PAYLOAD_ADDR h b1 in
              Option.bind (memcpy b1 (int p) ob (int op) (mb_len old_msg)) (\<lambda>b2.
              Some (mbuf_zero\<lparr>mb_header := Some h, mb_tp_buf := Some b2, mb_payload := Some p,
                 mb_mtype := mb_mtype old_msg, mb_sub_id := mb_sub_id old_msg,
                 mb_len := mb_len old_msg, mb_alloc_len := mlen,
                 mb_xaction := Some (h + uta_mhdr_t F_xid), mb_state := mb_state old_msg,
                 mb_flags := mb_flags old_msg OR MFL_ZEROCOPY\<rparr>))))
      | _ \<Rightarrow> None)"

text \<open>A copy of one of the data areas of the header, when it is not empty.\<close>

definition copy_area :: "u32 \<Rightarrow> nat \<Rightarrow> nat \<Rightarrow> bytes \<Rightarrow> bytes \<Rightarrow> bytes option" where
  "copy_area n dst src ob b = (if n \<noteq> 0 then memcpy b (int dst) ob (int src) (uint n) else Some b)"

text \<open>
  \<open>realloc_msg\<close>. The sizes are sums of C \<^verbatim>\<open>int\<close>s: where one of them leaves the range of the type there is
  no value (signed overflow, and for the last one an allocation of a negative size, which ends the
  process).
\<close>

definition in_int32 :: "int \<Rightarrow> bool" where
  "in_int32 v = (- (2 ^ 31) \<le> v \<and> v < 2 ^ 31)"

definition realloc_msg :: "(nat \<Rightarrow> u8) \<Rightarrow> mbuf \<Rightarrow> int \<Rightarrow> mbuf option" where
  "realloc_msg junk old_msg tr_len =
     (case (mb_hdr old_msg, mb_payload old_msg) of
        (Some (oh, ob), Some op) \<Rightarrow>
          (let h = TP_HDR_LEN;
               diff = tr_len - sint (RMR_TR_LEN oh ob);
               mlen = mb_alloc_len old_msg + diff;
               tpb_len = mlen + int TP_HDR_LEN;
               b0 = insert_mlen (word_of_int tpb_len) (malloc_block junk tpb_len)
           in if \<not> (in_int32 diff \<and> in_int32 mlen \<and> in_int32 tpb_len) then None else
              Option.bind (memcpy b0 (int h) ob (int oh) (int MHDR_SIZE)) (\<lambda>b1.
              let b2 = hset h F_len1 (word_of_int tr_len) b1 in
              Option.bind (copy_area (RMR_D1_LEN h b2) (DATA1_ADDR h b2) (DATA1_ADDR oh ob) ob b2) (\<lambda>b3.
              Option.bind (copy_area (RMR_D2_LEN h b3) (DATA2_ADDR h b3) (DATA2_ADDR oh ob) ob b3) (\<lambda>b4.
              let p = PAYLOAD_ADDR h b4 in
              Option.bind (memcpy b4 (int p) ob (int op) (mb_len old_msg)) (\<lambda>b5.
              Some (mbuf_zero\<lparr>mb_header := Some h, mb_tp_buf := Some b5, mb_payload := Some p,
                 mb_mtype := mb_mtype old_msg, mb_sub_id := mb_sub_id old_msg,
                 mb_len := mb_len old_msg, mb_alloc_len := mlen,
                 mb_xaction := Some (h + uta_mhdr_t F_xid), mb_state := mb_state old_msg,
                 mb_flags := mb_flags old_msg OR MFL_ZEROCOPY\<rparr>))))))
      | _ \<Rightarrow> None)"

text \<open>
  \<open>realloc_payload\<close>: \<open>Inl\<close> is the nil return with its \<^verbatim>\<open>errno\<close>; inside, \<open>None\<close> is a copy out of
  bounds.
\<close>

definition realloc_payload ::
    "(nat \<Rightarrow> u8) \<Rightarrow> mbuf option \<Rightarrow> int \<Rightarrow> bool \<Rightarrow> bool \<Rightarrow> errno + mbuf option" where
  "realloc_payload junk old_msg payload_len copy clone =
     (case old_msg of
        None \<Rightarrow> Inl EINVAL
      | Some om \<Rightarrow>
         if payload_len \<le> 0 then Inl EINVAL
         else case mb_hdr om of
           None \<Rightarrow> Inr None
         | Some (oh, ob) \<Rightarrow>
            (let hdr_len = sint (RMR_HDR_LEN oh ob + of_nat TP_HDR_LEN);
                 old_psize = to_int32 (mb_alloc_len om - uint (RMR_HDR_LEN oh ob + of_nat TP_HDR_LEN))
             in if \<not> clone \<and> payload_len \<le> old_psize then Inr (Some om)
                else let nm0 = (if clone then mbuf_zero\<lparr>mb_rts_fd := mb_rts_fd om\<rparr> else om);
                         mlen = hdr_len + (if payload_len > old_psize then payload_len else old_psize);
                         b0 = hset TP_HDR_LEN F_len0 (of_nat MHDR_SIZE) (malloc_block junk mlen);
                         n = (if copy then uint (word_of_int old_psize + RMR_HDR_LEN oh ob)
                              else uint (RMR_HDR_LEN oh ob))
                     in Inr (Option.bind (memcpy b0 (int TP_HDR_LEN) ob (int oh) n) (\<lambda>b1.
                        let nm1 = ref_tpbuf (nm0\<lparr>mb_tp_buf := Some b1\<rparr>) mlen in
                        Some (if copy then nm1\<lparr>mb_len := mb_len om, mb_mtype := mb_mtype om, mb_sub_id := mb_sub_id om\<rparr>
                              else nm1\<lparr>mb_mtype := -1, mb_sub_id := -1, mb_len := 0\<rparr>)))))"

definition rmr_realloc_payload ::
    "(nat \<Rightarrow> u8) \<Rightarrow> mbuf option \<Rightarrow> int \<Rightarrow> bool \<Rightarrow> bool \<Rightarrow> errno + mbuf option" where
  "rmr_realloc_payload junk old_msg new_len copy clone = realloc_payload junk old_msg new_len copy clone"

definition rmr_payload_size :: "mbuf option \<Rightarrow> int" where
  "rmr_payload_size msg = (case Option.bind msg mb_hdr of
      None \<Rightarrow> -1
    | Some (h, b) \<Rightarrow> to_int32 (mb_alloc_len (the msg) - uint (RMR_HDR_LEN h b) - int TP_HDR_LEN))"

definition rmr_alloc_msg :: "bool \<Rightarrow> (nat \<Rightarrow> u8) \<Rightarrow> ('c) mb_ctx_scheme \<Rightarrow> int \<Rightarrow> mbuf option \<times> ('c) mb_ctx_scheme" where
  "rmr_alloc_msg mem junk ctx sz = alloc_zcmsg mem junk ctx None sz 0 (-1)"

subsection \<open>The user functions on header fields\<close>

text \<open>
  The result is the return value, \<^verbatim>\<open>errno\<close> and the message. \<open>None\<close> outside: the behaviour is
  undefined (a negative length, or a source shorter than the length given).
\<close>

definition rmr_bytes2meid ::
    "mbuf option \<Rightarrow> bytes option \<Rightarrow> int \<Rightarrow> (int \<times> errno \<times> mbuf option) option" where
  "rmr_bytes2meid mb src len =
     (case (src, Option.bind mb mb_hdr) of
        (Some s, Some (h, b)) \<Rightarrow>
          (let over = len > int RMR_MAX_MEID;
               len' = (if over then int RMR_MAX_MEID else len);
               at = h + uta_mhdr_t F_meid
           in Option.bind (memcpy b (int at) s 0 len') (\<lambda>b1.
              let (b2, over2) =
                (if len' = int RMR_MAX_MEID
                 then (if b1 ! (at + nat len' - 1) \<noteq> 0 then (b1[at + nat len' - 1 := 0], True) else (b1, over))
                 else (b1[at + nat len' := 0], over))
              in Some (len', if over2 then EOVERFLOW else E0, Some ((the mb)\<lparr>mb_tp_buf := Some b2\<rparr>))))
      | _ \<Rightarrow> Some (-1, EINVAL, mb))"

text \<open>A C string argument is its bytes; the terminating nil is read with it.\<close>

definition rmr_str2meid :: "mbuf option \<Rightarrow> bytes option \<Rightarrow> (int \<times> errno \<times> mbuf option) option" where
  "rmr_str2meid mb str =
     (case (str, Option.bind mb mb_hdr) of
        (Some s, Some _) \<Rightarrow>
          (if length s > RMR_MAX_MEID - 1 then Some (RMR_ERR_OVERFLOW, EOVERFLOW, mb)
           else map_option (\<lambda>(_, e, m). (RMR_OK, e, m)) (rmr_bytes2meid mb (Some (s @ [0])) (int (length s) + 1)))
      | _ \<Rightarrow> Some (RMR_ERR_BADARG, EINVAL, mb))"

definition rmr_bytes2xact ::
    "mbuf option \<Rightarrow> bytes option \<Rightarrow> int \<Rightarrow> (int \<times> errno \<times> mbuf option) option" where
  "rmr_bytes2xact mb src len =
     (case (src, Option.bind mb mb_hdr) of
        (Some s, Some (h, b)) \<Rightarrow>
          (let over = len > int RMR_MAX_XID;
               len' = (if over then int RMR_MAX_XID else len)
           in Option.bind (memcpy b (int (h + uta_mhdr_t F_xid)) s 0 len') (\<lambda>b1.
              Some (len', if over then EOVERFLOW else E0, Some ((the mb)\<lparr>mb_tp_buf := Some b1\<rparr>))))
      | _ \<Rightarrow> Some (-1, EINVAL, mb))"

definition rmr_str2xact :: "mbuf option \<Rightarrow> bytes option \<Rightarrow> (int \<times> errno \<times> mbuf option) option" where
  "rmr_str2xact mb str =
     (case (str, Option.bind mb mb_hdr) of
        (Some s, Some _) \<Rightarrow>
          (if length s > RMR_MAX_XID - 1 then Some (RMR_ERR_OVERFLOW, EOVERFLOW, mb)
           else map_option (\<lambda>(_, e, m). (RMR_OK, e, m)) (rmr_bytes2xact mb (Some (s @ [0])) (int (length s) + 1)))
      | _ \<Rightarrow> Some (RMR_ERR_BADARG, EINVAL, mb))"

text \<open>
  The length is compared, as an unsigned 64 bit number, with the allocated length less the fixed
  header size: neither the transport header nor the trace and data areas are taken off.
\<close>

definition rmr_bytes2payload ::
    "mbuf option \<Rightarrow> bytes option \<Rightarrow> int \<Rightarrow> (errno \<times> mbuf option) option" where
  "rmr_bytes2payload mb src len =
     (case (src, mb) of
        (Some s, Some m) \<Rightarrow>
          (case (mb_payload m, mb_tp_buf m) of
             (Some p, Some b) \<Rightarrow>
               (let room = (word_of_int (mb_alloc_len m) - of_nat MHDR_SIZE :: u64);
                    over = (word_of_int len :: u64) > room;
                    len' = (if over then to_int32 (uint room) else len)
                in Option.bind (memcpy b (int p) s 0 len') (\<lambda>b1.
                   Some (if over then EMSGSIZE else E0,
                         Some (m\<lparr>mb_state := if over then RMR_ERR_OVERFLOW else RMR_OK,
                                 mb_len := len', mb_tp_buf := Some b1\<rparr>))))
           | _ \<Rightarrow> Some (EINVAL, mb))
      | _ \<Rightarrow> Some (EINVAL, mb))"

definition rmr_str2payload :: "mbuf option \<Rightarrow> bytes \<Rightarrow> (errno \<times> mbuf option) option" where
  "rmr_str2payload mb str = rmr_bytes2payload mb (Some (str @ [0])) (int (length str) + 1)"

text \<open>
  The getters return what they copy to the destination; \<open>dest\<close> says whether the caller passes a
  buffer, and \<open>mem\<close> whether one can be allocated otherwise.
\<close>

definition rmr_get_xact :: "bool \<Rightarrow> mbuf option \<Rightarrow> bool \<Rightarrow> errno + bytes" where
  "rmr_get_xact mem mb dest =
     (case Option.bind mb (\<lambda>m. case (mb_xaction m, mb_tp_buf m) of (Some x, Some b) \<Rightarrow> Some (x, b) | _ \<Rightarrow> None) of
        None \<Rightarrow> Inl EINVAL
      | Some (x, b) \<Rightarrow> if \<not> dest \<and> \<not> mem then Inl ENOMEM else Inr (bget x RMR_MAX_XID b))"

definition rmr_get_meid :: "bool \<Rightarrow> mbuf option \<Rightarrow> bool \<Rightarrow> errno + bytes" where
  "rmr_get_meid mem mb dest =
     (case Option.bind mb mb_hdr of
        None \<Rightarrow> Inl EINVAL
      | Some (h, b) \<Rightarrow> if \<not> dest \<and> \<not> mem then Inl ENOMEM
                       else Inr (bget (h + uta_mhdr_t F_meid) RMR_MAX_MEID b))"

text \<open>
  \<open>rmr_set_trace\<close>: when the trace area has another size, the message is moved to a reallocated
  buffer; of its fields the buffer, the header, the transaction id and the payload pointers follow.
\<close>

definition rmr_set_trace :: "(nat \<Rightarrow> u8) \<Rightarrow> mbuf option \<Rightarrow> bytes \<Rightarrow> int \<Rightarrow> (int \<times> errno \<times> mbuf option) option" where
  "rmr_set_trace junk msg data sz =
     (case msg of
        None \<Rightarrow> Some (0, EINVAL, None)
      | Some m \<Rightarrow>
         if sz \<le> 0 then Some (0, E0, msg)
         else case mb_hdr m of
           None \<Rightarrow> Some (0, EINVAL, msg)
         | Some (h, b) \<Rightarrow>
             Option.bind
               (if sint (RMR_TR_LEN h b) \<noteq> sz
                then map_option (\<lambda>nm. m\<lparr>mb_tp_buf := mb_tp_buf nm, mb_header := mb_header nm,
                        mb_xaction := mb_xaction nm, mb_payload := mb_payload nm\<rparr>) (realloc_msg junk m sz)
                else Some m)
               (\<lambda>m1. case mb_hdr m1 of
                  None \<Rightarrow> None
                | Some (h1, b1) \<Rightarrow>
                    map_option (\<lambda>b2. (sz, E0, Some (m1\<lparr>mb_tp_buf := Some b2\<rparr>)))
                      (memcpy b1 (int (TRACE_ADDR h1 b1)) data 0 sz)))"

definition rmr_trace_ref :: "mbuf option \<Rightarrow> (int \<times> nat option) option" where
  "rmr_trace_ref msg =
     (case msg of
        None \<Rightarrow> Some (0, None)
      | Some m \<Rightarrow> (case mb_hdr m of
          None \<Rightarrow> None
        | Some (h, b) \<Rightarrow>
            (let sz = sint (RMR_TR_LEN h b) in
             Some (if sz \<le> 0 then (0, None) else (sz, Some (TRACE_ADDR h b))))))"

definition rmr_get_trace :: "mbuf option \<Rightarrow> bool \<Rightarrow> int \<Rightarrow> bytes option" where
  "rmr_get_trace msg dest sz =
     (case msg of
        None \<Rightarrow> Some []
      | Some m \<Rightarrow>
         if sz \<le> 0 \<or> \<not> dest then Some []
         else case mb_hdr m of
           None \<Rightarrow> None
         | Some (h, b) \<Rightarrow>
             (let n2copy = (if uint (word_of_int sz :: u32) < uint (RMR_TR_LEN h b) then sz
                            else sint (RMR_TR_LEN h b))
              in if n2copy \<le> 0 then Some [] else Some (bget (TRACE_ADDR h b) (nat n2copy) b)))"

definition rmr_get_trlen :: "mbuf option \<Rightarrow> int option" where
  "rmr_get_trlen msg = (case msg of
      None \<Rightarrow> Some 0
    | Some m \<Rightarrow> map_option (\<lambda>(h, b). sint (RMR_TR_LEN h b)) (mb_hdr m))"

text \<open>The destination holds 64 bytes at least; the text written there is returned.\<close>

definition rmr_get_src :: "mbuf option \<Rightarrow> bytes option \<Rightarrow> (errno + bytes option) option" where
  "rmr_get_src msg dest =
     (case msg of
        None \<Rightarrow> Some (Inl EINVAL)
      | Some m \<Rightarrow> (case dest of
          None \<Rightarrow> Some (Inr None)
        | Some d \<Rightarrow> map_option (\<lambda>(h, b). Inr (snd (zt_buf_fill (Some d)
              (Some (bget (h + uta_mhdr_t F_src) RMR_MAX_SRC b)) (int RMR_MAX_SRC)))) (mb_hdr m)))"

definition rmr_get_srcip :: "mbuf option \<Rightarrow> bytes option \<Rightarrow> (errno + bytes option) option" where
  "rmr_get_srcip msg dest =
     (case (dest, msg) of
        (Some d, Some m) \<Rightarrow> map_option (\<lambda>(h, b).
            let f = (if hget h F_rmr_ver b > 2 then F_srcip else F_src) in
            Inr (snd (zt_buf_fill (Some d) (Some (bget (h + uta_mhdr_t f) RMR_MAX_SRC b)) (int RMR_MAX_SRC))))
          (mb_hdr m)
      | _ \<Rightarrow> Some (Inl EINVAL))"

definition rmr_tralloc_msg ::
    "bool \<Rightarrow> (nat \<Rightarrow> u8) \<Rightarrow> ('c) mb_ctx_scheme \<Rightarrow> int \<Rightarrow> int \<Rightarrow> bytes
      \<Rightarrow> (mbuf option \<times> ('c) mb_ctx_scheme) option" where
  "rmr_tralloc_msg mem junk ctx sz tr_size data =
     (let (m, ctx1) = alloc_zcmsg mem junk ctx None sz 0 tr_size in
      case m of
        None \<Rightarrow> Some (None, ctx1)
      | Some _ \<Rightarrow> map_option (\<lambda>(st, e, m1).
            (map_option (\<lambda>m2. if st \<noteq> tr_size then m2\<lparr>mb_state := RMR_ERR_INITFAILED\<rparr> else m2) m1, ctx1))
          (rmr_set_trace junk m data tr_size))"

subsection \<open>Header fields are independent\<close>

fun int_field :: "hfield \<Rightarrow> bool" where
  "int_field F_xid = False" | "int_field F_sid = False" | "int_field F_src = False"
| "int_field F_meid = False" | "int_field F_ts = False" | "int_field F_srcip = False"
| "int_field F_mtype = True" | "int_field F_plen = True" | "int_field F_rmr_ver = True"
| "int_field F_flags = True" | "int_field F_len0 = True" | "int_field F_len1 = True"
| "int_field F_len2 = True" | "int_field F_len3 = True" | "int_field F_sub_id = True"

lemma int_field_range: "int_field f \<Longrightarrow> uta_mhdr_t f + 4 \<le> 216"
  by (cases f) auto

lemma int_field_disjoint:
  "int_field f \<Longrightarrow> int_field g \<Longrightarrow> f \<noteq> g \<Longrightarrow>
     uta_mhdr_t f + 4 \<le> uta_mhdr_t g \<or> uta_mhdr_t g + 4 \<le> uta_mhdr_t f"
  by (cases f; cases g) simp_all

text \<open>A range of bytes of the header that holds no integer field.\<close>

definition text_range :: "nat \<Rightarrow> nat \<Rightarrow> bool" where
  "text_range off n = (12 \<le> off \<and> off + n \<le> 192 \<or> 216 \<le> off)"

lemma int_field_text:
  assumes "int_field f" "text_range off n"
  shows "uta_mhdr_t f + 4 \<le> off \<or> off + n \<le> uta_mhdr_t f"
proof -
  have "uta_mhdr_t f + 4 \<le> 12 \<or> 192 \<le> uta_mhdr_t f" using assms(1) by (cases f) simp_all
  with int_field_range [OF assms(1)] assms(2) show ?thesis unfolding text_range_def by linarith
qed

lemma length_hset [simp]: "int_field f \<Longrightarrow> h + 280 \<le> length b \<Longrightarrow> length (hset h f w b) = length b"
  using int_field_range [of f] by (simp add: hset_def length_bput)

lemma length_set_hflags [simp]: "h + 280 \<le> length b \<Longrightarrow> length (set_hflags h w b) = length b"
  by (simp add: set_hflags_def length_bput)

lemma hget_hset [simp]:
  assumes "int_field f" "int_field g" "h + 280 \<le> length b"
  shows "hget h f (hset h g w b) = (if f = g then w else hget h f b)"
  using int_field_disjoint [OF assms(1,2)] int_field_range [OF assms(2)] assms(3)
  by (auto simp: hget_def hset_def bget_bput_same bget_bput_other)

lemma hget_set_hflags [simp]:
  assumes "int_field f" "f \<noteq> F_flags" "h + 280 \<le> length b"
  shows "hget h f (set_hflags h w b) = hget h f b"
  using int_field_disjoint [OF assms(1) _ assms(2)] assms(3)
  by (simp add: hget_def set_hflags_def bget_bput_other)

lemma hget_text_put:
  assumes "int_field f" "text_range off (length s)" "h + 280 \<le> length b" "h + off + length s \<le> length b"
  shows "hget h f (bput (h + off) s b) = hget h f b"
  using int_field_text [OF assms(1,2)] assms(4)
  by (simp add: hget_def bget_bput_other)

lemma hget_prefix: "int_field f \<Longrightarrow> take (h + 280) b = take (h + 280) b' \<Longrightarrow> hget h f b = hget h f b'"
proof -
  assume f: "int_field f" and e: "take (h + 280) b = take (h + 280) b'"
  have t: "take 4 (drop (h + uta_mhdr_t f) x) = take 4 (drop (h + uta_mhdr_t f) (take (h + 280) x))"
    for x :: bytes
    using int_field_range [OF f] by (simp add: drop_take)
  have "bget (h + uta_mhdr_t f) 4 b = bget (h + uta_mhdr_t f) 4 b'"
    unfolding bget_def t [of b] t [of b'] e ..
  then show ?thesis by (simp add: hget_def)
qed

lemma field_of_text_hset:
  assumes "int_field f" "text_range off n" "h + 280 \<le> length b"
  shows "bget (h + off) n (hset h f w b) = bget (h + off) n b"
  unfolding hset_def using int_field_text [OF assms(1,2)] int_field_range [OF assms(1)] assms(3)
  by (intro bget_bput_other) auto

lemma zt_fill_field:
  assumes "64 \<le> length d"
  shows "\<exists>d'. snd (zt_buf_fill (Some d) (Some s) 64) = Some d' \<and> length d' = length d
    \<and> cstr d' = take 63 (cstr s)"
proof -
  obtain n d' where r: "zt_buf_fill (Some d) (Some s) 64 = (n, Some d')"
    by (auto simp: zt_buf_fill_def Let_def)
  show ?thesis using zt_buf_fill_spec [OF r] assms r by simp
qed

lemma fill_field_spec:
  assumes "h + 280 \<le> length b" "f = F_src \<or> f = F_srcip"
  shows "length (fill_field h f src b) = length b"
    "cstr (bget (h + uta_mhdr_t f) 64 (fill_field h f src b)) = take 63 (cstr src)"
    "int_field g \<Longrightarrow> hget h g (fill_field h f src b) = hget h g b"
    "o2 + n \<le> h + uta_mhdr_t f \<or> h + uta_mhdr_t f + 64 \<le> o2 \<Longrightarrow> bget o2 n (fill_field h f src b) = bget o2 n b"
proof -
  have l: "length (bget (h + uta_mhdr_t f) 64 b) = 64"
    using assms by (auto simp: length_bget)
  obtain d' where d: "snd (zt_buf_fill (Some (bget (h + uta_mhdr_t f) 64 b)) (Some src) 64) = Some d'"
      "length d' = 64" "cstr d' = take 63 (cstr src)"
    using zt_fill_field [of "bget (h + uta_mhdr_t f) 64 b" src] l by auto
  have e: "fill_field h f src b = bput (h + uta_mhdr_t f) d' b"
    by (simp add: fill_field_def d)
  have r: "h + uta_mhdr_t f + length d' \<le> length b" "text_range (uta_mhdr_t f) (length d')"
    using assms d(2) by (auto simp: text_range_def)
  show "length (fill_field h f src b) = length b"
    "cstr (bget (h + uta_mhdr_t f) 64 (fill_field h f src b)) = take 63 (cstr src)"
    using r d by (simp_all add: e length_bput bget_bput_same)
  show "int_field g \<Longrightarrow> hget h g (fill_field h f src b) = hget h g b"
    using hget_text_put [OF _ r(2) assms(1) r(1)] by (simp add: e)
  show "o2 + n \<le> h + uta_mhdr_t f \<or> h + uta_mhdr_t f + 64 \<le> o2 \<Longrightarrow>
      bget o2 n (fill_field h f src b) = bget o2 n b"
    using r(1) d(2) by (simp add: e bget_bput_other)
qed

lemma length_insert_mlen [simp]: "13 \<le> length buf \<Longrightarrow> length (insert_mlen len buf) = length buf"
  by (simp add: insert_mlen_def length_bput)

lemma insert_mlen_frame:
  "13 \<le> length buf \<Longrightarrow> 13 \<le> o2 \<Longrightarrow> bget o2 n (insert_mlen len buf) = bget o2 n buf"
  by (simp add: insert_mlen_def length_bput bget_bput_after)

lemma hget_insert_mlen [simp]:
  "13 \<le> length buf \<Longrightarrow> 13 \<le> h \<Longrightarrow> hget h f (insert_mlen len buf) = hget h f buf"
  by (simp add: hget_def insert_mlen_frame)

subsection \<open>Well formed messages\<close>

definition mbuf_wf :: "mbuf \<Rightarrow> bool" where
  "mbuf_wf m = (case mb_tp_buf m of None \<Rightarrow> False | Some b \<Rightarrow>
     mb_header m = Some TP_HDR_LEN \<and> mb_payload m = Some (PAYLOAD_ADDR TP_HDR_LEN b)
     \<and> mb_xaction m = Some (TP_HDR_LEN + uta_mhdr_t F_xid)
     \<and> hget TP_HDR_LEN F_len0 b = of_nat MHDR_SIZE
     \<and> int (PAYLOAD_ADDR TP_HDR_LEN b) \<le> mb_alloc_len m
     \<and> mb_alloc_len m \<le> int (length b) \<and> length b < 2 ^ 31)"

lemma mbuf_wfD:
  assumes "mbuf_wf m"
  obtains b where "mb_tp_buf m = Some b" "mb_header m = Some 50" "mb_hdr m = Some (50, b)"
    "mb_payload m = Some (PAYLOAD_ADDR 50 b)" "mb_xaction m = Some 62" "hget 50 F_len0 b = 280"
    "int (PAYLOAD_ADDR 50 b) \<le> mb_alloc_len m" "mb_alloc_len m \<le> int (length b)" "length b < 2 ^ 31"
    "330 \<le> PAYLOAD_ADDR 50 b" "330 \<le> length b"
proof -
  obtain b where b: "mb_tp_buf m = Some b" using assms by (auto simp: mbuf_wf_def split: option.splits)
  have 0: "hget 50 F_len0 b = 280" using assms b by (simp add: mbuf_wf_def)
  then have "330 \<le> PAYLOAD_ADDR 50 b" by (simp add: PAYLOAD_ADDR_def)
  with that b 0 show thesis using assms by (simp add: mbuf_wf_def mb_hdr_def)
qed

lemma mbuf_wf_facts:
  assumes "mbuf_wf m" "mb_tp_buf m = Some b"
  shows "mb_hdr m = Some (50, b)" "mb_payload m = Some (PAYLOAD_ADDR 50 b)" "mb_xaction m = Some 62"
    "hget 50 F_len0 b = 280" "int (PAYLOAD_ADDR 50 b) \<le> mb_alloc_len m" "mb_alloc_len m \<le> int (length b)"
    "length b < 2 ^ 31" "330 \<le> PAYLOAD_ADDR 50 b" "330 \<le> length b"
proof -
  obtain b' where b': "mb_tp_buf m = Some b'" "mb_hdr m = Some (50, b')"
    "mb_payload m = Some (PAYLOAD_ADDR 50 b')" "mb_xaction m = Some 62" "hget 50 F_len0 b' = 280"
    "int (PAYLOAD_ADDR 50 b') \<le> mb_alloc_len m" "mb_alloc_len m \<le> int (length b')" "length b' < 2 ^ 31"
    "330 \<le> PAYLOAD_ADDR 50 b'" "330 \<le> length b'"
    by (rule mbuf_wfD [OF assms(1)])
  have "b' = b" using b'(1) assms(2) by simp
  then show "mb_hdr m = Some (50, b)" "mb_payload m = Some (PAYLOAD_ADDR 50 b)" "mb_xaction m = Some 62"
    "hget 50 F_len0 b = 280" "int (PAYLOAD_ADDR 50 b) \<le> mb_alloc_len m" "mb_alloc_len m \<le> int (length b)"
    "length b < 2 ^ 31" "330 \<le> PAYLOAD_ADDR 50 b" "330 \<le> length b"
    using b' by auto
qed

lemma PAYLOAD_ADDR_sum:
  assumes "PAYLOAD_ADDR h b < 2 ^ 31"
  shows "PAYLOAD_ADDR h b = h + unat (RMR_HDR_LEN h b)"
proof -
  have "unat (hget h F_len0 b) + unat (hget h F_len1 b) + unat (hget h F_len2 b)
      + unat (hget h F_len3 b) < 2 ^ 32"
    using assms by (simp add: PAYLOAD_ADDR_def)
  then have "unat (RMR_HDR_LEN h b) = unat (hget h F_len0 b) + unat (hget h F_len1 b)
      + unat (hget h F_len2 b) + unat (hget h F_len3 b)"
    by (simp add: RMR_HDR_LEN_def unat_word_ariths)
  then show ?thesis by (simp add: PAYLOAD_ADDR_def)
qed

lemma sint_small: "uint (w :: u32) < 2 ^ 31 \<Longrightarrow> sint w = uint w"
proof -
  assume "uint w < 2 ^ 31"
  moreover have "0 \<le> uint w" by simp
  ultimately have "signed_take_bit 31 (uint w) = uint w" by (intro signed_take_bit_int_eq_self) linarith+
  then show ?thesis by (simp add: sint_uint)
qed

lemma to_int32_small: "- (2 ^ 31) \<le> v \<Longrightarrow> v < 2 ^ 31 \<Longrightarrow> to_int32 v = v"
proof -
  assume "- (2 ^ 31) \<le> v" "v < 2 ^ 31"
  then have "signed_take_bit 31 v = v" by (intro signed_take_bit_int_eq_self)
  then show ?thesis by (simp add: to_int32_def signed_of_int)
qed

lemma sint_word_of_int: "- (2 ^ 31) \<le> v \<Longrightarrow> v < 2 ^ 31 \<Longrightarrow> sint (word_of_int v :: i32) = v"
  using to_int32_small by (simp add: to_int32_def)

lemma uint_word_of_int_small: "0 \<le> v \<Longrightarrow> v < 2 ^ 31 \<Longrightarrow> uint (word_of_int v :: u32) = v"
  by (simp add: uint_word_of_int take_bit_int_eq_self)

lemma uint_word64_small: "0 \<le> v \<Longrightarrow> v < 2 ^ 31 \<Longrightarrow> uint (word_of_int v :: u64) = v"
  by (simp add: uint_word_of_int take_bit_int_eq_self)

lemma mbuf_wf_hdr_len:
  assumes "mbuf_wf m" "mb_tp_buf m = Some b"
  shows "PAYLOAD_ADDR 50 b = 50 + unat (RMR_HDR_LEN 50 b)" "unat (RMR_HDR_LEN 50 b) < 2 ^ 31"
    "sint (RMR_HDR_LEN 50 b) = int (PAYLOAD_ADDR 50 b) - 50"
    "uint (RMR_HDR_LEN 50 b) = int (PAYLOAD_ADDR 50 b) - 50"
proof -
  have "int (PAYLOAD_ADDR 50 b) \<le> mb_alloc_len m" "mb_alloc_len m \<le> int (length b)" "length b < 2 ^ 31"
    using assms by (simp_all add: mbuf_wf_def)
  then have l: "PAYLOAD_ADDR 50 b < 2 ^ 31" by linarith
  note s = PAYLOAD_ADDR_sum [OF l]
  show "PAYLOAD_ADDR 50 b = 50 + unat (RMR_HDR_LEN 50 b)" by (rule s)
  show lt: "unat (RMR_HDR_LEN 50 b) < 2 ^ 31" using s l by linarith
  have e: "uint (RMR_HDR_LEN 50 b) = int (unat (RMR_HDR_LEN 50 b))" by (rule uint_nat)
  show u: "uint (RMR_HDR_LEN 50 b) = int (PAYLOAD_ADDR 50 b) - 50" using s e by linarith
  have "uint (RMR_HDR_LEN 50 b) < 2 ^ 31"
    using lt by (simp only: e of_nat_less_numeral_power_cancel_iff)
  from sint_small [OF this] u show "sint (RMR_HDR_LEN 50 b) = int (PAYLOAD_ADDR 50 b) - 50" by (rule trans)
qed

text \<open>The room a well formed message has for its payload.\<close>

lemma payload_size_wf:
  assumes "mbuf_wf m" "mb_tp_buf m = Some b"
  shows "rmr_payload_size (Some m) = mb_alloc_len m - int (PAYLOAD_ADDR 50 b)"
proof -
  note w = mbuf_wf_facts [OF assms]
  then have "mb_alloc_len m < int (2 ^ 31)" by linarith
  then show ?thesis
    using w assms(2) mbuf_wf_hdr_len(4) [OF assms]
    by (simp add: rmr_payload_size_def to_int32_small)
qed

subsection \<open>Fresh messages\<close>

lemma hget_zeroed:
  assumes "int_field f" "h + 280 \<le> length b"
  shows "hget h f (bput h (replicate 280 0) b) = 0"
proof -
  have "bget (h + uta_mhdr_t f) 4 (bput h (replicate 280 0) b) = replicate 4 0"
    using int_field_range [OF assms(1)] assms(2) by (simp add: bget_def bput_def)
  then show ?thesis by (simp add: hget_def un_be32_def)
qed

lemma init_header_spec:
  assumes "330 \<le> length b"
  shows "length (init_header ctx b) = length b"
    "hget 50 F_len0 (init_header ctx b) = 280"
    "hget 50 F_len1 (init_header ctx b) = word_of_int (trace_data_len ctx)"
    "hget 50 F_len2 (init_header ctx b) = word_of_int (d1_len ctx)"
    "hget 50 F_len3 (init_header ctx b) = 0"
    "hget 50 F_rmr_ver (init_header ctx b) = 3"
    "hget 50 F_sub_id (init_header ctx b) = - 1"
  using assms by (simp_all add: init_header_def length_bput hget_zeroed)

text \<open>The lengths a context is configured with.\<close>

definition ctx_lens_ok :: "('c) mb_ctx_scheme \<Rightarrow> int \<Rightarrow> bool" where
  "ctx_lens_ok ctx sz = (0 \<le> trace_data_len ctx \<and> 0 \<le> d1_len ctx \<and> 0 \<le> d2_len ctx \<and> 0 < sz
     \<and> trace_data_len ctx + d1_len ctx + d2_len ctx + sz < 2 ^ 31 - 330)"

lemma unat_word_of_int_small: "0 \<le> v \<Longrightarrow> v < 2 ^ 31 \<Longrightarrow> unat (word_of_int v :: u32) = nat v"
  by (metis uint_word_of_int_small unat_eq_nat_uint)

definition fresh_bytes :: "(nat \<Rightarrow> u8) \<Rightarrow> ('c) mb_ctx_scheme \<Rightarrow> int \<Rightarrow> bytes" where
  "fresh_bytes junk ctx mlen =
     fill_field 50 F_srcip (my_ip ctx) (fill_field 50 F_src (my_name ctx)
       (init_header ctx (insert_mlen (word_of_int mlen) (malloc_block junk mlen))))"

lemma fresh_bytes_spec:
  assumes "330 \<le> mlen"
  shows "length (fresh_bytes junk ctx mlen) = nat mlen"
    "hget 50 F_len0 (fresh_bytes junk ctx mlen) = 280"
    "hget 50 F_len1 (fresh_bytes junk ctx mlen) = word_of_int (trace_data_len ctx)"
    "hget 50 F_len2 (fresh_bytes junk ctx mlen) = word_of_int (d1_len ctx)"
    "hget 50 F_len3 (fresh_bytes junk ctx mlen) = 0"
    "hget 50 F_rmr_ver (fresh_bytes junk ctx mlen) = 3"
    "cstr (bget (50 + uta_mhdr_t F_src) 64 (fresh_bytes junk ctx mlen)) = take 63 (cstr (my_name ctx))"
    "cstr (bget (50 + uta_mhdr_t F_srcip) 64 (fresh_bytes junk ctx mlen)) = take 63 (cstr (my_ip ctx))"
proof -
  let ?b0 = "insert_mlen (word_of_int mlen) (malloc_block junk mlen)"
  let ?b1 = "init_header ctx ?b0"
  let ?b2 = "fill_field 50 F_src (my_name ctx) ?b1"
  have l0: "330 \<le> length ?b0" using assms by simp
  have l: "length ?b1 = nat mlen" "50 + 280 \<le> length ?b1"
    using assms init_header_spec(1) [OF l0, of ctx] by simp_all
  note f1 = fill_field_spec [OF l(2), where f = F_src, simplified]
  have l2: "50 + 280 \<le> length ?b2" using f1(1) l by simp
  note f2 = fill_field_spec [OF l2, where f = F_srcip, simplified]
  show "length (fresh_bytes junk ctx mlen) = nat mlen"
    using f1(1) f2(1) l by (simp add: fresh_bytes_def)
  show "hget 50 F_len0 (fresh_bytes junk ctx mlen) = 280"
    "hget 50 F_len1 (fresh_bytes junk ctx mlen) = word_of_int (trace_data_len ctx)"
    "hget 50 F_len2 (fresh_bytes junk ctx mlen) = word_of_int (d1_len ctx)"
    "hget 50 F_len3 (fresh_bytes junk ctx mlen) = 0"
    "hget 50 F_rmr_ver (fresh_bytes junk ctx mlen) = 3"
    using init_header_spec [OF l0, of ctx] by (simp_all add: fresh_bytes_def f1(3) f2(3))
  show "cstr (bget (50 + uta_mhdr_t F_src) 64 (fresh_bytes junk ctx mlen)) = take 63 (cstr (my_name ctx))"
    "cstr (bget (50 + uta_mhdr_t F_srcip) 64 (fresh_bytes junk ctx mlen)) = take 63 (cstr (my_ip ctx))"
    using f1(2) f2(2) by (simp_all add: fresh_bytes_def f2(4))
qed

lemma alloc_zcmsg_fresh:
  assumes "ring_wf (zcb_mring ctx)" "ring_count (zcb_mring ctx) = 0" "ctx_lens_ok ctx sz" "trlo \<le> 0"
    "alloc_zcmsg True junk ctx None sz state trlo = (r, ctx')"
  defines "mlen \<equiv> 280 + trace_data_len ctx + d1_len ctx + d2_len ctx + sz + 50"
  obtains m where "r = Some m" "ctx' = ctx" "mb_tp_buf m = Some (fresh_bytes junk ctx mlen)" "mbuf_wf m"
    "mb_alloc_len m = mlen" "mb_state m = state" "mb_mtype m = -1" "mb_sub_id m = -1" "mb_len m = 0"
    "mb_flags m = MFL_ZEROCOPY" "mb_rts_fd m = -1"
    "int (PAYLOAD_ADDR 50 (fresh_bytes junk ctx mlen)) = 330 + trace_data_len ctx + d1_len ctx"
proof -
  have z: "uta_ring_extract True (zcb_mring ctx) = (None, zcb_mring ctx)"
    by (simp add: uta_ring_extract_pop assms(1,2))
  have lens: "0 \<le> trace_data_len ctx" "trace_data_len ctx < 2 ^ 31" "0 \<le> d1_len ctx"
    "d1_len ctx < 2 ^ 31" "330 \<le> mlen" "mlen < 2 ^ 31"
    using assms(3) by (auto simp: ctx_lens_ok_def mlen_def)
  let ?b = "fresh_bytes junk ctx mlen"
  let ?b1 = "init_header ctx (insert_mlen (word_of_int mlen) (malloc_block junk mlen))"
  have "330 \<le> length (insert_mlen (word_of_int mlen) (malloc_block junk mlen))" using lens by simp
  note i = init_header_spec [OF this, of ctx]
  have p1: "PAYLOAD_ADDR 50 ?b1 = 50 + 280 + nat (trace_data_len ctx) + nat (d1_len ctx)"
    unfolding PAYLOAD_ADDR_def i using lens by (simp add: unat_word_of_int_small)
  have p: "PAYLOAD_ADDR 50 ?b = PAYLOAD_ADDR 50 ?b1"
    unfolding PAYLOAD_ADDR_def i fresh_bytes_spec [OF lens(5)] ..
  let ?m = "mbuf_zero\<lparr>mb_rts_fd := -1, mb_tp_buf := Some ?b, mb_header := Some TP_HDR_LEN,
     mb_len := 0, mb_cookie := 0x4942, mb_alloc_len := mlen, mb_sub_id := -1, mb_mtype := -1,
     mb_payload := Some (PAYLOAD_ADDR 50 ?b), mb_xaction := Some (TP_HDR_LEN + uta_mhdr_t F_xid),
     mb_state := state, mb_flags := MFL_ZEROCOPY, mb_ring := True\<rparr>"
  have "(Some ?m, ctx) = (r, ctx')"
    unfolding assms(5) [symmetric] alloc_zcmsg_def fresh_bytes_def mlen_def
    using assms(3,4) z p [unfolded fresh_bytes_def mlen_def]
    by (simp add: Let_def ctx_lens_ok_def mbuf_zero_def)
  moreover have pa: "int (PAYLOAD_ADDR 50 ?b) = 330 + trace_data_len ctx + d1_len ctx"
    using p p1 lens by simp
  moreover have "int (PAYLOAD_ADDR 50 ?b) \<le> mlen"
    using assms(3) unfolding pa by (simp add: ctx_lens_ok_def mlen_def)
  then have "mbuf_wf ?m"
    using lens(5,6) fresh_bytes_spec(1,2) [OF lens(5), of junk ctx] by (simp add: mbuf_wf_def nat_less_iff)
  ultimately show thesis
    by (intro that [of ?m]) (auto simp: mbuf_zero_def)
qed

subsection \<open>Lemmas on the managed element id\<close>

lemma bput_upd_end:
  "off + length s < length b \<Longrightarrow> (bput off s b)[off + length s := v] = bput off (s @ [v]) b"
  by (rule nth_equalityI) (auto simp: bput_nth length_bput nth_list_update nth_append)

lemma bput_upd_in:
  "off + length s \<le> length b \<Longrightarrow> i < length s \<Longrightarrow> (bput off s b)[off + i := v] = bput off (s[i := v]) b"
  by (rule nth_equalityI) (auto simp: bput_nth length_bput nth_list_update)

lemma cstr_append_0: "cstr (xs @ 0 # r) = cstr xs"
  unfolding cstr_def by (induction xs) auto

lemma upd_last_take: "length x = Suc n \<Longrightarrow> x[n := v] = take n x @ [v]"
  by (simp add: upd_conv_take_nth_drop)

lemma cstr_bget_put:
  "off + length s \<le> length b \<Longrightarrow> 0 \<in> set s \<Longrightarrow> length s \<le> n \<Longrightarrow> cstr (bget off n (bput off s b)) = cstr s"
proof -
  assume a: "off + length s \<le> length b" "0 \<in> set s" "length s \<le> n"
  have "bget off n (bput off s b) = s @ bget (off + length s) (n - length s) (bput off s b)"
    using a by (simp add: bget_def bput_def)
  moreover have "cstr (s @ r) = cstr s" for r
    using a(2) unfolding cstr_def by (induction s) auto
  ultimately show ?thesis by simp
qed

lemma bytes2meid_spec:
  assumes wf: "mbuf_wf m" "mb_tp_buf m = Some b" and len: "0 \<le> len" "min len 32 \<le> int (length s)"
  obtains t where "rmr_bytes2meid (Some m) (Some s) len =
      Some (min len 32, if len > 32 \<or> len = 32 \<and> s ! 31 \<noteq> 0 then EOVERFLOW else E0,
        Some (m\<lparr>mb_tp_buf := Some (bput 190 t b)\<rparr>))"
    "0 \<in> set t" "cstr t = cstr (take (min (nat len) 31) s)" "length t \<le> 32"
proof -
  note h = mbuf_wf_facts(1) [OF wf] and l = mbuf_wf_facts(9) [OF wf]
  define n where "n = min (nat len) 32"
  define u where "u = take n s"
  have n: "min len 32 = int n" "n \<le> 32" "length u = n" using len by (auto simp: n_def u_def)
  have cp: "memcpy b 190 s 0 (int n) = Some (bput 190 u b)"
    using n l len(2) by (simp add: memcpy_def bget_def u_def)
  have lb: "190 + length u \<le> length b" using l n by simp
  show thesis
  proof (cases "n = 32")
    case False
    then have lt: "len < 32" "nat len = n" using n(1) len by auto
    have "(bput 190 u b)[190 + n := 0] = bput 190 (u @ [0]) b"
      using bput_upd_end [of 190 u b 0] l n by simp
    then show thesis
      using that [of "u @ [0]"] h cp lt n len
      by (simp add: rmr_bytes2meid_def Let_def cstr_append_0 min_def u_def)
  next
    case True
    have x: "bput 190 u b ! 221 = u ! 31" using n True l lb by (simp add: bput_nth)
    have us: "u ! 31 = s ! 31" using True len n by (simp add: u_def)
    have up: "(bput 190 u b)[221 := 0] = bput 190 (u[31 := 0]) b"
      using bput_upd_in [OF lb, of 31 0] n True by simp
    have ut: "u[31 := 0] = take 31 u @ [0]" using upd_last_take [of u 31] n True by simp
    have t31: "take 31 u = take 31 s" using True by (simp add: u_def)
    have ge: "len \<ge> 32" using True n(1) by auto
    have m31: "min (nat len) 31 = 31" using ge by simp
    show thesis
    proof (cases "s ! 31 = 0")
      case False
      then show thesis
        using that [of "u[31 := 0]"] h cp ge n True x us up ut t31 m31
        by (cases "len = 32") (simp_all add: rmr_bytes2meid_def Let_def cstr_append_0)
    next
      case s0: True
      have uu: "u = take 31 u @ [0]" using ut us s0 by (metis list_update_id)
      then have "cstr u = cstr (take 31 s)" "0 \<in> set u"
        using t31 by (metis cstr_append_0, metis in_set_conv_decomp)
      then show thesis
        using that [of u] h cp ge n True x us s0 m31
        by (cases "len = 32") (simp_all add: rmr_bytes2meid_def Let_def)
    qed
  qed
qed

subsection \<open>Lemmas on the trace area\<close>

text \<open>A copy that stays behind the fixed header leaves the header fields alone.\<close>

lemma memcpy_behind:
  assumes "memcpy b (int d) s (int o2) n = Some b'" "330 \<le> d" "330 \<le> length b"
  shows "length b' = length b" "int_field f \<Longrightarrow> hget 50 f b' = hget 50 f b"
    "bget d (nat n) b' = bget o2 (nat n) s" "x + k \<le> d \<Longrightarrow> bget x k b' = bget x k b"
proof -
  have n: "0 \<le> n" "int d + n \<le> int (length b)" "int o2 + n \<le> int (length s)"
    "b' = bput d (bget o2 (nat n) s) b"
    using assms(1) unfolding memcpy_def by (simp_all split: if_splits)
  then have l: "length (bget o2 (nat n) s) = nat n" "d + nat n \<le> length b"
    by (auto simp: length_bget)
  show "length b' = length b" using n l by (simp add: length_bput)
  show "bget d (nat n) b' = bget o2 (nat n) s" using n l by (simp add: bget_bput_same)
  show "x + k \<le> d \<Longrightarrow> bget x k b' = bget x k b" using n l by (simp add: bget_bput_before)
  assume "int_field f"
  then have "50 + uta_mhdr_t f + 4 \<le> d" using int_field_range [of f] assms(2) by linarith
  then show "hget 50 f b' = hget 50 f b" using n l by (simp add: hget_def bget_bput_before)
qed

lemma copy_area_behind:
  assumes "copy_area n d o2 ob b = Some b'" "330 \<le> d" "330 \<le> length b"
  shows "length b' = length b" "int_field f \<Longrightarrow> hget 50 f b' = hget 50 f b"
    "x + k \<le> d \<Longrightarrow> bget x k b' = bget x k b"
proof -
  consider "b' = b" | "memcpy b (int d) ob (int o2) (uint n) = Some b'"
    using assms(1) unfolding copy_area_def by (cases "n = 0") simp_all
  then have "length b' = length b \<and> (int_field f \<longrightarrow> hget 50 f b' = hget 50 f b) \<and>
      (x + k \<le> d \<longrightarrow> bget x k b' = bget x k b)"
  proof cases
    case 2
    note m = memcpy_behind [OF 2 assms(2,3)]
    show ?thesis by (intro conjI impI m)
  qed simp
  then show "length b' = length b" "int_field f \<Longrightarrow> hget 50 f b' = hget 50 f b"
    "x + k \<le> d \<Longrightarrow> bget x k b' = bget x k b" by simp_all
qed

lemma copy_area_ok:
  "d + unat n \<le> length b \<Longrightarrow> o2 + unat n \<le> length ob \<Longrightarrow> \<exists>b'. copy_area n d o2 ob b = Some b'"
proof -
  assume "d + unat n \<le> length b" "o2 + unat n \<le> length ob"
  then have "int d + uint n \<le> int (length b)" "int o2 + uint n \<le> int (length ob)"
    unfolding uint_nat by linarith+
  then show ?thesis by (simp add: copy_area_def memcpy_def)
qed

text \<open>
  The fields of the header after the trace area was given another size, and where its payload
  went.
\<close>

lemma realloc_msg_spec:
  assumes wf: "mbuf_wf m" "mb_tp_buf m = Some b"
    and len: "0 \<le> mb_len m" "int (PAYLOAD_ADDR 50 b) + mb_len m \<le> mb_alloc_len m"
    and sz: "0 < sz" "mb_alloc_len m + sz - uint (RMR_TR_LEN 50 b) + 50 < 2 ^ 31"
  obtains nm nb where "realloc_msg junk m sz = Some nm" "mb_tp_buf nm = Some nb" "mb_header nm = Some 50"
    "mb_xaction nm = Some 62" "mb_payload nm = Some (PAYLOAD_ADDR 50 nb)"
    "int (PAYLOAD_ADDR 50 nb) = int (PAYLOAD_ADDR 50 b) + sz - uint (RMR_TR_LEN 50 b)"
    "int (length nb) = mb_alloc_len m + sz - uint (RMR_TR_LEN 50 b) + 50"
    "hget 50 F_len0 nb = 280" "hget 50 F_len1 nb = word_of_int sz"
    "hget 50 F_len2 nb = hget 50 F_len2 b" "hget 50 F_len3 nb = hget 50 F_len3 b"
    "bget (PAYLOAD_ADDR 50 nb) (nat (mb_len m)) nb = bget (PAYLOAD_ADDR 50 b) (nat (mb_len m)) b"
    "mb_alloc_len nm = mb_alloc_len m + sz - uint (RMR_TR_LEN 50 b)"
proof -
  note h = mbuf_wf_facts(1) [OF wf] and p = mbuf_wf_facts(2) [OF wf] and l0 = mbuf_wf_facts(4) [OF wf]
    and al = mbuf_wf_facts(5,6,7,9) [OF wf]
  define tr d1 d2 where "tr = unat (hget 50 F_len1 b)" and "d1 = unat (hget 50 F_len2 b)" and "d2 = unat (hget 50 F_len3 b)"
  have P: "PAYLOAD_ADDR 50 b = 330 + tr + d1 + d2" by (simp add: PAYLOAD_ADDR_def l0 tr_def d1_def d2_def)
  have utr: "uint (RMR_TR_LEN 50 b) = int tr" by (simp add: RMR_TR_LEN_def tr_def)
  have "int tr < int (2 ^ 31)" using al P by linarith
  then have str: "sint (RMR_TR_LEN 50 b) = int tr" using sint_small [of "RMR_TR_LEN 50 b"] utr by simp
  define mlen where "mlen = mb_alloc_len m + (sz - int tr)"
  have "int tr \<le> mb_alloc_len m" "0 \<le> mb_alloc_len m" using len P by linarith+
  then have szl: "sz < 2 ^ 31" "in_int32 (sz - int tr)" "in_int32 mlen" "in_int32 (mlen + 50)"
    using sz \<open>int tr < int (2 ^ 31)\<close> utr by (simp_all add: in_int32_def mlen_def)
  define b0 where "b0 = insert_mlen (word_of_int (mlen + 50)) (malloc_block junk (mlen + 50))"
  have ml: "330 + sz + int d1 + int d2 + mb_len m \<le> mlen" using len P by (simp add: mlen_def)
  have lb0: "length b0 = nat (mlen + 50)" "330 \<le> length b0" using ml sz len by (simp_all add: b0_def)
  have room: "330 + nat sz + d1 + d2 \<le> length b0" "330 + tr + d1 + d2 \<le> length b"
    using ml lb0 len(1) sz(1) al(1,2) P by linarith+
  define b1 where "b1 = bput 50 (bget 50 280 b) b0"
  have c1: "memcpy b0 50 b 50 280 = Some b1" using lb0 al by (simp add: memcpy_def b1_def)
  have lb1: "length b1 = length b0" using lb0 al by (simp add: b1_def length_bput length_bget)
  have f1: "hget 50 f b1 = hget 50 f b" if "int_field f" for f
  proof -
    have "bget (50 + uta_mhdr_t f) 4 b1 = bget (uta_mhdr_t f) 4 (bget 50 280 b)"
      unfolding b1_def using bget_bput_inside [of 50 "bget 50 280 b" b0 "50 + uta_mhdr_t f" 4]
        int_field_range [OF that] lb0 al(4) by (simp add: length_bget)
    also have "\<dots> = bget (50 + uta_mhdr_t f) 4 b"
      using int_field_range [OF that] by (intro bget_bget) simp
    finally have "bget (50 + uta_mhdr_t f) 4 b1 = bget (50 + uta_mhdr_t f) 4 b" .
    then show ?thesis by (simp add: hget_def)
  qed
  define b2 where "b2 = hset 50 F_len1 (word_of_int sz) b1"
  have lb2: "length b2 = length b0" "330 \<le> length b2" using lb0 lb1 by (simp_all add: b2_def)
  have f2: "hget 50 F_len0 b2 = 280" "hget 50 F_len1 b2 = word_of_int sz"
    "hget 50 F_len2 b2 = hget 50 F_len2 b" "hget 50 F_len3 b2 = hget 50 F_len3 b"
    using lb0 lb1 f1 l0 by (simp_all add: b2_def)
  have usz: "unat (word_of_int sz :: u32) = nat sz" using sz(1) szl(1) by (simp add: unat_word_of_int_small)
  have A1: "DATA1_ADDR 50 b2 = 330 + nat sz" "DATA1_ADDR 50 b = 330 + tr"
    by (simp_all add: DATA1_ADDR_def f2 usz l0 tr_def)
  obtain b3 where c3: "copy_area (RMR_D1_LEN 50 b2) (DATA1_ADDR 50 b2) (DATA1_ADDR 50 b) b b2 = Some b3"
    using copy_area_ok [of "DATA1_ADDR 50 b2" "RMR_D1_LEN 50 b2" b2 "DATA1_ADDR 50 b" b]
      A1 lb2 room by (auto simp: RMR_D1_LEN_def f2 simp flip: d1_def)
  note k3 = copy_area_behind [OF c3 _ lb2(2), unfolded A1(1), simplified]
  have f3: "hget 50 F_len0 b3 = 280" "hget 50 F_len1 b3 = word_of_int sz"
    "hget 50 F_len2 b3 = hget 50 F_len2 b" "hget 50 F_len3 b3 = hget 50 F_len3 b"
    using k3(2) f2 by simp_all
  have lb3: "length b3 = length b0" "330 \<le> length b3" using k3(1) lb2 by simp_all
  have A2: "DATA2_ADDR 50 b3 = 330 + nat sz + d1" "DATA2_ADDR 50 b = 330 + tr + d1"
    by (simp_all add: DATA2_ADDR_def f3 usz l0 tr_def d1_def)
  obtain b4 where c4: "copy_area (RMR_D2_LEN 50 b3) (DATA2_ADDR 50 b3) (DATA2_ADDR 50 b) b b3 = Some b4"
    using copy_area_ok [of "DATA2_ADDR 50 b3" "RMR_D2_LEN 50 b3" b3 "DATA2_ADDR 50 b" b]
      A2 lb3 room by (auto simp: RMR_D2_LEN_def f3 simp flip: d2_def)
  note k4 = copy_area_behind [OF c4 _ lb3(2), unfolded A2(1), simplified]
  have f4: "hget 50 F_len0 b4 = 280" "hget 50 F_len1 b4 = word_of_int sz"
    "hget 50 F_len2 b4 = hget 50 F_len2 b" "hget 50 F_len3 b4 = hget 50 F_len3 b"
    using k4(2) f3 by simp_all
  have lb4: "length b4 = length b0" "330 \<le> length b4" using k4(1) lb3 by simp_all
  have P4: "PAYLOAD_ADDR 50 b4 = 330 + nat sz + d1 + d2"
    by (simp add: PAYLOAD_ADDR_def f4 usz d1_def d2_def)
  obtain b5 where c5: "memcpy b4 (int (PAYLOAD_ADDR 50 b4)) b (int (PAYLOAD_ADDR 50 b)) (mb_len m) = Some b5"
    using len al lb4 lb0 ml sz P4 by (simp add: memcpy_def)
  note k5 = memcpy_behind [OF c5 _ lb4(2), unfolded P4, simplified]
  have f5: "hget 50 F_len0 b5 = 280" "hget 50 F_len1 b5 = word_of_int sz"
    "hget 50 F_len2 b5 = hget 50 F_len2 b" "hget 50 F_len3 b5 = hget 50 F_len3 b"
    using k5(2) f4 by simp_all
  have P5: "PAYLOAD_ADDR 50 b5 = PAYLOAD_ADDR 50 b4" by (simp add: PAYLOAD_ADDR_def f4 f5)
  have "realloc_msg junk m sz = Some (mbuf_zero\<lparr>mb_header := Some 50, mb_tp_buf := Some b5,
      mb_payload := Some (PAYLOAD_ADDR 50 b5), mb_mtype := mb_mtype m, mb_sub_id := mb_sub_id m,
      mb_len := mb_len m, mb_alloc_len := mlen, mb_xaction := Some 62, mb_state := mb_state m,
      mb_flags := mb_flags m OR MFL_ZEROCOPY\<rparr>)"
    using c1 c3 c4 c5 P5 h p unfolding b0_def b2_def mlen_def
    using szl by (simp add: realloc_msg_def Let_def str mlen_def)
  then show thesis
    by (rule that [where nb = b5]) (use f5 P5 P4 P k5(1,3) lb4 lb0 ml len sz utr in \<open>simp_all add: mlen_def\<close>)
qed

lemma trace_fits:
  assumes "mbuf_wf m" "mb_tp_buf m = Some b" "0 \<le> mb_len m" "int (PAYLOAD_ADDR 50 b) + mb_len m \<le> mb_alloc_len m"
    and "mb_alloc_len m + sz - uint (RMR_TR_LEN 50 b) + 50 < 2 ^ 31"
  shows "sz < 2 ^ 31"
proof -
  have "uint (RMR_TR_LEN 50 b) \<le> int (PAYLOAD_ADDR 50 b)"
    by (simp add: PAYLOAD_ADDR_def RMR_TR_LEN_def)
  then show ?thesis using assms(3-5) by linarith
qed

lemma set_trace_spec:
  assumes wf: "mbuf_wf m" "mb_tp_buf m = Some b"
    and len: "0 \<le> mb_len m" "int (PAYLOAD_ADDR 50 b) + mb_len m \<le> mb_alloc_len m"
    and sz: "0 < sz" "mb_alloc_len m + sz - uint (RMR_TR_LEN 50 b) + 50 < 2 ^ 31" "sz \<le> int (length data)"
  obtains m' b' where "rmr_set_trace junk (Some m) data sz = Some (sz, E0, Some m')"
    "mb_tp_buf m' = Some b'" "mb_hdr m' = Some (50, b')" "mb_payload m' = Some (PAYLOAD_ADDR 50 b')"
    "RMR_TR_LEN 50 b' = word_of_int sz" "TRACE_ADDR 50 b' = 330"
    "bget 330 (nat sz) b' = take (nat sz) data"
    "bget (PAYLOAD_ADDR 50 b') (nat (mb_len m)) b' = bget (PAYLOAD_ADDR 50 b) (nat (mb_len m)) b"
    "mb_len m' = mb_len m" "mb_alloc_len m' = mb_alloc_len m"
    "int (PAYLOAD_ADDR 50 b') = int (PAYLOAD_ADDR 50 b) + sz - uint (RMR_TR_LEN 50 b)"
proof -
  note w = mbuf_wf_facts [OF wf]
  have szl: "sz < 2 ^ 31" by (rule trace_fits [OF wf len sz(2)])
  obtain m1 b1 where m1: "(if sint (RMR_TR_LEN 50 b) \<noteq> sz
        then map_option (\<lambda>nm. m\<lparr>mb_tp_buf := mb_tp_buf nm, mb_header := mb_header nm,
               mb_xaction := mb_xaction nm, mb_payload := mb_payload nm\<rparr>) (realloc_msg junk m sz)
        else Some m) = Some m1"
      "mb_hdr m1 = Some (50, b1)" "mb_payload m1 = Some (PAYLOAD_ADDR 50 b1)"
      "mb_len m1 = mb_len m" "mb_alloc_len m1 = mb_alloc_len m"
      "int (PAYLOAD_ADDR 50 b1) = int (PAYLOAD_ADDR 50 b) + sz - uint (RMR_TR_LEN 50 b)"
      "hget 50 F_len0 b1 = 280" "hget 50 F_len1 b1 = word_of_int sz"
      "bget (PAYLOAD_ADDR 50 b1) (nat (mb_len m)) b1 = bget (PAYLOAD_ADDR 50 b) (nat (mb_len m)) b"
      "330 \<le> length b1" "330 + sz \<le> int (length b1)" "330 + sz \<le> int (PAYLOAD_ADDR 50 b1)"
  proof (cases "sint (RMR_TR_LEN 50 b) = sz")
    case True
    then have tr: "RMR_TR_LEN 50 b = word_of_int sz" by (auto simp flip: True)
    then have u: "uint (RMR_TR_LEN 50 b) = sz" using sz(1) szl by (simp add: uint_word_of_int_small)
    have "330 + sz \<le> int (PAYLOAD_ADDR 50 b)"
      using u by (simp add: PAYLOAD_ADDR_def w RMR_TR_LEN_def)
    then show thesis using that [of m b] True w tr u by (simp add: RMR_TR_LEN_def)
  next
    case False
    obtain nm nb where r: "realloc_msg junk m sz = Some nm" "mb_tp_buf nm = Some nb" "mb_header nm = Some 50"
      "mb_xaction nm = Some 62" "mb_payload nm = Some (PAYLOAD_ADDR 50 nb)"
      "int (PAYLOAD_ADDR 50 nb) = int (PAYLOAD_ADDR 50 b) + sz - uint (RMR_TR_LEN 50 b)"
      "int (length nb) = mb_alloc_len m + sz - uint (RMR_TR_LEN 50 b) + 50"
      "hget 50 F_len0 nb = 280" "hget 50 F_len1 nb = word_of_int sz"
      "hget 50 F_len2 nb = hget 50 F_len2 b" "hget 50 F_len3 nb = hget 50 F_len3 b"
      "bget (PAYLOAD_ADDR 50 nb) (nat (mb_len m)) nb = bget (PAYLOAD_ADDR 50 b) (nat (mb_len m)) b"
      "mb_alloc_len nm = mb_alloc_len m + sz - uint (RMR_TR_LEN 50 b)"
      by (rule realloc_msg_spec [OF wf len sz(1,2), of junk])
    have p: "330 + sz \<le> int (PAYLOAD_ADDR 50 nb)"
      using sz(1) szl by (simp add: PAYLOAD_ADDR_def r unat_word_of_int_small)
    moreover have "int (PAYLOAD_ADDR 50 nb) \<le> int (length nb)" using r(6,7) len by linarith
    ultimately have "330 + sz \<le> int (length nb)" by linarith
    then show thesis
      using that [of "m\<lparr>mb_tp_buf := mb_tp_buf nm, mb_header := mb_header nm,
          mb_xaction := mb_xaction nm, mb_payload := mb_payload nm\<rparr>" nb] False r p sz(1)
      by (simp add: mb_hdr_def)
  qed
  have T: "TRACE_ADDR 50 b1 = 330" by (simp add: TRACE_ADDR_def m1)
  obtain b2 where c: "memcpy b1 (int 330) data (int 0) sz = Some b2"
    using sz m1(11) by (simp add: memcpy_def)
  note k = memcpy_behind [OF c le_refl m1(10)]
  have fl: "hget 50 f b2 = hget 50 f b1" if "int_field f" for f using k(2) that by blast
  have PA: "PAYLOAD_ADDR 50 b2 = PAYLOAD_ADDR 50 b1" by (simp add: PAYLOAD_ADDR_def fl)
  have b2: "b2 = bput 330 (take (nat sz) data) b1"
    using c sz by (simp add: memcpy_def bget_def split: if_splits)
  have pl: "bget (PAYLOAD_ADDR 50 b1) (nat (mb_len m)) b2 = bget (PAYLOAD_ADDR 50 b1) (nat (mb_len m)) b1"
    unfolding b2 using m1(11,12) sz by (intro bget_bput_after) auto
  have h: "mb_header m1 = Some 50" using m1(2) by (auto simp: mb_hdr_def split: option.splits)
  show thesis
  proof (rule that [where m' = "m1\<lparr>mb_tp_buf := Some b2\<rparr>" and b' = b2])
    show "rmr_set_trace junk (Some m) data sz = Some (sz, E0, Some (m1\<lparr>mb_tp_buf := Some b2\<rparr>))"
      using w(1) sz(1) m1(1,2) c T by (simp add: rmr_set_trace_def)
    show "bget 330 (nat sz) b2 = take (nat sz) data" using k(3) by (simp add: bget_def)
  qed (use m1 PA fl pl h in \<open>simp_all add: RMR_TR_LEN_def TRACE_ADDR_def mb_hdr_def\<close>)
qed

lemma alloc_msg_spec:
  assumes "ring_wf (zcb_mring ctx)" "ring_count (zcb_mring ctx) = 0" "ctx_lens_ok ctx sz"
    "rmr_alloc_msg True junk ctx sz = (r, ctx')"
  shows "\<exists>m b. r = Some m \<and> ctx' = ctx \<and> mbuf_wf m \<and> mb_tp_buf m = Some b
    \<and> rmr_payload_size r = sz + d2_len ctx
    \<and> mb_mtype m = -1 \<and> mb_sub_id m = -1 \<and> mb_len m = 0
    \<and> RMR_TR_LEN 50 b = word_of_int (trace_data_len ctx)
    \<and> cstr (bget (50 + uta_mhdr_t F_src) 64 b) = take 63 (cstr (my_name ctx))
    \<and> cstr (bget (50 + uta_mhdr_t F_srcip) 64 b) = take 63 (cstr (my_ip ctx))"
proof -
  let ?mlen = "280 + trace_data_len ctx + d1_len ctx + d2_len ctx + sz + 50"
  obtain m where m: "r = Some m" "ctx' = ctx" "mb_tp_buf m = Some (fresh_bytes junk ctx ?mlen)" "mbuf_wf m"
    "mb_alloc_len m = ?mlen" "mb_state m = 0" "mb_mtype m = -1" "mb_sub_id m = -1" "mb_len m = 0"
    "mb_flags m = MFL_ZEROCOPY" "mb_rts_fd m = -1"
    "int (PAYLOAD_ADDR 50 (fresh_bytes junk ctx ?mlen)) = 330 + trace_data_len ctx + d1_len ctx"
    by (rule alloc_zcmsg_fresh [OF assms(1-3) _ assms(4) [unfolded rmr_alloc_msg_def]]) simp_all
  have "330 \<le> ?mlen" using assms(3) by (simp add: ctx_lens_ok_def)
  note f = fresh_bytes_spec [OF this, of junk ctx]
  have "rmr_payload_size r = sz + d2_len ctx" using payload_size_wf [OF m(4,3)] m(1,5,12) by simp
  then show ?thesis using m f by (intro exI [of _ m] exI [of _ "fresh_bytes junk ctx ?mlen"]) (simp add: RMR_TR_LEN_def)
qed

subsection \<open>Properties\<close>

text \<open>
  The size field of the transport header can be read back, also by and from older versions of
  the library: a message sized by this version reports its length, and one that an old version
  returned after changing only the native integer reports the length that version wrote.
\<close>

theorem mlen_roundtrip:
  assumes "13 \<le> length buf"
  shows "extract_mlen (insert_mlen len buf) = len
    \<and> extract_mlen (bput 0 (le32 old) (insert_mlen len buf)) = old
    \<and> (\<forall>o2 n. 13 \<le> o2 \<longrightarrow> bget o2 n (insert_mlen len buf) = bget o2 n buf)"
proof -
  have m: "insert_mlen len buf ! 8 = 36" using assms by (simp add: insert_mlen_def bput_nth length_bput)
  have 1: "bget 0 4 (insert_mlen len buf) = le32 len" and 2: "bget 4 4 (insert_mlen len buf) = be32 len"
    using assms by (simp_all add: insert_mlen_def length_bput bget_bput_before bget_bput_same bget_bput_after)
  have "extract_mlen (insert_mlen len buf) = len" by (simp add: extract_mlen_def m 1 2)
  moreover have l: "length (insert_mlen len buf) = length buf" using assms by simp
  have "bput 0 (le32 old) (insert_mlen len buf) ! 8 = 36"
    using assms m by (subst bput_nth) (simp_all add: l)
  moreover have "bget 0 4 (bput 0 (le32 old) (insert_mlen len buf)) = le32 old"
    using assms by (intro bget_bput_same) (simp_all add: l)
  ultimately show ?thesis using insert_mlen_frame [OF assms] by (simp add: extract_mlen_def Let_def)
qed

theorem mlen_roundtrip_witness: "extract_mlen (insert_mlen 4660 (replicate 60 7)) = 4660"
  using mlen_roundtrip [of "replicate 60 7" 4660] by simp

text \<open>
  A message allocated by \<open>rmr_alloc_msg\<close> is well formed, has the room for payload that was
  asked for, no type, no subscription and no payload, and carries the name and the address of this
  process as its source.
\<close>

theorem alloc_msg_correct:
  assumes "ring_wf (zcb_mring ctx)" "ring_count (zcb_mring ctx) = 0" "ctx_lens_ok ctx sz"
    "rmr_alloc_msg True junk ctx sz = (r, ctx')"
  shows "\<exists>m b. r = Some m \<and> ctx' = ctx \<and> mbuf_wf m \<and> mb_tp_buf m = Some b
    \<and> rmr_payload_size r = sz + d2_len ctx
    \<and> mb_mtype m = -1 \<and> mb_sub_id m = -1 \<and> mb_len m = 0
    \<and> RMR_TR_LEN 50 b = word_of_int (trace_data_len ctx)
    \<and> cstr (bget (50 + uta_mhdr_t F_src) 64 b) = take 63 (cstr (my_name ctx))
    \<and> cstr (bget (50 + uta_mhdr_t F_srcip) 64 b) = take 63 (cstr (my_ip ctx))"
  by (rule alloc_msg_spec [OF assms])

definition demo_mb_ctx :: mb_ctx where
  "demo_mb_ctx = \<lparr>my_name = [104, 58, 49], my_ip = [49, 58, 49], max_plen = 2048, trace_data_len = 8,
     d1_len = 4, d2_len = 0, zcb_mring = the (uta_mk_ring True True 128)\<rparr>"

lemma demo_mb_ctx_ok:
  "ring_wf (zcb_mring demo_mb_ctx)" "ring_count (zcb_mring demo_mb_ctx) = 0" "ctx_lens_ok demo_mb_ctx 100"
proof -
  have mk: "uta_mk_ring True True 128 = Some (the (uta_mk_ring True True 128 :: mbuf ring option))"
    by (simp add: uta_mk_ring_def Let_def)
  note r = uta_mk_ring_ok [OF mk]
  show "ring_wf (zcb_mring demo_mb_ctx)" using r(1) by (simp add: demo_mb_ctx_def ring_ok_def)
  then show "ring_count (zcb_mring demo_mb_ctx) = 0"
    using r(2) length_ring_abs [of "zcb_mring demo_mb_ctx"] by (simp add: demo_mb_ctx_def)
qed (simp add: demo_mb_ctx_def ctx_lens_ok_def)

theorem alloc_msg_correct_witness:
  "rmr_payload_size (fst (rmr_alloc_msg True (\<lambda>_. 170) demo_mb_ctx 100)) = 100"
  using alloc_msg_correct [OF demo_mb_ctx_ok, of "\<lambda>_. 170" "fst (rmr_alloc_msg True (\<lambda>_. 170) demo_mb_ctx 100)"
      "snd (rmr_alloc_msg True (\<lambda>_. 170) demo_mb_ctx 100)"]
  by (auto simp: demo_mb_ctx_def)

text \<open>
  Setting the managed element id never leaves its field and always leaves text in it: for any
  length and source the id afterwards is the source cut to 31 characters, every byte of the buffer
  outside of the field is unchanged, and \<^verbatim>\<open>EOVERFLOW\<close> says whether something was cut.
\<close>

theorem bytes2meid_safe:
  assumes "mbuf_wf m" "mb_tp_buf m = Some b" "0 \<le> len" "min len 32 \<le> int (length s)"
  shows "\<exists>e b'. rmr_bytes2meid (Some m) (Some s) len = Some (min len 32, e, Some (m\<lparr>mb_tp_buf := Some b'\<rparr>))
    \<and> cstr (bget (50 + uta_mhdr_t F_meid) 32 b') = cstr (take (min (nat len) 31) s)
    \<and> (e = EOVERFLOW) = (len > 32 \<or> len = 32 \<and> s ! 31 \<noteq> 0)
    \<and> length b' = length b
    \<and> (\<forall>o2 n. o2 + n \<le> 50 + uta_mhdr_t F_meid \<or> 50 + uta_mhdr_t F_meid + 32 \<le> o2 \<longrightarrow> bget o2 n b' = bget o2 n b)"
proof -
  obtain t where t: "rmr_bytes2meid (Some m) (Some s) len =
      Some (min len 32, if len > 32 \<or> len = 32 \<and> s ! 31 \<noteq> 0 then EOVERFLOW else E0,
        Some (m\<lparr>mb_tp_buf := Some (bput 190 t b)\<rparr>))"
    "0 \<in> set t" "cstr t = cstr (take (min (nat len) 31) s)" "length t \<le> 32"
    by (rule bytes2meid_spec [OF assms])
  have l: "190 + length t \<le> length b" using t(4) mbuf_wf_facts(9) [OF assms(1,2)] by simp
  have c: "cstr (bget 190 32 (bput 190 t b)) = cstr (take (min (nat len) 31) s)"
    using cstr_bget_put [OF l t(2,4)] t(3) by simp
  have f: "bget o2 n (bput 190 t b) = bget o2 n b" if "o2 + n \<le> 190 \<or> 222 \<le> o2" for o2 n
    by (rule bget_bput_other [OF l]) (use that t(4) in linarith)
  show ?thesis
    by (intro exI [of _ "if len > 32 \<or> len = 32 \<and> s ! 31 \<noteq> 0 then EOVERFLOW else E0"]
        exI [of _ "bput 190 t b"]) (use t(1) c f l in \<open>simp add: length_bput\<close>)
qed

definition demo_msg :: mbuf where
  "demo_msg = the (fst (rmr_alloc_msg True (\<lambda>_. 170) demo_mb_ctx 100))"

lemma demo_msg_wf:
  obtains b where "mbuf_wf demo_msg" "mb_tp_buf demo_msg = Some b" "mb_len demo_msg = 0"
    "RMR_TR_LEN 50 b = 8" "rmr_payload_size (Some demo_msg) = 100"
  using alloc_msg_spec [OF demo_mb_ctx_ok, of "\<lambda>_. 170" "fst (rmr_alloc_msg True (\<lambda>_. 170) demo_mb_ctx 100)"
      "snd (rmr_alloc_msg True (\<lambda>_. 170) demo_mb_ctx 100)"] that
  by (auto simp: demo_msg_def demo_mb_ctx_def)

lemma demo_msg_len: "mb_alloc_len demo_msg = 442"
proof -
  obtain m where "fst (rmr_alloc_msg True (\<lambda>_. 170) demo_mb_ctx 100) = Some m"
    "mb_alloc_len m = 280 + trace_data_len demo_mb_ctx + d1_len demo_mb_ctx + d2_len demo_mb_ctx + 100 + 50"
    by (rule alloc_zcmsg_fresh [OF demo_mb_ctx_ok, where trlo = "-1" and state = 0 and junk = "\<lambda>_. 170"])
       (auto simp: rmr_alloc_msg_def intro: prod.collapse [symmetric])
  then show ?thesis by (simp add: demo_msg_def demo_mb_ctx_def)
qed

theorem bytes2meid_safe_witness:
  "\<exists>e b'. rmr_bytes2meid (Some demo_msg) (Some [103, 110, 98, 49]) 4 = Some (4, e, Some (demo_msg\<lparr>mb_tp_buf := Some b'\<rparr>))
    \<and> cstr (bget (50 + uta_mhdr_t F_meid) 32 b') = [103, 110, 98, 49]"
proof -
  obtain b where b: "mbuf_wf demo_msg" "mb_tp_buf demo_msg = Some b" by (rule demo_msg_wf)
  have "cstr (take (min (nat 4) 31) [103, 110, 98, 49]) = [103, 110, 98, 49]" by code_simp
  then show ?thesis using bytes2meid_safe [OF b, of 4 "[103, 110, 98, 49]"] by fastforce
qed

text \<open>
  An element id set as text is read back. \<open>rmr_str2meid\<close> accepts exactly the texts of at most
  31 characters, after which \<open>rmr_get_meid\<close> returns that text, and otherwise reports an overflow
  and changes nothing.
\<close>

theorem meid_roundtrip:
  assumes "mbuf_wf m" "0 \<notin> set s"
  shows "if length s \<le> 31
    then \<exists>m' d. rmr_str2meid (Some m) (Some s) = Some (RMR_OK, E0, Some m')
           \<and> rmr_get_meid mem (Some m') True = Inr d \<and> cstr d = s
    else rmr_str2meid (Some m) (Some s) = Some (RMR_ERR_OVERFLOW, EOVERFLOW, Some m)"
proof -
  obtain b where b: "mb_tp_buf m = Some b" by (rule mbuf_wfD [OF assms(1)])
  note w = mbuf_wf_facts [OF assms(1) b]
  show ?thesis
  proof (cases "length s \<le> 31")
    case True
    let ?len = "int (length s) + 1"
    obtain t where t: "rmr_bytes2meid (Some m) (Some (s @ [0])) ?len =
        Some (min ?len 32, if ?len > 32 \<or> ?len = 32 \<and> (s @ [0]) ! 31 \<noteq> 0 then EOVERFLOW else E0,
          Some (m\<lparr>mb_tp_buf := Some (bput 190 t b)\<rparr>))"
      "0 \<in> set t" "cstr t = cstr (take (min (nat ?len) 31) (s @ [0]))" "length t \<le> 32"
      by (rule bytes2meid_spec [OF assms(1) b, of ?len "s @ [0]"]) auto
    have l: "190 + length t \<le> length b" using t(4) w(9) by simp
    have e: "\<not> (?len > 32 \<or> ?len = 32 \<and> (s @ [0]) ! 31 \<noteq> 0)" using True by (auto simp: nth_append)
    have "cstr (bget 190 32 (bput 190 t b)) = cstr (take (min (nat ?len) 31) (s @ [0]))"
      using cstr_bget_put [OF l t(2,4)] t(3) by simp
    also have "\<dots> = s"
      using True assms(2) by (cases "length s = 31") (simp_all add: min_def cstr_id nat_add_distrib)
    finally have c: "cstr (bget 190 32 (bput 190 t b)) = s" .
    have "rmr_str2meid (Some m) (Some s) = Some (RMR_OK, E0, Some (m\<lparr>mb_tp_buf := Some (bput 190 t b)\<rparr>))"
      using True t(1) e w(1) by (simp add: rmr_str2meid_def)
    moreover have "rmr_get_meid mem (Some (m\<lparr>mb_tp_buf := Some (bput 190 t b)\<rparr>)) True = Inr (bget 190 32 (bput 190 t b))"
      using w(1) b by (auto simp: rmr_get_meid_def mb_hdr_def split: option.splits)
    ultimately show ?thesis using True c by simp
  next
    case False
    then show ?thesis using w(1) by (simp add: rmr_str2meid_def)
  qed
qed

theorem meid_roundtrip_witness:
  "\<exists>m' d. rmr_str2meid (Some demo_msg) (Some [103, 110, 98, 49]) = Some (RMR_OK, E0, Some m')
     \<and> rmr_get_meid False (Some m') True = Inr d \<and> cstr d = [103, 110, 98, 49]"
proof -
  have "mbuf_wf demo_msg" by (rule demo_msg_wf)
  from meid_roundtrip [OF this, of "[103, 110, 98, 49]" False] show ?thesis by simp
qed

text \<open>
  C29: trace data set in a message is read back, and the payload survives, whether or not the trace
  area had to be resized and the buffer moved for it, as long as the new size of the buffer is an
  \<^verbatim>\<open>int\<close> (the code adds up the sizes in that type). The recorded size of the buffer is not
  adjusted, though: the room reported for the payload shrinks by as much as the trace area grew,
  although the buffer was enlarged.
\<close>

theorem set_trace_roundtrip:
  assumes "mbuf_wf m" "mb_tp_buf m = Some b" "0 \<le> mb_len m"
    "int (PAYLOAD_ADDR 50 b) + mb_len m \<le> mb_alloc_len m"
    "0 < sz" "mb_alloc_len m + sz - uint (RMR_TR_LEN 50 b) + 50 < 2 ^ 31" "sz \<le> int (length data)"
  shows "\<exists>m' b'. rmr_set_trace junk (Some m) data sz = Some (sz, E0, Some m') \<and> mb_tp_buf m' = Some b'
    \<and> rmr_get_trace (Some m') True sz = Some (take (nat sz) data)
    \<and> mb_payload m' = Some (PAYLOAD_ADDR 50 b')
    \<and> bget (PAYLOAD_ADDR 50 b') (nat (mb_len m)) b' = bget (PAYLOAD_ADDR 50 b) (nat (mb_len m)) b
    \<and> mb_alloc_len m' = mb_alloc_len m
    \<and> int (PAYLOAD_ADDR 50 b') = int (PAYLOAD_ADDR 50 b) + sz - uint (RMR_TR_LEN 50 b)"
proof -
  obtain m' b' where r: "rmr_set_trace junk (Some m) data sz = Some (sz, E0, Some m')"
    "mb_tp_buf m' = Some b'" "mb_hdr m' = Some (50, b')" "mb_payload m' = Some (PAYLOAD_ADDR 50 b')"
    "RMR_TR_LEN 50 b' = word_of_int sz" "TRACE_ADDR 50 b' = 330"
    "bget 330 (nat sz) b' = take (nat sz) data"
    "bget (PAYLOAD_ADDR 50 b') (nat (mb_len m)) b' = bget (PAYLOAD_ADDR 50 b) (nat (mb_len m)) b"
    "mb_len m' = mb_len m" "mb_alloc_len m' = mb_alloc_len m"
    "int (PAYLOAD_ADDR 50 b') = int (PAYLOAD_ADDR 50 b) + sz - uint (RMR_TR_LEN 50 b)"
    by (rule set_trace_spec [OF assms, of junk])
  have "sz < 2 ^ 31" by (rule trace_fits [OF assms(1-4,6)])
  then have "sint (word_of_int sz :: u32) = sz" "uint (word_of_int sz :: u32) = sz"
    using assms(5) by (simp_all add: sint_word_of_int uint_word_of_int_small)
  then have "rmr_get_trace (Some m') True sz = Some (take (nat sz) data)"
    using r(3,5-7) assms(5) by (simp add: rmr_get_trace_def)
  with r show ?thesis by blast
qed

theorem set_trace_roundtrip_witness:
  "\<exists>m'. rmr_set_trace (\<lambda>_. 170) (Some demo_msg) [1, 2, 3, 4] 3 = Some (3, E0, Some m')
     \<and> rmr_get_trace (Some m') True 3 = Some [1, 2, 3]"
proof -
  obtain b where b: "mbuf_wf demo_msg" "mb_tp_buf demo_msg = Some b" "mb_len demo_msg = 0" by (rule demo_msg_wf)
  have "take (nat 3) [1, 2, 3, 4 :: u8] = [1, 2, 3]" by simp
  then show ?thesis
    using set_trace_roundtrip [OF b(1,2), of 3 "[1, 2, 3, 4]" "\<lambda>_. 170"] b(3) mbuf_wf_facts(5) [OF b(1,2)]
      demo_msg_len uint_ge_0 [of "RMR_TR_LEN 50 b"] by auto
qed

text \<open>
  C30: \<open>rmr_bytes2payload\<close> stores any number of bytes up to the room \<open>rmr_payload_size\<close> reports. Its
  own bound is larger by the transport header, the trace data and the other header data: a length
  between the two is not cut but copied past the end of the buffer (undefined behaviour).
\<close>

theorem bytes2payload_bounds:
  assumes "mbuf_wf m" "mb_tp_buf m = Some b" "mb_alloc_len m = int (length b)"
    "0 \<le> len" "len \<le> int (length s)"
  shows "(len \<le> rmr_payload_size (Some m) \<longrightarrow>
      rmr_bytes2payload (Some m) (Some s) len =
        Some (E0, Some (m\<lparr>mb_state := RMR_OK, mb_len := len,
          mb_tp_buf := Some (bput (PAYLOAD_ADDR 50 b) (take (nat len) s) b)\<rparr>)))
    \<and> (rmr_payload_size (Some m) < len \<and> len \<le> mb_alloc_len m - 280 \<longrightarrow>
      rmr_bytes2payload (Some m) (Some s) len = None)"
proof (intro conjI impI)
  note w = mbuf_wf_facts [OF assms(1,2)]
  let ?room = "word_of_int (mb_alloc_len m) - of_nat 280 :: u64"
  have a: "mb_alloc_len m < int (2 ^ 31)" "330 \<le> mb_alloc_len m" using w(5-8) by linarith+
  have "?room = word_of_int (mb_alloc_len m - 280)" by simp
  also have "uint \<dots> = mb_alloc_len m - 280" by (rule uint_word64_small) (use a in simp_all)
  finally have r: "uint ?room = mb_alloc_len m - 280" .
  have nb: "\<not> ?room < word_of_int len" if "len \<le> mb_alloc_len m - 280"
    using that a assms(4) unfolding word_less_def r by (simp add: uint_word64_small)
  note ps = payload_size_wf [OF assms(1,2)]
  show "rmr_bytes2payload (Some m) (Some s) len =
        Some (E0, Some (m\<lparr>mb_state := RMR_OK, mb_len := len,
          mb_tp_buf := Some (bput (PAYLOAD_ADDR 50 b) (take (nat len) s) b)\<rparr>))"
    if "len \<le> rmr_payload_size (Some m)"
    using that nb w(2,8) assms ps by (simp add: rmr_bytes2payload_def Let_def memcpy_def bget_def)
  show "rmr_bytes2payload (Some m) (Some s) len = None"
    if "rmr_payload_size (Some m) < len \<and> len \<le> mb_alloc_len m - 280"
    using that nb w(2) assms ps by (simp add: rmr_bytes2payload_def Let_def memcpy_def)
qed

theorem bytes2payload_bounds_witness:
  "rmr_bytes2payload (Some demo_msg) (Some (replicate 200 1)) 160 = None
   \<and> fst (the (rmr_bytes2payload (Some demo_msg) (Some (replicate 200 1)) 100)) = E0"
proof -
  obtain m where m: "fst (rmr_alloc_msg True (\<lambda>_. 170) demo_mb_ctx 100) = Some m"
      "mb_tp_buf m = Some (fresh_bytes (\<lambda>_. 170) demo_mb_ctx (280 + trace_data_len demo_mb_ctx + d1_len demo_mb_ctx
         + d2_len demo_mb_ctx + 100 + 50))"
      "mbuf_wf m" "mb_alloc_len m = 280 + trace_data_len demo_mb_ctx + d1_len demo_mb_ctx + d2_len demo_mb_ctx + 100 + 50"
    by (rule alloc_zcmsg_fresh [OF demo_mb_ctx_ok, where trlo = "-1" and state = 0 and junk = "\<lambda>_. 170"])
       (auto simp: rmr_alloc_msg_def intro: prod.collapse [symmetric])
  obtain b where ps: "rmr_payload_size (Some demo_msg) = 100" by (rule demo_msg_wf)
  have d: "demo_msg = m" by (simp add: demo_msg_def m(1))
  have a: "mb_alloc_len m = 442" using demo_msg_len by (simp add: d)
  have l: "mb_alloc_len m = int (length (fresh_bytes (\<lambda>_. 170) demo_mb_ctx (280 + trace_data_len demo_mb_ctx
      + d1_len demo_mb_ctx + d2_len demo_mb_ctx + 100 + 50)))"
    using m(4) by (subst fresh_bytes_spec(1)) (simp_all add: demo_mb_ctx_def)
  note t = bytes2payload_bounds [OF m(3,2) l]
  show ?thesis using t [of 160 "replicate 200 1"] t [of 100 "replicate 200 1"] ps a unfolding d by simp
qed

end
