(* ===== verification/Symtab.thy ===== *)
theory Symtab
  imports RMR_Prelude
begin

text \<open>
  The symbol table of the RMR library (\<^verbatim>\<open>ric-plt-lib-rmr/src/rmr/common/src/symtab.c\<close>): a
  chained hash table whose keys are either strings in a class (a number above 0) or 64 bit
  integers (class 0). Every route table, endpoint table and descriptor map of the library is
  one of these.

  A chain (the doubly linked list \<^verbatim>\<open>symlist[hv]\<close>) is the list of its elements from the head. A
  table holds nil-able values: \<open>None\<close> is the nil pointer. \<open>mem\<close> says whether
  \<^verbatim>\<open>malloc\<close> succeeds.
\<close>

record 'v sym_ele =
  se_name :: "string option"
  se_nkey :: u64
  se_val :: "'v option"
  se_mcount :: u64
  se_rcount :: u64
  se_class :: nat

record 'v sym_tab =
  symlist :: "'v sym_ele list list"
  inhabitants :: int
  deaths :: int
  st_size :: nat

text \<open>
  What a caller passes as \<^verbatim>\<open>name\<close> and \<^verbatim>\<open>class\<close>: with class 0 the pointer is to a 64 bit integer,
  with any other class to a string.
\<close>

datatype sym_key = NumKey u64 | StrKey string nat

subsection \<open>Internal functions\<close>

definition sym_hash_acc :: "string \<Rightarrow> u64" where
  "sym_hash_acc n = fold (\<lambda>c t. t * 79 + word_of_int (schar c)) n 0"

definition sym_hash :: "string \<Rightarrow> nat \<Rightarrow> nat" where
  "sym_hash n sz =
     (let t = sym_hash_acc n;
          t' = (if sint t < 0 then NOT t else t)
      in nat (sint t' mod int sz))"

definition same :: "nat \<Rightarrow> nat \<Rightarrow> string option \<Rightarrow> string \<Rightarrow> bool" where
  "same c1 c2 s1 s2 = (if c1 \<noteq> c2 then False else s1 = Some s2)"

definition key_hash :: "'v sym_tab \<Rightarrow> sym_key \<Rightarrow> nat" where
  "key_hash t k = (case k of
      StrKey n c \<Rightarrow> sym_hash n (st_size t)
    | NumKey nk \<Rightarrow> unat nk mod st_size t)"

definition key_match :: "sym_key \<Rightarrow> 'v sym_ele \<Rightarrow> bool" where
  "key_match k e = (case k of
      StrKey n c \<Rightarrow> same c (se_class e) (se_name e) n
    | NumKey nk \<Rightarrow> se_nkey e = nk)"

definition new_ele :: "sym_key \<Rightarrow> 'v sym_ele" where
  "new_ele k = (case k of
      StrKey n c \<Rightarrow> \<lparr>se_name = Some n, se_nkey = 0, se_val = None, se_mcount = 0,
                     se_rcount = 0, se_class = c\<rparr>
    | NumKey nk \<Rightarrow> \<lparr>se_name = None, se_nkey = nk, se_val = None, se_mcount = 0,
                    se_rcount = 0, se_class = 0\<rparr>)"

definition set_val :: "'v option \<Rightarrow> 'v sym_ele \<Rightarrow> 'v sym_ele" where
  "set_val v e = e\<lparr>se_mcount := se_mcount e + 1, se_val := v\<rparr>"

text \<open>
  \<open>putin\<close>: the value of an element that matches is replaced; otherwise a new element goes to
  the head of its chain. The resident count is raised before the allocation is tried.
\<close>

definition putin :: "bool \<Rightarrow> 'v sym_tab \<Rightarrow> sym_key \<Rightarrow> 'v option \<Rightarrow> int \<times> 'v sym_tab" where
  "putin mem t k v =
     (let hv = key_hash t k; b = symlist t ! hv in
      case find (key_match k) b of
        Some _ \<Rightarrow> (0, t\<lparr>symlist := (symlist t)[hv := upd_first (key_match k) (set_val v) b]\<rparr>)
      | None \<Rightarrow>
          (if \<not> mem then (-1, t\<lparr>inhabitants := inhabitants t + 1\<rparr>)
           else (1, t\<lparr>symlist := (symlist t)[hv := set_val v (new_ele k) # b],
                      inhabitants := inhabitants t + 1\<rparr>)))"

definition del_ele :: "'v sym_tab \<Rightarrow> nat \<Rightarrow> sym_key \<Rightarrow> 'v sym_tab" where
  "del_ele t hv k =
     (case find (key_match k) (symlist t ! hv) of
        None \<Rightarrow> t
      | Some _ \<Rightarrow> t\<lparr>symlist := (symlist t)[hv := del_first (key_match k) (symlist t ! hv)],
                    inhabitants := inhabitants t - 1, deaths := deaths t + 1\<rparr>)"

definition del_head_ele :: "'v sym_tab \<Rightarrow> int \<Rightarrow> 'v sym_tab" where
  "del_head_ele t hv =
     (if hv < 0 \<or> hv \<ge> int (st_size t) then t
      else case symlist t ! nat hv of
        [] \<Rightarrow> t
      | _ # es \<Rightarrow> t\<lparr>symlist := (symlist t)[nat hv := es],
                   inhabitants := inhabitants t - 1, deaths := deaths t + 1\<rparr>)"

subsection \<open>The visible functions\<close>

definition rmr_sym_alloc :: "bool \<Rightarrow> int \<Rightarrow> 'v sym_tab option" where
  "rmr_sym_alloc mem sz =
     (let sz' = (if sz < 11 then 11 else sz) in
      if \<not> mem then None
      else Some \<lparr>symlist = replicate (nat sz') [], inhabitants = 0, deaths = 0,
                 st_size = nat sz'\<rparr>)"

text \<open>The inner loop of \<open>rmr_sym_clear\<close>: delete the head until the chain is empty.\<close>

function sym_clear_chain :: "'v sym_tab \<Rightarrow> nat \<Rightarrow> 'v sym_tab" where
  "sym_clear_chain t i =
     (if i < st_size t \<and> i < length (symlist t) \<and> symlist t ! i \<noteq> []
      then sym_clear_chain (del_head_ele t (int i)) i else t)"
  by pat_completeness auto
termination
  by (relation "measure (\<lambda>(t, i). length (symlist t ! i))")
     (auto simp: del_head_ele_def split: list.split)

declare sym_clear_chain.simps [simp del]

definition rmr_sym_clear :: "'v sym_tab \<Rightarrow> 'v sym_tab" where
  "rmr_sym_clear t = fold (\<lambda>i t. sym_clear_chain t i) [0..<st_size t] t"

definition rmr_sym_del :: "'v sym_tab \<Rightarrow> sym_key \<Rightarrow> 'v sym_tab" where
  "rmr_sym_del t k = del_ele t (key_hash t k) k"

definition rmr_sym_ndel :: "'v sym_tab \<Rightarrow> u64 \<Rightarrow> 'v sym_tab" where
  "rmr_sym_ndel t key = rmr_sym_del t (NumKey key)"

text \<open>
  \<open>rmr_sym_get\<close> counts the reference in the element it finds, so it returns the table too.
\<close>

definition bump_ref :: "'v sym_ele \<Rightarrow> 'v sym_ele" where
  "bump_ref e = e\<lparr>se_rcount := se_rcount e + 1\<rparr>"

definition rmr_sym_get :: "'v sym_tab \<Rightarrow> sym_key \<Rightarrow> 'v option \<times> 'v sym_tab" where
  "rmr_sym_get t k =
     (let hv = key_hash t k; b = symlist t ! hv in
      case find (key_match k) b of
        None \<Rightarrow> (None, t)
      | Some e \<Rightarrow> (se_val e,
                   t\<lparr>symlist := (symlist t)[hv := upd_first (key_match k) bump_ref b]\<rparr>))"

definition rmr_sym_pull :: "'v sym_tab \<Rightarrow> u64 \<Rightarrow> 'v option \<times> 'v sym_tab" where
  "rmr_sym_pull t key = rmr_sym_get t (NumKey key)"

definition rmr_sym_put :: "bool \<Rightarrow> 'v sym_tab \<Rightarrow> string \<Rightarrow> nat \<Rightarrow> 'v option \<Rightarrow> int \<times> 'v sym_tab" where
  "rmr_sym_put mem t name cls v = putin mem t (StrKey name (if cls = 0 then 1 else cls)) v"

definition rmr_sym_map :: "bool \<Rightarrow> 'v sym_tab \<Rightarrow> u64 \<Rightarrow> 'v option \<Rightarrow> int \<times> 'v sym_tab" where
  "rmr_sym_map mem t key v = putin mem t (NumKey key) v"

text \<open>
  The callback of \<open>rmr_sym_foreach_class\<close> sees the name and the value of each element of the
  class, chain by chain; its effect on the state of the caller is threaded through. (No
  callback of the library changes the table it is driven over.)
\<close>

definition rmr_sym_foreach_class ::
    "'v sym_tab \<Rightarrow> nat \<Rightarrow> (string option \<Rightarrow> 'v option \<Rightarrow> 's \<Rightarrow> 's) \<Rightarrow> 's \<Rightarrow> 's" where
  "rmr_sym_foreach_class t cls user_fun s =
     fold (\<lambda>chain s. fold (\<lambda>se s. if cls = se_class se
                                  then user_fun (se_name se) (se_val se) s else s) chain s)
          (symlist t) s"

text \<open>
  The counters of \<open>rmr_sym_stats\<close>: empty chains, longest chain with its index, and chains with
  more than one element, as the closing line of its report prints them.
\<close>

fun sym_stats_loop :: "'v sym_ele list list \<Rightarrow> nat \<Rightarrow> nat \<times> nat \<times> nat \<times> nat
    \<Rightarrow> nat \<times> nat \<times> nat \<times> nat" where
  "sym_stats_loop [] i acc = acc"
| "sym_stats_loop (c # cs) i (nempty, max_chain, maxi, twoper) =
     (let n = length c in
      sym_stats_loop cs (Suc i)
        (if c = [] then nempty + 1 else nempty,
         if n > max_chain then n else max_chain,
         if n > max_chain then i else maxi,
         if n > 1 then twoper + 1 else twoper))"

record sym_report =
  rep_size :: nat
  rep_inhab :: int
  rep_occupied :: int
  rep_dead :: int
  rep_maxch :: nat
  rep_twoper :: nat

definition rmr_sym_stats :: "'v sym_tab \<Rightarrow> sym_report" where
  "rmr_sym_stats t =
     (let (nempty, max_chain, maxi, twoper) = sym_stats_loop (symlist t) 0 (0, 0, 0, 0) in
      \<lparr>rep_size = st_size t, rep_inhab = inhabitants t,
       rep_occupied = int (st_size t) - int nempty, rep_dead = deaths t,
       rep_maxch = max_chain, rep_twoper = twoper\<rparr>)"

subsection \<open>Hashing stays inside the table\<close>

lemma sint_fold_nonneg:
  fixes t :: u64
  shows "0 \<le> sint (if sint t < 0 then NOT t else t)"
  using bit_last_iff [of t] bit_last_iff [of "NOT t"] by (auto simp: bit_simps)

lemma sym_hash_bound: "0 < sz \<Longrightarrow> sym_hash n sz < sz"
  using sint_fold_nonneg [of "sym_hash_acc n"]
  by (simp add: sym_hash_def Let_def nat_less_iff)

lemma key_hash_bound: "0 < st_size t \<Longrightarrow> key_hash t k < st_size t"
  by (auto simp: key_hash_def sym_hash_bound split: sym_key.split)

lemma key_hash_upd [simp]:
  "key_hash (t\<lparr>symlist := x\<rparr>) k = key_hash t k" "key_hash (t\<lparr>inhabitants := n\<rparr>) k = key_hash t k"
  "key_hash (t\<lparr>deaths := d\<rparr>) k = key_hash t k"
  by (simp_all add: key_hash_def split: sym_key.split)

subsection \<open>The well-formedness invariant and the map a table stands for\<close>

definition ele_key :: "'v sym_ele \<Rightarrow> sym_key" where
  "ele_key e = (if se_class e = 0 then NumKey (se_nkey e) else StrKey (the (se_name e)) (se_class e))"

definition ele_ok :: "'v sym_ele \<Rightarrow> bool" where
  "ele_ok e = (if se_class e = 0 then se_name e = None else se_name e \<noteq> None \<and> se_nkey e = 0)"

definition valid_key :: "sym_key \<Rightarrow> bool" where
  "valid_key k = (case k of NumKey _ \<Rightarrow> True | StrKey _ c \<Rightarrow> 0 < c)"

definition chain_ok :: "'v sym_tab \<Rightarrow> nat \<Rightarrow> 'v sym_ele list \<Rightarrow> bool" where
  "chain_ok t i b = (distinct (map ele_key b) \<and> (\<forall>e\<in>set b. ele_ok e \<and> key_hash t (ele_key e) = i))"

definition sym_wf :: "'v sym_tab \<Rightarrow> bool" where
  "sym_wf t = (0 < st_size t \<and> length (symlist t) = st_size t \<and>
     (\<forall>i < st_size t. chain_ok t i (symlist t ! i)) \<and>
     inhabitants t = sum_list (map (\<lambda>b. int (length b)) (symlist t)))"

definition sym_lookup :: "'v sym_tab \<Rightarrow> sym_key \<Rightarrow> 'v option" where
  "sym_lookup t k = Option.bind (find (\<lambda>e. ele_key e = k) (symlist t ! key_hash t k)) se_val"

definition sym_present :: "'v sym_tab \<Rightarrow> sym_key \<Rightarrow> bool" where
  "sym_present t k = (\<exists>e\<in>set (symlist t ! key_hash t k). ele_key e = k)"

text \<open>
  A numeric search compares only the numeric key, and every string element carries numeric key
  0. Numeric key 0 is therefore searched correctly only while its chain holds no string.
\<close>

definition no_alias :: "'v sym_tab \<Rightarrow> sym_key \<Rightarrow> bool" where
  "no_alias t k = (k = NumKey 0 \<longrightarrow> (\<forall>e\<in>set (symlist t ! key_hash t k). se_class e = 0))"

lemma key_match_iff:
  assumes "ele_ok e" "valid_key k" "k = NumKey 0 \<longrightarrow> se_class e = 0"
  shows "key_match k e = (ele_key e = k)"
  using assms
  by (cases k) (auto simp: key_match_def ele_ok_def ele_key_def valid_key_def same_def
      split: if_splits)

lemma ele_key_simps [simp]:
  "ele_key (set_val v e) = ele_key e" "ele_key (bump_ref e) = ele_key e"
  "ele_ok (set_val v e) = ele_ok e" "ele_ok (bump_ref e) = ele_ok e"
  "se_val (set_val v e) = v" "se_val (bump_ref e) = se_val e"
  "se_class (set_val v e) = se_class e" "se_class (bump_ref e) = se_class e"
  by (simp_all add: set_val_def bump_ref_def ele_key_def ele_ok_def)

lemma ele_new_ele:
  assumes "valid_key k"
  shows "ele_key (new_ele k) = k" "ele_ok (new_ele k)"
  using assms by (auto simp: new_ele_def ele_key_def ele_ok_def valid_key_def split: sym_key.split)

lemma sym_wfD:
  assumes "sym_wf t"
  shows "0 < st_size t" "length (symlist t) = st_size t" "key_hash t k < st_size t"
    "i < st_size t \<Longrightarrow> chain_ok t i (symlist t ! i)"
    "inhabitants t = sum_list (map (\<lambda>b. int (length b)) (symlist t))"
  using assms key_hash_bound by (auto simp: sym_wf_def)

lemma key_match_chain:
  assumes "sym_wf t" "valid_key k" "no_alias t k" "e \<in> set (symlist t ! key_hash t k)"
  shows "key_match k e = (ele_key e = k)"
proof (rule key_match_iff)
  show "ele_ok e"
    using sym_wfD(3) [OF assms(1)] sym_wfD(4) [OF assms(1)] assms(4) by (auto simp: chain_ok_def)
  show "k = NumKey 0 \<longrightarrow> se_class e = 0"
    using assms(3,4) by (auto simp: no_alias_def)
qed (fact assms(2))

lemmas chain_search = find_cong_set [OF key_match_chain] upd_first_cong_set [OF key_match_chain]
  del_first_cong_set [OF key_match_chain]

lemma sym_present_find:
  "sym_present t k = (find (\<lambda>e. ele_key e = k) (symlist t ! key_hash t k) \<noteq> None)"
  by (auto simp: sym_present_def find_None_iff)

text \<open>Replacing one chain: what it does to the invariant and to the lookups.\<close>

lemma sym_wf_chain_update:
  assumes "sym_wf t" "h < st_size t" "chain_ok t h b"
    "n = inhabitants t + int (length b) - int (length (symlist t ! h))"
  shows "sym_wf (t\<lparr>symlist := (symlist t)[h := b], inhabitants := n, deaths := d\<rparr>)"
  using assms
  by (auto simp: sym_wf_def chain_ok_def nth_list_update sum_list_update_nat)

lemma sym_tab_upd_same:
  "t\<lparr>symlist := x, inhabitants := inhabitants t, deaths := deaths t\<rparr> = t\<lparr>symlist := x\<rparr>"
  "t\<lparr>symlist := x, inhabitants := n, deaths := deaths t\<rparr> = t\<lparr>symlist := x, inhabitants := n\<rparr>"
  by (cases t, simp)+

lemmas sym_wf_chain_update' =
  sym_wf_chain_update [where n = "inhabitants t" and d = "deaths t" and t = t for t,
    unfolded sym_tab_upd_same]
  sym_wf_chain_update [where d = "deaths t" and t = t for t, unfolded sym_tab_upd_same]

lemma chain_ok_upd_first:
  assumes "chain_ok t h b" "\<And>e. ele_key (f e) = ele_key e" "\<And>e. ele_ok (f e) = ele_ok e"
  shows "chain_ok t h (upd_first P f b)"
  using assms set_upd_first [of P f b]
  by (auto simp: chain_ok_def map_upd_first [where g = ele_key])

lemma chain_ok_del_first: "chain_ok t h b \<Longrightarrow> chain_ok t h (del_first P b)"
  using set_del_first [of P b] by (auto simp: chain_ok_def distinct_del_first)

text \<open>The three ways an operation replaces a chain of a well-formed table.\<close>

lemma sym_upd_chain:
  assumes wf: "sym_wf t" and f: "\<And>e. ele_key (f e) = ele_key e" "\<And>e. ele_ok (f e) = ele_ok e"
    and g: "\<And>e. ele_key e = k \<Longrightarrow> se_val (f e) = g (se_val e)"
  defines "h \<equiv> key_hash t k"
  defines "t' \<equiv> t\<lparr>symlist := (symlist t)[h := upd_first (\<lambda>e. ele_key e = k) f (symlist t ! h)]\<rparr>"
  shows "sym_wf t'"
    and "sym_present t k \<Longrightarrow> sym_lookup t' =
      (\<lambda>k'. if k' = k then g (sym_lookup t k) else sym_lookup t k')"
proof -
  note d = sym_wfD [OF wf]
  have h: "h < st_size t" by (simp add: h_def d)
  show "sym_wf t'"
    unfolding t'_def
    by (rule sym_wf_chain_update'(1) [OF wf h]) (simp_all add: chain_ok_upd_first d h f)
  show "sym_lookup t' = (\<lambda>k'. if k' = k then g (sym_lookup t k) else sym_lookup t k')"
    if p: "sym_present t k"
  proof
    fix k'
    obtain e where e: "find (\<lambda>e. ele_key e = k) (symlist t ! h) = Some e" "ele_key e = k"
      using p find_SomeD by (fastforce simp: sym_present_find h_def)
    show "sym_lookup t' k' = (if k' = k then g (sym_lookup t k) else sym_lookup t k')"
      unfolding t'_def
      using e g f by (auto simp: h_def sym_lookup_def nth_list_update d(2,3)
          find_upd_first find_key_other_upd)
  qed
qed

lemma sym_add_chain:
  fixes v :: "'v option"
  assumes wf: "sym_wf t" and k: "valid_key k" "\<not> sym_present t k"
  defines "h \<equiv> key_hash t k"
  defines "t' \<equiv> t\<lparr>symlist := (symlist t)[h := set_val v (new_ele k) # symlist t ! h],
                    inhabitants := inhabitants t + 1\<rparr>"
  shows "sym_wf t'" and "sym_lookup t' = (\<lambda>k'. if k' = k then v else sym_lookup t k')"
proof -
  note d = sym_wfD [OF wf]
  have h: "h < st_size t" by (simp add: h_def d)
  have "chain_ok t h (set_val v (new_ele k) # symlist t ! h)"
    using d(4) [OF h] k by (auto simp: chain_ok_def ele_new_ele sym_present_def h_def)
  then show "sym_wf t'"
    unfolding t'_def by (rule sym_wf_chain_update'(2) [OF wf h]) simp
  show "sym_lookup t' = (\<lambda>k'. if k' = k then v else sym_lookup t k')"
    unfolding t'_def
    by (rule ext) (auto simp: h_def sym_lookup_def nth_list_update d(2,3) ele_new_ele k)
qed

lemma sym_del_chain:
  assumes wf: "sym_wf t" and k: "sym_present t k"
  defines "h \<equiv> key_hash t k"
  defines "t' \<equiv> t\<lparr>symlist := (symlist t)[h := del_first (\<lambda>e. ele_key e = k) (symlist t ! h)],
                    inhabitants := inhabitants t - 1, deaths := deaths t + 1\<rparr>"
  shows "sym_wf t'" and "sym_lookup t' = (\<lambda>k'. if k' = k then None else sym_lookup t k')"
proof -
  note d = sym_wfD [OF wf]
  have h: "h < st_size t" by (simp add: h_def d)
  have "0 < length (symlist t ! h)" using k by (auto simp: sym_present_def h_def)
  with k show "sym_wf t'" unfolding t'_def
    by (intro sym_wf_chain_update [OF wf h] chain_ok_del_first [OF d(4) [OF h]])
       (auto simp: length_del_first sym_present_def h_def of_nat_diff Suc_le_eq neq_Nil_conv)
  show "sym_lookup t' = (\<lambda>k'. if k' = k then None else sym_lookup t k')"
    using d(4) [OF h] unfolding t'_def
    by (intro ext) (auto simp: h_def sym_lookup_def nth_list_update d(2,3)
        find_del_first_same find_key_other chain_ok_def)
qed

subsection \<open>The operations implement a finite map\<close>

lemma rmr_sym_get_spec:
  assumes wf: "sym_wf t" and k: "valid_key k" "no_alias t k"
  shows "fst (rmr_sym_get t k) = sym_lookup t k"
    and "sym_wf (snd (rmr_sym_get t k))"
    and "sym_lookup (snd (rmr_sym_get t k)) = sym_lookup t"
proof -
  note s = chain_search [OF wf k]
  show "fst (rmr_sym_get t k) = sym_lookup t k"
    by (simp add: rmr_sym_get_def sym_lookup_def Let_def s split: option.split)
  show "sym_wf (snd (rmr_sym_get t k))"
    using sym_upd_chain(1) [OF wf, of bump_ref]
    by (simp add: rmr_sym_get_def Let_def s wf split: option.split)
  show "sym_lookup (snd (rmr_sym_get t k)) = sym_lookup t"
    using sym_upd_chain(2) [OF wf, of bump_ref k "\<lambda>x. x"]
    by (auto simp: rmr_sym_get_def Let_def s sym_present_find fun_eq_iff split: option.split)
qed

lemma putin_spec:
  assumes wf: "sym_wf t" and k: "valid_key k" "no_alias t k"
  shows "sym_wf (snd (putin True t k v))"
    and "sym_lookup (snd (putin True t k v)) = (\<lambda>k'. if k' = k then v else sym_lookup t k')"
    and "fst (putin True t k v) = (if sym_present t k then 0 else 1)"
proof -
  note s = chain_search [OF wf k]
  have p: "putin True t k v =
      (if sym_present t k
       then (0, t\<lparr>symlist := (symlist t)[key_hash t k := upd_first (\<lambda>e. ele_key e = k) (set_val v)
                  (symlist t ! key_hash t k)]\<rparr>)
       else (1, t\<lparr>symlist := (symlist t)[key_hash t k := set_val v (new_ele k) # symlist t ! key_hash t k],
                  inhabitants := inhabitants t + 1\<rparr>))"
    by (simp add: putin_def Let_def s sym_present_find split: option.split)
  show "sym_wf (snd (putin True t k v))"
    using sym_upd_chain(1) [OF wf, of "set_val v" k "\<lambda>_. v"] sym_add_chain(1) [OF wf k(1)] by (simp add: p)
  show "sym_lookup (snd (putin True t k v)) = (\<lambda>k'. if k' = k then v else sym_lookup t k')"
    using sym_upd_chain(2) [OF wf, of "set_val v" k "\<lambda>_. v"] sym_add_chain(2) [OF wf k(1)] by (simp add: p)
  show "fst (putin True t k v) = (if sym_present t k then 0 else 1)" by (simp add: p)
qed

lemma rmr_sym_del_spec:
  assumes wf: "sym_wf t" and k: "valid_key k" "no_alias t k"
  shows "sym_wf (rmr_sym_del t k)"
    and "sym_lookup (rmr_sym_del t k) = (\<lambda>k'. if k' = k then None else sym_lookup t k')"
proof -
  note s = chain_search [OF wf k]
  have p: "rmr_sym_del t k =
      (if sym_present t k
       then t\<lparr>symlist := (symlist t)[key_hash t k := del_first (\<lambda>e. ele_key e = k) (symlist t ! key_hash t k)],
              inhabitants := inhabitants t - 1, deaths := deaths t + 1\<rparr>
       else t)"
    by (simp add: rmr_sym_del_def del_ele_def s sym_present_find split: option.split)
  show "sym_wf (rmr_sym_del t k)" using sym_del_chain(1) [OF wf] wf by (simp add: p)
  have "\<not> sym_present t k \<Longrightarrow> sym_lookup t k = None"
    by (simp add: sym_present_find sym_lookup_def)
  then show "sym_lookup (rmr_sym_del t k) = (\<lambda>k'. if k' = k then None else sym_lookup t k')"
    using sym_del_chain(2) [OF wf] by (auto simp: p)
qed

subsection \<open>Clearing a table\<close>

lemma sym_clear_chain_eq:
  assumes "i < st_size t" "length (symlist t) = st_size t"
  shows "sym_clear_chain t i = t\<lparr>symlist := (symlist t)[i := []],
     inhabitants := inhabitants t - int (length (symlist t ! i)),
     deaths := deaths t + int (length (symlist t ! i))\<rparr>"
  using assms
proof (induction "symlist t ! i" arbitrary: t)
  case Nil
  then have "(symlist t)[i := []] = symlist t" by (metis list_update_id)
  with Nil show ?case by (simp add: sym_clear_chain.simps [of t i])
next
  case (Cons e es)
  let ?t = "t\<lparr>symlist := (symlist t)[i := es], inhabitants := inhabitants t - 1, deaths := deaths t + 1\<rparr>"
  have "sym_clear_chain t i = sym_clear_chain ?t i"
    using Cons.prems Cons.hyps(2) [symmetric]
    by (subst sym_clear_chain.simps) (simp add: del_head_ele_def)
  also have "\<dots> = ?t\<lparr>symlist := (symlist ?t)[i := []],
     inhabitants := inhabitants ?t - int (length (symlist ?t ! i)),
     deaths := deaths ?t + int (length (symlist ?t ! i))\<rparr>"
    using Cons.prems by (intro Cons.hyps(1)) simp_all
  finally show ?case
    using Cons.prems Cons.hyps(2) [symmetric] by (simp add: algebra_simps)
qed

lemma sym_clear_prefix:
  assumes "n \<le> st_size t" "length (symlist t) = st_size t"
  shows "fold (\<lambda>i t. sym_clear_chain t i) [0..<n] t = t\<lparr>
     symlist := replicate n [] @ drop n (symlist t),
     inhabitants := inhabitants t - sum_list (map (\<lambda>b. int (length b)) (take n (symlist t))),
     deaths := deaths t + sum_list (map (\<lambda>b. int (length b)) (take n (symlist t)))\<rparr>"
  using assms
proof (induction n)
  case (Suc n)
  then have "drop n (symlist t) = symlist t ! n # drop (Suc n) (symlist t)"
    by (simp add: Cons_nth_drop_Suc)
  with Suc show ?case
    by (simp add: sym_clear_chain_eq nth_append list_update_append take_Suc_conv_app_nth
        replicate_append_same flip: replicate_Suc)
qed simp

lemma rmr_sym_clear_eq:
  assumes "sym_wf t"
  shows "rmr_sym_clear t = t\<lparr>symlist := replicate (st_size t) [], inhabitants := 0,
     deaths := deaths t + inhabitants t\<rparr>"
  using sym_clear_prefix [of "st_size t" t] assms by (simp add: rmr_sym_clear_def sym_wf_def)

lemma sym_tab_empty:
  assumes "symlist t = replicate (st_size t) []" "0 < st_size t"
  shows "sym_lookup t k = None" "inhabitants t = 0 \<Longrightarrow> sym_wf t"
  using assms key_hash_bound [of t k]
  by (auto simp: sym_lookup_def sym_wf_def chain_ok_def map_replicate_const sum_list_replicate)

lemma rmr_sym_alloc_wf:
  "sym_wf (the (rmr_sym_alloc True n))" "sym_lookup (the (rmr_sym_alloc True n)) k = None"
  by (rule sym_tab_empty; simp add: rmr_sym_alloc_def Let_def)+

lemma rmr_sym_clear_wf:
  assumes "sym_wf t"
  shows "sym_wf (rmr_sym_clear t)" "sym_lookup (rmr_sym_clear t) k = None"
  using sym_wfD(1) [OF assms] by (rule_tac [!] sym_tab_empty; simp add: rmr_sym_clear_eq assms)+

subsection \<open>Walking the elements of a class\<close>

definition sym_class :: "'v sym_tab \<Rightarrow> nat \<Rightarrow> (string option \<times> 'v option) list" where
  "sym_class t c = map (\<lambda>e. (se_name e, se_val e)) (filter (\<lambda>e. se_class e = c) (concat (symlist t)))"

lemma foreach_class_fold:
  "rmr_sym_foreach_class t c f s = fold (\<lambda>(n, v). f n v) (sym_class t c) s"
proof -
  have chain: "fold (\<lambda>se s. if c = se_class se then f (se_name se) (se_val se) s else s) b s =
      fold (\<lambda>(n, v). f n v) (map (\<lambda>e. (se_name e, se_val e)) (filter (\<lambda>e. se_class e = c) b)) s" for b s
    by (induction b arbitrary: s) auto
  have "fold (\<lambda>b. fold (\<lambda>se s. if c = se_class se then f (se_name se) (se_val se) s else s) b) bs s =
      fold (\<lambda>(n, v). f n v) (map (\<lambda>e. (se_name e, se_val e))
        (filter (\<lambda>e. se_class e = c) (concat bs))) s" for bs
    by (induction bs arbitrary: s) (simp_all add: chain)
  then show ?thesis by (simp add: rmr_sym_foreach_class_def sym_class_def)
qed

lemma ele_lookup:
  assumes wf: "sym_wf t" and e: "e \<in> set (concat (symlist t))"
  shows "e \<in> set (symlist t ! key_hash t (ele_key e))" "sym_lookup t (ele_key e) = se_val e"
    "sym_present t (ele_key e)" "ele_ok e"
proof -
  note d = sym_wfD [OF wf]
  obtain i where i: "i < st_size t" "e \<in> set (symlist t ! i)"
    using e d(2) by (metis UN_E in_set_conv_nth set_concat)
  with d(4) [of i] show *: "e \<in> set (symlist t ! key_hash t (ele_key e))" and "ele_ok e"
    by (auto simp: chain_ok_def)
  have "distinct (map ele_key (symlist t ! key_hash t (ele_key e)))"
    using d(4) [OF d(3)] by (simp add: chain_ok_def)
  from find_key_unique [OF this *] show "sym_lookup t (ele_key e) = se_val e"
    by (simp add: sym_lookup_def)
  from * show "sym_present t (ele_key e)" by (auto simp: sym_present_def)
qed

lemma sym_present_ele:
  assumes "sym_wf t" "sym_present t k"
  obtains e where "e \<in> set (concat (symlist t))" "ele_key e = k"
  using assms sym_wfD(2,3) [OF assms(1)]
  by (metis UN_I nth_mem set_concat sym_present_def)

lemma sym_class_str:
  assumes "sym_wf t" "0 < c"
  shows "(Some n, v) \<in> set (sym_class t c) \<longleftrightarrow>
    sym_present t (StrKey n c) \<and> sym_lookup t (StrKey n c) = v" (is "?l = ?r")
proof
  assume ?l
  then obtain e where "e \<in> set (concat (symlist t))" "se_class e = c" "se_name e = Some n" "se_val e = v"
    by (fastforce simp: sym_class_def)
  moreover have "ele_key e = StrKey n c" using calculation assms(2) by (simp add: ele_key_def)
  ultimately show ?r using ele_lookup [OF assms(1)] by metis
next
  assume ?r
  then obtain e where e: "e \<in> set (concat (symlist t))" "ele_key e = StrKey n c"
    using sym_present_ele [OF assms(1)] by blast
  with ele_lookup(2,4) [OF assms(1) e(1)] \<open>?r\<close> show ?l
    by (force simp: sym_class_def ele_key_def ele_ok_def split: if_splits)
qed

subsection \<open>Which keys a table holds\<close>

lemma sym_present_keys: "sym_present t k \<longleftrightarrow> k \<in> ele_key ` set (symlist t ! key_hash t k)"
  by (auto simp: sym_present_def)

lemma set_map_del_first:
  "distinct (map g xs) \<Longrightarrow> g ` set (del_first (\<lambda>x. g x = k) xs) = g ` set xs - {k}"
  by (induction xs) (auto simp: rev_image_eqI)

lemma sym_present_chain:
  assumes "sym_wf t" "symlist t' = (symlist t)[key_hash t k := b]" "st_size t' = st_size t"
  shows "sym_present t' k' \<longleftrightarrow>
    (if key_hash t k' = key_hash t k then k' \<in> ele_key ` set b else sym_present t k')"
proof -
  have "key_hash t' k' = key_hash t k'" using assms(3) by (simp add: key_hash_def split: sym_key.split)
  then show ?thesis
    using assms(2) sym_wfD(2,3) [OF assms(1)] by (simp add: sym_present_keys nth_list_update)
qed

lemma keys_upd_first:
  "(\<And>e. ele_key (f e) = ele_key e) \<Longrightarrow> ele_key ` set (upd_first P f b) = ele_key ` set b"
  by (metis list.set_map map_upd_first)

lemma sym_present_get:
  assumes "sym_wf t"
  shows "sym_present (snd (rmr_sym_get t k)) k' = sym_present t k'"
proof (cases "find (key_match k) (symlist t ! key_hash t k)")
  case None
  then show ?thesis by (simp add: rmr_sym_get_def Let_def)
next
  case (Some e)
  then have "sym_present (snd (rmr_sym_get t k)) k' \<longleftrightarrow> (if key_hash t k' = key_hash t k
      then k' \<in> ele_key ` set (upd_first (key_match k) bump_ref (symlist t ! key_hash t k)) else sym_present t k')"
    by (intro sym_present_chain [OF assms]) (simp_all add: rmr_sym_get_def Let_def)
  then show ?thesis by (simp add: keys_upd_first sym_present_keys)
qed

lemma sym_present_put:
  assumes "sym_wf t" "valid_key k" "no_alias t k"
  shows "sym_present (snd (putin True t k v)) k' \<longleftrightarrow> k' = k \<or> sym_present t k'"
proof (cases "find (\<lambda>e. ele_key e = k) (symlist t ! key_hash t k)")
  case None
  then have "sym_present (snd (putin True t k v)) k' \<longleftrightarrow> (if key_hash t k' = key_hash t k
      then k' \<in> ele_key ` set (set_val v (new_ele k) # symlist t ! key_hash t k) else sym_present t k')"
    by (intro sym_present_chain [OF assms(1)]) (simp_all add: putin_def Let_def chain_search [OF assms])
  then show ?thesis by (auto simp: ele_new_ele assms sym_present_keys)
next
  case (Some e)
  then have "sym_present (snd (putin True t k v)) k' \<longleftrightarrow> (if key_hash t k' = key_hash t k
      then k' \<in> ele_key ` set (upd_first (\<lambda>e. ele_key e = k) (set_val v) (symlist t ! key_hash t k)) else sym_present t k')"
    by (intro sym_present_chain [OF assms(1)]) (simp_all add: putin_def Let_def chain_search [OF assms])
  moreover have "sym_present t k" using Some by (simp add: sym_present_find)
  ultimately show ?thesis by (auto simp: keys_upd_first sym_present_keys)
qed

lemma sym_present_del:
  assumes "sym_wf t" "valid_key k" "no_alias t k"
  shows "sym_present (rmr_sym_del t k) k' \<longleftrightarrow> k' \<noteq> k \<and> sym_present t k'"
proof (cases "find (\<lambda>e. ele_key e = k) (symlist t ! key_hash t k)")
  case None
  then have "\<not> sym_present t k" "rmr_sym_del t k = t"
    by (simp_all add: sym_present_find rmr_sym_del_def del_ele_def chain_search [OF assms])
  then show ?thesis by auto
next
  case (Some e)
  have dk: "distinct (map ele_key (symlist t ! key_hash t k))"
    using sym_wfD(4) [OF assms(1) sym_wfD(3) [OF assms(1)]] by (simp add: chain_ok_def)
  have "sym_present (rmr_sym_del t k) k' \<longleftrightarrow> (if key_hash t k' = key_hash t k
      then k' \<in> ele_key ` set (del_first (\<lambda>e. ele_key e = k) (symlist t ! key_hash t k)) else sym_present t k')"
    using Some
    by (intro sym_present_chain [OF assms(1)]) (simp_all add: rmr_sym_del_def del_ele_def chain_search [OF assms])
  then show ?thesis unfolding set_map_del_first [OF dk] by (auto simp: sym_present_keys)
qed

lemma sym_lookup_absent: "\<not> sym_present t k \<Longrightarrow> sym_lookup t k = None"
  by (simp add: sym_present_find sym_lookup_def)

lemma sym_present_empty:
  "symlist t = replicate (st_size t) [] \<Longrightarrow> 0 < st_size t \<Longrightarrow> \<not> sym_present t k"
  using key_hash_bound [of t k] by (simp add: sym_present_def)

lemma sym_present_alloc: "\<not> sym_present (the (rmr_sym_alloc True n)) k"
  by (rule sym_present_empty; simp add: rmr_sym_alloc_def Let_def)

lemma sym_present_clear: "sym_wf t \<Longrightarrow> \<not> sym_present (rmr_sym_clear t) k"
  using sym_wfD(1) [of t] by (intro sym_present_empty) (simp_all add: rmr_sym_clear_eq)

text \<open>The keys of all elements are distinct, so the elements of a class are listed once each.\<close>

lemma sym_keys_distinct:
  assumes "sym_wf t"
  shows "distinct (map ele_key (concat (symlist t)))"
proof -
  note w = sym_wfD [OF assms]
  have "distinct (map ele_key (concat bs))"
    if "\<forall>i<length bs. distinct (map ele_key (bs ! i)) \<and> (\<forall>e\<in>set (bs ! i). h (ele_key e) = i + d)"
    for bs and h :: "sym_key \<Rightarrow> nat" and d
    using that
  proof (induction bs arbitrary: d)
    case (Cons b bs)
    have "distinct (map ele_key (concat bs))"
    proof (rule Cons.IH [of "d + 1"], intro allI impI)
      fix i assume "i < length bs"
      then show "distinct (map ele_key (bs ! i)) \<and> (\<forall>e\<in>set (bs ! i). h (ele_key e) = i + (d + 1))"
        using Cons.prems [rule_format, of "Suc i"] by simp
    qed
    moreover have "h (ele_key e) \<noteq> d" if "e \<in> set (concat bs)" for e
    proof -
      obtain b' where "b' \<in> set bs" "e \<in> set b'" using \<open>e \<in> set (concat bs)\<close> by auto
      then obtain i where "i < length bs" "e \<in> set (bs ! i)" by (auto simp: in_set_conv_nth)
      then show ?thesis using Cons.prems [rule_format, of "Suc i"] by auto
    qed
    moreover have "distinct (map ele_key b)" "\<forall>e\<in>set b. h (ele_key e) = d"
      using Cons.prems [rule_format, of 0] by auto
    ultimately show ?case by fastforce
  qed simp
  from this [of "symlist t" "key_hash t" 0] w(2,4) show ?thesis by (simp add: chain_ok_def)
qed

definition num_pairs :: "'v sym_tab \<Rightarrow> (u64 \<times> 'v option) list" where
  "num_pairs t = map (\<lambda>e. (se_nkey e, se_val e)) (filter (\<lambda>e. se_class e = 0) (concat (symlist t)))"

lemma num_pairs_class: "map snd (num_pairs t) = map snd (sym_class t 0)"
  by (simp add: num_pairs_def sym_class_def)

lemma num_pairs_keys:
  assumes "sym_wf t"
  shows "distinct (map fst (num_pairs t))"
    and "(k, v) \<in> set (num_pairs t) \<longleftrightarrow> sym_present t (NumKey k) \<and> sym_lookup t (NumKey k) = v"
proof -
  let ?es = "filter (\<lambda>e. se_class e = 0) (concat (symlist t))"
  have "distinct (map ele_key ?es)"
    using sym_keys_distinct [OF assms] by (rule distinct_map_filter)
  moreover have "map ele_key ?es = map (\<lambda>e. NumKey (se_nkey e)) ?es" by (auto simp: ele_key_def)
  ultimately have "distinct (map (\<lambda>e. NumKey (se_nkey e)) ?es)" by simp
  then show "distinct (map fst (num_pairs t))" by (simp add: num_pairs_def distinct_map comp_def inj_on_def)
  show "(k, v) \<in> set (num_pairs t) \<longleftrightarrow> sym_present t (NumKey k) \<and> sym_lookup t (NumKey k) = v" (is "?l = ?r")
  proof
    assume ?l
    then obtain e where e: "e \<in> set (concat (symlist t))" "se_class e = 0" "se_nkey e = k" "se_val e = v"
      by (auto simp: num_pairs_def)
    then have "ele_key e = NumKey k" by (simp add: ele_key_def)
    with ele_lookup [OF assms e(1)] e(4) show ?r by simp
  next
    assume ?r
    then obtain e where e: "e \<in> set (concat (symlist t))" "ele_key e = NumKey k"
      using sym_present_ele [OF assms] by blast
    with ele_lookup(2) [OF assms e(1)] \<open>?r\<close> show ?l
      by (force simp: num_pairs_def ele_key_def split: if_splits)
  qed
qed

subsection \<open>The interface other components rely on\<close>

text \<open>
  What a client of a table may assume: \<open>tinv\<close> is the table's invariant, \<open>kok\<close> the keys the
  client uses, \<open>view\<close> the map the table stands for.
\<close>

locale keyed_table =
  fixes tinv :: "'t \<Rightarrow> bool"
    and kok :: "'k \<Rightarrow> bool"
    and view :: "'t \<Rightarrow> 'k \<Rightarrow> 'v option"
    and get :: "'t \<Rightarrow> 'k \<Rightarrow> 'v option \<times> 't"
    and put :: "'t \<Rightarrow> 'k \<Rightarrow> 'v option \<Rightarrow> int \<times> 't"
    and del :: "'t \<Rightarrow> 'k \<Rightarrow> 't"
  assumes get_view: "tinv t \<Longrightarrow> kok k \<Longrightarrow> fst (get t k) = view t k"
    and get_inv: "tinv t \<Longrightarrow> kok k \<Longrightarrow> tinv (snd (get t k))"
    and get_keeps: "tinv t \<Longrightarrow> kok k \<Longrightarrow> view (snd (get t k)) = view t"
    and put_inv: "tinv t \<Longrightarrow> kok k \<Longrightarrow> tinv (snd (put t k v))"
    and put_view: "tinv t \<Longrightarrow> kok k \<Longrightarrow> view (snd (put t k v)) = (\<lambda>k'. if k' = k then v else view t k')"
    and del_inv: "tinv t \<Longrightarrow> kok k \<Longrightarrow> tinv (del t k)"
    and del_view: "tinv t \<Longrightarrow> kok k \<Longrightarrow> view (del t k) = (\<lambda>k'. if k' = k then None else view t k')"
begin

lemmas laws = get_view get_inv get_keeps put_inv put_view del_inv del_view

lemma get_after_put:
  "tinv t \<Longrightarrow> kok k \<Longrightarrow> kok k' \<Longrightarrow>
    fst (get (snd (put t k v)) k') = (if k' = k then v else fst (get t k'))"
  by (simp add: laws)

lemma get_after_del:
  "tinv t \<Longrightarrow> kok k \<Longrightarrow> kok k' \<Longrightarrow>
    fst (get (del t k) k') = (if k' = k then None else fst (get t k'))"
  by (simp add: laws)

lemma get_after_get:
  "tinv t \<Longrightarrow> kok k \<Longrightarrow> kok k' \<Longrightarrow> fst (get (snd (get t k)) k') = fst (get t k')"
  by (simp add: laws)

lemma put_all_inv:
  "tinv t \<Longrightarrow> \<forall>(k, v)\<in>set ps. kok k \<Longrightarrow> tinv (fold (\<lambda>(k, v) t. snd (put t k v)) ps t)"
  by (induction ps arbitrary: t) (auto simp: laws)

lemma put_all_view:
  "tinv t \<Longrightarrow> \<forall>(k, v)\<in>set ps. kok k \<Longrightarrow>
    view (fold (\<lambda>(k, v) t. snd (put t k v)) ps t) =
      (\<lambda>k. case map_of (rev ps) k of Some v \<Rightarrow> v | None \<Rightarrow> view t k)"
proof (induction ps arbitrary: t)
  case (Cons p ps)
  obtain k v where p: "p = (k, v)" by (cases p)
  with Cons show ?case
    by (auto simp: laws fun_eq_iff map_add_def split: option.split)
qed simp

end

text \<open>Any table, for every key but the number 0.\<close>

definition plain_key :: "sym_key \<Rightarrow> bool" where
  "plain_key k = (valid_key k \<and> k \<noteq> NumKey 0)"

interpretation any_tab: keyed_table sym_wf plain_key sym_lookup rmr_sym_get "putin True" rmr_sym_del
  by unfold_locales
     (auto simp: plain_key_def no_alias_def intro: rmr_sym_get_spec putin_spec rmr_sym_del_spec)

text \<open>
  A table that holds numbers only (the descriptor maps \<^verbatim>\<open>fd2ep\<close> and \<^verbatim>\<open>river_hash\<close>), for every
  number.
\<close>

definition num_chains :: "'v sym_ele list list \<Rightarrow> bool" where
  "num_chains bs = list_all (list_all (\<lambda>e. se_class e = 0)) bs"

definition num_tab :: "'v sym_tab \<Rightarrow> bool" where
  "num_tab t = (sym_wf t \<and> num_chains (symlist t))"

definition num_key :: "sym_key \<Rightarrow> bool" where
  "num_key k = (case k of NumKey _ \<Rightarrow> True | StrKey _ _ \<Rightarrow> False)"

lemma num_key_valid: "num_key k \<Longrightarrow> valid_key k"
  by (auto simp: num_key_def valid_key_def split: sym_key.splits)

lemma num_chain:
  assumes "num_tab t"
  shows "list_all (\<lambda>e. se_class e = 0) (symlist t ! key_hash t k)"
  using assms sym_wfD(2) [of t] sym_wfD(3) [of t k]
  by (simp add: num_tab_def num_chains_def list_all_length)

lemma num_tab_alias: "num_tab t \<Longrightarrow> no_alias t k"
  using num_chain [of t k] by (auto simp: no_alias_def list_all_iff)

lemma num_chain_update:
  "num_chains bs \<Longrightarrow> list_all (\<lambda>e. se_class e = 0) b \<Longrightarrow> num_chains (bs[h := b])"
  using set_update_subset_insert [of bs h b] by (auto simp: num_chains_def list_all_iff)

lemma num_chain_first:
  assumes "list_all (\<lambda>e. se_class e = 0) b"
  shows "list_all (\<lambda>e. se_class e = 0) (del_first P b)"
    "(\<And>e. se_class (f e) = se_class e) \<Longrightarrow> list_all (\<lambda>e. se_class e = 0) (upd_first P f b)"
  using assms by (induction b) auto

lemma num_tab_ops:
  assumes t: "num_tab t" and k: "num_key k"
  shows "num_tab (snd (rmr_sym_get t k))" "num_tab (snd (putin True t k v))" "num_tab (rmr_sym_del t k)"
proof -
  have wf: "sym_wf t" and n: "num_chains (symlist t)" using t by (simp_all add: num_tab_def)
  note ops = rmr_sym_get_spec(2) [OF wf num_key_valid [OF k] num_tab_alias [OF t]]
    putin_spec(1) [OF wf num_key_valid [OF k] num_tab_alias [OF t], of v]
    rmr_sym_del_spec(1) [OF wf num_key_valid [OF k] num_tab_alias [OF t]]
  have new: "se_class (new_ele k) = 0"
    using k by (auto simp: num_key_def new_ele_def split: sym_key.splits)
  note c = num_chain [OF t, of k] num_chain_first num_chain_update [OF n]
  have "num_chains (symlist (snd (rmr_sym_get t k)))"
    by (simp add: rmr_sym_get_def Let_def c n split: option.splits)
  with ops(1) show "num_tab (snd (rmr_sym_get t k))" by (simp add: num_tab_def)
  have "num_chains (symlist (snd (putin True t k v)))"
    by (simp add: putin_def Let_def c n new split: option.splits)
  with ops(2) show "num_tab (snd (putin True t k v))" by (simp add: num_tab_def)
  have "num_chains (symlist (rmr_sym_del t k))"
    by (simp add: rmr_sym_del_def del_ele_def c n split: option.splits)
  with ops(3) show "num_tab (rmr_sym_del t k)" by (simp add: num_tab_def)
qed

interpretation fd_tab: keyed_table num_tab num_key sym_lookup rmr_sym_get "putin True" rmr_sym_del
  by unfold_locales
     (simp_all add: num_tab_ops rmr_sym_get_spec putin_spec rmr_sym_del_spec num_key_valid
        num_tab_alias num_tab_def [THEN iffD1, THEN conjunct1])

subsection \<open>Statistics\<close>

lemma sym_stats_loop_spec:
  "sym_stats_loop cs i (e, m, mi, tw) = (e', m', mi', tw') \<Longrightarrow>
     e' = e + length (filter (\<lambda>c. c = []) cs) \<and> m' = fold max (map length cs) m \<and>
     tw' = tw + length (filter (\<lambda>c. 1 < length c) cs)"
proof (induction cs arbitrary: i e m mi tw)
  case (Cons c cs)
  note ih = Cons.IH [OF Cons.prems [unfolded sym_stats_loop.simps Let_def]]
  have "(if m < length c then length c else m) = max (length c) m" by (simp add: max_def)
  then show ?case using ih by auto
qed simp

lemma fold_max_Max: "fold max xs (m::nat) = Max (set (m # xs))"
  by (simp only: Max.set_eq_fold)

lemma filter_empty_complement:
  "length (filter (\<lambda>c. c = []) cs) + length (filter (\<lambda>c. c \<noteq> []) cs) = length cs"
  by (induction cs) auto

subsection \<open>Histories of table operations\<close>

text \<open>
  A history is a sequence of calls on one table; \<open>map_run\<close> is what it does to the map the table
  stands for.
\<close>

datatype 'v sym_op = SPut sym_key "'v option" | SDel sym_key | SGet sym_key | SClear

fun sym_step :: "'v sym_op \<Rightarrow> 'v sym_tab \<Rightarrow> 'v sym_tab" where
  "sym_step (SPut k v) t = snd (putin True t k v)"
| "sym_step (SDel k) t = rmr_sym_del t k"
| "sym_step (SGet k) t = snd (rmr_sym_get t k)"
| "sym_step SClear t = rmr_sym_clear t"

fun map_step :: "'v sym_op \<Rightarrow> (sym_key \<Rightarrow> 'v option) \<Rightarrow> (sym_key \<Rightarrow> 'v option)" where
  "map_step (SPut k v) m = (\<lambda>k'. if k' = k then v else m k')"
| "map_step (SDel k) m = (\<lambda>k'. if k' = k then None else m k')"
| "map_step (SGet k) m = m"
| "map_step SClear m = (\<lambda>_. None)"

fun sym_op_ok :: "'v sym_op \<Rightarrow> bool" where
  "sym_op_ok (SPut k v) = plain_key k"
| "sym_op_ok (SDel k) = plain_key k"
| "sym_op_ok (SGet k) = plain_key k"
| "sym_op_ok SClear = True"

lemma sym_step_spec:
  "sym_wf t \<Longrightarrow> sym_op_ok op \<Longrightarrow>
    sym_wf (sym_step op t) \<and> sym_lookup (sym_step op t) = map_step op (sym_lookup t)"
  by (cases op) (auto simp: any_tab.laws rmr_sym_clear_wf)

lemma sym_run_spec:
  "sym_wf t \<Longrightarrow> list_all sym_op_ok ops \<Longrightarrow>
    sym_wf (fold sym_step ops t) \<and> sym_lookup (fold sym_step ops t) = fold map_step ops (sym_lookup t)"
  by (induction ops arbitrary: t) (auto simp: sym_step_spec)

subsection \<open>Properties\<close>

text \<open>
  C20: a symbol table is a finite map on the strings of every class and the numbers other than 0 (the code takes any string of the
  chain for the number 0). After any sequence of puts, deletes, gets and clears on these keys, starting from a fresh table, a lookup returns exactly what
  the same sequence does to a mathematical map, and the table is still well formed (every
  element in the chain of its hash, no key twice, the resident count exact).
\<close>

theorem symtab_history:
  fixes ops :: "'v sym_op list"
  assumes "list_all sym_op_ok ops" "plain_key k"
  shows "fst (rmr_sym_get (fold sym_step ops (the (rmr_sym_alloc True n))) k) =
           fold map_step ops (\<lambda>_. None) k
         \<and> sym_wf (fold sym_step ops (the (rmr_sym_alloc True n)))"
proof -
  have "sym_lookup (the (rmr_sym_alloc True n) :: 'v sym_tab) = (\<lambda>_. None)" by (rule ext) (rule rmr_sym_alloc_wf)
  with sym_run_spec [OF rmr_sym_alloc_wf(1) assms(1), of n] show ?thesis
    by (simp add: any_tab.get_view assms(2))
qed

theorem symtab_history_witness:
  "fst (rmr_sym_get (fold sym_step
      [SPut (StrKey ''host:4560'' 1) (Some (7::nat)), SPut (NumKey 5) (Some 8), SGet (NumKey 5),
       SPut (NumKey 5) (Some 9), SDel (StrKey ''host:4560'' 1)]
      (the (rmr_sym_alloc True 129))) (NumKey 5)) = Some 9"
  using symtab_history [of "[SPut (StrKey ''host:4560'' 1) (Some (7::nat)), SPut (NumKey 5) (Some 8),
      SGet (NumKey 5), SPut (NumKey 5) (Some 9), SDel (StrKey ''host:4560'' 1)]" "NumKey 5" 129]
  by (simp add: plain_key_def valid_key_def)

text \<open>
  Numeric key 0 is not separated from string keys. The numeric search does not compare the
  class, and a string element carries numeric key 0, so after a string whose hash is 0 is put
  into an empty chain, pulling the number 0 returns the value stored under the string.
\<close>

theorem sym_pull_zero_alias:
  assumes "sym_hash name (st_size t) = 0" "0 < length (symlist t)" "symlist t ! 0 = []"
  shows "fst (rmr_sym_pull (snd (rmr_sym_put True t name cls (Some v))) 0) = Some v"
  using assms
  by (simp add: rmr_sym_pull_def rmr_sym_put_def rmr_sym_get_def putin_def Let_def key_hash_def
      key_match_def new_ele_def set_val_def)

theorem sym_pull_zero_alias_witness:
  "fst (rmr_sym_pull (snd (rmr_sym_put True (the (rmr_sym_alloc True 11)) [] 2 (Some (42::nat)))) 0) = Some 42"
  using sym_pull_zero_alias [of "[]" "the (rmr_sym_alloc True 11)" 2 "42::nat"]
  by (simp add: rmr_sym_alloc_def sym_hash_def sym_hash_acc_def)

text \<open>
  The hash of any string is a valid index of the table, whatever characters it holds: the
  64 bit accumulator may wrap and become negative, and is then complemented.
\<close>

theorem sym_hash_in_table: "0 < sz \<Longrightarrow> sym_hash n sz < sz"
  by (rule sym_hash_bound)

theorem sym_hash_in_table_witness: "sym_hash ''a-host-name.example.org:38000'' 129 < 129"
  by (rule sym_hash_in_table) simp

text \<open>
  Clearing a well-formed table empties every chain, and every resident is counted as a
  death exactly once.
\<close>

theorem sym_clear_counts:
  assumes "sym_wf t"
  shows "symlist (rmr_sym_clear t) = replicate (st_size t) []
    \<and> inhabitants (rmr_sym_clear t) = 0
    \<and> deaths (rmr_sym_clear t) = deaths t + int (length (concat (symlist t)))"
proof -
  have "sum_list (map (\<lambda>b. int (length b)) bs) = int (length (concat bs))" for bs :: "'a sym_ele list list"
    by (induction bs) auto
  with assms sym_wfD(5) [OF assms] show ?thesis by (simp add: rmr_sym_clear_eq)
qed

theorem sym_clear_counts_witness:
  "inhabitants (rmr_sym_clear (snd (rmr_sym_map True (the (rmr_sym_alloc True 129)) 3 (Some (1::nat))))) = 0"
  using sym_clear_counts [of "snd (rmr_sym_map True (the (rmr_sym_alloc True 129)) 3 (Some (1::nat)))"]
    any_tab.put_inv [OF rmr_sym_alloc_wf(1) [of 129], of "NumKey 3" "Some (1::nat)"]
  by (simp add: rmr_sym_map_def plain_key_def valid_key_def)

text \<open>
  The statistics of a table are right: the number of occupied chains, the length of the
  longest chain and the number of chains with more than one element.
\<close>

theorem sym_stats_correct:
  assumes "sym_wf t"
  shows "rep_occupied (rmr_sym_stats t) = int (length (filter (\<lambda>c. c \<noteq> []) (symlist t)))
    \<and> rep_maxch (rmr_sym_stats t) = Max (length ` set (symlist t))
    \<and> rep_twoper (rmr_sym_stats t) = length (filter (\<lambda>c. 1 < length c) (symlist t))"
proof -
  obtain e m mi tw where l: "sym_stats_loop (symlist t) 0 (0, 0, 0, 0) = (e, m, mi, tw)"
    by (metis prod_cases4)
  have "symlist t \<noteq> []" using sym_wfD(1,2) [OF assms] by auto
  then have "m = Max (length ` set (symlist t))"
    using sym_stats_loop_spec [OF l] by (simp add: fold_max_Max)
  moreover have "int (st_size t) - int e = int (length (filter (\<lambda>c. c \<noteq> []) (symlist t)))"
    using sym_stats_loop_spec [OF l] filter_empty_complement [of "symlist t"] sym_wfD(2) [OF assms]
    by simp
  ultimately show ?thesis
    using sym_stats_loop_spec [OF l] by (simp add: rmr_sym_stats_def l)
qed

theorem sym_stats_correct_witness:
  "rep_occupied (rmr_sym_stats (the (rmr_sym_alloc True 11) :: nat sym_tab)) = 0"
  using sym_stats_correct [OF rmr_sym_alloc_wf(1) [of 11], where 'a = nat]
  by (simp add: rmr_sym_alloc_def)

end
