(* ===== verification/River.thy ===== *)
theory River
  imports Mbuf Symtab
begin

text \<open>
  The receive side (\<^verbatim>\<open>si/src/mt_call_si_static.c\<close>): every connection has a \<^emph>\<open>river\<close> that collects
  the bytes the transport delivers, in pieces of any size, until a whole message is there. The
  message is then checked, given a message buffer and put onto the receive ring or handed to the
  thread whose call it answers.

  A run of the data callback may return, may do something undefined (a copy out of bounds or of
  negative length) or may use up the number of loop rounds it is given.
\<close>

datatype 'a outcome = Return 'a | Undef | NoFuel

subsection \<open>State\<close>

abbreviation (input) RS_NEW :: nat where "RS_NEW \<equiv> 0"
abbreviation (input) RS_GOOD :: nat where "RS_GOOD \<equiv> 1"
abbreviation (input) RS_RESET :: nat where "RS_RESET \<equiv> 2"
abbreviation (input) RF_NOTIFIED :: u32 where "RF_NOTIFIED \<equiv> 1"
abbreviation (input) RF_DROP :: u32 where "RF_DROP \<equiv> 2"

record river =
  rv_state :: nat
  rv_accum :: "bytes option"
  rv_nbytes :: int
  rv_ipt :: int
  rv_msg_size :: int
  rv_flags :: u32

definition river_zero :: river where
  "river_zero = \<lparr>rv_state = RS_NEW, rv_accum = None, rv_nbytes = 0, rv_ipt = 0, rv_msg_size = 0, rv_flags = 0\<rparr>"

text \<open>A chute: the message for a waiting call, its semaphore, and the transaction id expected.\<close>

record chute =
  ch_mbuf :: "mbuf option"
  ch_barrier :: nat
  ch_expect :: bytes

text \<open>
  The receive part of the context. Rivers of small descriptors are an array; the others are
  allocated one by one (\<open>rx_heap\<close>) and found through a symbol table that holds their addresses.
  \<open>last_warning\<close> is the static variable of \<open>queue_normal\<close>.
\<close>

record rx_ctx = mb_ctx +
  mring :: "mbuf ring"
  chutes :: "chute list"
  dcount :: int
  acc_dcount :: u64
  acc_ecount :: u64
  last_warning :: int
  max_ibm :: int
  nrivers :: int
  rivers :: "river list"
  river_hash :: "nat sym_tab"
  rx_heap :: "river list"

subsection \<open>From a raw message to the ring\<close>

definition chute_post :: "nat \<Rightarrow> chute list \<Rightarrow> chute list" where
  "chute_post i cs = cs[i := (cs ! i)\<lparr>ch_barrier := ch_barrier (cs ! i) + 1\<rparr>]"

definition queue_normal :: "int \<Rightarrow> ('c) rx_ctx_scheme \<Rightarrow> mbuf \<Rightarrow> ('c) rx_ctx_scheme" where
  "queue_normal now ctx mb =
     (case uta_ring_insert True (mring ctx) (Some mb) of
        (Inl _, r) \<Rightarrow>
          (let ctx1 = ctx\<lparr>mring := r, dcount := dcount ctx + 1, acc_dcount := acc_dcount ctx + 1\<rparr> in
           if now > last_warning ctx1 + 60 then ctx1\<lparr>last_warning := now, dcount := 0\<rparr> else ctx1)
      | (Inr _, r) \<Rightarrow> ctx\<lparr>mring := r, acc_ecount := acc_ecount ctx + 1, chutes := chute_post 0 (chutes ctx)\<rparr>)"

text \<open>
  \<open>buf2mbuf\<close>. The lengths the header gives are added and compared with the size as 32 bit unsigned
  numbers (\<open>rx_accepts\<close>); a message buffer is pointed at the raw message (\<open>rx_mbuf\<close>), and queued or
  handed to the chute of its call id. \<open>None\<close>: the call id is read outside of the buffer.
\<close>

definition rx_accepts :: "bytes \<Rightarrow> int \<Rightarrow> bool" where
  "rx_accepts raw_msg msg_size =
     (\<not> RMR_HDR_LEN TP_HDR_LEN raw_msg + of_nat TP_HDR_LEN + hget TP_HDR_LEN F_plen raw_msg
        > (word_of_int msg_size :: u32))"

definition rx_mbuf :: "int \<Rightarrow> mbuf \<Rightarrow> bytes \<Rightarrow> int \<Rightarrow> int \<Rightarrow> mbuf" where
  "rx_mbuf mibm m0 raw_msg msg_size sender_fd =
     (let m1 = m0\<lparr>mb_tp_buf := Some raw_msg, mb_rts_fd := sender_fd\<rparr>;
          m2 = (if msg_size > mibm + 1024 then m1\<lparr>mb_flags := mb_flags m1 OR MFL_HUGE\<rparr> else m1)
      in ref_tpbuf m2 msg_size)"

definition buf2mbuf ::
    "bool \<Rightarrow> int \<Rightarrow> bytes \<Rightarrow> int \<Rightarrow> int \<Rightarrow> ('c) rx_ctx_scheme \<Rightarrow> ('c) rx_ctx_scheme option" where
  "buf2mbuf mem now raw_msg msg_size sender_fd ctx =
     (if \<not> rx_accepts raw_msg msg_size then Some ctx
      else let (mo, ctx1) = alloc_mbuf mem ctx RMR_ERR_UNSET in
        case mo of
          None \<Rightarrow> Some ctx1
        | Some m0 \<Rightarrow>
           (let m = rx_mbuf (max_ibm ctx1) m0 raw_msg msg_size sender_fd;
                at = DATA1_ADDR TP_HDR_LEN raw_msg
            in if hflags TP_HDR_LEN raw_msg AND HFL_CALL_MSG \<noteq> 0 then Some (queue_normal now ctx1 m)
               else if RMR_D1_LEN TP_HDR_LEN raw_msg = 0 then Some (queue_normal now ctx1 m)
               else if at \<ge> length raw_msg then None
               else let call_id = unat (raw_msg ! at) in
                 if call_id = 0 then Some (queue_normal now ctx1 m)
                 else Some (ctx1\<lparr>chutes := chute_post call_id
                        ((chutes ctx1)[call_id := (chutes ctx1 ! call_id)\<lparr>ch_mbuf := Some m\<rparr>])\<rparr>)))"

subsection \<open>The data callback\<close>

datatype sizing = SzStop river | SzUndef | SzGo river int int

text \<open>The message outgrows the accumulator: a larger one takes what was collected.\<close>

definition river_enlarge :: "(nat \<Rightarrow> u8) \<Rightarrow> river \<Rightarrow> river option" where
  "river_enlarge junk r =
     (if rv_msg_size r > rv_nbytes r
      then if rv_msg_size r + 128 \<ge> 2 ^ 31 then None
           else let n = rv_msg_size r + 128; a = malloc_block junk n in
             if rv_ipt r > 0
             then Option.bind (rv_accum r) (\<lambda>old. map_option (\<lambda>a'. r\<lparr>rv_nbytes := n, rv_accum := Some a'\<rparr>)
                    (memcpy a 0 old 0 (rv_ipt r + 1)))
             else Some (r\<lparr>rv_nbytes := n, rv_accum := Some a\<rparr>)
      else Some r)"

text \<open>
  The part of a loop round that finds the length of the next message: from the accumulator when
  its first bytes came with an earlier buffer, otherwise straight from the buffer.
\<close>

definition river_sizing :: "(nat \<Rightarrow> u8) \<Rightarrow> bytes \<Rightarrow> int \<Rightarrow> int \<Rightarrow> river \<Rightarrow> sizing" where
  "river_sizing junk buf bidx remain r =
     (if rv_msg_size r > 0 then SzGo r bidx remain
      else case rv_accum r of None \<Rightarrow> SzUndef | Some a \<Rightarrow>
        (let need = int TP_SZFIELD_LEN - rv_ipt r in
         if need > remain
         then (case memcpy a (rv_ipt r) buf bidx remain of
                 None \<Rightarrow> SzUndef
               | Some a' \<Rightarrow> SzStop (r\<lparr>rv_accum := Some a', rv_ipt := rv_ipt r + remain\<rparr>))
         else
           (case (if rv_ipt r > 0
                  then map_option (\<lambda>a'. (r\<lparr>rv_accum := Some a', rv_ipt := rv_ipt r + need,
                                           rv_msg_size := sint (extract_mlen a')\<rparr>, bidx + need, remain - need))
                         (memcpy a (rv_ipt r) buf bidx need)
                  else Some (r\<lparr>rv_msg_size := sint (extract_mlen (drop (nat bidx) buf))\<rparr>, bidx, remain)) of
              None \<Rightarrow> SzUndef
            | Some (r1, bidx1, remain1) \<Rightarrow>
                if rv_msg_size r1 < 0 then SzStop (r1\<lparr>rv_state := RS_RESET\<rparr>)
                else (case river_enlarge junk r1 of None \<Rightarrow> SzUndef | Some r2 \<Rightarrow> SzGo r2 bidx1 remain1))))"

text \<open>
  The loop over the bytes of one transport buffer. \<open>deliver\<close> is what is done with a complete
  message: its accumulator and its allocated size.
\<close>

fun river_loop ::
    "nat \<Rightarrow> (bytes \<Rightarrow> int \<Rightarrow> 's \<Rightarrow> 's option) \<Rightarrow> (nat \<Rightarrow> u8) \<Rightarrow> int \<Rightarrow> bytes \<Rightarrow> int \<Rightarrow> int \<Rightarrow> river \<Rightarrow> 's
      \<Rightarrow> (river \<times> 's) outcome" where
  "river_loop fuel deliver junk mibm buf bidx remain r s =
     (if remain \<le> 0 then Return (r, s)
      else case fuel of 0 \<Rightarrow> NoFuel | Suc fuel' \<Rightarrow>
       (case river_sizing junk buf bidx remain r of
          SzUndef \<Rightarrow> Undef
        | SzStop r' \<Rightarrow> Return (r', s)
        | SzGo r1 bidx1 remain1 \<Rightarrow>
           (case rv_accum r1 of None \<Rightarrow> Undef | Some a \<Rightarrow>
            if rv_msg_size r1 > rv_ipt r1 + remain1
            then (case (if rv_flags r1 AND RF_DROP = 0 then memcpy a (rv_ipt r1) buf bidx1 remain1 else Some a) of
                    None \<Rightarrow> Undef
                  | Some a' \<Rightarrow> Return (r1\<lparr>rv_accum := Some a', rv_ipt := rv_ipt r1 + remain1\<rparr>, s))
            else let need = rv_msg_size r1 - rv_ipt r1 in
              if rv_flags r1 AND RF_DROP = 0
              then (case Option.bind (memcpy a (rv_ipt r1) buf bidx1 need) (\<lambda>a'. deliver a' (rv_nbytes r1) s) of
                      None \<Rightarrow> Undef
                    | Some s' \<Rightarrow>
                       (let n = mibm + 1024 in
                        river_loop fuel' deliver junk mibm buf (bidx1 + need) (remain1 - need)
                          (r1\<lparr>rv_nbytes := n, rv_accum := Some (malloc_block junk n),
                              rv_msg_size := -1, rv_ipt := 0\<rparr>) s'))
              else river_loop fuel' deliver junk mibm buf (bidx1 + need) (remain1 - need)
                     (r1\<lparr>rv_flags := rv_flags r1 OR RF_NOTIFIED, rv_msg_size := -1, rv_ipt := 0\<rparr>) s)))"

declare river_loop.simps [simp del]

text \<open>What the callback does with the state of the river before it looks at the bytes.\<close>

definition river_enter :: "(nat \<Rightarrow> u8) \<Rightarrow> int \<Rightarrow> river \<Rightarrow> river option" where
  "river_enter junk mibm r =
     (if rv_state r = RS_GOOD then Some r
      else if rv_state r = RS_NEW
      then Some (river_zero\<lparr>rv_nbytes := mibm + 1024, rv_accum := Some (malloc_block junk (mibm + 1024)),
                   rv_state := RS_GOOD\<rparr>)
      else if rv_state r = RS_RESET then None
      else Some (r\<lparr>rv_ipt := 0, rv_state := RS_GOOD\<rparr>))"

definition river_data ::
    "nat \<Rightarrow> (bytes \<Rightarrow> int \<Rightarrow> 's \<Rightarrow> 's option) \<Rightarrow> (nat \<Rightarrow> u8) \<Rightarrow> int \<Rightarrow> bytes \<Rightarrow> river \<Rightarrow> 's
      \<Rightarrow> (river \<times> 's) outcome" where
  "river_data fuel deliver junk mibm buf r s =
     (case river_enter junk mibm r of
        None \<Rightarrow> Return (r, s)
      | Some r' \<Rightarrow> river_loop fuel deliver junk mibm buf 0 (int (length buf)) r' s)"

text \<open>
  \<open>mt_data_cb\<close>: find the river of the descriptor (one is made on first use of a large descriptor)
  and run it over the buffer.
\<close>

definition mt_data_cb ::
    "nat \<Rightarrow> bool \<Rightarrow> int \<Rightarrow> (nat \<Rightarrow> u8) \<Rightarrow> ('c) rx_ctx_scheme \<Rightarrow> int \<Rightarrow> bytes \<Rightarrow> ('c) rx_ctx_scheme outcome" where
  "mt_data_cb fuel mem now junk ctx fd buf =
     (if buf = [] \<or> fd < 0 then Return ctx
      else let deliver = (\<lambda>raw n c. buf2mbuf mem now raw n fd c) in
      if fd \<ge> nrivers ctx
      then (let (v, h1) = rmr_sym_pull (river_hash ctx) (word_of_int fd);
                (i, ctx1) = (case v of
                   Some i \<Rightarrow> (i, ctx\<lparr>river_hash := h1\<rparr>)
                 | None \<Rightarrow> (length (rx_heap ctx),
                     ctx\<lparr>river_hash := snd (rmr_sym_map True h1 (word_of_int fd) (Some (length (rx_heap ctx)))),
                         rx_heap := rx_heap ctx @ [river_zero]\<rparr>))
            in case river_data fuel deliver junk (max_ibm ctx1) buf (rx_heap ctx1 ! i) ctx1 of
                 Return (r, ctx2) \<Rightarrow> Return (ctx2\<lparr>rx_heap := (rx_heap ctx2)[i := r]\<rparr>)
               | Undef \<Rightarrow> Undef
               | NoFuel \<Rightarrow> NoFuel)
      else (case river_data fuel deliver junk (max_ibm ctx) buf (rivers ctx ! nat fd) ctx of
              Return (r, ctx2) \<Rightarrow> Return (ctx2\<lparr>rivers := (rivers ctx2)[nat fd := r]\<rparr>)
            | Undef \<Rightarrow> Undef
            | NoFuel \<Rightarrow> NoFuel))"

text \<open>The river part of \<open>mt_disc_cb\<close>: what a disconnect does to the river of the descriptor.\<close>

definition river_disc :: "river \<Rightarrow> river" where
  "river_disc r = r\<lparr>rv_state := RS_NEW, rv_accum := None\<rparr>"

definition rx_disc :: "('c) rx_ctx_scheme \<Rightarrow> int \<Rightarrow> ('c) rx_ctx_scheme" where
  "rx_disc ctx fd =
     (if fd < nrivers ctx \<and> fd \<ge> 0 then ctx\<lparr>rivers := (rivers ctx)[nat fd := river_disc (rivers ctx ! nat fd)]\<rparr>
      else if fd > 0 then
        (let (v, h1) = rmr_sym_pull (river_hash ctx) (word_of_int fd) in
         case v of
           None \<Rightarrow> ctx\<lparr>river_hash := h1\<rparr>
         | Some i \<Rightarrow> ctx\<lparr>river_hash := h1, rx_heap := (rx_heap ctx)[i := river_disc (rx_heap ctx ! i)]\<rparr>)
      else ctx)"

subsection \<open>The stream of messages a river stands for\<close>

text \<open>
  What the bytes of a connection mean: messages, each starting with its own length, one after the
  other; the bytes of the last, incomplete one are left over.
\<close>

function deframe :: "bytes \<Rightarrow> bytes list \<times> bytes" where
  "deframe s =
     (if length s < 9 then ([], s)
      else let n = unat (extract_mlen s) in
        if n < 9 \<or> length s < n then ([], s)
        else let (fs, rest) = deframe (drop n s) in (take n s # fs, rest))"
  by pat_completeness auto
termination by (relation "measure length") auto

declare deframe.simps [simp del]

text \<open>
  The lengths found on the way are in the range the receiver handles: at least the size field, and
  small enough for the enlarged accumulator.
\<close>

function stream_ok :: "bytes \<Rightarrow> bool" where
  "stream_ok s =
     (if length s < 9 then True
      else let n = unat (extract_mlen s) in
        if n < 9 \<or> 2 ^ 31 \<le> n + 128 then False else length s < n \<or> stream_ok (drop n s))"
  by pat_completeness auto
termination by (relation "measure length") auto

declare stream_ok.simps [simp del]

lemma extract_mlen_append: "9 \<le> length a \<Longrightarrow> extract_mlen (a @ b) = extract_mlen a"
  by (simp add: extract_mlen_def nth_append bget_append)

lemma extract_mlen_take: "9 \<le> n \<Longrightarrow> n \<le> length a \<Longrightarrow> extract_mlen (take n a) = extract_mlen a"
  using extract_mlen_append [of "take n a" "drop n a"] by simp

text \<open>
  A river in the middle of a stream: its accumulator holds the bytes \<open>p\<close> of the message under way,
  and its length is known once the size field is complete. (The configured size of an accumulator is a 32 bit integer.)
\<close>

definition ibm_ok :: "int \<Rightarrow> bool" where
  "ibm_ok mibm = (0 \<le> mibm \<and> mibm + 1024 < 2 ^ 31)"

lemma ibm_okD: "ibm_ok mibm \<Longrightarrow> 0 \<le> mibm"
  by (simp add: ibm_ok_def)

definition river_holds :: "int \<Rightarrow> river \<Rightarrow> bytes \<Rightarrow> bool" where
  "river_holds mibm r p =
     (rv_state r = RS_GOOD \<and> rv_flags r = 0 \<and> mibm + 1024 \<le> rv_nbytes r \<and> rv_nbytes r < 2 ^ 31 \<and>
      (\<exists>a. rv_accum r = Some a \<and> int (length a) = rv_nbytes r \<and> take (length p) a = p) \<and>
      rv_ipt r = int (length p) \<and>
      (if length p < 9 then rv_msg_size r \<le> 0
       else rv_msg_size r = int (unat (extract_mlen p)) \<and> rv_msg_size r \<le> rv_nbytes r \<and>
         length p < unat (extract_mlen p)))"

text \<open>Handing a list of raw messages on, one after the other.\<close>

fun deliver_all :: "(bytes \<Rightarrow> int \<Rightarrow> 's \<Rightarrow> 's option) \<Rightarrow> bytes list \<Rightarrow> 's \<Rightarrow> 's option" where
  "deliver_all d [] s = Some s"
| "deliver_all d (a # as) s = Option.bind (d a (int (length a)) s) (deliver_all d as)"

text \<open>The raw messages have the frames at their start.\<close>

definition carries :: "bytes list \<Rightarrow> bytes list \<Rightarrow> bool" where
  "carries = list_all2 (\<lambda>raw f. take (length f) raw = f \<and> length f \<le> length raw \<and> length raw < 2 ^ 31)"

lemma sint_extract:
  assumes "unat (w :: u32) < 2 ^ 31"
  shows "sint w = int (unat w)"
proof -
  have "uint w < 2 ^ 31"
    using assms unfolding uint_nat by (simp only: of_nat_less_numeral_power_cancel_iff)
  from sint_small [OF this] show ?thesis by (simp add: uint_nat [symmetric])
qed

lemma take_bput_prefix:
  assumes "take k a = p" "length p = k" "k + length x \<le> length a"
  shows "take (k + length x) (bput k x a) = p @ x"
  using assms by (simp add: bput_def)

text \<open>
  One round after the length is known: the bytes of the message that are there are stored behind
  \<open>p\<close>, and either they are all that is left or they complete the message.
\<close>

definition river_sized :: "int \<Rightarrow> river \<Rightarrow> bytes \<Rightarrow> nat \<Rightarrow> bool" where
  "river_sized mibm r p n =
     (rv_state r = RS_GOOD \<and> rv_flags r = 0 \<and> mibm + 1024 \<le> rv_nbytes r \<and> rv_nbytes r < 2 ^ 31 \<and>
      (\<exists>a. rv_accum r = Some a \<and> int (length a) = rv_nbytes r \<and> take (length p) a = p) \<and>
      rv_ipt r = int (length p) \<and> rv_msg_size r = int n \<and> int n \<le> rv_nbytes r \<and> length p \<le> n)"

lemma river_enlarge_ok:
  assumes "rv_msg_size r = int n" "n + 128 < 2 ^ 31" "rv_accum r = Some a" "int (length a) = rv_nbytes r"
    "rv_ipt r = int (length p)" "take (length p) a = p" "length p < length a" "length p \<le> n"
    "rv_state r = RS_GOOD" "rv_flags r = 0" "mibm + 1024 \<le> rv_nbytes r" "rv_nbytes r < 2 ^ 31"
  shows "\<exists>r'. river_enlarge junk r = Some r' \<and> river_sized mibm r' p n"
proof (cases "rv_msg_size r > rv_nbytes r")
  case False
  then show ?thesis using assms by (auto simp: river_enlarge_def river_sized_def)
next
  case True
  have lim: "\<not> 2 ^ 31 \<le> int n + 128" using assms(2) by simp
  let ?blk = "malloc_block junk (int n + 128)"
  show ?thesis
  proof (cases "p = []")
    case True
    then show ?thesis using assms \<open>rv_msg_size r > rv_nbytes r\<close> lim
      by (auto simp: river_enlarge_def river_sized_def Let_def)
  next
    case False
    let ?c = "bput 0 (bget 0 (length p + 1) a) ?blk"
    have l: "length (bget 0 (length p + 1) a) = length p + 1" using assms(7) by (simp add: bget_def)
    have cp: "memcpy ?blk 0 a 0 (int (length p) + 1) = Some ?c"
      using assms(7,8) by (simp add: memcpy_def nat_add_distrib)
    have "take (length p) ?c = p"
      using assms(6) l by (simp add: bput_def bget_def)
    moreover have "length ?c = n + 128" using l assms(8) by (simp add: length_bput)
    ultimately show ?thesis using assms False \<open>rv_msg_size r > rv_nbytes r\<close> lim cp
      by (auto simp: river_enlarge_def river_sized_def Let_def)
  qed
qed

lemma stream_okD:
  assumes "stream_ok s" "9 \<le> length s"
  shows "9 \<le> unat (extract_mlen s)" "unat (extract_mlen s) + 128 < 2 ^ 31"
    "unat (extract_mlen s) \<le> length s \<Longrightarrow> stream_ok (drop (unat (extract_mlen s)) s)"
  using assms by (simp_all add: stream_ok.simps [of s] Let_def split: if_splits)

lemma sint_extract_ok:
  assumes "unat (extract_mlen s) + 128 < 2 ^ 31"
  shows "sint (extract_mlen s) = int (unat (extract_mlen s))"
  by (rule sint_extract) (use assms in simp)

lemma river_sizing_stop:
  assumes h: "river_holds mibm r p" and m: "ibm_ok mibm" and b: "bidx \<le> length buf"
    and short: "length (p @ drop bidx buf) < 9"
  shows "\<exists>r'. river_sizing junk buf (int bidx) (int (length buf - bidx)) r = SzStop r'
    \<and> river_holds mibm r' (p @ drop bidx buf)"
proof -
  obtain a where a: "rv_accum r = Some a" "int (length a) = rv_nbytes r" "take (length p) a = p"
    using h by (auto simp: river_holds_def)
  have st: "rv_state r = RS_GOOD" "rv_flags r = 0" "mibm + 1024 \<le> rv_nbytes r" "rv_ipt r = int (length p)"
    "rv_msg_size r \<le> 0" "rv_nbytes r < 2 ^ 31" using h short by (auto simp: river_holds_def)
  have la: "length (p @ drop bidx buf) \<le> length a" using a(2) st(3) ibm_okD [OF m] short by linarith
  let ?d = "drop bidx buf"
  have cp: "memcpy a (int (length p)) buf (int bidx) (int (length buf - bidx)) = Some (bput (length p) ?d a)"
    using la b by (simp add: memcpy_def bget_def)
  have tk: "take (length p + length ?d) (bput (length p) ?d a) = p @ ?d"
    using la by (intro take_bput_prefix a(3)) simp_all
  show ?thesis
    using cp tk a st short la b
    by (auto simp: river_sizing_def river_holds_def length_bput Let_def)
qed

lemma river_sizing_go:
  assumes h: "river_holds mibm r p" and m: "ibm_ok mibm" and b: "bidx \<le> length buf"
    and long: "9 \<le> length (p @ drop bidx buf)" and ok: "stream_ok (p @ drop bidx buf)"
  defines "n \<equiv> unat (extract_mlen (p @ drop bidx buf))"
  shows "\<exists>r1 k. river_sizing junk buf (int bidx) (int (length buf - bidx)) r =
      SzGo r1 (int (bidx + k)) (int (length buf - (bidx + k)))
    \<and> bidx + k \<le> length buf \<and> river_sized mibm r1 (p @ take k (drop bidx buf)) n \<and> (k = 0 \<longrightarrow> length p < n)"
proof -
  obtain a where a: "rv_accum r = Some a" "int (length a) = rv_nbytes r" "take (length p) a = p"
    using h by (auto simp: river_holds_def)
  have st: "rv_state r = RS_GOOD" "rv_flags r = 0" "mibm + 1024 \<le> rv_nbytes r" "rv_ipt r = int (length p)" "rv_nbytes r < 2 ^ 31"
    using h by (auto simp: river_holds_def)
  note n = stream_okD(1,2) [OF ok long, folded n_def]
  have sn: "sint (extract_mlen (p @ drop bidx buf)) = int n"
    unfolding n_def by (rule sint_extract_ok) (rule n(2) [unfolded n_def])
  show ?thesis
  proof (cases "9 \<le> length p")
    case True
    then have e: "extract_mlen (p @ drop bidx buf) = extract_mlen p" by (rule extract_mlen_append)
    then have "rv_msg_size r = int n" "rv_msg_size r \<le> rv_nbytes r" "length p < n"
      using h True by (auto simp: river_holds_def n_def)
    then show ?thesis using a st n(1) b
      by (intro exI [of _ r] exI [of _ 0]) (auto simp: river_sizing_def river_sized_def)
  next
    case False
    then have ms: "rv_msg_size r \<le> 0" using h by (simp add: river_holds_def)
    have la: "9 < length a" using a(2) st(3) ibm_okD [OF m] by linarith
    define k where "k = (if p = [] then 0 else 9 - length p)"
    have kl: "bidx + k \<le> length buf" using long b False by (auto simp: k_def)
    define q where "q = p @ take k (drop bidx buf)"
    have lq: "length q = length p + k" using kl by (simp add: q_def)
    define r0 where "r0 = (if p = [] then r\<lparr>rv_msg_size := int n\<rparr>
      else r\<lparr>rv_accum := Some (bput (length p) (take k (drop bidx buf)) a), rv_ipt := 9, rv_msg_size := int n\<rparr>)"
    have qn: "length q \<le> n" using lq n(1) False by (auto simp: k_def)
    have lt: "length (take k (drop bidx buf)) = k" using kl by simp
    have "length p + k \<le> length a" using la False by (simp add: k_def)
    then have tq: "take (length p + k) (bput (length p) (take k (drop bidx buf)) a) = q"
      using take_bput_prefix [OF a(3) refl, of "take k (drop bidx buf)", unfolded lt] by (simp add: q_def)
    have "\<exists>r'. river_enlarge junk r0 = Some r' \<and> river_sized mibm r' q n"
    proof (cases "p = []")
      case True
      then show ?thesis
        by (intro river_enlarge_ok [where a = a])
           (use a st n(2) la qn lq in \<open>auto simp: r0_def q_def k_def\<close>)
    next
      case np: False
      have l: "length (bput (length p) (take k (drop bidx buf)) a) = length a"
        using la kl False np by (simp add: length_bput k_def)
      show ?thesis
        by (intro river_enlarge_ok [where a = "bput (length p) (take k (drop bidx buf)) a"])
           (use a st n(2) la qn lq tq l np False in \<open>simp_all add: r0_def k_def\<close>)
    qed
    then obtain r' where r': "river_enlarge junk r0 = Some r'" "river_sized mibm r' q n" by blast
    have kn: "k = 0 \<longrightarrow> length p < n" using n(1) False by (auto simp: k_def)
    have "river_sizing junk buf (int bidx) (int (length buf - bidx)) r =
        SzGo r' (int (bidx + k)) (int (length buf - (bidx + k)))"
    proof (cases "p = []")
      case True
      moreover have "\<not> int (length buf) - int bidx < 9" using long True by simp
      ultimately show ?thesis using a st ms b r'(1) sn n(1)
        by (simp add: river_sizing_def r0_def k_def Let_def)
    next
      case np: False
      let ?a' = "bput (length p) (take k (drop bidx buf)) a"
      have cp: "memcpy a (int (length p)) buf (int bidx) (9 - int (length p)) = Some ?a'"
        using la long b False np by (simp add: memcpy_def bget_def k_def nat_diff_distrib)
      have k9: "length p + k = 9" using np False by (simp add: k_def)
      have "extract_mlen ?a' = extract_mlen (take 9 ?a')"
        using la kl k9 by (intro extract_mlen_take [symmetric]) (simp_all add: length_bput)
      also have "take 9 ?a' = q" using tq k9 by simp
      also have "extract_mlen q = extract_mlen (p @ drop bidx buf)"
      proof -
        have "p @ drop bidx buf = q @ drop k (drop bidx buf)" unfolding q_def append.assoc append_take_drop_id ..
        then show ?thesis using extract_mlen_append [of q] lq k9 by simp
      qed
      finally have e: "sint (extract_mlen ?a') = int n" using sn by simp
      have i: "int (length p) + (9 - int (length p)) = 9" by simp
      show ?thesis using a st ms cp e r'(1) n(1) np False long b i k9
        by (auto simp: river_sizing_def r0_def Let_def k_def)
    qed
    then show ?thesis using kl r'(2) kn unfolding q_def by blast
  qed
qed

lemma river_fresh_holds:
  assumes "rv_state r = RS_GOOD" "rv_flags r = 0" "ibm_ok mibm"
  shows "river_holds mibm (r\<lparr>rv_nbytes := mibm + 1024, rv_accum := Some (malloc_block junk (mibm + 1024)),
    rv_msg_size := -1, rv_ipt := 0\<rparr>) []"
  using assms by (simp add: river_holds_def ibm_ok_def)

text \<open>The copy that ends a round: \<open>m\<close> bytes of the buffer go behind the bytes held.\<close>

lemma river_store:
  assumes "river_sized mibm r q n" "bidx \<le> length buf" "m \<le> length buf - bidx" "length q + m \<le> n"
  obtains a a' where "rv_accum r = Some a" "memcpy a (rv_ipt r) buf (int bidx) (int m) = Some a'"
    "int (length a') = rv_nbytes r" "take (length q + m) a' = q @ take m (drop bidx buf)"
proof -
  obtain a where a: "rv_accum r = Some a" "int (length a) = rv_nbytes r" "take (length q) a = q"
    using assms(1) by (auto simp: river_sized_def)
  have i: "rv_ipt r = int (length q)" "int n \<le> rv_nbytes r" using assms(1) by (auto simp: river_sized_def)
  have l: "length q + m \<le> length a" using a(2) i(2) assms(4) by linarith
  let ?x = "take m (drop bidx buf)"
  have lx: "length ?x = m" using assms(3) by simp
  have "memcpy a (rv_ipt r) buf (int bidx) (int m) = Some (bput (length q) ?x a)"
    using l i assms(2,3) by (simp add: memcpy_def bget_def)
  moreover have "take (length q + m) (bput (length q) ?x a) = q @ ?x"
    using take_bput_prefix [OF a(3) refl, of ?x, unfolded lx] l by simp
  moreover have "int (length (bput (length q) ?x a)) = rv_nbytes r" using a(2) l lx by (simp add: length_bput)
  ultimately show thesis using that a(1) by blast
qed

lemma deframe_short: "length s < 9 \<Longrightarrow> deframe s = ([], s)"
  by (simp add: deframe.simps [of s])

lemma deframe_wait: "9 \<le> length s \<Longrightarrow> length s < unat (extract_mlen s) \<Longrightarrow> deframe s = ([], s)"
  by (simp add: deframe.simps [of s] Let_def)

lemma deframe_step:
  assumes "9 \<le> length s" "n = unat (extract_mlen s)" "9 \<le> n" "n \<le> length s"
  shows "deframe s = (take n s # fst (deframe (drop n s)), snd (deframe (drop n s)))"
  using assms by (simp add: deframe.simps [of s] Let_def split: prod.split)

definition run_result :: "river \<Rightarrow> 's option \<Rightarrow> (river \<times> 's) outcome" where
  "run_result r so = (case so of None \<Rightarrow> Undef | Some s \<Rightarrow> Return (r, s))"

lemma run_result_simps [simp]: "run_result r None = Undef" "run_result r (Some s) = Return (r, s)"
  by (simp_all add: run_result_def)

lemma take_length_append: "take (length q + m) (q @ x) = q @ take m x"
  by simp

lemma drop_length_append: "drop (length q + m) (q @ x) = drop m x"
  by simp

lemma river_loop_wait:
  assumes sz: "river_sizing junk buf (int bidx) (int (length buf - bidx)) r =
      SzGo r1 (int (bidx + k)) (int (length buf - (bidx + k)))"
    and kl: "bidx + k \<le> length buf" "bidx < length buf"
    and rs: "river_sized mibm r1 (p @ take k (drop bidx buf)) n"
    and n: "n = unat (extract_mlen (p @ drop bidx buf))" "9 \<le> length (p @ drop bidx buf)"
    and wait: "length (p @ drop bidx buf) < n"
  shows "\<exists>r'. river_loop (Suc fuel) d junk mibm buf (int bidx) (int (length buf - bidx)) r s = Return (r', s)
    \<and> river_holds mibm r' (p @ drop bidx buf)"
proof -
  let ?q = "p @ take k (drop bidx buf)" and ?s = "p @ drop bidx buf"
  let ?m = "length buf - (bidx + k)"
  have split: "?q @ drop (bidx + k) buf = ?s" by (simp add: add.commute [of bidx] flip: drop_drop)
  have lq: "length ?q + ?m = length ?s" using kl by simp
  obtain a a' where a: "rv_accum r1 = Some a"
      "memcpy a (rv_ipt r1) buf (int (bidx + k)) (int ?m) = Some a'" "int (length a') = rv_nbytes r1"
      "take (length ?q + ?m) a' = ?q @ take ?m (drop (bidx + k) buf)"
    by (rule river_store [OF rs kl(1) order.refl]) (use lq wait in linarith)
  have "take ?m (drop (bidx + k) buf) = drop (bidx + k) buf" by simp
  then have t: "take (length ?s) a' = ?s" using a(4) unfolding lq split [symmetric] by (simp only:)
  have st: "rv_state r1 = RS_GOOD" "rv_flags r1 = 0" "mibm + 1024 \<le> rv_nbytes r1"
    "rv_ipt r1 = int (length ?q)" "rv_msg_size r1 = int n" "int n \<le> rv_nbytes r1" "rv_nbytes r1 < 2 ^ 31"
    using rs by (auto simp: river_sized_def)
  have "river_holds mibm (r1\<lparr>rv_accum := Some a', rv_ipt := rv_ipt r1 + int ?m\<rparr>) ?s"
    using st a(3) t lq n wait by (simp add: river_holds_def)
  moreover have "\<not> rv_msg_size r1 \<le> rv_ipt r1 + int ?m" using st lq wait by linarith
  ultimately show ?thesis using sz kl a(1,2) st(2)
    by (auto simp: river_loop.simps [of "Suc fuel"])
qed

lemma river_loop_msg:
  assumes sz: "river_sizing junk buf (int bidx) (int (length buf - bidx)) r =
      SzGo r1 (int (bidx + k)) (int (length buf - (bidx + k)))"
    and kl: "bidx + k \<le> length buf" "bidx < length buf"
    and rs: "river_sized mibm r1 (p @ take k (drop bidx buf)) n"
    and full: "n \<le> length (p @ drop bidx buf)"
  defines "e \<equiv> bidx + k + (n - length (p @ take k (drop bidx buf)))"
  shows "\<exists>raw r2. river_loop (Suc fuel) d junk mibm buf (int bidx) (int (length buf - bidx)) r s =
      (case d raw (int (length raw)) s of None \<Rightarrow> Undef
       | Some s' \<Rightarrow> river_loop fuel d junk mibm buf (int e) (int (length buf - e)) r2 s')
    \<and> take n raw = take n (p @ drop bidx buf) \<and> n \<le> length raw \<and> length raw < 2 ^ 31
    \<and> (ibm_ok mibm \<longrightarrow> river_holds mibm r2 []) \<and> drop e buf = drop n (p @ drop bidx buf) \<and> e \<le> length buf"
proof -
  let ?q = "p @ take k (drop bidx buf)" and ?s = "p @ drop bidx buf"
  have split: "?q @ drop (bidx + k) buf = ?s" by (simp add: add.commute [of bidx] flip: drop_drop)
  have qn: "length ?q \<le> n" using rs by (simp add: river_sized_def)
  let ?m = "n - length ?q"
  have lq: "length ?q + (length buf - (bidx + k)) = length ?s" using kl by simp
  have m: "?m \<le> length buf - (bidx + k)" "length ?q + ?m = n" using full qn lq by linarith+
  obtain a a' where a: "rv_accum r1 = Some a"
      "memcpy a (rv_ipt r1) buf (int (bidx + k)) (int ?m) = Some a'" "int (length a') = rv_nbytes r1"
      "take (length ?q + ?m) a' = ?q @ take ?m (drop (bidx + k) buf)"
    by (rule river_store [OF rs kl(1) m(1)]) (use m in linarith)
  have t: "take n a' = take n ?s"
  proof -
    have "take n ?s = take (length ?q + ?m) (?q @ drop (bidx + k) buf)" unfolding split m(2) ..
    also have "\<dots> = ?q @ take ?m (drop (bidx + k) buf)" by (rule take_length_append)
    finally show ?thesis using a(4) unfolding m(2) by simp
  qed
  have st: "rv_state r1 = RS_GOOD" "rv_flags r1 = 0"
    "rv_ipt r1 = int (length ?q)" "rv_msg_size r1 = int n" "int n \<le> rv_nbytes r1" "rv_nbytes r1 < 2 ^ 31"
    using rs by (auto simp: river_sized_def)
  let ?r2 = "r1\<lparr>rv_nbytes := mibm + 1024, rv_accum := Some (malloc_block junk (mibm + 1024)),
    rv_msg_size := -1, rv_ipt := 0\<rparr>"
  have nd: "rv_msg_size r1 - rv_ipt r1 = int ?m" using st qn by (simp add: of_nat_diff)
  have nw: "\<not> rv_msg_size r1 > rv_ipt r1 + int (length buf - (bidx + k))" using st full lq by linarith
  have e1: "int (bidx + k) + int ?m = int e" "int (length buf - (bidx + k)) - int ?m = int (length buf - e)"
    using m(1) kl(1) by (simp_all add: e_def of_nat_diff)
  have dr: "drop e buf = drop n ?s"
  proof -
    have "drop n ?s = drop (length ?q + ?m) (?q @ drop (bidx + k) buf)" unfolding split m(2) ..
    also have "\<dots> = drop ?m (drop (bidx + k) buf)" by (rule drop_length_append)
    finally show ?thesis by (simp add: e_def add.commute)
  qed
  have "river_loop (Suc fuel) d junk mibm buf (int bidx) (int (length buf - bidx)) r s =
      (case d a' (int (length a')) s of None \<Rightarrow> Undef
       | Some s' \<Rightarrow> river_loop fuel d junk mibm buf (int e) (int (length buf - e)) ?r2 s')"
  proof -
    have "0 < length buf - bidx" using kl(2) by simp
    then show ?thesis
      by (subst river_loop.simps, simp only: sz sizing.case a(1) option.case nw nd e1 Let_def if_False nat.case
            a(2) Option.bind.bind_lunit)
         (simp add: a(3) st(2) split: option.split)
  qed
  moreover have "n \<le> length a'" using st(5) a(3) by linarith
  moreover have "length a' < 2 ^ 31" using st(6) unfolding a(3) [symmetric] by (simp only: of_nat_less_numeral_power_cancel_iff)
  moreover have "e \<le> length buf" using m(1) kl(1) by (simp add: e_def)
  ultimately show ?thesis using t dr river_fresh_holds [of r1 mibm junk] st(1,2) by blast
qed

lemma carries_Cons:
  "take n raw = take n s \<Longrightarrow> n \<le> length raw \<Longrightarrow> length raw < 2 ^ 31 \<Longrightarrow> n \<le> length s \<Longrightarrow> carries raws fs \<Longrightarrow>
     carries (raw # raws) (take n s # fs)"
  by (simp add: carries_def)

text \<open>The loop over one transport buffer, from any state of the river.\<close>

lemma river_loop_stream:
  assumes "ibm_ok mibm"
  shows "river_holds mibm r p \<Longrightarrow> stream_ok (p @ drop bidx buf) \<Longrightarrow> bidx \<le> length buf \<Longrightarrow>
     length buf - bidx \<le> fuel \<Longrightarrow>
     \<exists>raws r'. carries raws (fst (deframe (p @ drop bidx buf))) \<and> river_holds mibm r' (snd (deframe (p @ drop bidx buf)))
       \<and> river_loop fuel d junk mibm buf (int bidx) (int (length buf - bidx)) r s = run_result r' (deliver_all d raws s)"
proof (induction fuel arbitrary: r p bidx s)
  case 0
  then have b: "bidx = length buf" by simp
  have "deframe p = ([], p)"
    using "0.prems"(1) by (cases "length p < 9") (auto simp: river_holds_def deframe_short intro: deframe_wait)
  then show ?case using 0 b
    by (intro exI [of _ "[]"] exI [of _ r]) (simp add: carries_def river_loop.simps)
next
  case (Suc fuel)
  let ?s = "p @ drop bidx buf"
  show ?case
  proof (cases "bidx = length buf")
    case True
    then have "deframe p = ([], p)"
      using Suc.prems(1) by (cases "length p < 9") (auto simp: river_holds_def deframe_short intro: deframe_wait)
    then show ?thesis using Suc.prems True
      by (intro exI [of _ "[]"] exI [of _ r]) (simp add: carries_def river_loop.simps [of "Suc fuel"])
  next
    case False
    then have lt: "bidx < length buf" using Suc.prems(3) by simp
    show ?thesis
    proof (cases "length ?s < 9")
      case True
      obtain r' where r': "river_sizing junk buf (int bidx) (int (length buf - bidx)) r = SzStop r'"
        "river_holds mibm r' ?s"
        using river_sizing_stop [OF Suc.prems(1) assms Suc.prems(3) True] by blast
      then have "river_loop (Suc fuel) d junk mibm buf (int bidx) (int (length buf - bidx)) r s = Return (r', s)"
        using lt by (subst river_loop.simps) simp
      then show ?thesis using r'(2) deframe_short [OF True]
        by (intro exI [of _ "[]"] exI [of _ r']) (simp add: carries_def)
    next
      case long: False
      then have long': "9 \<le> length ?s" by simp
      define n where "n = unat (extract_mlen ?s)"
      obtain r1 k where g: "river_sizing junk buf (int bidx) (int (length buf - bidx)) r =
          SzGo r1 (int (bidx + k)) (int (length buf - (bidx + k)))" "bidx + k \<le> length buf"
          "river_sized mibm r1 (p @ take k (drop bidx buf)) n" "k = 0 \<longrightarrow> length p < n"
        using river_sizing_go [OF Suc.prems(1) assms Suc.prems(3) long' Suc.prems(2), folded n_def] by blast
      show ?thesis
      proof (cases "length ?s < n")
        case True
        obtain r' where "river_loop (Suc fuel) d junk mibm buf (int bidx) (int (length buf - bidx)) r s = Return (r', s)"
            "river_holds mibm r' ?s"
          using river_loop_wait [OF g(1,2) lt g(3) n_def long' True, of fuel d s] by blast
        then show ?thesis using deframe_wait [OF long' True [unfolded n_def]]
          by (intro exI [of _ "[]"] exI [of _ r']) (simp add: carries_def)
      next
        case False
        then have full: "n \<le> length ?s" by simp
        define e where "e = bidx + k + (n - length (p @ take k (drop bidx buf)))"
        obtain raw r2 where l: "river_loop (Suc fuel) d junk mibm buf (int bidx) (int (length buf - bidx)) r s =
            (case d raw (int (length raw)) s of None \<Rightarrow> Undef
             | Some s' \<Rightarrow> river_loop fuel d junk mibm buf (int e) (int (length buf - e)) r2 s')"
            "take n raw = take n ?s" "n \<le> length raw" "river_holds mibm r2 []"
            "drop e buf = drop n ?s" "e \<le> length buf" "length raw < 2 ^ 31"
          using river_loop_msg [OF g(1,2) lt g(3) full, folded e_def, of fuel d s] assms by blast
        note so = stream_okD [OF Suc.prems(2) long', folded n_def]
        have ok: "stream_ok ([] @ drop e buf)" using so(3) full l(5) by simp
        have "bidx < e" using g(4) g(2) by (cases "k = 0") (simp_all add: e_def)
        then have f: "length buf - e \<le> fuel" using Suc.prems(4) by simp
        note dfs = deframe_step [OF long' n_def so(1) full]
        show ?thesis
        proof (cases "d raw (int (length raw)) s")
          case None
          obtain raws r' where ih: "carries raws (fst (deframe (drop e buf)))" "river_holds mibm r' (snd (deframe (drop e buf)))"
            using Suc.IH [OF l(4) ok l(6) f, of s] by auto
          from carries_Cons [OF l(2,3,7) full ih(1)] show ?thesis using ih(2) None
            unfolding dfs l(1) l(5) by (intro exI [of _ "raw # raws"] exI [of _ r']) simp
        next
          case (Some s')
          obtain raws r' where ih: "carries raws (fst (deframe (drop e buf)))" "river_holds mibm r' (snd (deframe (drop e buf)))"
            "river_loop fuel d junk mibm buf (int e) (int (length buf - e)) r2 s' = run_result r' (deliver_all d raws s')"
            using Suc.IH [OF l(4) ok l(6) f, of s'] by auto
          from carries_Cons [OF l(2,3,7) full ih(1)] show ?thesis using ih(2,3) Some
            unfolding dfs l(1) l(5) by (intro exI [of _ "raw # raws"] exI [of _ r']) simp
        qed
      qed
    qed
  qed
qed

subsection \<open>A connection: buffers of any size, one after the other\<close>

fun river_chunks ::
    "(bytes \<Rightarrow> int \<Rightarrow> 's \<Rightarrow> 's option) \<Rightarrow> (nat \<Rightarrow> u8) \<Rightarrow> int \<Rightarrow> bytes list \<Rightarrow> river \<Rightarrow> 's \<Rightarrow> (river \<times> 's) outcome" where
  "river_chunks d junk mibm [] r s = Return (r, s)"
| "river_chunks d junk mibm (c # cs) r s =
     (case river_data (length c) d junk mibm c r s of
        Return (r', s') \<Rightarrow> river_chunks d junk mibm cs r' s'
      | Undef \<Rightarrow> Undef
      | NoFuel \<Rightarrow> NoFuel)"

definition river_at :: "int \<Rightarrow> river \<Rightarrow> bytes \<Rightarrow> bool" where
  "river_at mibm r p = (river_holds mibm r p \<or> rv_state r = RS_NEW \<and> p = [])"

lemma stream_ok_append:
  "stream_ok (x @ y) \<Longrightarrow> stream_ok x \<and> stream_ok (snd (deframe x) @ y)
     \<and> deframe (x @ y) = (fst (deframe x) @ fst (deframe (snd (deframe x) @ y)), snd (deframe (snd (deframe x) @ y)))"
proof (induction x rule: deframe.induct)
  case (1 x)
  show ?case
  proof (cases "length x < 9")
    case True
    then show ?thesis using 1 by (simp add: deframe_short stream_ok.simps [of x])
  next
    case False
    let ?n = "unat (extract_mlen x)"
    have e: "extract_mlen (x @ y) = extract_mlen x" using False by (simp add: extract_mlen_append)
    have xy: "9 \<le> length (x @ y)" using False by simp
    note so = stream_okD [OF "1.prems" xy, unfolded e]
    show ?thesis
    proof (cases "length x < ?n")
      case True
      then show ?thesis using 1 False so by (simp add: deframe_wait stream_ok.simps [of x] Let_def)
    next
      case full: False
      then have "stream_ok (drop ?n x @ y)" using so(3) by simp
      note ih = "1.IH" [OF False refl _ this]
      have ih': "stream_ok (drop ?n x) \<and> stream_ok (snd (deframe (drop ?n x)) @ y)
          \<and> deframe (drop ?n x @ y) = (fst (deframe (drop ?n x)) @ fst (deframe (snd (deframe (drop ?n x)) @ y)),
              snd (deframe (snd (deframe (drop ?n x)) @ y)))"
        by (rule ih) (use so(1) full in simp)
      have d1: "deframe x = (take ?n x # fst (deframe (drop ?n x)), snd (deframe (drop ?n x)))"
        using False so(1) full by (intro deframe_step) simp_all
      have d2: "deframe (x @ y) = (take ?n (x @ y) # fst (deframe (drop ?n (x @ y))), snd (deframe (drop ?n (x @ y))))"
        using xy so(1) full e by (intro deframe_step) simp_all
      have "stream_ok x" using False so(1,2) ih' by (simp add: stream_ok.simps [of x] Let_def)
      then show ?thesis using d1 d2 ih' full by simp
    qed
  qed
qed

lemma river_data_stream:
  assumes "ibm_ok mibm" "river_at mibm r p" "stream_ok (p @ c)" "length c \<le> fuel"
  shows "\<exists>raws r'. carries raws (fst (deframe (p @ c))) \<and> river_at mibm r' (snd (deframe (p @ c)))
    \<and> river_data fuel d junk mibm c r s = run_result r' (deliver_all d raws s)"
proof -
  obtain r0 where r0: "river_enter junk mibm r = Some r0" "river_holds mibm r0 p"
    using assms(1,2) by (auto simp: river_at_def river_enter_def river_holds_def river_zero_def ibm_ok_def)
  from river_loop_stream [OF assms(1) r0(2), of 0 c fuel d junk s] assms(3,4) r0(1) show ?thesis
    by (auto simp: river_data_def river_at_def)
qed

lemma carries_append: "carries a x \<Longrightarrow> carries b y \<Longrightarrow> carries (a @ b) (x @ y)"
  by (simp add: carries_def list_all2_appendI)

lemma deliver_all_append:
  "deliver_all d (a @ b) s = Option.bind (deliver_all d a s) (deliver_all d b)"
  by (induction d a s rule: deliver_all.induct) (auto simp: bind_split split: Option.bind_splits)

lemma river_chunks_stream:
  assumes "ibm_ok mibm"
  shows "river_at mibm r p \<Longrightarrow> stream_ok (p @ concat cs) \<Longrightarrow>
    \<exists>raws r'. carries raws (fst (deframe (p @ concat cs))) \<and> river_at mibm r' (snd (deframe (p @ concat cs)))
      \<and> river_chunks d junk mibm cs r s = run_result r' (deliver_all d raws s)"
proof (induction cs arbitrary: r p s)
  case Nil
  have "deframe p = ([], p)"
    using Nil(1) by (cases "length p < 9")
      (auto simp: river_at_def river_holds_def deframe_short intro: deframe_wait)
  then show ?case using Nil by (intro exI [of _ "[]"] exI [of _ r]) (simp add: carries_def)
next
  case (Cons c cs)
  have ok: "stream_ok ((p @ c) @ concat cs)" using Cons.prems(2) by simp
  note sa = stream_ok_append [OF ok]
  obtain raws r1 where 1: "carries raws (fst (deframe (p @ c)))" "river_at mibm r1 (snd (deframe (p @ c)))"
    "river_data (length c) d junk mibm c r s = run_result r1 (deliver_all d raws s)"
    using river_data_stream [OF assms Cons.prems(1), of c "length c" d junk s] sa by auto
  have ex: "\<exists>raws' r'. carries raws' (fst (deframe (snd (deframe (p @ c)) @ concat cs)))
      \<and> river_at mibm r' (snd (deframe (snd (deframe (p @ c)) @ concat cs)))
      \<and> river_chunks d junk mibm cs r1 s1 = run_result r' (deliver_all d raws' s1)" for s1
    using Cons.IH [OF 1(2)] sa by blast
  define s1 where "s1 = (case deliver_all d raws s of None \<Rightarrow> s | Some s1 \<Rightarrow> s1)"
  obtain raws' r' where 2: "carries raws' (fst (deframe (snd (deframe (p @ c)) @ concat cs)))"
      "river_at mibm r' (snd (deframe (snd (deframe (p @ c)) @ concat cs)))"
      "river_chunks d junk mibm cs r1 s1 = run_result r' (deliver_all d raws' s1)"
    using ex by blast
  have "river_chunks d junk mibm (c # cs) r s = run_result r' (deliver_all d (raws @ raws') s)"
    using 1(3) 2(3) by (simp add: deliver_all_append s1_def split: option.splits)
  then show ?case using carries_append [OF 1(1) 2(1)] 2(2) sa
    by (intro exI [of _ "raws @ raws'"] exI [of _ r']) simp
qed

subsection \<open>Frames\<close>

lemmas mlen_eval = extract_mlen_def bget_def un_le32_def un_be32_def

text \<open>A well formed message on the wire: its size field gives its length.\<close>

definition frame_ok :: "bytes \<Rightarrow> bool" where
  "frame_ok f = (9 \<le> length f \<and> unat (extract_mlen f) = length f \<and> length f + 128 < 2 ^ 31)"

lemma deframe_frames:
  "list_all frame_ok fs \<Longrightarrow> deframe (concat fs) = (fs, []) \<and> stream_ok (concat fs)"
proof (induction fs)
  case Nil
  then show ?case by (simp add: deframe_short stream_ok.simps)
next
  case (Cons f fs)
  let ?s = "f @ concat fs"
  have e: "unat (extract_mlen ?s) = length f" "9 \<le> length f" "length f + 128 < 2 ^ 31"
    using Cons.prems by (simp_all add: frame_ok_def extract_mlen_append)
  have "deframe ?s = (take (length f) ?s # fst (deframe (drop (length f) ?s)), snd (deframe (drop (length f) ?s)))"
    using e by (intro deframe_step) simp_all
  moreover have "stream_ok ?s"
    using e Cons by (simp add: stream_ok.simps [of ?s] Let_def)
  ultimately show ?case using Cons by simp
qed

subsection \<open>Lengths that are too small\<close>

text \<open>
  A size field of 0 at the start of a buffer: a round copies nothing, hands on the accumulator it found and goes
  on with a new one at the same place.
\<close>

lemma river_loop_zero_step:
  assumes z: "9 \<le> length buf" "extract_mlen buf = 0" and m: "0 \<le> mibm"
    and r: "rv_msg_size r \<le> 0" "rv_ipt r = 0" "rv_accum r = Some (malloc_block junk (mibm + 1024))"
      "rv_nbytes r = mibm + 1024" "rv_flags r = 0"
  shows "river_loop (Suc fuel) d junk mibm buf 0 (int (length buf)) r s =
    (case d (malloc_block junk (mibm + 1024)) (mibm + 1024) s of None \<Rightarrow> Undef
     | Some s' \<Rightarrow> river_loop fuel d junk mibm buf 0 (int (length buf)) (r\<lparr>rv_msg_size := -1\<rparr>) s')"
proof -
  have sz: "river_sizing junk buf 0 (int (length buf)) r = SzGo (r\<lparr>rv_msg_size := 0\<rparr>) 0 (int (length buf))"
    using r z m by (simp add: river_sizing_def river_enlarge_def)
  have cp: "memcpy a 0 buf 0 0 = Some a" for a by (simp add: memcpy_def bget_def bput_def)
  have e: "r\<lparr>rv_nbytes := mibm + 1024, rv_accum := Some (malloc_block junk (mibm + 1024)), rv_msg_size := -1, rv_ipt := 0\<rparr>
      = r\<lparr>rv_msg_size := -1\<rparr>" using r by (cases r) simp
  show ?thesis
    using z(1) r by (subst river_loop.simps) (auto simp: sz cp Let_def e split: option.split)
qed

lemma river_loop_zero:
  assumes z: "9 \<le> length buf" "extract_mlen buf = 0" and m: "0 \<le> mibm"
  shows "rv_msg_size r \<le> 0 \<Longrightarrow> rv_ipt r = 0 \<Longrightarrow> rv_accum r = Some (malloc_block junk (mibm + 1024)) \<Longrightarrow>
    rv_nbytes r = mibm + 1024 \<Longrightarrow> rv_flags r = 0 \<Longrightarrow>
    river_loop fuel d junk mibm buf 0 (int (length buf)) r s = NoFuel \<or>
    (\<exists>s. d (malloc_block junk (mibm + 1024)) (mibm + 1024) s = None) \<and>
      river_loop fuel d junk mibm buf 0 (int (length buf)) r s = Undef"
proof (induction fuel arbitrary: r s)
  case 0
  then show ?case using z by (subst river_loop.simps) auto
next
  case (Suc fuel)
  show ?case
  proof (cases "d (malloc_block junk (mibm + 1024)) (mibm + 1024) s")
    case (Some s')
    then show ?thesis using Suc.IH [of "r\<lparr>rv_msg_size := -1\<rparr>" s'] Suc.prems
      by (simp add: river_loop_zero_step [OF z m])
  qed (use Suc.prems in \<open>auto simp: river_loop_zero_step [OF z m]\<close>)
qed

text \<open>The only consumer of a river gets through when the data it looks at lies inside of the block.\<close>

definition d1_inside :: "bytes \<Rightarrow> bool" where
  "d1_inside raw = (RMR_D1_LEN TP_HDR_LEN raw = 0 \<or> DATA1_ADDR TP_HDR_LEN raw < length raw)"

lemma buf2mbuf_inside: "d1_inside raw \<Longrightarrow> buf2mbuf mem now raw n fd ctx \<noteq> None"
  by (auto simp: buf2mbuf_def d1_inside_def Let_def split: prod.split option.split)

lemma river_short_size:
  assumes h: "river_holds mibm r p" and m: "ibm_ok mibm" and p: "p \<noteq> []" "length p < 9"
    and l: "9 \<le> length (p @ buf)" and n: "unat (extract_mlen (p @ buf)) < 9"
  shows "river_loop (Suc fuel) d junk mibm buf 0 (int (length buf)) r s = Undef"
proof -
  obtain a where a: "rv_accum r = Some a" "int (length a) = rv_nbytes r" "take (length p) a = p"
    using h by (auto simp: river_holds_def)
  have st: "rv_flags r = 0" "mibm + 1024 \<le> rv_nbytes r" "rv_ipt r = int (length p)" "rv_msg_size r \<le> 0"
    using h p by (auto simp: river_holds_def)
  let ?k = "9 - length p"
  let ?a' = "bput (length p) (take ?k buf) a"
  have la: "9 \<le> length a" using a(2) st(2) ibm_okD [OF m] by linarith
  have cp: "memcpy a (int (length p)) buf 0 (9 - int (length p)) = Some ?a'"
    using la l p by (simp add: memcpy_def bget_def nat_diff_distrib)
  have lk: "length (take ?k buf) = ?k" using l by simp
  have tk: "take 9 ?a' = p @ take ?k buf"
    using take_bput_prefix [OF a(3) refl, of "take ?k buf", unfolded lk] la p by simp
  have "extract_mlen ?a' = extract_mlen (take 9 ?a')"
    using la lk p by (intro extract_mlen_take [symmetric]) (simp_all add: length_bput)
  also have "\<dots> = extract_mlen (p @ buf)"
    unfolding tk using extract_mlen_append [of "p @ take ?k buf" "drop ?k buf"] lk p by simp
  finally have e: "extract_mlen ?a' = extract_mlen (p @ buf)" .
  define n where "n = unat (extract_mlen (p @ buf))"
  have sn: "sint (extract_mlen ?a') = int n" unfolding e n_def by (rule sint_extract_ok) (use assms(6) in simp)
  have n9: "n < 9" using assms(6) by (simp add: n_def)
  let ?r1 = "r\<lparr>rv_accum := Some ?a', rv_ipt := 9, rv_msg_size := int n\<rparr>"
  have ne: "\<not> int n > rv_nbytes r" using st(2) ibm_okD [OF m] n9 by linarith
  have i: "int (length p) + (9 - int (length p)) = 9" by simp
  have lb: "int (length buf) - (9 - int (length p)) = int (length buf - ?k)" using l p by simp
  have sz: "river_sizing junk buf 0 (int (length buf)) r = SzGo ?r1 (int ?k) (int (length buf - ?k))"
    using a(1) st cp sn p l ne i by (simp add: river_sizing_def river_enlarge_def Let_def)
  have "memcpy ?a' 9 buf (int ?k) (int n - 9) = None" using n9 by (simp add: memcpy_def)
  moreover have "0 < length buf" using l p by auto
  ultimately show ?thesis using n9 st(1) by (subst river_loop.simps) (auto simp: sz Let_def)
qed

subsection \<open>Properties\<close>

text \<open>
  C11: messages are reassembled whatever way the transport cuts them. Take any sequence of messages
  on a new connection and any division of their bytes into buffers: the callback hands on exactly
  these messages, in order, each at the start of the accumulator it passes; nothing undefined
  happens, every loop ends, and nothing is left over.
\<close>

theorem stream_reassembly:
  assumes "ibm_ok mibm" "rv_state r = RS_NEW" "list_all frame_ok fs" "concat cs = concat fs"
  shows "\<exists>raws r'. river_chunks (\<lambda>raw n log. Some (log @ [raw])) junk mibm cs r [] = Return (r', raws)
    \<and> carries raws fs \<and> river_at mibm r' []"
proof -
  have at: "river_at mibm r []" using assms(2) by (simp add: river_at_def)
  have log: "deliver_all (\<lambda>raw n log. Some (log @ [raw])) as l = Some (l @ as)" for as l :: "bytes list"
    by (induction as arbitrary: l) simp_all
  show ?thesis
    using river_chunks_stream [OF assms(1) at, of cs "\<lambda>raw n log. Some (log @ [raw])" junk "[]"]
      deframe_frames [OF assms(3)] assms(4) by (auto simp: log)
qed

theorem stream_reassembly_witness:
  "\<exists>raws r'. river_chunks (\<lambda>raw n log. Some (log @ [raw])) (\<lambda>_. 0) 1024
      [[11, 0, 0], [0, 0, 0, 0, 11, 36, 1, 2, 12, 0, 0, 0, 0], [0, 0, 12, 36, 7, 8, 9]] river_zero [] = Return (r', raws)
    \<and> carries raws [[11, 0, 0, 0, 0, 0, 0, 11, 36, 1, 2], [12, 0, 0, 0, 0, 0, 0, 12, 36, 7, 8, 9]]
    \<and> river_at 1024 r' []"
proof (rule stream_reassembly)
  show "list_all frame_ok [[11, 0, 0, 0, 0, 0, 0, 11, 36, 1, 2], [12, 0, 0, 0, 0, 0, 0, 12, 36, 7, 8, 9]]"
    by (simp add: frame_ok_def mlen_eval)
qed (simp_all add: river_zero_def ibm_ok_def)

text \<open>
  C19: on any well sized stream the receive loop refines the stream parser. From a river that is new, or in good state and not dropping, and that holds
  the bytes \<open>p\<close>, where the sizes found in \<open>p\<close> followed by the buffer are at least 9 and small enough to be enlarged for, one buffer yields the messages of \<open>p\<close> followed by the buffer, whatever is done
  with them, and leaves the river holding the incomplete rest.
\<close>

theorem river_refines_deframe:
  assumes "ibm_ok mibm" "river_at mibm r p" "stream_ok (p @ buf)" "length buf \<le> fuel"
  shows "\<exists>raws r'. carries raws (fst (deframe (p @ buf)))
    \<and> river_data fuel deliver junk mibm buf r s = run_result r' (deliver_all deliver raws s)
    \<and> river_at mibm r' (snd (deframe (p @ buf)))"
  using river_data_stream [OF assms, of deliver junk s] by blast

theorem river_refines_deframe_witness:
  "\<exists>raws r'. carries raws (fst (deframe ([] @ [11, 0, 0, 0, 0, 0, 0, 11, 36, 1, 2, 12])))
    \<and> river_data 20 (\<lambda>raw n k. Some (k + 1)) (\<lambda>_. 0) 1024 [11, 0, 0, 0, 0, 0, 0, 11, 36, 1, 2, 12] river_zero 0
        = run_result r' (deliver_all (\<lambda>raw n k. Some (k + 1)) raws (0::nat))
    \<and> river_at 1024 r' (snd (deframe ([] @ [11, 0, 0, 0, 0, 0, 0, 11, 36, 1, 2, 12])))"
proof (rule river_refines_deframe)
  show "stream_ok ([] @ [11, 0, 0, 0, 0, 0, 0, 11, 36, 1, 2, 12])"
    by (simp add: stream_ok.simps [of "[11, 0, 0, 0, 0, 0, 0, 11, 36, 1, 2, 12]"] stream_ok.simps [of "[12]"] mlen_eval)
qed (simp_all add: river_at_def river_zero_def ibm_ok_def)

text \<open>
  C35: a length of 0 hangs the receive thread. When a buffer of a new connection starts with a size field of 0,
  \<open>mt_data_cb\<close> does not return, with any fuel: its loop consumes nothing, hands an accumulator of arbitrary
  contents to \<open>buf2mbuf\<close>, allocates another and starts again with the same bytes. It goes on for any number of
  rounds unless \<open>buf2mbuf\<close> reads outside of the block it is given (which is undefined behaviour); it does not when
  the arbitrary contents of the block place the call id inside of it or give it no room.
\<close>

theorem zero_length_hangs:
  fixes ctx :: "'c rx_ctx_scheme"
  assumes "9 \<le> length buf" "extract_mlen buf = 0" "0 \<le> max_ibm ctx" "0 \<le> fd" "fd < nrivers ctx"
    "rv_state (rivers ctx ! nat fd) = RS_NEW"
  shows "(\<forall>c. mt_data_cb fuel mem now junk ctx fd buf \<noteq> Return c) \<and>
    (d1_inside (malloc_block junk (max_ibm ctx + 1024)) \<longrightarrow> mt_data_cb fuel mem now junk ctx fd buf = NoFuel)"
proof -
  let ?d = "\<lambda>raw n c. buf2mbuf mem now raw n fd c" and ?m = "max_ibm ctx" and ?r = "rivers ctx ! nat fd"
  have "river_data fuel ?d junk ?m buf ?r ctx = NoFuel \<or>
      (\<exists>c :: 'c rx_ctx_scheme. ?d (malloc_block junk (?m + 1024)) (?m + 1024) c = None) \<and> river_data fuel ?d junk ?m buf ?r ctx = Undef"
    using river_loop_zero [OF assms(1-3), of "the (river_enter junk ?m ?r)" junk fuel ?d ctx] assms(6)
    by (simp add: river_data_def river_enter_def river_zero_def)
  moreover have "buf \<noteq> []" using assms(1) by auto
  ultimately show ?thesis using assms(4,5) by (auto simp: mt_data_cb_def Let_def dest: buf2mbuf_inside)
qed

text \<open>
  C36: a length smaller than the size field itself, when the field arrives in two buffers, makes the
  callback copy a negative number of bytes (undefined behaviour).
\<close>

theorem short_length_undefined:
  assumes "ibm_ok mibm" "river_holds mibm r p" "p \<noteq> []" "length p < 9"
    "9 \<le> length (p @ buf)" "unat (extract_mlen (p @ buf)) < 9" "0 < fuel"
  shows "river_data fuel deliver junk mibm buf r s = Undef"
proof -
  obtain f where "fuel = Suc f" using assms(7) by (cases fuel) auto
  then show ?thesis
    using river_short_size [OF assms(2,1,3-6)] assms(2)
    by (simp add: river_data_def river_enter_def river_holds_def)
qed

theorem short_length_undefined_witness:
  "river_data 10 (\<lambda>raw n k. Some (k + 1)) (\<lambda>_. 0) 0 [0, 0, 0, 0, 0, 36]
     \<lparr>rv_state = RS_GOOD, rv_accum = Some (4 # replicate 1023 0), rv_nbytes = 1024, rv_ipt = 3,
      rv_msg_size = 0, rv_flags = 0\<rparr> (0::nat) = Undef"
proof (rule short_length_undefined [where p = "[4, 0, 0]"])
  show "unat (extract_mlen ([4, 0, 0] @ [0, 0, 0, 0, 0, 36])) < 9" by (simp add: mlen_eval)
qed (simp_all add: river_holds_def numeral_eq_Suc ibm_ok_def)

text \<open>
  A received message that passes the length check can be read safely. When the lengths its
  header gives do not add up beyond 32 bits, the payload of the message buffer built for it lies
  inside the accumulator, and its state is good.
\<close>

theorem accepted_in_bounds:
  assumes "length raw < 2 ^ 31" "PAYLOAD_ADDR 50 raw + unat (hget 50 F_plen raw) < 2 ^ 32"
    "rx_accepts raw (int (length raw))"
  shows "let m = rx_mbuf mibm m0 raw (int (length raw)) fd in
    mb_state m = RMR_OK \<and> mb_payload m = Some (PAYLOAD_ADDR 50 raw) \<and> 0 \<le> mb_len m
    \<and> int (PAYLOAD_ADDR 50 raw) + mb_len m \<le> int (length raw)
    \<and> mb_mtype m = sint (hget 50 F_mtype raw) \<and> mb_sub_id m = sint (hget 50 F_sub_id raw)
    \<and> mb_rts_fd m = fd"
proof -
  let ?hl = "RMR_HDR_LEN 50 raw" and ?pl = "hget 50 F_plen raw"
  have nw: "unat (hget 50 F_len0 raw) + unat (hget 50 F_len1 raw) + unat (hget 50 F_len2 raw)
      + unat (hget 50 F_len3 raw) + 50 + unat ?pl < 2 ^ 32"
    using assms(2) by (simp add: PAYLOAD_ADDR_def)
  then have hl: "PAYLOAD_ADDR 50 raw = 50 + unat ?hl"
    by (simp add: PAYLOAD_ADDR_def RMR_HDR_LEN_def unat_word_ariths)
  have "unat (?hl + 50 + ?pl) = unat ?hl + 50 + unat ?pl"
    using assms(2) unfolding hl by (simp add: unat_word_ariths)
  moreover have "unat (word_of_int (int (length raw)) :: u32) = length raw"
    using assms(1) by (subst unat_word_of_int_small) simp_all
  ultimately have sum: "unat ?hl + 50 + unat ?pl \<le> length raw"
    using assms(3) by (simp add: rx_accepts_def not_less word_le_nat_alt)
  then have "unat ?hl < 2 ^ 31" "unat ?pl < 2 ^ 31" using assms(1) by linarith+
  then have s: "sint ?hl = int (unat ?hl)" "sint ?pl = int (unat ?pl)" by (simp_all only: sint_extract)
  have "\<not> sint ?pl > int (length raw) - sint ?hl" using sum unfolding s by linarith
  moreover have "int (PAYLOAD_ADDR 50 raw) + sint ?pl \<le> int (length raw)" "0 \<le> sint ?pl"
    using sum unfolding hl s by linarith+
  ultimately show ?thesis by (simp add: rx_mbuf_def ref_tpbuf_def Let_def)
qed

definition demo_raw :: "u32 \<Rightarrow> bytes" where
  "demo_raw plen = hset 50 F_plen plen (hset 50 F_len0 280 (replicate 1100 0))"

lemma demo_raw_fields:
  "length (demo_raw p) = 1100" "hget 50 F_plen (demo_raw p) = p" "hget 50 F_len0 (demo_raw p) = 280"
  "hget 50 F_len1 (demo_raw p) = 0" "hget 50 F_len2 (demo_raw p) = 0" "hget 50 F_len3 (demo_raw p) = 0"
proof -
  have z: "hget 50 f (replicate 1100 0) = 0" if "int_field f" for f
    using int_field_range [OF that] by (simp add: hget_def bget_def un_be32_def)
  show "length (demo_raw p) = 1100" "hget 50 F_plen (demo_raw p) = p" "hget 50 F_len0 (demo_raw p) = 280"
    "hget 50 F_len1 (demo_raw p) = 0" "hget 50 F_len2 (demo_raw p) = 0" "hget 50 F_len3 (demo_raw p) = 0"
    by (simp_all add: demo_raw_def z)
qed

theorem accepted_in_bounds_witness:
  "mb_state (rx_mbuf 1024 mbuf_zero (demo_raw 8) 1100 7) = RMR_OK"
  using accepted_in_bounds [of "demo_raw 8" 1024 mbuf_zero 7]
  by (simp add: demo_raw_fields PAYLOAD_ADDR_def rx_accepts_def RMR_HDR_LEN_def Let_def)

text \<open>
  C37: the length check wraps. A header whose payload length makes the 32 bit sum of the lengths 0
  passes the check for every size, and the application gets the message in good state with a
  negative payload length.
\<close>

theorem length_check_wraps:
  assumes "hget 50 F_plen raw = - (RMR_HDR_LEN 50 raw + 50)" "unat (RMR_HDR_LEN 50 raw) < 2 ^ 30"
    "0 \<le> sz" "sz < 2 ^ 31"
  shows "rx_accepts raw sz \<and> mb_state (rx_mbuf mibm m0 raw sz fd) = RMR_OK
    \<and> mb_len (rx_mbuf mibm m0 raw sz fd) < 0"
proof -
  define h where "h = unat (RMR_HDR_LEN 50 raw)"
  have h: "h < 2 ^ 30" "h < 2 ^ 31" using assms(2) by (simp_all add: h_def)
  have w: "RMR_HDR_LEN 50 raw = word_of_int (int h)" by (simp add: h_def)
  have e: "hget 50 F_plen raw = word_of_int (- (int h + 50))" unfolding assms(1) w by simp
  have pl: "sint (hget 50 F_plen raw) = - (int h + 50)"
    unfolding e by (rule sint_word_of_int) (use h in simp_all)
  have hl: "sint (RMR_HDR_LEN 50 raw) = int h" using sint_extract h(2) by (simp add: h_def)
  have "rx_accepts raw sz" by (simp add: rx_accepts_def assms(1))
  moreover have "\<not> sint (hget 50 F_plen raw) > sz - sint (RMR_HDR_LEN 50 raw)"
    unfolding pl hl using assms(3) by linarith
  ultimately show ?thesis using pl by (simp add: rx_mbuf_def ref_tpbuf_def Let_def)
qed

theorem length_check_wraps_witness:
  "rx_accepts (demo_raw (- 330)) 1100 \<and> mb_len (rx_mbuf 1024 mbuf_zero (demo_raw (- 330)) 1100 7) < 0"
  using length_check_wraps [of "demo_raw (- 330)" 1100 1024 mbuf_zero 7]
  by (simp add: demo_raw_fields RMR_HDR_LEN_def)

text \<open>
  Nothing that is received gets lost silently. A message for the normal queue goes to the end
  of the ring, wakes a reader and is counted as queued when there is room; otherwise the ring is
  left alone and the message is counted as dropped.
\<close>

theorem queue_normal_correct:
  fixes ctx :: "('c) rx_ctx_scheme" and now :: int and m :: mbuf
  assumes "ring_ok (mring ctx)"
  defines "ctx' \<equiv> queue_normal now ctx m"
  shows "ring_ok (mring ctx') \<and>
    (if length (ring_abs (mring ctx)) < ring_cap (mring ctx)
     then ring_abs (mring ctx') = ring_abs (mring ctx) @ [Some m]
       \<and> acc_ecount ctx' = acc_ecount ctx + 1 \<and> acc_dcount ctx' = acc_dcount ctx
       \<and> chutes ctx' = chute_post 0 (chutes ctx)
     else mring ctx' = mring ctx \<and> acc_ecount ctx' = acc_ecount ctx \<and> acc_dcount ctx' = acc_dcount ctx + 1
       \<and> chutes ctx' = chutes ctx)"
proof (cases "length (ring_abs (mring ctx)) < ring_cap (mring ctx)")
  case True
  obtain r where "uta_ring_insert True (mring ctx) (Some m) = (Inr (), r)" "ring_ok r"
      "ring_abs r = ring_abs (mring ctx) @ [Some m]"
    using msg_ring.ins_ok [OF assms(1) True, of "Some m"] by (metis prod.collapse)
  then show ?thesis using True by (simp add: ctx'_def queue_normal_def)
next
  case False
  then have "length (ring_abs (mring ctx)) = ring_cap (mring ctx)" using msg_ring.bound [OF assms(1)] by simp
  from msg_ring.ins_full [OF assms(1) this] show ?thesis
    using False assms(1) by (simp add: ctx'_def queue_normal_def Let_def)
qed

definition demo_rx_ctx :: rx_ctx where
  "demo_rx_ctx = mb_ctx.extend demo_mb_ctx
     \<lparr>mring = the (uta_mk_ring True True 4096), chutes = replicate 256 \<lparr>ch_mbuf = None, ch_barrier = 0, ch_expect = []\<rparr>,
      dcount = 0, acc_dcount = 0, acc_ecount = 0, last_warning = 0, max_ibm = 2048, nrivers = 1024,
      rivers = replicate 1024 river_zero, river_hash = the (rmr_sym_alloc True 129), rx_heap = []\<rparr>"

theorem queue_normal_correct_witness:
  "acc_ecount (queue_normal 100 demo_rx_ctx mbuf_zero) = 1"
proof -
  have mk: "uta_mk_ring True True 4096 = Some (mring demo_rx_ctx)"
    by (simp add: uta_mk_ring_def Let_def demo_rx_ctx_def mb_ctx.defs)
  have "ring_cap (mring demo_rx_ctx) = 4095"
    using uta_mk_ring_cap [of 4096 True, where ?'a = mbuf] mk by simp
  then show ?thesis
    using queue_normal_correct [OF uta_mk_ring_ok(1) [OF mk], of 100 mbuf_zero] uta_mk_ring_ok(2) [OF mk]
    by (simp add: demo_rx_ctx_def mb_ctx.defs)
qed

theorem zero_length_hangs_witness:
  "\<forall>fuel. mt_data_cb fuel True 100 (\<lambda>_. 0) demo_rx_ctx 7 [0, 0, 0, 0, 0, 0, 0, 0, 36] = NoFuel"
proof
  fix fuel
  have e: "extract_mlen [0, 0, 0, 0, 0, 0, 0, 0, 36] = 0" by (simp add: mlen_eval)
  have z: "malloc_block (\<lambda>_. 0) (max_ibm demo_rx_ctx + 1024) = replicate 3072 0"
    by (simp add: malloc_block_def demo_rx_ctx_def mb_ctx.defs map_replicate_const)
  have "bget (50 + uta_mhdr_t F_len2) 4 (replicate 3072 0) = replicate 4 0" by (simp add: bget_def)
  then have h: "hget 50 F_len2 (malloc_block (\<lambda>_. 0) (max_ibm demo_rx_ctx + 1024)) = 0"
    unfolding z by (simp add: hget_def un_be32_def)
  have "d1_inside (malloc_block (\<lambda>_. 0) (max_ibm demo_rx_ctx + 1024))" by (simp add: d1_inside_def RMR_D1_LEN_def h)
  moreover have "rv_state (rivers demo_rx_ctx ! nat 7) = RS_NEW" "0 \<le> max_ibm demo_rx_ctx" "7 < nrivers demo_rx_ctx"
    by (simp_all add: demo_rx_ctx_def mb_ctx.defs river_zero_def)
  ultimately show "mt_data_cb fuel True 100 (\<lambda>_. 0) demo_rx_ctx 7 [0, 0, 0, 0, 0, 0, 0, 0, 36] = NoFuel"
    using zero_length_hangs [of "[0, 0, 0, 0, 0, 0, 0, 0, 36]" demo_rx_ctx 7 fuel True 100 "\<lambda>_. 0"] e by simp
qed

end
