(* ===== verification/Route.thy ===== *)
theory Route
  imports River
begin

text \<open>
  Route tables and endpoints (\<^verbatim>\<open>common/src/rt_generic_static.c\<close> and \<^verbatim>\<open>si/src/rtable_si_static.c\<close>).

  Endpoints, route table entries and route tables are heap objects that several structures point
  at: the context keeps a store of each kind, and a pointer is an index into it. A freed object is
  \<open>None\<close> in its store. A route table maps numeric keys (subscription and message type) to entries
  and, in the same symbol table, the names of managed elements to the endpoints that own them, so a
  pointer found there is tagged with what it really points at. Using it as the other kind, or using
  a freed object, is undefined: functions that may do so return \<open>None\<close>.

  Memory is assumed to be available here; the resolver (\<open>resolve\<close>) and the connection attempt of the
  transport (\<open>connect\<close>, the descriptor or a negative number) are arguments.
\<close>

subsection \<open>State\<close>

datatype rt_val = RteRef nat | EpRef nat

record endpoint =
  ep_name :: string
  ep_addr :: "string option"
  ep_sock :: int
  ep_open :: bool
  ep_notify :: bool
  ep_good :: int
  ep_fail :: int
  ep_trans :: int

text \<open>A round robin group: the endpoints in use (at most 32) and the running index.\<close>

record rrgroup =
  ep_idx :: u16
  epts :: "nat option list"

record rte =
  rte_key :: u64
  rte_refs :: int
  rte_mtype :: int
  rrgroups :: "rrgroup option list"

record route_table =
  rt_error :: bool
  rt_hash :: "rt_val sym_tab"
  rt_updates :: int
  rt_mupdates :: int
  rt_count :: int

record uta_ctx = rx_ctx +
  c_flags :: u32
  send_retries :: int
  rtable_ready :: bool
  eps :: "endpoint list"
  ephash :: "nat sym_tab"
  fd2ep :: "nat sym_tab"
  rtes :: "rte option list"
  tabs :: "route_table option list"
  rtable :: "nat option"
  old_rtable :: "nat option"
  new_rtable :: "nat option"
  ip_list :: "string list option"
  seed_rt_fname :: "string option"
  table_id :: "string option"
  rtg_whid :: int
  wormholes :: "nat option list option"

abbreviation (input) MAX_EP_GROUP :: nat where "MAX_EP_GROUP \<equiv> 32"
abbreviation (input) RT_NAME_SPACE :: nat where "RT_NAME_SPACE \<equiv> 1"
abbreviation (input) RT_ME_SPACE :: nat where "RT_ME_SPACE \<equiv> 2"
abbreviation (input) UNSET_SUBID :: int where "UNSET_SUBID \<equiv> -1"

definition upd_ep :: "nat \<Rightarrow> (endpoint \<Rightarrow> endpoint) \<Rightarrow> uta_ctx \<Rightarrow> uta_ctx" where
  "upd_ep i f ctx = ctx\<lparr>eps := (eps ctx)[i := f (eps ctx ! i)]\<rparr>"

text \<open>The entry or table behind a pointer; \<open>None\<close> when it does not exist (any more).\<close>

definition the_rte :: "uta_ctx \<Rightarrow> nat \<Rightarrow> rte option" where
  "the_rte ctx i = (if i < length (rtes ctx) then rtes ctx ! i else None)"

definition the_rt :: "uta_ctx \<Rightarrow> nat \<Rightarrow> route_table option" where
  "the_rt ctx t = (if t < length (tabs ctx) then tabs ctx ! t else None)"

definition set_rt :: "nat \<Rightarrow> route_table option \<Rightarrow> uta_ctx \<Rightarrow> uta_ctx" where
  "set_rt t v ctx = ctx\<lparr>tabs := (tabs ctx)[t := v]\<rparr>"

definition set_hash :: "nat \<Rightarrow> route_table \<Rightarrow> rt_val sym_tab \<Rightarrow> uta_ctx \<Rightarrow> uta_ctx" where
  "set_hash t rt h ctx = set_rt t (Some (rt\<lparr>rt_hash := h\<rparr>)) ctx"

subsection \<open>Keys and endpoints\<close>

definition build_rt_key :: "int \<Rightarrow> int \<Rightarrow> u64" where
  "build_rt_key sub_id mtype =
     (if sub_id = UNSET_SUBID then 0xffffffff00000000 OR word_of_int mtype
      else push_bit 32 (word_of_int sub_id) OR (word_of_int mtype AND 0xffffffff))"

definition uta_get_ep :: "string option \<Rightarrow> uta_ctx \<Rightarrow> nat option \<times> uta_ctx" where
  "uta_get_ep nm ctx = (case nm of
      None \<Rightarrow> (None, ctx)
    | Some n \<Rightarrow> if n = [] then (None, ctx)
                else let (v, h) = rmr_sym_get (ephash ctx) (StrKey n RT_NAME_SPACE) in (v, ctx\<lparr>ephash := h\<rparr>))"

text \<open>
  A new endpoint is closed and notifies on its first failure. Its socket is not initialised by the
  code; it is only read once the endpoint is open.
\<close>

definition new_endpoint :: "(string \<Rightarrow> u32 option) \<Rightarrow> string \<Rightarrow> endpoint" where
  "new_endpoint resolve n = \<lparr>ep_name = n, ep_addr = uta_h2ip resolve n, ep_sock = 0, ep_open = False,
     ep_notify = True, ep_good = 0, ep_fail = 0, ep_trans = 0\<rparr>"

definition rt_ensure_ep :: "(string \<Rightarrow> u32 option) \<Rightarrow> string option \<Rightarrow> uta_ctx \<Rightarrow> nat option \<times> uta_ctx" where
  "rt_ensure_ep resolve nm ctx = (case nm of
      None \<Rightarrow> (None, ctx)
    | Some n \<Rightarrow>
       if n = [] then (None, ctx)
       else let (v, ctx1) = uta_get_ep nm ctx in
         case v of
           Some e \<Rightarrow> (Some e, ctx1)
         | None \<Rightarrow> (Some (length (eps ctx1)),
             ctx1\<lparr>eps := eps ctx1 @ [new_endpoint resolve n],
                  ephash := snd (rmr_sym_put True (ephash ctx1) n RT_NAME_SPACE (Some (length (eps ctx1))))\<rparr>))"

subsection \<open>Entries\<close>

definition del_rte :: "rt_val option \<Rightarrow> uta_ctx \<Rightarrow> uta_ctx option" where
  "del_rte thing ctx = (case thing of
      None \<Rightarrow> Some ctx
    | Some (EpRef _) \<Rightarrow> None
    | Some (RteRef i) \<Rightarrow> (case the_rte ctx i of
        None \<Rightarrow> None
      | Some e \<Rightarrow>
         (let n = rte_refs e - 1 in
          Some (ctx\<lparr>rtes := (rtes ctx)[i := if n > 0 then Some (e\<lparr>rte_refs := n\<rparr>) else None]\<rparr>))))"

definition uta_add_rte :: "nat \<Rightarrow> u64 \<Rightarrow> int \<Rightarrow> uta_ctx \<Rightarrow> (nat \<times> uta_ctx) option" where
  "uta_add_rte t key nrrgroups ctx =
     Option.bind (the_rt ctx t) (\<lambda>rt.
       let n = (if nrrgroups < 0 then 10 else nrrgroups);
           e = \<lparr>rte_key = key, rte_refs = 1, rte_mtype = 0, rrgroups = replicate (nat n) None\<rparr>;
           i = length (rtes ctx);
           (old, h1) = rmr_sym_pull (rt_hash rt) key;
           ctx1 = set_hash t rt h1 (ctx\<lparr>rtes := rtes ctx @ [Some e]\<rparr>)
       in Option.bind (del_rte old ctx1) (\<lambda>ctx2.
          Some (i, set_hash t rt (snd (rmr_sym_map True h1 key (Some (RteRef i)))) ctx2)))"

text \<open>
  \<open>uta_add_ep\<close>: the group is made on first use. The endpoint stored is the one
  \<open>rt_ensure_ep\<close> returns, which is nil for an empty name.
\<close>

definition uta_add_ep ::
    "(string \<Rightarrow> u32 option) \<Rightarrow> nat \<Rightarrow> string \<Rightarrow> int \<Rightarrow> uta_ctx \<Rightarrow> (nat option \<times> uta_ctx) option" where
  "uta_add_ep resolve i nm grp ctx =
     Option.bind (the_rte ctx i) (\<lambda>e.
       if int (length (rrgroups e)) \<le> grp \<or> grp < 0 then Some (None, ctx)
       else let g = nat grp;
                rrg = (case rrgroups e ! g of Some r \<Rightarrow> r | None \<Rightarrow> \<lparr>ep_idx = 0, epts = []\<rparr>);
                put = (\<lambda>r c. c\<lparr>rtes := (rtes c)[i := Some (e\<lparr>rrgroups := (rrgroups e)[g := Some r]\<rparr>)]\<rparr>);
                (ep, ctx1) = rt_ensure_ep resolve (Some nm) (put rrg ctx)
            in if length (epts rrg) \<ge> MAX_EP_GROUP then Some (None, ctx1)
               else Some (ep, put (rrg\<lparr>epts := epts rrg @ [ep]\<rparr>) ctx1))"

definition uta_get_rte :: "nat option \<Rightarrow> int \<Rightarrow> int \<Rightarrow> bool \<Rightarrow> uta_ctx \<Rightarrow> rt_val option \<times> uta_ctx" where
  "uta_get_rte t sid mtype try_alt ctx = (case Option.bind t (\<lambda>t. map_option (\<lambda>rt. (t, rt)) (the_rt ctx t)) of
      None \<Rightarrow> (None, ctx)
    | Some (t, rt) \<Rightarrow>
       (let (v, h1) = rmr_sym_pull (rt_hash rt) (build_rt_key sid mtype) in
        if v \<noteq> None \<or> \<not> try_alt then (v, set_hash t rt h1 ctx)
        else if sid \<noteq> UNSET_SUBID
        then let (v2, h2) = rmr_sym_pull h1 (build_rt_key UNSET_SUBID mtype) in (v2, set_hash t rt h2 ctx)
        else (v, set_hash t rt h1 ctx)))"

definition get_meid_owner :: "nat option \<Rightarrow> string \<Rightarrow> uta_ctx \<Rightarrow> rt_val option \<times> uta_ctx" where
  "get_meid_owner t meid ctx = (case Option.bind t (\<lambda>t. map_option (\<lambda>rt. (t, rt)) (the_rt ctx t)) of
      None \<Rightarrow> (None, ctx)
    | Some (t, rt) \<Rightarrow>
       if meid = [] then (None, ctx)
       else let (v, h) = rmr_sym_get (rt_hash rt) (StrKey meid RT_ME_SPACE) in (v, set_hash t rt h ctx))"

subsection \<open>Tables\<close>

definition empty_rt :: route_table where
  "empty_rt = \<lparr>rt_error = False, rt_hash = the (rmr_sym_alloc True 10009), rt_updates = 0,
     rt_mupdates = 0, rt_count = 0\<rparr>"

definition uta_rt_init :: "uta_ctx \<Rightarrow> nat \<times> uta_ctx" where
  "uta_rt_init ctx = (length (tabs ctx), ctx\<lparr>tabs := tabs ctx @ [Some empty_rt]\<rparr>)"

text \<open>
  The list of things collected from a table, with the size of the arrays that hold it.
\<close>

record thing_list =
  tl_nalloc :: nat
  tl_things :: "(string option \<times> rt_val) list"

definition extend_things :: "thing_list \<Rightarrow> thing_list" where
  "extend_things things = things\<lparr>tl_nalloc := tl_nalloc things + tl_nalloc things div 2\<rparr>"

definition collect_things :: "string option \<Rightarrow> rt_val option \<Rightarrow> thing_list \<Rightarrow> thing_list" where
  "collect_things nm thing things = (case thing of
      None \<Rightarrow> things
    | Some v \<Rightarrow>
       (let tl1 = things\<lparr>tl_things := tl_things things @ [(nm, v)]\<rparr> in
        if length (tl_things tl1) \<ge> tl_nalloc tl1 then extend_things tl1 else tl1))"

text \<open>One thing goes into the new table: an endpoint under its name, an entry under its key.\<close>

definition clone_thing :: "nat \<Rightarrow> nat \<Rightarrow> string option \<times> rt_val \<Rightarrow> uta_ctx \<Rightarrow> uta_ctx option" where
  "clone_thing nrt space nv ctx =
     Option.bind (the_rt ctx nrt) (\<lambda>rt.
       if space \<noteq> 0
       then Option.bind (fst nv) (\<lambda>nm.
              Some (set_hash nrt rt (snd (rmr_sym_put True (rt_hash rt) nm space (Some (snd nv)))) ctx))
       else (case snd nv of
           EpRef _ \<Rightarrow> None
         | RteRef i \<Rightarrow>
             Option.bind (the_rte ctx i) (\<lambda>e.
               Some (set_hash nrt rt (snd (rmr_sym_map True (rt_hash rt) (rte_key e) (Some (RteRef i))))
                 (ctx\<lparr>rtes := (rtes ctx)[i := Some (e\<lparr>rte_refs := rte_refs e + 1\<rparr>)]\<rparr>)))))"

fun clone_things :: "nat \<Rightarrow> nat \<Rightarrow> (string option \<times> rt_val) list \<Rightarrow> uta_ctx \<Rightarrow> uta_ctx option" where
  "clone_things nrt space [] ctx = Some ctx"
| "clone_things nrt space (nv # nvs) ctx = Option.bind (clone_thing nrt space nv ctx) (clone_things nrt space nvs)"

definition rt_clone_space :: "nat option \<Rightarrow> nat option \<Rightarrow> nat \<Rightarrow> uta_ctx \<Rightarrow> (nat \<times> uta_ctx) option" where
  "rt_clone_space srt nrt space ctx =
     (let (n, ctx1) = (case nrt of Some n \<Rightarrow> (n, ctx) | None \<Rightarrow> uta_rt_init ctx) in
      case srt of
        None \<Rightarrow> Some (n, ctx1)
      | Some s \<Rightarrow>
          Option.bind (the_rt ctx1 s) (\<lambda>rt.
            let things = tl_things (rmr_sym_foreach_class (rt_hash rt) space collect_things
                                      \<lparr>tl_nalloc = 2048, tl_things = []\<rparr>)
            in map_option (\<lambda>c. (n, c)) (clone_things n space things ctx1)))"

definition uta_rt_clone :: "nat option \<Rightarrow> nat option \<Rightarrow> bool \<Rightarrow> uta_ctx \<Rightarrow> (nat \<times> uta_ctx) option" where
  "uta_rt_clone srt drt all ctx =
     (let (d, ctx1) = (case drt of Some d \<Rightarrow> (d, ctx) | None \<Rightarrow> uta_rt_init ctx) in
      case srt of
        None \<Rightarrow> Some (d, ctx1)
      | Some _ \<Rightarrow>
          Option.bind (rt_clone_space srt (Some d) RT_ME_SPACE ctx1) (\<lambda>(_, ctx2).
            if all then rt_clone_space srt (Some d) 0 ctx2 else Some (d, ctx2)))"

text \<open>Dropping the references a table holds on entries.\<close>

definition drop_rtes :: "rt_val sym_tab \<Rightarrow> uta_ctx \<Rightarrow> uta_ctx option" where
  "drop_rtes h ctx = rmr_sym_foreach_class h 0 (\<lambda>_ v s. Option.bind s (del_rte v)) (Some ctx)"

definition uta_rt_drop :: "nat option \<Rightarrow> uta_ctx \<Rightarrow> uta_ctx option" where
  "uta_rt_drop t ctx = (case t of
      None \<Rightarrow> Some ctx
    | Some t \<Rightarrow> Option.bind (the_rt ctx t) (\<lambda>rt. map_option (set_rt t None) (drop_rtes (rt_hash rt) ctx)))"

text \<open>
  \<open>prep_new_rt\<close> takes the table drained last, waits until nobody uses it, clears it and fills it
  from the active one. \<open>None\<close> when the table is still in use: the function waits.
\<close>

definition prep_new_rt :: "bool \<Rightarrow> uta_ctx \<Rightarrow> (nat \<times> uta_ctx) option" where
  "prep_new_rt all ctx =
     Option.bind
       (case old_rtable ctx of
          None \<Rightarrow> Some (None, ctx)
        | Some t \<Rightarrow>
            Option.bind (the_rt ctx t) (\<lambda>rt.
              if rt_count rt > 0 then None
              else Option.bind (drop_rtes (rt_hash rt) (ctx\<lparr>old_rtable := None\<rparr>)) (\<lambda>c.
                Some (Some t, set_rt t (Some (rt\<lparr>rt_hash := rmr_sym_clear (rt_hash rt), rt_error := False\<rparr>)) c))))
       (\<lambda>(d, ctx1).
          Option.bind (uta_rt_clone (rtable ctx1) d all ctx1) (\<lambda>(n, ctx2).
            map_option (\<lambda>rt. (n, set_rt n (Some (rt\<lparr>rt_count := 0\<rparr>)) ctx2)) (the_rt ctx2 n)))"

definition roll_tables :: "uta_ctx \<Rightarrow> uta_ctx" where
  "roll_tables ctx =
     (if (case Option.bind (new_rtable ctx) (the_rt ctx) of None \<Rightarrow> True | Some rt \<Rightarrow> rt_error rt)
      then ctx\<lparr>old_rtable := new_rtable ctx, new_rtable := None\<rparr>
      else if rtable ctx \<noteq> None
      then ctx\<lparr>old_rtable := rtable ctx, rtable := new_rtable ctx, new_rtable := None\<rparr>
      else ctx\<lparr>old_rtable := None, rtable := new_rtable ctx, new_rtable := None\<rparr>)"

definition get_rt :: "uta_ctx \<Rightarrow> nat option \<times> uta_ctx" where
  "get_rt ctx = (case Option.bind (rtable ctx) (\<lambda>t. map_option (\<lambda>rt. (t, rt)) (the_rt ctx t)) of
      None \<Rightarrow> (None, ctx)
    | Some (t, rt) \<Rightarrow> (Some t, set_rt t (Some (rt\<lparr>rt_count := rt_count rt + 1\<rparr>)) ctx))"

definition release_rt :: "nat option \<Rightarrow> uta_ctx \<Rightarrow> uta_ctx" where
  "release_rt t ctx = (case Option.bind t (\<lambda>t. map_option (\<lambda>rt. (t, rt)) (the_rt ctx t)) of
      None \<Rightarrow> ctx
    | Some (t, rt) \<Rightarrow> if rt_count rt > 0 then set_rt t (Some (rt\<lparr>rt_count := rt_count rt - 1\<rparr>)) ctx else ctx)"

subsection \<open>Connections\<close>

definition fd2ep_add :: "int \<Rightarrow> nat \<Rightarrow> uta_ctx \<Rightarrow> uta_ctx" where
  "fd2ep_add fd e ctx = ctx\<lparr>fd2ep := snd (rmr_sym_map True (fd2ep ctx) (word_of_int fd) (Some e))\<rparr>"

definition fd2ep_get :: "int \<Rightarrow> uta_ctx \<Rightarrow> nat option \<times> uta_ctx" where
  "fd2ep_get fd ctx = (let (v, h) = rmr_sym_pull (fd2ep ctx) (word_of_int fd) in (v, ctx\<lparr>fd2ep := h\<rparr>))"

definition fd2ep_del :: "int \<Rightarrow> uta_ctx \<Rightarrow> nat option \<times> uta_ctx" where
  "fd2ep_del fd ctx =
     (let (v, h) = rmr_sym_pull (fd2ep ctx) (word_of_int fd) in
      (v, ctx\<lparr>fd2ep := if v \<noteq> None then rmr_sym_ndel h (word_of_int fd) else h\<rparr>))"

definition uta_ep_failed :: "nat option \<Rightarrow> uta_ctx \<Rightarrow> uta_ctx" where
  "uta_ep_failed ep ctx = (case ep of None \<Rightarrow> ctx | Some e \<Rightarrow> upd_ep e (\<lambda>p. p\<lparr>ep_open := False\<rparr>) ctx)"

text \<open>The address given to the transport is cut to 511 characters.\<close>

definition uta_link2 :: "(string \<Rightarrow> int) \<Rightarrow> nat option \<Rightarrow> uta_ctx \<Rightarrow> bool \<times> uta_ctx" where
  "uta_link2 connect ep ctx = (case ep of
      None \<Rightarrow> (False, ctx)
    | Some e \<Rightarrow>
       (let p = eps ctx ! e in
        if CHR '':'' \<notin> set (ep_name p) then (False, upd_ep e (\<lambda>p. p\<lparr>ep_notify := False\<rparr>) ctx)
        else if ep_open p then (True, ctx)
        else let fd = connect (take 511 (ep_name p)) in
          if fd < 0 then (False, upd_ep e (\<lambda>p. p\<lparr>ep_sock := fd, ep_notify := False\<rparr>) ctx)
          else (True, fd2ep_add fd e (upd_ep e (\<lambda>p. p\<lparr>ep_sock := fd, ep_open := True, ep_notify := True\<rparr>) ctx))))"

definition rt_link2_ep :: "(string \<Rightarrow> int) \<Rightarrow> nat option \<Rightarrow> uta_ctx \<Rightarrow> bool \<times> uta_ctx" where
  "rt_link2_ep connect ep ctx = (case ep of
      None \<Rightarrow> (False, ctx)
    | Some e \<Rightarrow>
       if ep_open (eps ctx ! e) then (True, ctx)
       else let (_, ctx1) = uta_link2 connect ep ctx in (ep_open (eps ctx1 ! e), ctx1))"

text \<open>Opening the endpoint that was selected: the socket, if there is one.\<close>

definition ep_address :: "endpoint \<Rightarrow> endpoint" where
  "ep_address p = (if ep_addr p = None then p\<lparr>ep_addr := Some (ep_name p)\<rparr> else p)"

definition ep_socket :: "bool \<Rightarrow> (string \<Rightarrow> int) \<Rightarrow> nat \<Rightarrow> uta_ctx \<Rightarrow> int option \<times> uta_ctx" where
  "ep_socket mapfd connect e ctx =
     (if ep_open (eps ctx ! e) then (Some (ep_sock (eps ctx ! e)), ctx)
      else let (ok, ctx1) = uta_link2 connect (Some e) (upd_ep e ep_address ctx) in
        if ok then let ctx2 = upd_ep e (\<lambda>p. p\<lparr>ep_open := True\<rparr>) ctx1; fd = ep_sock (eps ctx2 ! e)
                   in (Some fd, if mapfd then fd2ep_add fd e ctx2 else ctx2)
        else (None, ctx1))"

text \<open>
  \<open>uta_epsock_byname\<close> returns the socket and the endpoint given back to the caller, which stays nil
  when the endpoint had to be made. \<open>None\<close> outside: there is no active table to look in.
\<close>

definition uta_epsock_byname ::
    "(string \<Rightarrow> u32 option) \<Rightarrow> (string \<Rightarrow> int) \<Rightarrow> string \<Rightarrow> uta_ctx \<Rightarrow> ((int option \<times> nat option) \<times> uta_ctx) option" where
  "uta_epsock_byname resolve connect nm ctx =
     (let (t, ctx1) = get_rt ctx in
      case t of None \<Rightarrow> None | Some _ \<Rightarrow>
       (let (v, h) = rmr_sym_get (ephash ctx1) (StrKey nm RT_NAME_SPACE);
            (ep, ctx2) = (case v of
               Some e \<Rightarrow> (Some e, ctx1\<lparr>ephash := h\<rparr>)
             | None \<Rightarrow> rt_ensure_ep resolve (Some nm) (ctx1\<lparr>ephash := h\<rparr>));
            ctx3 = release_rt t ctx2
        in Some (case ep of
             None \<Rightarrow> ((None, v), ctx3)
           | Some e \<Rightarrow> let (fd, ctx4) = ep_socket True connect e ctx3 in ((fd, v), ctx4))))"

text \<open>
  \<open>uta_epsock_rr\<close>: whether there are more groups, the socket (with the state the function returns, the
  index in the group plus one) and the endpoint. \<open>None\<close>: the entry does not exist, or the slot
  selected holds no endpoint (nil is dereferenced).
\<close>

definition uta_epsock_rr ::
    "(string \<Rightarrow> int) \<Rightarrow> nat \<Rightarrow> int \<Rightarrow> uta_ctx \<Rightarrow> ((bool \<times> (nat \<times> int) option \<times> nat option) \<times> uta_ctx) option" where
  "uta_epsock_rr connect i grp ctx =
     Option.bind (the_rte ctx i) (\<lambda>e.
       if grp < 0 \<or> grp \<ge> int (length (rrgroups e)) then Some ((False, None, None), ctx)
       else let g = nat grp in
         case rrgroups e ! g of
           None \<Rightarrow> Some ((False, None, None), ctx)
         | Some rrg \<Rightarrow>
            (let more = (grp < int (length (rrgroups e)) - 1 \<and> rrgroups e ! (g + 1) \<noteq> None);
                 n = length (epts rrg)
             in if n = 0 then Some ((more, None, None), ctx)
                else let idx = (if n = 1 then 0 else unat (ep_idx rrg) mod n);
                         rrg1 = (if n = 1 then rrg else rrg\<lparr>ep_idx := ep_idx rrg + 1\<rparr>);
                         ctx1 = ctx\<lparr>rtes := (rtes ctx)[i := Some (e\<lparr>rrgroups := (rrgroups e)[g := Some rrg1]\<rparr>)]\<rparr>
                     in case epts rrg ! idx of
                          None \<Rightarrow> None
                        | Some p \<Rightarrow>
                            (let (fd, ctx2) = ep_socket True connect p ctx1
                             in Some ((more, map_option (\<lambda>s. (idx + 1, s)) fd, Some p), ctx2))))"

text \<open>\<open>epsock_meid\<close>: by the owner of the element id of the message.\<close>

definition epsock_meid ::
    "(string \<Rightarrow> int) \<Rightarrow> nat option \<Rightarrow> bytes \<Rightarrow> uta_ctx \<Rightarrow> ((int option \<times> nat option) \<times> uta_ctx) option" where
  "epsock_meid connect t meid ctx =
     (let (v, ctx1) = get_meid_owner t (bytes_str (cstr meid)) ctx in
      case v of
        None \<Rightarrow> Some ((None, None), ctx1)
      | Some (RteRef _) \<Rightarrow> None
      | Some (EpRef e) \<Rightarrow> (let (fd, ctx2) = ep_socket False connect e ctx1 in Some ((fd, Some e), ctx2)))"

definition incr_ep_counts :: "int \<Rightarrow> nat option \<Rightarrow> uta_ctx \<Rightarrow> uta_ctx" where
  "incr_ep_counts state ep ctx = (case ep of
      None \<Rightarrow> ctx
    | Some e \<Rightarrow> upd_ep e (\<lambda>p. if state = RMR_OK then p\<lparr>ep_good := ep_good p + 1\<rparr>
                              else if state = RMR_ERR_RETRY then p\<lparr>ep_trans := ep_trans p + 1\<rparr>
                              else p\<lparr>ep_fail := ep_fail p + 1\<rparr>) ctx)"

text \<open>The whole disconnect callback: the river, then the endpoint.\<close>

definition mt_disc_cb :: "int \<Rightarrow> uta_ctx \<Rightarrow> uta_ctx" where
  "mt_disc_cb fd ctx =
     (let (ep, ctx1) = fd2ep_del fd (rx_disc ctx fd) in
      case ep of
        None \<Rightarrow> ctx1
      | Some e \<Rightarrow> upd_ep e (\<lambda>p. p\<lparr>ep_open := False, ep_sock := -1\<rparr>) ctx1)"

end
