(* ===== verification/Send.thy ===== *)
theory Send
  imports Route
begin

text \<open>
  Sending (\<^verbatim>\<open>si/src/sr_si_static.c\<close> and the send functions of \<^verbatim>\<open>si/src/rmr_si.c\<close>).

  The transport is an argument: \<open>si n\<close> is the state \<^verbatim>\<open>SIsendt\<close> returns at the \<open>n\<close>th attempt, with
  the value of \<^verbatim>\<open>errno\<close> it leaves. A function also returns what went onto the wire: the socket and
  the bytes of each message that was sent. \<open>Undef\<close> stands for a nil header, a freed route table entry
  or an access outside of the message buffer.
\<close>

abbreviation (input) SI_OK :: int where "SI_OK \<equiv> 0"
abbreviation (input) SI_ERR_BLOCKED :: int where "SI_ERR_BLOCKED \<equiv> 18"

type_synonym wire = "int \<times> bytes"

text \<open>\<open>xlate_si_state\<close>: the state for a message and \<^verbatim>\<open>errno\<close>; the codes 1 to 17 are the listed ones.\<close>

definition xlate_si_state :: "int \<Rightarrow> int \<Rightarrow> int \<times> errno" where
  "xlate_si_state state def_state =
     (if state = 0 then (RMR_OK, E0)
      else if 1 \<le> state \<and> state \<le> 17 then (def_state, ENOTSUP) else (def_state, EAGAIN))"

subsection \<open>One message to one socket\<close>

text \<open>
  The retry loop of \<open>send_msg\<close>: the number of attempts made, the value of \<open>state\<close> when it ends, the
  state of the message and \<^verbatim>\<open>errno\<close>.
\<close>

function send_loop :: "(nat \<Rightarrow> int \<times> errno) \<Rightarrow> nat \<Rightarrow> int \<Rightarrow> int \<Rightarrow> nat \<times> int \<times> int \<times> errno" where
  "send_loop si n spin_retries retries =
     (let (state, e) = si n in
      if state \<noteq> SI_OK
      then if retries > 0 \<and> state = SI_ERR_BLOCKED
           then if spin_retries - 1 \<le> 0
                then if retries - 1 > 0 then send_loop si (n + 1) 1000 (retries - 1)
                     else (n + 1, state, state, e)
                else send_loop si (n + 1) (spin_retries - 1) retries
           else (n + 1, 0, state, e)
      else (n + 1, 0, RMR_OK, e))"
  by pat_completeness auto
termination
  by (relation "measures [\<lambda>(si, n, s, r). nat r, \<lambda>(si, n, s, r). nat s]") auto

declare send_loop.simps [simp del]

text \<open>The header as it is sent: type, subscription and length in network order, and our source.\<close>

definition send_header :: "('c) mb_ctx_scheme \<Rightarrow> mbuf \<Rightarrow> nat \<Rightarrow> bytes \<Rightarrow> bytes" where
  "send_header ctx m h b =
     (let b1 = hset h F_plen (word_of_int (mb_len m))
                 (hset h F_sub_id (word_of_int (mb_sub_id m))
                   (hset h F_mtype (word_of_int (mb_mtype m)) b))
      in if mb_flags m AND MFL_ADDSRC \<noteq> 0
         then fill_field h F_srcip (my_ip ctx) (fill_field h F_src (my_name ctx) b1) else b1)"

definition send_len :: "mbuf \<Rightarrow> nat \<Rightarrow> bytes \<Rightarrow> int" where
  "send_len m h b =
     (let tot_len = to_int32 (mb_len m + uint (RMR_HDR_LEN h b) + int TP_HDR_LEN) in
      if tot_len > mb_alloc_len m then mb_alloc_len m else tot_len)"

definition send_msg ::
    "(nat \<Rightarrow> int \<times> errno) \<Rightarrow> bool \<Rightarrow> (nat \<Rightarrow> u8) \<Rightarrow> ('c) mb_ctx_scheme \<Rightarrow> mbuf \<Rightarrow> int \<Rightarrow> int
      \<Rightarrow> (mbuf option \<times> errno \<times> ('c) mb_ctx_scheme \<times> wire list) outcome" where
  "send_msg si mem junk ctx msg nn_sock retries = (case mb_hdr msg of
      None \<Rightarrow> Undef
    | Some (h, b) \<Rightarrow>
       (let b1 = send_header ctx msg h b;
            tr_len = sint (RMR_TR_LEN h b1);
            tot_len = send_len msg h b1;
            b2 = insert_mlen (word_of_int tot_len) b1;
            (n, state, mstate, e) = (if retries = 0 then send_loop si 0 100 1 else send_loop si 0 1000 retries)
        in if tot_len < 0 \<or> tot_len > int (length b2) then Undef
           else if mstate = RMR_OK
           then let m = msg\<lparr>mb_tp_buf := Some b2, mb_state := RMR_OK\<rparr>;
                    w = [(nn_sock, take (nat tot_len) b2)]
                in if mb_flags msg AND MFL_NOALLOC = 0
                   then let (m1, ctx1) = alloc_zcmsg mem junk ctx (Some m) 0 RMR_OK tr_len
                        in Return (m1, e, ctx1, w)
                   else Return (None, e, ctx, w)
           else if state = SI_ERR_BLOCKED \<or> e = EAGAIN
           then Return (Some (msg\<lparr>mb_tp_buf := Some b2, mb_state := RMR_ERR_RETRY\<rparr>), EAGAIN, ctx, [])
           else Return (Some (msg\<lparr>mb_tp_buf := Some b2, mb_state := RMR_ERR_SENDFAILED\<rparr>), e, ctx, [])))"

definition send2ep ::
    "(nat \<Rightarrow> int \<times> errno) \<Rightarrow> bool \<Rightarrow> (nat \<Rightarrow> u8) \<Rightarrow> uta_ctx \<Rightarrow> nat \<Rightarrow> mbuf
      \<Rightarrow> (mbuf option \<times> errno \<times> uta_ctx \<times> wire list) outcome" where
  "send2ep si mem junk ctx ep msg = send_msg si mem junk ctx msg (ep_sock (eps ctx ! ep)) (- 1)"

subsection \<open>Routed sends\<close>

definition msg_meid :: "mbuf \<Rightarrow> bytes" where
  "msg_meid m = (case mb_hdr m of None \<Rightarrow> [] | Some (h, b) \<Rightarrow> drop (h + uta_mhdr_t F_meid) b)"

text \<open>The selection of a socket for a group: whether there are more, the socket, the endpoint.\<close>

definition select_ep ::
    "(string \<Rightarrow> int) \<Rightarrow> nat \<Rightarrow> nat \<Rightarrow> nat \<Rightarrow> mbuf \<Rightarrow> uta_ctx \<Rightarrow> (bool \<times> int option \<times> nat option \<times> uta_ctx) option" where
  "select_ep connect t i grp msg ctx =
     Option.bind (the_rte ctx i) (\<lambda>e.
       if rrgroups e \<noteq> []
       then map_option (\<lambda>((more, s, ep), c). (more, map_option snd s, ep, c)) (uta_epsock_rr connect i (int grp) ctx)
       else map_option (\<lambda>((s, ep), c). (False, s, ep, c)) (epsock_meid connect (Some t) (msg_meid msg) ctx))"

text \<open>
  The loop over the groups of an entry. While more groups follow, a clone is made before the message
  is sent, and the clone goes on; the message sent last comes back to the caller. \<open>si g fd\<close> is the
  transport for group \<open>g\<close> on socket \<open>fd\<close>.
\<close>

fun mtosend_loop ::
    "nat \<Rightarrow> (nat \<Rightarrow> int \<Rightarrow> nat \<Rightarrow> int \<times> errno) \<Rightarrow> (string \<Rightarrow> int) \<Rightarrow> bool \<Rightarrow> (nat \<Rightarrow> u8) \<Rightarrow> nat \<Rightarrow> nat \<Rightarrow> int
      \<Rightarrow> nat \<Rightarrow> mbuf \<Rightarrow> nat \<Rightarrow> uta_ctx \<Rightarrow> wire list
      \<Rightarrow> (mbuf option \<times> nat \<times> errno \<times> uta_ctx \<times> wire list) outcome" where
  "mtosend_loop 0 si connect mem junk t i max_to grp msg ok_sends ctx ws = NoFuel"
| "mtosend_loop (Suc fuel) si connect mem junk t i max_to grp msg ok_sends ctx ws =
     (case select_ep connect t i grp msg ctx of
        None \<Rightarrow> Undef
      | Some (send_again, sock, ep, ctx1) \<Rightarrow>
         (case sock of
            None \<Rightarrow>
              (let m = msg\<lparr>mb_state := RMR_ERR_NOENDPT\<rparr> in
               if send_again then mtosend_loop fuel si connect mem junk t i max_to (grp + 1) m ok_sends ctx1 ws
               else Return (Some m, ok_sends, ENXIO, ctx1, ws))
          | Some fd \<Rightarrow>
              if send_again
              then (case clone_msg junk msg of
                  None \<Rightarrow> Undef
                | Some clone_m \<Rightarrow>
                   (case send_msg (si grp fd) mem junk ctx1 (msg\<lparr>mb_flags := mb_flags msg OR MFL_NOALLOC\<rparr>) fd max_to of
                      Undef \<Rightarrow> Undef
                    | NoFuel \<Rightarrow> NoFuel
                    | Return (m1, e, ctx2, w) \<Rightarrow>
                       (let (m2, ok1) = (case m1 of Some _ \<Rightarrow> (clone_m, ok_sends)
                                                  | None \<Rightarrow> (clone_m\<lparr>mb_state := RMR_OK\<rparr>, ok_sends + 1))
                        in mtosend_loop fuel si connect mem junk t i max_to (grp + 1) m2 ok1
                             (incr_ep_counts (mb_state m2) ep ctx2) (ws @ w))))
              else (case send_msg (si grp fd) mem junk ctx1 msg fd max_to of
                  Undef \<Rightarrow> Undef
                | NoFuel \<Rightarrow> NoFuel
                | Return (m1, e, ctx2, w) \<Rightarrow>
                    Return (m1, ok_sends, e,
                      (case m1 of None \<Rightarrow> ctx2 | Some m \<Rightarrow> incr_ep_counts (mb_state m) ep ctx2), ws @ w))))"

definition mtosend_msg ::
    "(nat \<Rightarrow> int \<Rightarrow> nat \<Rightarrow> int \<times> errno) \<Rightarrow> (string \<Rightarrow> int) \<Rightarrow> bool \<Rightarrow> (nat \<Rightarrow> u8) \<Rightarrow> uta_ctx \<Rightarrow> mbuf \<Rightarrow> int
      \<Rightarrow> (mbuf option \<times> uta_ctx \<times> wire list) outcome" where
  "mtosend_msg si connect mem junk ctx msg max_to0 =
     (if mb_header msg = None then Return (Some (msg\<lparr>mb_state := RMR_ERR_NOHDR, mb_tp_state := EBADMSG\<rparr>), ctx, [])
      else let max_to = (if max_to0 < 0 then send_retries ctx else max_to0);
               (rt, ctx1) = get_rt ctx;
               (v, ctx2) = uta_get_rte rt (mb_sub_id msg) (mb_mtype msg) True ctx1
           in case v of
                None \<Rightarrow> Return (Some (msg\<lparr>mb_state := RMR_ERR_NOENDPT, mb_tp_state := ENXIO\<rparr>), release_rt rt ctx2, [])
              | Some (EpRef _) \<Rightarrow> Undef
              | Some (RteRef i) \<Rightarrow>
                 (case (rt, the_rte ctx2 i) of
                    (Some t, Some e) \<Rightarrow>
                      (case mtosend_loop (length (rrgroups e) + 1) si connect mem junk t i max_to 0 msg 0 ctx2 [] of
                         Undef \<Rightarrow> Undef
                       | NoFuel \<Rightarrow> NoFuel
                       | Return (m, ok_sends, e, ctx3, ws) \<Rightarrow>
                           Return (map_option (\<lambda>m. m\<lparr>mb_flags := mb_flags m AND NOT MFL_NOALLOC,
                                       mb_state := if ok_sends > 0 then RMR_OK else mb_state m,
                                       mb_tp_state := e\<rparr>) m,
                             release_rt rt ctx3, ws))
                  | _ \<Rightarrow> Undef))"

text \<open>
  Switching off the call marks of a header: the call flag and the call id in the first data byte.
\<close>

definition clear_call :: "mbuf \<Rightarrow> mbuf option" where
  "clear_call m = (case mb_hdr m of
      None \<Rightarrow> None
    | Some (h, b) \<Rightarrow>
       (let b1 = set_hflags h (hflags h b AND NOT HFL_CALL_MSG) b; at = DATA1_ADDR h b1 in
        if at \<ge> length b1 then None else Some (m\<lparr>mb_tp_buf := Some (b1[at := 0])\<rparr>)))"

definition rmr_mtosend_msg ::
    "(nat \<Rightarrow> int \<Rightarrow> nat \<Rightarrow> int \<times> errno) \<Rightarrow> (string \<Rightarrow> int) \<Rightarrow> bool \<Rightarrow> (nat \<Rightarrow> u8) \<Rightarrow> uta_ctx \<Rightarrow> mbuf option \<Rightarrow> int
      \<Rightarrow> (mbuf option \<times> uta_ctx \<times> wire list) outcome" where
  "rmr_mtosend_msg si connect mem junk ctx msg max_to = (case msg of
      None \<Rightarrow> Return (None, ctx, [])
    | Some m \<Rightarrow> (case clear_call m of
        None \<Rightarrow> Undef
      | Some m1 \<Rightarrow> mtosend_msg si connect mem junk ctx m1 max_to))"

definition rmr_send_msg ::
    "(nat \<Rightarrow> int \<Rightarrow> nat \<Rightarrow> int \<times> errno) \<Rightarrow> (string \<Rightarrow> int) \<Rightarrow> bool \<Rightarrow> (nat \<Rightarrow> u8) \<Rightarrow> uta_ctx \<Rightarrow> mbuf option
      \<Rightarrow> (mbuf option \<times> uta_ctx \<times> wire list) outcome" where
  "rmr_send_msg si connect mem junk ctx msg = (case msg of
      None \<Rightarrow> rmr_mtosend_msg si connect mem junk ctx None (- 1)
    | Some m \<Rightarrow> (case clear_call m of
        None \<Rightarrow> Undef
      | Some m1 \<Rightarrow> rmr_mtosend_msg si connect mem junk ctx (Some m1) (- 1)))"

subsection \<open>Return to sender\<close>

definition hdr_str :: "hfield \<Rightarrow> nat \<Rightarrow> bytes \<Rightarrow> string" where
  "hdr_str f h b = bytes_str (cstr (drop (h + uta_mhdr_t f) b))"

text \<open>
  The socket to answer on: by the name of the source, else the connection the message came in on,
  else by its address. The endpoint is the one whose counters are kept.
\<close>

definition rts_socket ::
    "(string \<Rightarrow> u32 option) \<Rightarrow> (string \<Rightarrow> int) \<Rightarrow> nat \<Rightarrow> bytes \<Rightarrow> int \<Rightarrow> uta_ctx
      \<Rightarrow> ((int option \<times> nat option) \<times> uta_ctx) option" where
  "rts_socket resolve connect h b rts_fd ctx =
     Option.bind (uta_epsock_byname resolve connect (hdr_str F_src h b) ctx) (\<lambda>((sock, ep), ctx1).
       if sock \<noteq> None then Some ((sock, ep), ctx1)
       else if rts_fd \<ge> 0 then Some ((Some rts_fd, ep), ctx1)
       else if hget h F_rmr_ver b > 2
       then uta_epsock_byname resolve connect (hdr_str F_srcip h b) ctx1
       else Some ((None, ep), ctx1))"

definition rmr_rts_msg ::
    "(nat \<Rightarrow> int \<times> errno) \<Rightarrow> (string \<Rightarrow> u32 option) \<Rightarrow> (string \<Rightarrow> int) \<Rightarrow> bool \<Rightarrow> (nat \<Rightarrow> u8) \<Rightarrow> uta_ctx
      \<Rightarrow> mbuf option \<Rightarrow> (mbuf option \<times> uta_ctx \<times> wire list) outcome" where
  "rmr_rts_msg si resolve connect mem junk ctx msg = (case msg of
      None \<Rightarrow> Return (None, ctx, [])
    | Some m \<Rightarrow> (case mb_hdr m of
        None \<Rightarrow> if mb_header m = None
                then Return (Some (m\<lparr>mb_state := RMR_ERR_NOHDR, mb_tp_state := E0\<rparr>), ctx, []) else Undef
      | Some (h, b) \<Rightarrow>
         (let b1 = set_hflags h (hflags h b AND NOT HFL_CALL_MSG) b in
          case rts_socket resolve connect h b1 (mb_rts_fd m) ctx of
            None \<Rightarrow> Undef
          | Some ((None, ep), ctx1) \<Rightarrow>
              Return (Some (m\<lparr>mb_tp_buf := Some b1, mb_state := RMR_ERR_NOENDPT\<rparr>), ctx1, [])
          | Some ((Some fd, ep), ctx1) \<Rightarrow>
             (let hold_src = cstr (drop (h + uta_mhdr_t F_src) b1);
                  hold_ip = cstr (drop (h + uta_mhdr_t F_srcip) b1);
                  m1 = m\<lparr>mb_state := RMR_OK, mb_tp_buf := Some (fill_field h F_src (my_name ctx1) b1)\<rparr>
              in case send_msg si mem junk ctx1 m1 fd (- 1) of
                   Undef \<Rightarrow> Undef
                 | NoFuel \<Rightarrow> NoFuel
                 | Return (mo, e, ctx2, w) \<Rightarrow>
                    (case mo of
                       None \<Rightarrow> Return (None, ctx2, w)
                     | Some m2 \<Rightarrow> (case mb_hdr m2 of
                          None \<Rightarrow> Undef
                        | Some (h2, b2) \<Rightarrow>
                            Return (Some (m2\<lparr>mb_tp_buf := Some (fill_field h2 F_srcip (hold_ip @ [0])
                                                              (fill_field h2 F_src (hold_src @ [0]) b2)),
                                             mb_flags := mb_flags m2 OR MFL_ADDSRC\<rparr>),
                              incr_ep_counts (mb_state m2) ep ctx2, w)))))))"

end
