(* ===== verification/MtCall.thy ===== *)
theory MtCall
  imports Send
begin

text \<open>
  Receiving from the ring, and calls that wait for their answer (\<^verbatim>\<open>common/src/mt_call_static.c\<close> and
  the receive and call functions of \<^verbatim>\<open>si/src/rmr_si.c\<close>).

  The receive thread runs beside these functions. \<open>env\<close> is what it does to the context while a receive
  waits on the semaphore of chute 0 (\<open>None\<close>: the wait times out); while a call waits, the events of its
  chute arrive as a list.
\<close>

abbreviation (input) MAX_CALL_ID :: nat where "MAX_CALL_ID \<equiv> 255"
abbreviation (input) CFL_MTC_ENABLED :: u32 where "CFL_MTC_ENABLED \<equiv> 1"

text \<open>
  \<open>init_mtcall\<close> allocates 256 chutes and initialises the first 255; \<open>old\<close> is what the allocated memory
  holds.
\<close>

definition init_mtcall :: "chute list \<Rightarrow> uta_ctx \<Rightarrow> uta_ctx" where
  "init_mtcall old ctx =
     ctx\<lparr>chutes := map (\<lambda>i. if i < MAX_CALL_ID then (old ! i)\<lparr>ch_mbuf := None, ch_barrier := 0\<rparr> else old ! i)
                     [0..<MAX_CALL_ID + 1]\<rparr>"

subsection \<open>Receiving\<close>

text \<open>
  The time at which a wait of \<open>max_wait\<close> milliseconds ends, from the time now in seconds and
  nanoseconds.
\<close>

definition wait_until :: "int \<times> int \<Rightarrow> int \<Rightarrow> int \<times> int" where
  "wait_until now max_wait =
     (let (s, ns) = now;
          (s1, mw) = (if max_wait > 999 then (s + max_wait div 1000, max_wait - max_wait div 1000 * 1000) else (s, max_wait));
          ns1 = (if mw > 0 then ns + mw * 1000000 else ns)
      in if mw > 0 \<and> ns1 > 999999999 then (s1 + 1, ns1 - 999999999) else (s1, ns1))"

definition sem_dec :: "('c) rx_ctx_scheme \<Rightarrow> ('c) rx_ctx_scheme" where
  "sem_dec ctx = ctx\<lparr>chutes := (chutes ctx)[0 := (chutes ctx ! 0)\<lparr>ch_barrier := ch_barrier (chutes ctx ! 0) - 1\<rparr>]\<rparr>"

definition sem_wait0 :: "(('c) rx_ctx_scheme \<Rightarrow> ('c) rx_ctx_scheme option) \<Rightarrow> ('c) rx_ctx_scheme \<Rightarrow> ('c) rx_ctx_scheme option" where
  "sem_wait0 env ctx =
     (if ch_barrier (chutes ctx ! 0) > 0 then Some (sem_dec ctx) else map_option sem_dec (env ctx))"

definition rmr_mt_rcv ::
    "(('c) rx_ctx_scheme \<Rightarrow> ('c) rx_ctx_scheme option) \<Rightarrow> ('c) rx_ctx_scheme \<Rightarrow> mbuf option \<Rightarrow> int
      \<Rightarrow> mbuf option \<times> ('c) rx_ctx_scheme" where
  "rmr_mt_rcv env ctx ombuf max_wait =
     (if max_wait = 0
      then let (q, r) = uta_ring_extract True (mring ctx); ctx1 = ctx\<lparr>mring := r\<rparr> in
        case q of
          Some m \<Rightarrow> (Some (m\<lparr>mb_flags := mb_flags m OR MFL_ADDSRC\<rparr>),
                     if ch_barrier (chutes ctx1 ! 0) > 0 then sem_dec ctx1 else ctx1)
        | None \<Rightarrow> (map_option (\<lambda>m. m\<lparr>mb_state := RMR_ERR_TIMEOUT, mb_len := 0, mb_flags := mb_flags m OR MFL_ADDSRC\<rparr>) ombuf, ctx1)
      else let om = map_option (\<lambda>m. m\<lparr>mb_state := RMR_ERR_TIMEOUT, mb_len := 0\<rparr>) ombuf in
        case sem_wait0 env ctx of
          None \<Rightarrow> (map_option (\<lambda>m. m\<lparr>mb_tp_state := ETIMEDOUT\<rparr>) om, ctx)
        | Some ctx1 \<Rightarrow>
            (let (q, r) = uta_ring_extract True (mring ctx1); ctx2 = ctx1\<lparr>mring := r\<rparr> in
             case q of
               Some m \<Rightarrow> (Some (m\<lparr>mb_state := RMR_OK, mb_flags := mb_flags m OR MFL_ADDSRC, mb_tp_state := E0\<rparr>), ctx2)
             | None \<Rightarrow> (map_option (\<lambda>m. m\<lparr>mb_tp_state := ETIMEDOUT\<rparr>) om, ctx2)))"

definition rmr_rcv_msg ::
    "(('c) rx_ctx_scheme \<Rightarrow> ('c) rx_ctx_scheme option) \<Rightarrow> ('c) rx_ctx_scheme option \<Rightarrow> mbuf option
      \<Rightarrow> mbuf option \<times> ('c) rx_ctx_scheme option" where
  "rmr_rcv_msg env ctx old_msg = (case ctx of
      None \<Rightarrow> (map_option (\<lambda>m. m\<lparr>mb_state := RMR_ERR_BADARG, mb_tp_state := EINVAL\<rparr>) old_msg, None)
    | Some c \<Rightarrow> let (m, c1) = rmr_mt_rcv env c old_msg (- 1) in (m, Some c1))"

definition rmr_torcv_msg ::
    "(('c) rx_ctx_scheme \<Rightarrow> ('c) rx_ctx_scheme option) \<Rightarrow> ('c) rx_ctx_scheme option \<Rightarrow> mbuf option \<Rightarrow> int
      \<Rightarrow> mbuf option \<times> ('c) rx_ctx_scheme option" where
  "rmr_torcv_msg env ctx old_msg ms_to = (case ctx of
      None \<Rightarrow> (map_option (\<lambda>m. m\<lparr>mb_state := RMR_ERR_BADARG, mb_tp_state := EINVAL\<rparr>) old_msg, None)
    | Some c \<Rightarrow> let (m, c1) = rmr_mt_rcv env c old_msg ms_to in (m, Some c1))"

subsection \<open>Receiving one message in particular\<close>

definition msg_xid :: "mbuf \<Rightarrow> bytes" where
  "msg_xid m = (case (mb_xaction m, mb_tp_buf m) of (Some x, Some b) \<Rightarrow> bget x RMR_MAX_XID b | _ \<Rightarrow> [])"

text \<open>
  The loop of \<open>rmr_rcv_specific\<close>. A message that is not the expected one goes back to the ring, a
  full ring ends the wait. The fuel bounds the receives; those that return nothing are not counted
  by the code.
\<close>

fun rcv_specific_loop ::
    "nat \<Rightarrow> (('c) rx_ctx_scheme \<Rightarrow> ('c) rx_ctx_scheme option) \<Rightarrow> bytes \<Rightarrow> int \<Rightarrow> int \<Rightarrow> mbuf option \<Rightarrow> ('c) rx_ctx_scheme
      \<Rightarrow> ((errno + mbuf) \<times> ('c) rx_ctx_scheme) outcome" where
  "rcv_specific_loop 0 env expect queued allow2queue msg ctx = NoFuel"
| "rcv_specific_loop (Suc fuel) env expect queued allow2queue msg ctx =
     (if queued < allow2queue
      then let (mo, ctx1) = rmr_mt_rcv env ctx msg (- 1) in
        case mo of
          None \<Rightarrow> rcv_specific_loop fuel env expect queued allow2queue None ctx1
        | Some m \<Rightarrow>
            if mb_state m \<noteq> RMR_OK then rcv_specific_loop fuel env expect queued allow2queue (Some m) ctx1
            else if take (length expect) (msg_xid m) = expect then Return (Inr m, ctx1)
            else (case uta_ring_insert True (mring ctx1) (Some m) of
                (Inl _, r) \<Rightarrow> Return (Inl ENOBUFS, ctx1\<lparr>mring := r\<rparr>)
              | (Inr _, r) \<Rightarrow> rcv_specific_loop fuel env expect (queued + 1) allow2queue None (ctx1\<lparr>mring := r\<rparr>))
      else Return (Inl ETIMEDOUT, ctx))"

definition rmr_rcv_specific ::
    "nat \<Rightarrow> (('c) rx_ctx_scheme \<Rightarrow> ('c) rx_ctx_scheme option) \<Rightarrow> ('c) rx_ctx_scheme \<Rightarrow> mbuf option \<Rightarrow> bytes option \<Rightarrow> int
      \<Rightarrow> ((errno + mbuf option) \<times> ('c) rx_ctx_scheme) outcome" where
  "rmr_rcv_specific fuel env ctx msg expect allow2queue = (case expect of
      None \<Rightarrow> Return (let (m, c) = rmr_mt_rcv env ctx msg (- 1) in (Inr m, c))
    | Some x \<Rightarrow>
       if cstr x = [] then Return (let (m, c) = rmr_mt_rcv env ctx msg (- 1) in (Inr m, c))
       else (case rcv_specific_loop fuel env (take RMR_MAX_XID (cstr x)) 0 allow2queue msg ctx of
           Return (Inl e, c) \<Rightarrow> Return (Inl e, c)
         | Return (Inr m, c) \<Rightarrow> Return (Inr (Some m), c)
         | Undef \<Rightarrow> Undef
         | NoFuel \<Rightarrow> NoFuel))"

subsection \<open>Calls\<close>

text \<open>
  What happens on the chute of a call: the wait is woken, is interrupted, or times out, and each time the
  receive thread may have put a message there; or, while the call does not wait but is about to test whether the chute
  is empty, the receive thread puts a message there (\<open>CEarly\<close>).
\<close>

datatype call_ev = CWake "mbuf option" | CIntr "mbuf option" | CTimeout "mbuf option" | CEarly mbuf

text \<open>
  The wait loop of \<open>mt_call\<close> over the events: the message returned, and what is left on the chute.
  \<open>failed\<close> says that the last wait returned an error (\<open>state < 0\<close>). With no more events the call still waits.
\<close>

fun mt_wait :: "bool \<Rightarrow> bytes \<Rightarrow> call_ev list \<Rightarrow> (mbuf option \<times> mbuf option) outcome" where
  "mt_wait failed expect [] = NoFuel"
| "mt_wait failed expect (CWake x # evs) = (case x of
      Some m \<Rightarrow> if msg_xid m = expect then Return (Some (m\<lparr>mb_state := RMR_OK\<rparr>), None) else mt_wait False expect evs
    | None \<Rightarrow> mt_wait False expect evs)"
| "mt_wait failed expect (CIntr x # evs) = (case x of
      Some m \<Rightarrow> if msg_xid m = expect then Return (None, Some m) else mt_wait True expect evs
    | None \<Rightarrow> mt_wait True expect evs)"
| "mt_wait failed expect (CTimeout x # evs) = (case x of
      Some m \<Rightarrow> if msg_xid m = expect then Return (None, Some m) else mt_wait True expect evs
    | None \<Rightarrow> Return (None, None))"
| "mt_wait failed expect (CEarly m # evs) =
     (if failed then Return (None, Some m) else Return (Some (m\<lparr>mb_state := RMR_OK\<rparr>), None))"

text \<open>Marking a message as a call: the call flag, the call id in the first data byte.\<close>

definition mark_call :: "int \<Rightarrow> mbuf \<Rightarrow> mbuf option" where
  "mark_call call_id m = (case mb_hdr m of
      None \<Rightarrow> None
    | Some (h, b) \<Rightarrow>
       (let b1 = set_hflags h (hflags h b OR HFL_CALL_MSG) b; at = DATA1_ADDR h b1 in
        if at \<ge> length b1 then None
        else Some (m\<lparr>mb_tp_buf := Some (b1[at := word_of_int call_id]), mb_flags := mb_flags m OR MFL_NOALLOC\<rparr>)))"

definition chute_expect :: "nat \<Rightarrow> bytes \<Rightarrow> uta_ctx \<Rightarrow> uta_ctx" where
  "chute_expect i x ctx = ctx\<lparr>chutes := (chutes ctx)[i := (chutes ctx ! i)\<lparr>ch_mbuf := None, ch_expect := x\<rparr>]\<rparr>"

definition chute_leave :: "nat \<Rightarrow> mbuf option \<Rightarrow> uta_ctx \<Rightarrow> uta_ctx" where
  "chute_leave i m ctx = ctx\<lparr>chutes := (chutes ctx)[i := (chutes ctx ! i)\<lparr>ch_mbuf := m\<rparr>]\<rparr>"

definition mt_call ::
    "(nat \<Rightarrow> int \<Rightarrow> nat \<Rightarrow> int \<times> errno) \<Rightarrow> (string \<Rightarrow> int) \<Rightarrow> bool \<Rightarrow> (nat \<Rightarrow> u8) \<Rightarrow> call_ev list \<Rightarrow> uta_ctx \<Rightarrow> mbuf
      \<Rightarrow> int \<Rightarrow> nat option \<Rightarrow> (mbuf option \<times> uta_ctx \<times> wire list) outcome" where
  "mt_call si connect mem junk evs ctx mbuf call_id ep =
     (if c_flags ctx AND CFL_MTC_ENABLED = 0
      then Return (Some (mbuf\<lparr>mb_state := RMR_ERR_NOTSUPP, mb_tp_state := EINVAL\<rparr>), ctx, [])
      else if call_id < 0 \<or> call_id > int MAX_CALL_ID then Undef
      else case mark_call call_id mbuf of
        None \<Rightarrow> Undef
      | Some m \<Rightarrow>
         (let i = nat call_id; x = msg_xid mbuf; ctx1 = chute_expect i x ctx;
              sent = (case ep of
                None \<Rightarrow> mtosend_msg si connect mem junk ctx1 m 0
              | Some e \<Rightarrow> (case send_msg (si 0 (ep_sock (eps ctx1 ! e))) mem junk ctx1 m (ep_sock (eps ctx1 ! e)) (- 1) of
                  Undef \<Rightarrow> Undef
                | NoFuel \<Rightarrow> NoFuel
                | Return (mo, er, c, w) \<Rightarrow> Return (map_option (\<lambda>m. m\<lparr>mb_tp_state := er\<rparr>) mo, c, w)))
          in case sent of
               Undef \<Rightarrow> Undef
             | NoFuel \<Rightarrow> NoFuel
             | Return (mo, ctx2, w) \<Rightarrow>
                if (case mo of Some m \<Rightarrow> mb_state m \<noteq> RMR_OK | None \<Rightarrow> False) then Return (mo, ctx2, w)
                else (case mt_wait False x evs of
                    Undef \<Rightarrow> Undef
                  | NoFuel \<Rightarrow> NoFuel
                  | Return (res, left) \<Rightarrow> Return (res, chute_leave i left ctx2, w))))"

definition rmr_mt_call ::
    "(nat \<Rightarrow> int \<Rightarrow> nat \<Rightarrow> int \<times> errno) \<Rightarrow> (string \<Rightarrow> int) \<Rightarrow> bool \<Rightarrow> (nat \<Rightarrow> u8) \<Rightarrow> call_ev list \<Rightarrow> uta_ctx \<Rightarrow> mbuf option
      \<Rightarrow> int \<Rightarrow> (mbuf option \<times> uta_ctx \<times> wire list) outcome" where
  "rmr_mt_call si connect mem junk evs ctx mbuf call_id =
     (if call_id > int MAX_CALL_ID \<or> call_id < 2
      then Return (map_option (\<lambda>m. m\<lparr>mb_state := RMR_ERR_BADARG, mb_tp_state := EINVAL\<rparr>) mbuf, ctx, [])
      else case mbuf of
        None \<Rightarrow> Return (None, ctx, [])
      | Some m \<Rightarrow> mt_call si connect mem junk evs ctx m call_id None)"

definition rmr_call ::
    "(nat \<Rightarrow> int \<Rightarrow> nat \<Rightarrow> int \<times> errno) \<Rightarrow> (string \<Rightarrow> int) \<Rightarrow> bool \<Rightarrow> (nat \<Rightarrow> u8) \<Rightarrow> call_ev list \<Rightarrow> uta_ctx \<Rightarrow> mbuf option
      \<Rightarrow> (mbuf option \<times> uta_ctx \<times> wire list) outcome" where
  "rmr_call si connect mem junk evs ctx msg = (case msg of
      None \<Rightarrow> Return (None, ctx, [])
    | Some m \<Rightarrow> mt_call si connect mem junk evs ctx m 1 None)"

subsection \<open>Settings\<close>

definition rmr_set_stimeout :: "uta_ctx option \<Rightarrow> int \<Rightarrow> int \<times> uta_ctx option" where
  "rmr_set_stimeout ctx time = (case ctx of
      None \<Rightarrow> (- 1, None)
    | Some c \<Rightarrow> (RMR_OK, Some (c\<lparr>send_retries := if time < 0 then 0 else time\<rparr>)))"

definition rmr_init_trace :: "uta_ctx option \<Rightarrow> int \<Rightarrow> (errno + unit) \<times> uta_ctx option" where
  "rmr_init_trace ctx tr_len = (case ctx of
      None \<Rightarrow> (Inl EINVAL, None)
    | Some c \<Rightarrow> (Inr (), Some (c\<lparr>trace_data_len := tr_len\<rparr>)))"

definition rmr_ready :: "uta_ctx option \<Rightarrow> bool" where
  "rmr_ready ctx = (case ctx of None \<Rightarrow> False | Some c \<Rightarrow> rtable_ready c)"

end
