(* ===== verification/RtParser.thy ===== *)
theory RtParser
  imports Route
begin

text \<open>
  The route table records (\<^verbatim>\<open>common/src/rt_generic_static.c\<close>) and the collector that feeds them
  (\<^verbatim>\<open>common/src/rtc_static.c\<close>).

  A record is one line of text. The parser keeps the table under construction in the context and
  acknowledges finished and abandoned tables to the route manager through a private context. The
  state threaded through it is the user's context, what the private context contributes (its wormhole
  id and flags; \<open>None\<close> when there is none) and the payloads of the acknowledgements sent so far.
  \<open>deliver\<close> is the state with which the transport sends such a payload; \<open>resolve\<close> is the resolver.

  A function returns \<open>None\<close> where the code dereferences nil or uses a freed object, and where it waits
  for the readers of the table to recycle. Writing the arriving records to a file is left out.
\<close>

subsection \<open>State\<close>

record rtc_pctx =
  p_whid :: int
  p_flags :: u32

record rtc_state =
  u_ctx :: uta_ctx
  p_ctx :: "rtc_pctx option"
  acks :: "string list"

abbreviation (input) CFL_NO_RTACK :: u32 where "CFL_NO_RTACK \<equiv> 2"
abbreviation (input) CFL_FULLRT :: u32 where "CFL_FULLRT \<equiv> 8"

text \<open>The number a \<^verbatim>\<open>%d\<close> prints.\<close>

definition int_str :: "int \<Rightarrow> string" where
  "int_str i = (if i < 0 then CHR ''-'' # dec_str (nat (- i)) else dec_str (nat i))"

text \<open>The text of an acknowledgement, cut to the room of its message.\<close>

definition ack_text :: "string option \<Rightarrow> bool \<Rightarrow> string option \<Rightarrow> string" where
  "ack_text tid ok reason =
     take 1022 ((if ok then ''OK'' else ''ERR'') @ '' '' @
       (case tid of None \<Rightarrow> ''<id-missing>'' | Some i \<Rightarrow> i) @ '' '' @
       (case reason of None \<Rightarrow> '''' | Some r \<Rightarrow> r) @ [CHR 0x0A])"

definition send_rt_ack :: "(string \<Rightarrow> int) \<Rightarrow> string option \<Rightarrow> bool \<Rightarrow> string option \<Rightarrow> rtc_state \<Rightarrow> rtc_state" where
  "send_rt_ack deliver tid ok reason s = (case p_ctx s of
      None \<Rightarrow> s
    | Some p \<Rightarrow>
       if p_whid p < 0 then s
       else if p_flags p AND CFL_NO_RTACK \<noteq> 0 then s
       else let payload = ack_text tid ok reason;
                s1 = s\<lparr>acks := acks s @ [payload]\<rparr>
            in if deliver payload \<noteq> RMR_OK then s1\<lparr>p_ctx := Some (p\<lparr>p_whid := -1\<rparr>)\<rparr> else s1)"

subsection \<open>Text\<close>

text \<open>Blanks off both ends; a string of blanks only keeps nothing.\<close>

definition trim :: "string \<Rightarrow> string" where
  "trim s = rev (dropWhile is_space (rev (dropWhile is_space s)))"

text \<open>
  \<open>clip\<close>: the first number sign ends the text if a blank comes before it; text that starts with
  one is handed back as it is.
\<close>

definition clip :: "string \<Rightarrow> string" where
  "clip buf =
     (let b = dropWhile is_space buf;
          pre = takeWhile (\<lambda>c. c \<noteq> CHR ''#'') b
      in if b \<noteq> [] \<and> hd b = CHR ''#'' then b
         else if pre \<noteq> b \<and> is_space (last pre) then trim pre
         else trim b)"

definition ensure_nlterm :: "string option \<Rightarrow> string" where
  "ensure_nlterm buf = (case buf of
      None \<Rightarrow> [CHR 0x0A]
    | Some b \<Rightarrow> if b = [] then [CHR 0x0A] else if last b \<noteq> CHR 0x0A then b @ [CHR 0x0A] else b)"

subsection \<open>Entries\<close>

text \<open>Whether a record applies here: no sender, or one that is this process.\<close>

definition for_me :: "string \<Rightarrow> uta_ctx \<Rightarrow> bool" where
  "for_me ts_field ctx =
     (CHR '','' \<notin> set ts_field \<or> uta_has_str ts_field (bytes_str (cstr (my_name ctx))) (CHR '','') 127 \<ge> 0
      \<or> has_myip (Some ts_field) (ip_list ctx) (CHR '','') 127)"

text \<open>The endpoints of one group, leaving ourselves out; whether one was added.\<close>

fun build_eps :: "(string \<Rightarrow> u32 option) \<Rightarrow> nat \<Rightarrow> int \<Rightarrow> string list \<Rightarrow> bool \<Rightarrow> uta_ctx \<Rightarrow> (bool \<times> uta_ctx) option" where
  "build_eps resolve i cgidx [] has_ep ctx = Some (has_ep, ctx)"
| "build_eps resolve i cgidx (tok # toks) has_ep ctx =
     (if tok \<noteq> bytes_str (cstr (my_name ctx))
      then Option.bind (uta_add_ep resolve i tok cgidx ctx)
             (\<lambda>(_, ctx1). build_eps resolve i cgidx toks True ctx1)
      else build_eps resolve i cgidx toks has_ep ctx)"

fun build_groups :: "(string \<Rightarrow> u32 option) \<Rightarrow> nat \<Rightarrow> int \<Rightarrow> string list \<Rightarrow> uta_ctx \<Rightarrow> uta_ctx option" where
  "build_groups resolve i cgidx [] ctx = Some ctx"
| "build_groups resolve i cgidx (g # gs) ctx =
     Option.bind (build_eps resolve i cgidx (uta_rmip_tokenise (Some g) (ip_list ctx) 64 (CHR '','')) False ctx)
       (\<lambda>(has_ep, ctx1). build_groups resolve i (if has_ep then cgidx + 1 else cgidx) gs ctx1)"

text \<open>\<open>subid\<close> arrives as a 32 bit unsigned number and is read as a signed one for the key.\<close>

definition build_entry :: "(string \<Rightarrow> u32 option) \<Rightarrow> string \<Rightarrow> u32 \<Rightarrow> string \<Rightarrow> uta_ctx \<Rightarrow> uta_ctx option" where
  "build_entry resolve ts subid rr ctx =
     (let ts_field = clip ts; rr_field = clip rr in
      if for_me ts_field ctx
      then let key = build_rt_key (sint subid) (atoi ts_field);
               gtokens0 = uta_tokenise (Some rr_field) 64 (CHR '';'')
           in if gtokens0 = [] then Some ctx
              else let gtokens = (if hd gtokens0 = ''%meid'' then [] else gtokens0) in
                Option.bind (new_rtable ctx) (\<lambda>t.
                Option.bind (uta_add_rte t key (int (length gtokens)) ctx) (\<lambda>(i, ctx1).
                Option.bind (the_rte ctx1 i) (\<lambda>e.
                  build_groups resolve i 0 gtokens
                    (ctx1\<lparr>rtes := (rtes ctx1)[i := Some (e\<lparr>rte_mtype := atoi ts_field\<rparr>)]\<rparr>))))
      else Some ctx)"

definition trash_entry :: "string \<Rightarrow> u32 \<Rightarrow> uta_ctx \<Rightarrow> uta_ctx option" where
  "trash_entry ts subid ctx = (case new_rtable ctx of
      None \<Rightarrow> Some ctx
    | Some t \<Rightarrow>
       (let ts_field = clip ts in
        if for_me ts_field ctx
        then Option.bind (the_rt ctx t) (\<lambda>rt.
          let key = build_rt_key (sint subid) (atoi ts_field);
              (v, h) = rmr_sym_pull (rt_hash rt) key
          in if v \<noteq> None then del_rte v (set_hash t rt (rmr_sym_ndel h key) ctx)
             else Some (set_hash t rt h ctx))
        else Some ctx))"

subsection \<open>Managed element records\<close>

fun meid_put_all :: "(string \<Rightarrow> u32 option) \<Rightarrow> nat \<Rightarrow> string \<Rightarrow> string list \<Rightarrow> uta_ctx \<Rightarrow> uta_ctx option" where
  "meid_put_all resolve t owner [] ctx = Some ctx"
| "meid_put_all resolve t owner (tok # toks) ctx =
     (let (ep, ctx1) = rt_ensure_ep resolve (Some owner) ctx in
      case ep of
        None \<Rightarrow> meid_put_all resolve t owner toks ctx1
      | Some e \<Rightarrow> Option.bind (the_rt ctx1 t) (\<lambda>rt.
          meid_put_all resolve t owner toks
            (set_hash t rt (snd (rmr_sym_put True (rt_hash rt) tok RT_ME_SPACE (Some (EpRef e)))) ctx1)))"

definition parse_meid_ar :: "(string \<Rightarrow> u32 option) \<Rightarrow> nat \<Rightarrow> string \<Rightarrow> string \<Rightarrow> uta_ctx \<Rightarrow> uta_ctx option" where
  "parse_meid_ar resolve t owner meid_list ctx =
     meid_put_all resolve t (clip owner) (uta_tokenise (Some (clip meid_list)) 128 (CHR '' '')) ctx"

definition parse_meid_del :: "nat \<Rightarrow> string \<Rightarrow> uta_ctx \<Rightarrow> uta_ctx option" where
  "parse_meid_del t meid_list ctx =
     Option.bind (the_rt ctx t) (\<lambda>rt.
       Some (set_hash t rt
         (fold (\<lambda>tok h. rmr_sym_del h (StrKey tok RT_ME_SPACE))
            (uta_tokenise (Some (clip meid_list)) 128 (CHR '' '')) (rt_hash rt)) ctx))"

subsection \<open>Starting and ending tables\<close>

definition upd_new_rt :: "(route_table \<Rightarrow> route_table) \<Rightarrow> uta_ctx \<Rightarrow> uta_ctx option" where
  "upd_new_rt f ctx =
     Option.bind (new_rtable ctx) (\<lambda>t. map_option (\<lambda>rt. set_rt t (Some (f rt)) ctx) (the_rt ctx t))"

text \<open>A table in progress is refused and dropped.\<close>

definition rt_discard :: "(string \<Rightarrow> int) \<Rightarrow> string \<Rightarrow> rtc_state \<Rightarrow> rtc_state option" where
  "rt_discard deliver reason s =
     (let s1 = send_rt_ack deliver (table_id (u_ctx s)) False (Some reason) s in
      map_option (\<lambda>c. s1\<lparr>u_ctx := c\<lparr>new_rtable := None\<rparr>\<rparr>) (uta_rt_drop (new_rtable (u_ctx s)) (u_ctx s)))"

text \<open>
  The start records: a table in progress is forced out, the table id is noted, and the table
  drained last becomes the one to fill.
\<close>

definition rt_start ::
    "(string \<Rightarrow> int) \<Rightarrow> bool \<Rightarrow> (string option \<Rightarrow> string option) \<Rightarrow> (route_table \<Rightarrow> route_table)
      \<Rightarrow> rtc_state \<Rightarrow> rtc_state option" where
  "rt_start deliver all new_id zero s =
     Option.bind (if new_rtable (u_ctx s) \<noteq> None then rt_discard deliver ''table not complete'' s else Some s) (\<lambda>s1.
       let ctx1 = (u_ctx s1)\<lparr>table_id := new_id (table_id (u_ctx s1))\<rparr> in
       Option.bind (prep_new_rt all ctx1) (\<lambda>(t, ctx2).
         map_option (\<lambda>c. s1\<lparr>u_ctx := c\<rparr>) (upd_new_rt zero (ctx2\<lparr>new_rtable := Some t\<rparr>))))"

text \<open>
  The end records: \<open>count\<close> is the number of records the table has and \<open>expected\<close> the field of
  the record that gives it, if any. A table with another count is refused; otherwise it becomes
  the active one.
\<close>

definition rt_finish ::
    "(string \<Rightarrow> int) \<Rightarrow> (route_table \<Rightarrow> int) \<Rightarrow> (string \<Rightarrow> route_table \<Rightarrow> string) \<Rightarrow> string option
      \<Rightarrow> (uta_ctx \<Rightarrow> uta_ctx) \<Rightarrow> rtc_state \<Rightarrow> rtc_state option" where
  "rt_finish deliver count reason expected ready s =
     Option.bind
       (case expected of
          None \<Rightarrow> Some False
        | Some n \<Rightarrow> map_option (\<lambda>rt. count rt \<noteq> atoi n) (Option.bind (new_rtable (u_ctx s)) (the_rt (u_ctx s))))
       (\<lambda>bad.
          if bad then rt_discard deliver (reason (the expected) (the (Option.bind (new_rtable (u_ctx s)) (the_rt (u_ctx s))))) s
          else if new_rtable (u_ctx s) = None then Some s
          else let s1 = s\<lparr>u_ctx := roll_tables (u_ctx s)\<rparr>;
                   s2 = send_rt_ack deliver (table_id (u_ctx s1)) True None s1
               in Some (s2\<lparr>u_ctx := ready (u_ctx s2)\<rparr>))"

definition missing_reason :: "string \<Rightarrow> route_table \<Rightarrow> string" where
  "missing_reason n rt = take 1023 (''missing table records: expected '' @ n @ '' got '' @
     int_str (rt_updates rt) @ [CHR 0x0A])"

subsection \<open>Records\<close>

definition nth_tok :: "string list \<Rightarrow> nat \<Rightarrow> string option" where
  "nth_tok toks n = (if n < length toks then Some (toks ! n) else None)"

definition meid_parser ::
    "(string \<Rightarrow> u32 option) \<Rightarrow> (string \<Rightarrow> int) \<Rightarrow> string list \<Rightarrow> rtc_state \<Rightarrow> rtc_state option" where
  "meid_parser resolve deliver tokens s =
     (if length tokens < 2 then Some s
      else if tokens ! 0 = ''meid_map''
      then let t1 = clip (tokens ! 1) in
        if t1 \<noteq> [] \<and> hd t1 = CHR ''s''
        then rt_start deliver True (\<lambda>_. map_option clip (nth_tok tokens 2)) (\<lambda>rt. rt\<lparr>rt_mupdates := 0\<rparr>) s
        else if t1 = ''end''
        then rt_finish deliver rt_mupdates missing_reason (nth_tok tokens 2) (\<lambda>c. c) s
        else Some s
      else case new_rtable (u_ctx s) of
        None \<Rightarrow> Some s
      | Some t \<Rightarrow>
         if tokens ! 0 = ''mme_ar''
         then (if length tokens < 3 then Some s
               else map_option (\<lambda>c. s\<lparr>u_ctx := c\<rparr>)
                 (Option.bind (parse_meid_ar resolve t (tokens ! 1) (tokens ! 2) (u_ctx s))
                    (upd_new_rt (\<lambda>rt. rt\<lparr>rt_mupdates := rt_mupdates rt + 1\<rparr>))))
         else if tokens ! 0 = ''mme_del''
         then map_option (\<lambda>c. s\<lparr>u_ctx := c\<rparr>)
                (Option.bind (parse_meid_del t (tokens ! 1) (u_ctx s))
                   (upd_new_rt (\<lambda>rt. rt\<lparr>rt_mupdates := rt_mupdates rt + 1\<rparr>)))
         else Some s)"

text \<open>One record on the table in progress, counted in it; without a table it is ignored.\<close>

definition on_new_rt :: "(uta_ctx \<Rightarrow> uta_ctx option) \<Rightarrow> rtc_state \<Rightarrow> rtc_state option" where
  "on_new_rt f s =
     (if new_rtable (u_ctx s) = None then Some s
      else map_option (\<lambda>c. s\<lparr>u_ctx := c\<rparr>) (f (u_ctx s)))"

definition count_update :: "uta_ctx \<Rightarrow> uta_ctx option" where
  "count_update = upd_new_rt (\<lambda>rt. rt\<lparr>rt_updates := rt_updates rt + 1\<rparr>)"

definition rec_del :: "string list \<Rightarrow> rtc_state \<Rightarrow> rtc_state option" where
  "rec_del tokens = on_new_rt (\<lambda>ctx.
     if length tokens < 3 then Some ctx
     else Option.bind (trash_entry (tokens ! 1) (word_of_int (atoi (tokens ! 2))) ctx) count_update)"

definition rec_mse :: "(string \<Rightarrow> u32 option) \<Rightarrow> string list \<Rightarrow> rtc_state \<Rightarrow> rtc_state option" where
  "rec_mse resolve tokens = on_new_rt (\<lambda>ctx.
     if length tokens < 4 then Some ctx
     else Option.bind (build_entry resolve (tokens ! 1) (word_of_int (atoi (tokens ! 2))) (tokens ! 3) ctx)
            count_update)"

definition rec_rte :: "(string \<Rightarrow> u32 option) \<Rightarrow> string list \<Rightarrow> rtc_state \<Rightarrow> rtc_state option" where
  "rec_rte resolve tokens = on_new_rt (\<lambda>ctx.
     Option.bind (count_update ctx) (\<lambda>ctx1.
       if length tokens < 3 then None
       else if length tokens > 3
       then build_entry resolve (tokens ! 1) (word_of_int (atoi (tokens ! 3))) (tokens ! 2) ctx1
       else build_entry resolve (tokens ! 1) (word_of_int UNSET_SUBID) (tokens ! 2) ctx1))"

definition rec_newrt :: "(string \<Rightarrow> int) \<Rightarrow> string list \<Rightarrow> rtc_state \<Rightarrow> rtc_state option" where
  "rec_newrt deliver tokens s =
     Option.bind (nth_tok tokens 1) (\<lambda>t1.
       if clip t1 = ''end''
       then rt_finish deliver rt_updates missing_reason (nth_tok tokens 2)
              (\<lambda>c. c\<lparr>rtable_ready := True, c_flags := c_flags c OR CFL_FULLRT\<rparr>) s
       else rt_start deliver False (\<lambda>_. map_option clip (nth_tok tokens 2)) (\<lambda>rt. rt\<lparr>rt_updates := 0\<rparr>) s)"

text \<open>
  The update records are ignored until a full table was seen. \<open>junk\<close> is the work buffer, which is
  not filled before it is sent as the reason.
\<close>

definition rec_update :: "(string \<Rightarrow> int) \<Rightarrow> string \<Rightarrow> string list \<Rightarrow> rtc_state \<Rightarrow> rtc_state option" where
  "rec_update deliver junk tokens s =
     (if c_flags (u_ctx s) AND CFL_FULLRT = 0 then Some s
      else Option.bind (nth_tok tokens 1) (\<lambda>t1.
        if clip t1 = ''end''
        then (if new_rtable (u_ctx s) = None then Some s
              else rt_finish deliver rt_updates (\<lambda>_ _. junk) (nth_tok tokens 2)
                     (\<lambda>c. c\<lparr>rtable_ready := True\<rparr>) s)
        else rt_start deliver True
               (\<lambda>old. case nth_tok tokens 2 of Some i \<Rightarrow> Some (clip i) | None \<Rightarrow> old)
               (\<lambda>rt. rt\<lparr>rt_updates := 0\<rparr>) s))"

definition parse_rt_rec ::
    "(string \<Rightarrow> u32 option) \<Rightarrow> (string \<Rightarrow> int) \<Rightarrow> string \<Rightarrow> string \<Rightarrow> rtc_state \<Rightarrow> rtc_state option" where
  "parse_rt_rec resolve deliver junk buf s =
     (let raw = uta_tokenise (Some (trim buf)) 128 (CHR ''|'') in
      if raw = [] then Some s
      else let t0 = clip (hd raw); tokens = t0 # tl raw in
        if t0 = [] \<or> hd t0 = CHR ''#'' then Some s
        else if hd t0 = CHR ''d'' then rec_del tokens s
        else if hd t0 = CHR ''n'' then rec_newrt deliver tokens s
        else if hd t0 = CHR ''m'' then
          (if t0 = ''mse'' then rec_mse resolve tokens s else meid_parser resolve deliver tokens s)
        else if hd t0 = CHR ''r'' then rec_rte resolve tokens s
        else if hd t0 = CHR ''u'' then rec_update deliver junk tokens s
        else Some s)"

fun parse_recs ::
    "(string \<Rightarrow> u32 option) \<Rightarrow> (string \<Rightarrow> int) \<Rightarrow> string \<Rightarrow> string list \<Rightarrow> rtc_state \<Rightarrow> rtc_state option" where
  "parse_recs resolve deliver junk [] s = Some s"
| "parse_recs resolve deliver junk (r # rs) s =
     Option.bind (parse_rt_rec resolve deliver junk r s) (parse_recs resolve deliver junk rs)"

end
