(* ===== verification/RouteInv.thy ===== *)
theory RouteInv
  imports RtParser
begin

text \<open>
  The invariant of the route tables: what every table may hold, that no table refers to an entry that
  was freed, that the reference count of an entry is the number of tables that refer to it, and which
  tables are live. The operations on entries and tables preserve it, and so does every record the
  parser handles.
\<close>

subsection \<open>The symbol table of a route table\<close>

text \<open>Entries under numbers, endpoints under the names of managed elements; the number 0 is not used.\<close>

fun ent_ok :: "sym_key \<Rightarrow> rt_val option \<Rightarrow> bool" where
  "ent_ok (NumKey k) v = (k \<noteq> 0 \<and> (\<exists>i. v = Some (RteRef i)))"
| "ent_ok (StrKey n c) v = (c = RT_ME_SPACE \<and> (\<exists>p. v = Some (EpRef p)))"

definition hash_ok :: "rt_val sym_tab \<Rightarrow> bool" where
  "hash_ok h = (sym_wf h \<and> (\<forall>k. sym_present h k \<longrightarrow> ent_ok k (sym_lookup h k)))"

lemma ent_ok_plain: "ent_ok k v \<Longrightarrow> plain_key k"
  by (cases k) (auto simp: plain_key_def valid_key_def)

lemma plain_alias: "plain_key k \<Longrightarrow> valid_key k \<and> no_alias t k"
  by (simp add: plain_key_def no_alias_def)

lemma hash_okD:
  assumes "hash_ok h"
  shows "sym_wf h" "sym_lookup h k = Some v \<Longrightarrow> ent_ok k (Some v)"
    "sym_present h k \<longleftrightarrow> sym_lookup h k \<noteq> None"
    "\<not> sym_present h (NumKey 0)"
proof -
  show wf: "sym_wf h" using assms by (simp add: hash_ok_def)
  have *: "sym_present h k \<Longrightarrow> ent_ok k (sym_lookup h k)" for k using assms by (simp add: hash_ok_def)
  show "sym_lookup h k = Some v \<Longrightarrow> ent_ok k (Some v)"
    using * [of k] sym_lookup_absent [of h k] by fastforce
  show "sym_present h k \<longleftrightarrow> sym_lookup h k \<noteq> None"
    using * [of k] sym_lookup_absent [of h k] by (cases "sym_present h k"; cases k) auto
  show "\<not> sym_present h (NumKey 0)" using * [of "NumKey 0"] by auto
qed

text \<open>With the number 0 out of the table, every search is safe.\<close>

lemma hash_ok_get:
  assumes "hash_ok h" "plain_key k"
  shows "hash_ok (snd (rmr_sym_get h k))" "fst (rmr_sym_get h k) = sym_lookup h k"
    "sym_lookup (snd (rmr_sym_get h k)) = sym_lookup h"
  using assms hash_okD(1) [OF assms(1)]
  by (auto simp: hash_ok_def any_tab.laws sym_present_get)

lemma hash_ok_put:
  assumes "hash_ok h" "ent_ok k v"
  shows "hash_ok (snd (putin True h k v))"
    "sym_lookup (snd (putin True h k v)) = (\<lambda>k'. if k' = k then v else sym_lookup h k')"
proof -
  have k: "plain_key k" using assms(2) by (rule ent_ok_plain)
  note wf = hash_okD(1) [OF assms(1)]
  show l: "sym_lookup (snd (putin True h k v)) = (\<lambda>k'. if k' = k then v else sym_lookup h k')"
    using any_tab.put_view [OF wf k] .
  have "sym_present (snd (putin True h k v)) k' \<longleftrightarrow> k' = k \<or> sym_present h k'" for k'
    using sym_present_put [OF wf] plain_alias [OF k] by blast
  then show "hash_ok (snd (putin True h k v))"
    using assms any_tab.put_inv [OF wf k] by (auto simp: hash_ok_def l)
qed

lemma hash_ok_del:
  assumes "hash_ok h" "plain_key k"
  shows "hash_ok (rmr_sym_del h k)"
    "sym_lookup (rmr_sym_del h k) = (\<lambda>k'. if k' = k then None else sym_lookup h k')"
proof -
  note wf = hash_okD(1) [OF assms(1)]
  show l: "sym_lookup (rmr_sym_del h k) = (\<lambda>k'. if k' = k then None else sym_lookup h k')"
    using any_tab.del_view [OF wf assms(2)] .
  have "sym_present (rmr_sym_del h k) k' \<longleftrightarrow> k' \<noteq> k \<and> sym_present h k'" for k'
    using sym_present_del [OF wf] plain_alias [OF assms(2)] by blast
  then show "hash_ok (rmr_sym_del h k)"
    using assms any_tab.del_inv [OF wf assms(2)] by (auto simp: hash_ok_def l)
qed

lemma hash_ok_empty:
  "hash_ok (the (rmr_sym_alloc True n))" "sym_lookup (the (rmr_sym_alloc True n)) k = None"
  "hash_ok h \<Longrightarrow> hash_ok (rmr_sym_clear h)" "hash_ok h \<Longrightarrow> sym_lookup (rmr_sym_clear h) k = None"
  by (auto simp: hash_ok_def rmr_sym_alloc_wf rmr_sym_clear_wf sym_present_alloc sym_present_clear)

lemma map_of_rev: "distinct (map fst ps) \<Longrightarrow> map_of (rev ps) = map_of ps"
proof (induction ps)
  case (Cons p ps)
  then have "map_of ps (fst p) = None" by (auto simp: map_of_eq_None_iff)
  with Cons show ?case by (auto simp: map_of_append fun_eq_iff map_add_def split: option.split)
qed simp

lemma hash_ok_put_all:
  assumes "hash_ok h" "\<forall>(k, v)\<in>set ps. ent_ok k v" "distinct (map fst ps)"
  shows "hash_ok (fold (\<lambda>(k, v) t. snd (putin True t k v)) ps h)"
    "sym_lookup (fold (\<lambda>(k, v) t. snd (putin True t k v)) ps h) =
      (\<lambda>k. case map_of ps k of Some v \<Rightarrow> v | None \<Rightarrow> sym_lookup h k)"
proof -
  show "hash_ok (fold (\<lambda>(k, v) t. snd (putin True t k v)) ps h)"
    using assms(1,2) by (induction ps arbitrary: h) (auto simp: hash_ok_put)
  have "map_of (rev ps) = map_of ps" using assms(3) by (rule map_of_rev)
  moreover have "\<forall>(k, v)\<in>set ps. plain_key k" using assms(2) ent_ok_plain by blast
  ultimately show "sym_lookup (fold (\<lambda>(k, v) t. snd (putin True t k v)) ps h) =
      (\<lambda>k. case map_of ps k of Some v \<Rightarrow> v | None \<Rightarrow> sym_lookup h k)"
    using any_tab.put_all_view [OF hash_okD(1) [OF assms(1)], of ps] by simp
qed

text \<open>The entries of a table, in the order the walk over it finds them.\<close>

definition rte_list :: "rt_val sym_tab \<Rightarrow> (u64 \<times> nat) list" where
  "rte_list h = map (\<lambda>(k, v). (k, case v of Some (RteRef i) \<Rightarrow> i | _ \<Rightarrow> 0)) (num_pairs h)"

lemma rte_list:
  assumes "hash_ok h"
  shows "distinct (map fst (rte_list h))"
    "(k, i) \<in> set (rte_list h) \<longleftrightarrow> sym_lookup h (NumKey k) = Some (RteRef i)"
    "map snd (sym_class h 0) = map (\<lambda>(k, i). Some (RteRef i)) (rte_list h)"
proof -
  note wf = hash_okD(1) [OF assms]
  have f: "map fst (rte_list h) = map fst (num_pairs h)" by (simp add: rte_list_def split_beta)
  then show "distinct (map fst (rte_list h))" using num_pairs_keys(1) [OF wf] by simp
  have v: "\<exists>i. v = Some (RteRef i) \<and> sym_lookup h (NumKey k) = v" if "(k, v) \<in> set (num_pairs h)" for k v
    using that num_pairs_keys(2) [OF wf] hash_okD(3) [OF assms] hash_okD(2) [OF assms, of "NumKey k"] by force
  show "(k, i) \<in> set (rte_list h) \<longleftrightarrow> sym_lookup h (NumKey k) = Some (RteRef i)"
  proof
    assume "(k, i) \<in> set (rte_list h)"
    then show "sym_lookup h (NumKey k) = Some (RteRef i)" using v by (fastforce simp: rte_list_def)
  next
    assume "sym_lookup h (NumKey k) = Some (RteRef i)"
    then have "(k, Some (RteRef i)) \<in> set (num_pairs h)"
      using num_pairs_keys(2) [OF wf] hash_okD(3) [OF assms] by auto
    then show "(k, i) \<in> set (rte_list h)" by (force simp: rte_list_def)
  qed
  have "map snd (num_pairs h) = map (\<lambda>(k, i). Some (RteRef i)) (rte_list h)"
    unfolding rte_list_def using v by (fastforce simp: comp_def split: option.split rt_val.split)
  then show "map snd (sym_class h 0) = map (\<lambda>(k, i). Some (RteRef i)) (rte_list h)"
    by (simp add: num_pairs_class)
qed

subsection \<open>Counting references\<close>

text \<open>
  The accounting, apart from how it is stored: \<open>M t k\<close> is what table \<open>t\<close> has under key \<open>k\<close>, \<open>R i\<close> the key
  and the count of entry \<open>i\<close>, if it is alive.
\<close>

definition refs_ok :: "(nat \<Rightarrow> u64 \<Rightarrow> rt_val option) \<Rightarrow> (nat \<Rightarrow> (u64 \<times> int) option) \<Rightarrow> bool" where
  "refs_ok M R =
     (finite {t. \<exists>k. M t k \<noteq> None} \<and>
      (\<forall>t k i. M t k = Some (RteRef i) \<longrightarrow> (\<exists>n. R i = Some (k, n))) \<and>
      (\<forall>i k n. R i = Some (k, n) \<longrightarrow> n = int (card {t. M t k = Some (RteRef i)}) \<and> 0 < n))"

definition dec_ref :: "(u64 \<times> int) option \<Rightarrow> (u64 \<times> int) option" where
  "dec_ref r = (case r of Some (k, n) \<Rightarrow> if n - 1 > 0 then Some (k, n - 1) else None | None \<Rightarrow> None)"

definition inc_ref :: "(u64 \<times> int) option \<Rightarrow> (u64 \<times> int) option" where
  "inc_ref = map_option (\<lambda>(k, n). (k, n + 1))"

definition refd :: "(u64 \<Rightarrow> rt_val option) \<Rightarrow> nat \<Rightarrow> bool" where
  "refd m i = (\<exists>k. m k = Some (RteRef i))"

lemma refs_okD:
  assumes "refs_ok M R"
  shows "finite {t. M t k = Some v}"
    "M t k = Some (RteRef i) \<Longrightarrow> R i = Some (k, int (card {t. M t k = Some (RteRef i)}))"
    "R i = Some (k, n) \<Longrightarrow> n = int (card {t. M t k = Some (RteRef i)}) \<and> 0 < n"
    "M t k = Some (RteRef i) \<Longrightarrow> M t' k' = Some (RteRef i) \<Longrightarrow> k' = k"
proof -
  have "finite {t. \<exists>k. M t k \<noteq> None}" using assms by (simp only: refs_ok_def)
  then show "finite {t. M t k = Some v}" by (rule rev_finite_subset) auto
  have *: "M t k = Some (RteRef i) \<Longrightarrow> \<exists>n. R i = Some (k, n)" for t k
    using assms by (auto simp: refs_ok_def)
  show **: "R i = Some (k, n) \<Longrightarrow> n = int (card {t. M t k = Some (RteRef i)}) \<and> 0 < n" for n
    using assms by (auto simp: refs_ok_def)
  show "M t k = Some (RteRef i) \<Longrightarrow> R i = Some (k, int (card {t. M t k = Some (RteRef i)}))"
    using * ** by blast
  show "M t k = Some (RteRef i) \<Longrightarrow> M t' k' = Some (RteRef i) \<Longrightarrow> k' = k"
    using * [of t k] * [of t' k'] by force
qed

text \<open>
  One table loses entries: each entry it loses has its count lowered, and is freed with the last
  reference.
\<close>

lemma refs_ok_lose:
  assumes ok: "refs_ok M R" and m: "\<And>k. m k = M t k \<or> m k = None"
  shows "refs_ok (M(t := m)) (\<lambda>i. if refd (M t) i \<and> \<not> refd m i then dec_ref (R i) else R i)"
    (is "refs_ok ?M ?R")
  unfolding refs_ok_def
proof (intro conjI allI impI)
  note d = refs_okD [OF ok]
  have "{u. \<exists>k. ?M u k \<noteq> None} \<subseteq> {u. \<exists>k. M u k \<noteq> None}"
    using m by (auto split: if_splits)
  moreover have "finite {u. \<exists>k. M u k \<noteq> None}" using ok by (simp only: refs_ok_def)
  ultimately show "finite {u. \<exists>k. ?M u k \<noteq> None}" by (rule finite_subset)
  have lost: "?M u k = Some (RteRef i) \<longleftrightarrow> M u k = Some (RteRef i) \<and> u \<noteq> t"
    if "R i = Some (k, n)" "refd (M t) i" "\<not> refd m i" for u k i n
    using that by (auto simp: refd_def)
  have kept: "?M u k = Some (RteRef i) \<longleftrightarrow> M u k = Some (RteRef i)"
    if "R i = Some (k, n)" "\<not> (refd (M t) i \<and> \<not> refd m i)" for u k i n
  proof -
    have "m k = Some (RteRef i)" if mt: "M t k = Some (RteRef i)"
    proof -
      obtain k' where k': "m k' = Some (RteRef i)"
        using mt \<open>\<not> (refd (M t) i \<and> \<not> refd m i)\<close> by (auto simp: refd_def)
      with m [of k'] have "M t k' = Some (RteRef i)" by auto
      with d(4) [OF mt] k' show ?thesis by blast
    qed
    then show ?thesis using m [of k] by auto
  qed
  have card: "card {u. M u k = Some (RteRef i) \<and> u \<noteq> t} = card {u. M u k = Some (RteRef i)} - 1"
    if "M t k = Some (RteRef i)" for k i
  proof -
    have "{u. M u k = Some (RteRef i) \<and> u \<noteq> t} = {u. M u k = Some (RteRef i)} - {t}" by auto
    then show ?thesis using that d(1) by simp
  qed
  fix u k i
  show "\<exists>n. ?R i = Some (k, n)" if a: "?M u k = Some (RteRef i)"
  proof -
    have r: "M u k = Some (RteRef i)" using a m [of k] by (auto split: if_splits)
    then obtain n where n: "R i = Some (k, n)" using d(2) by blast
    show ?thesis
    proof (cases "refd (M t) i \<and> \<not> refd m i")
      case True
      with lost [OF n] a have "u \<noteq> t" by blast
      have "M t k = Some (RteRef i)" using True n d(2) by (auto simp: refd_def)
      then have "{t, u} \<subseteq> {u. M u k = Some (RteRef i)}" using r by simp
      then have "2 \<le> card {u. M u k = Some (RteRef i)}"
        using card_mono [OF d(1), of "{t, u}" k "RteRef i"] \<open>u \<noteq> t\<close> by simp
      then show ?thesis using d(3) [OF n] n True by (simp add: dec_ref_def)
    qed (use n in auto)
  qed
  fix n
  assume a: "?R i = Some (k, n)"
  show "n = int (card {u. ?M u k = Some (RteRef i)})" "0 < n"
  proof (goal_cases)
    case 1
    show ?case
    proof (cases "refd (M t) i \<and> \<not> refd m i")
      case True
      then have r: "R i = Some (k, n + 1)" using a by (auto simp: dec_ref_def split: option.splits if_splits)
      have "M t k = Some (RteRef i)" using True r d(2) by (auto simp: refd_def)
      with card lost [OF r] True d(3) [OF r] show ?thesis by simp
    next
      case False
      then have r: "R i = Some (k, n)" using a by (auto split: if_splits)
      show ?thesis using d(3) [OF r] kept [OF r False] by simp
    qed
  next
    case 2
    show ?case using a d(3) [of i k] by (auto simp: dec_ref_def split: option.splits if_splits)
  qed
qed

text \<open>One table gains entries it had nothing for: their counts are raised, a new entry starts at one.\<close>

lemma refs_ok_gain:
  assumes ok: "refs_ok M R" and m: "\<And>k. M t k = None \<or> m k = M t k"
    and new: "\<And>k i. m k = Some (RteRef i) \<Longrightarrow> M t k = None \<Longrightarrow>
      (\<exists>n. R i = Some (k, n)) \<or> R i = None \<and> R' i = Some (k, 1)"
    and up: "\<And>i. refd m i \<Longrightarrow> \<not> refd (M t) i \<Longrightarrow> R i \<noteq> None \<Longrightarrow> R' i = inc_ref (R i)"
    and same: "\<And>i. \<not> (refd m i \<and> \<not> refd (M t) i) \<Longrightarrow> R' i = R i"
    and inj: "\<And>k k' i. m k = Some (RteRef i) \<Longrightarrow> m k' = Some (RteRef i) \<Longrightarrow> k = k'"
  shows "refs_ok (M(t := m)) R'"
  unfolding refs_ok_def
proof (intro conjI allI impI)
  note d = refs_okD [OF ok]
  have "{u. \<exists>k. (M(t := m)) u k \<noteq> None} \<subseteq> insert t {u. \<exists>k. M u k \<noteq> None}" by auto
  moreover have "finite (insert t {u. \<exists>k. M u k \<noteq> None})" using ok by (simp only: refs_ok_def finite_insert)
  ultimately show "finite {u. \<exists>k. (M(t := m)) u k \<noteq> None}" by (rule finite_subset)
  have key: "\<exists>n. R i = Some (k, n)" if "M u k = Some (RteRef i)" for u k i using d(2) that by blast
  have key': "(\<exists>n. R i = Some (k, n)) \<or> R i = None \<and> R' i = Some (k, 1) \<and> \<not> refd (M t) i"
    if "m k = Some (RteRef i)" for k i
  proof (cases "M t k")
    case None
    from new [OF that None] show ?thesis using key by (fastforce simp: refd_def)
  next
    case (Some v)
    with m [of k] that key show ?thesis by auto
  qed
  fix u k i
  show "\<exists>n. R' i = Some (k, n)" if a: "(M(t := m)) u k = Some (RteRef i)"
  proof (cases "u = t")
    case True
    with a have mk: "m k = Some (RteRef i)" by simp
    from key' [OF mk] up [of i] same [of i] show ?thesis
      by (cases "refd m i \<and> \<not> refd (M t) i") (auto simp: inc_ref_def)
  next
    case False
    with a key obtain n where "R i = Some (k, n)" by fastforce
    with up [of i] same [of i] show ?thesis
      by (cases "refd m i \<and> \<not> refd (M t) i") (auto simp: inc_ref_def)
  qed
  fix n
  assume a: "R' i = Some (k, n)"
  show "n = int (card {u. (M(t := m)) u k = Some (RteRef i)})" "0 < n"
  proof (goal_cases)
    case 1
    show ?case
    proof (cases "refd m i \<and> \<not> refd (M t) i")
      case True
      then obtain k1 where k1: "m k1 = Some (RteRef i)" by (auto simp: refd_def)
      have nt: "M t k \<noteq> Some (RteRef i)" for k using True by (auto simp: refd_def)
      show ?thesis
      proof (cases "R i")
        case None
        with key' [OF k1] a have "k1 = k" "n = 1" by auto
        moreover have "M u k \<noteq> Some (RteRef i)" for u using key [of u k i] None by auto
        ultimately have "{u. (M(t := m)) u k = Some (RteRef i)} = {t}" using k1 by auto
        with \<open>n = 1\<close> show ?thesis by simp
      next
        case (Some r)
        with True up [of i] a have r: "R i = Some (k, n - 1)" by (auto simp: inc_ref_def split: prod.splits)
        with key' [OF k1] have "k1 = k" by auto
        then have "{u. (M(t := m)) u k = Some (RteRef i)} = insert t {u. M u k = Some (RteRef i)}"
          using k1 by auto
        with d(3) [OF r] d(1) nt show ?thesis by simp
      qed
    next
      case False
      with same [of i] a have r: "R i = Some (k, n)" by simp
      have "m k = Some (RteRef i) \<longleftrightarrow> M t k = Some (RteRef i)"
      proof
        assume mk: "m k = Some (RteRef i)"
        with False have "refd (M t) i" by (auto simp: refd_def)
        then obtain k' where k': "M t k' = Some (RteRef i)" by (auto simp: refd_def)
        with m [of k'] have "m k' = Some (RteRef i)" by auto
        with inj mk k' show "M t k = Some (RteRef i)" by metis
      qed (use m [of k] in auto)
      then have "{u. (M(t := m)) u k = Some (RteRef i)} = {u. M u k = Some (RteRef i)}" by auto
      with d(3) [OF r] show ?thesis by simp
    qed
  next
    case 2
    have "R i = Some (k, n) \<or> R i = Some (k, n - 1) \<or> n = 1"
    proof (cases "refd m i \<and> \<not> refd (M t) i")
      case True
      then obtain k1 where "m k1 = Some (RteRef i)" by (auto simp: refd_def)
      from key' [OF this] True up [of i] a show ?thesis by (cases "R i") (auto simp: inc_ref_def)
    qed (use same [of i] a in auto)
    then show ?case using d(3) [of i k n] d(3) [of i k "n - 1"] by auto
  qed
qed

subsection \<open>The invariant\<close>

definition tmap :: "('c) uta_ctx_scheme \<Rightarrow> nat \<Rightarrow> u64 \<Rightarrow> rt_val option" where
  "tmap ctx t k = (if t < length (tabs ctx)
     then Option.bind (tabs ctx ! t) (\<lambda>rt. sym_lookup (rt_hash rt) (NumKey k)) else None)"

definition kr :: "('c) uta_ctx_scheme \<Rightarrow> nat \<Rightarrow> (u64 \<times> int) option" where
  "kr ctx i = (if i < length (rtes ctx) then map_option (\<lambda>e. (rte_key e, rte_refs e)) (rtes ctx ! i) else None)"

text \<open>What an entry is, apart from its count.\<close>

definition body :: "('c) uta_ctx_scheme \<Rightarrow> nat \<Rightarrow> (u64 \<times> int \<times> rrgroup option list) option" where
  "body ctx i = (if i < length (rtes ctx)
     then map_option (\<lambda>e. (rte_key e, rte_mtype e, rrgroups e)) (rtes ctx ! i) else None)"

definition rt_inv :: "uta_ctx \<Rightarrow> bool" where
  "rt_inv ctx = ((\<forall>t rt. the_rt ctx t = Some rt \<longrightarrow> hash_ok (rt_hash rt)) \<and> refs_ok (tmap ctx) (kr ctx))"

text \<open>Entries are freed or stay as they were.\<close>

definition keeps :: "uta_ctx \<Rightarrow> uta_ctx \<Rightarrow> bool" where
  "keeps ctx ctx' = (length (rtes ctx) \<le> length (rtes ctx') \<and>
     (\<forall>i < length (rtes ctx). body ctx' i = None \<or> body ctx' i = body ctx i))"

lemma keeps_refl [simp]: "keeps ctx ctx"
  by (simp add: keeps_def)

lemma keeps_trans: "keeps a b \<Longrightarrow> keeps b c \<Longrightarrow> keeps a c"
  unfolding keeps_def by (metis le_trans order_less_le_trans)

lemma tmap_the_rt: "tmap ctx t k = Option.bind (the_rt ctx t) (\<lambda>rt. sym_lookup (rt_hash rt) (NumKey k))"
  by (simp add: tmap_def the_rt_def)

lemma kr_the_rte: "kr ctx i = map_option (\<lambda>e. (rte_key e, rte_refs e)) (the_rte ctx i)"
  "body ctx i = map_option (\<lambda>e. (rte_key e, rte_mtype e, rrgroups e)) (the_rte ctx i)"
  by (simp_all add: kr_def body_def the_rte_def)

text \<open>What depends on the tables or the entries only.\<close>

lemma tabs_cong:
  assumes "tabs ctx' = tabs ctx"
  shows "tmap ctx' = tmap ctx" "the_rt ctx' = the_rt ctx"
  using assms by (auto simp: tmap_def the_rt_def fun_eq_iff)

lemma rtes_cong:
  assumes "rtes ctx' = rtes ctx"
  shows "kr ctx' = kr ctx" "the_rte ctx' = the_rte ctx" "body ctx' = body ctx"
  using assms by (auto simp: kr_def the_rte_def body_def fun_eq_iff)

lemma rt_inv_cong: "tabs ctx' = tabs ctx \<Longrightarrow> rtes ctx' = rtes ctx \<Longrightarrow> rt_inv ctx' = rt_inv ctx"
  using tabs_cong [of ctx' ctx] rtes_cong [of ctx' ctx] by (simp add: rt_inv_def)

lemma keeps_rtes: "rtes ctx' = rtes ctx \<Longrightarrow> keeps ctx ctx'"
  using rtes_cong [of ctx' ctx] by (simp add: keeps_def)

lemma set_rt_fields [simp]:
  "rtes (set_rt t v ctx) = rtes ctx" "tabs (set_rt t v ctx) = (tabs ctx)[t := v]"
  "eps (set_rt t v ctx) = eps ctx" "ephash (set_rt t v ctx) = ephash ctx"
  "rtable (set_rt t v ctx) = rtable ctx" "old_rtable (set_rt t v ctx) = old_rtable ctx"
  "new_rtable (set_rt t v ctx) = new_rtable ctx" "set_rt t w (set_rt t v ctx) = set_rt t w ctx"
  by (simp_all add: set_rt_def)

lemma set_hash_set_rt: "set_hash t rt h ctx = set_rt t (Some (rt\<lparr>rt_hash := h\<rparr>)) ctx"
  by (simp add: set_hash_def)

lemma the_rt_set: "the_rt ctx t \<noteq> None \<Longrightarrow> the_rt (set_rt t v ctx) u = (if u = t then v else the_rt ctx u)"
  by (auto simp: the_rt_def nth_list_update split: if_splits)

lemma tmap_set:
  "the_rt ctx t \<noteq> None \<Longrightarrow> tmap (set_rt t v ctx) =
     (tmap ctx)(t := \<lambda>k. Option.bind v (\<lambda>rt. sym_lookup (rt_hash rt) (NumKey k)))"
  by (auto simp: fun_eq_iff tmap_the_rt the_rt_set)

lemma rt_invD:
  assumes "rt_inv ctx"
  shows "the_rt ctx t = Some rt \<Longrightarrow> hash_ok (rt_hash rt)" "refs_ok (tmap ctx) (kr ctx)"
    "the_rt ctx t = Some rt \<Longrightarrow> sym_lookup (rt_hash rt) (NumKey k) = Some (RteRef i) \<Longrightarrow>
       \<exists>e. the_rte ctx i = Some e \<and> rte_key e = k"
proof -
  show "the_rt ctx t = Some rt \<Longrightarrow> hash_ok (rt_hash rt)" and ok: "refs_ok (tmap ctx) (kr ctx)"
    using assms by (auto simp: rt_inv_def)
  assume "the_rt ctx t = Some rt" "sym_lookup (rt_hash rt) (NumKey k) = Some (RteRef i)"
  then have "tmap ctx t k = Some (RteRef i)" by (simp add: tmap_the_rt)
  from refs_okD(2) [OF ok this] show "\<exists>e. the_rte ctx i = Some e \<and> rte_key e = k"
    by (auto simp: kr_the_rte)
qed

text \<open>Replacing a table by one with the same entries.\<close>

lemma rt_inv_set_same:
  assumes "rt_inv ctx" "the_rt ctx t = Some rt" "hash_ok (rt_hash rt')"
    "\<And>k. sym_lookup (rt_hash rt') (NumKey k) = sym_lookup (rt_hash rt) (NumKey k)"
  shows "rt_inv (set_rt t (Some rt') ctx)"
proof -
  have "tmap (set_rt t (Some rt') ctx) = tmap ctx"
    using assms(2,4) by (auto simp: tmap_set fun_eq_iff tmap_the_rt)
  then show ?thesis
    using assms(2,3) rt_invD(1,2) [OF assms(1)] rtes_cong(1) [of "set_rt t (Some rt') ctx" ctx]
    by (auto simp: rt_inv_def the_rt_set split: if_splits)
qed

subsection \<open>Dropping references\<close>

lemma del_rte_ok:
  assumes "kr ctx i \<noteq> None"
  obtains r where "del_rte (Some (RteRef i)) ctx = Some (ctx\<lparr>rtes := r\<rparr>)"
    "kr (ctx\<lparr>rtes := r\<rparr>) = (kr ctx)(i := dec_ref (kr ctx i))" "keeps ctx (ctx\<lparr>rtes := r\<rparr>)"
proof -
  obtain e where e: "the_rte ctx i = Some e" "i < length (rtes ctx)" "rtes ctx ! i = Some e"
    using assms by (auto simp: kr_def the_rte_def split: if_splits)
  let ?r = "(rtes ctx)[i := if rte_refs e - 1 > 0 then Some (e\<lparr>rte_refs := rte_refs e - 1\<rparr>) else None]"
  have "del_rte (Some (RteRef i)) ctx = Some (ctx\<lparr>rtes := ?r\<rparr>)"
    by (simp add: del_rte_def e Let_def)
  moreover have "kr (ctx\<lparr>rtes := ?r\<rparr>) = (kr ctx)(i := dec_ref (kr ctx i))"
    using e by (auto simp: kr_def fun_eq_iff nth_list_update dec_ref_def)
  moreover have "keeps ctx (ctx\<lparr>rtes := ?r\<rparr>)"
    using e by (auto simp: keeps_def body_def nth_list_update)
  ultimately show thesis by (rule that)
qed

lemma drop_list:
  assumes "distinct is" "\<forall>i\<in>set is. kr ctx i \<noteq> None"
  shows "\<exists>r. fold (\<lambda>i s. Option.bind s (del_rte (Some (RteRef i)))) is (Some ctx) = Some (ctx\<lparr>rtes := r\<rparr>)
    \<and> kr (ctx\<lparr>rtes := r\<rparr>) = (\<lambda>i. if i \<in> set is then dec_ref (kr ctx i) else kr ctx i)
    \<and> keeps ctx (ctx\<lparr>rtes := r\<rparr>)"
  using assms
proof (induction "is" arbitrary: ctx)
  case Nil
  show ?case by (rule exI [of _ "rtes ctx"]) simp
next
  case (Cons i "is")
  obtain r where r: "del_rte (Some (RteRef i)) ctx = Some (ctx\<lparr>rtes := r\<rparr>)"
    "kr (ctx\<lparr>rtes := r\<rparr>) = (kr ctx)(i := dec_ref (kr ctx i))" "keeps ctx (ctx\<lparr>rtes := r\<rparr>)"
    using Cons.prems(2) by (auto intro: del_rte_ok)
  have "\<forall>j\<in>set is. kr (ctx\<lparr>rtes := r\<rparr>) j \<noteq> None" using Cons.prems r(2) by auto
  from Cons.IH [OF _ this] Cons.prems obtain r' where r': "fold (\<lambda>i s. Option.bind s (del_rte (Some (RteRef i)))) is (Some (ctx\<lparr>rtes := r\<rparr>))
        = Some (ctx\<lparr>rtes := r'\<rparr>)"
    "kr (ctx\<lparr>rtes := r'\<rparr>) = (\<lambda>j. if j \<in> set is then dec_ref (kr (ctx\<lparr>rtes := r\<rparr>) j) else kr (ctx\<lparr>rtes := r\<rparr>) j)"
    "keeps (ctx\<lparr>rtes := r\<rparr>) (ctx\<lparr>rtes := r'\<rparr>)" by auto
  show ?case
    using r(1) r' Cons.prems(1) keeps_trans [OF r(3) r'(3)]
    by (intro exI [of _ r']) (auto simp: r(2) fun_eq_iff)
qed

lemma drop_rtes_ok:
  assumes ok: "hash_ok h" and live: "\<And>k i. sym_lookup h (NumKey k) = Some (RteRef i) \<Longrightarrow> \<exists>n. kr ctx i = Some (k, n)"
  obtains r where "drop_rtes h ctx = Some (ctx\<lparr>rtes := r\<rparr>)"
    "kr (ctx\<lparr>rtes := r\<rparr>) = (\<lambda>i. if refd (\<lambda>k. sym_lookup h (NumKey k)) i then dec_ref (kr ctx i) else kr ctx i)"
    "keeps ctx (ctx\<lparr>rtes := r\<rparr>)"
proof -
  let ?is = "map snd (rte_list h)"
  note l = rte_list [OF ok]
  have "inj_on snd (set (rte_list h))"
  proof (rule inj_onI)
    fix x y assume "x \<in> set (rte_list h)" "y \<in> set (rte_list h)" "snd x = snd y"
    moreover from this have "\<exists>n. kr ctx (snd x) = Some (fst x, n)" "\<exists>n. kr ctx (snd y) = Some (fst y, n)"
      using live l(2) by (metis prod.collapse)+
    ultimately show "x = y" by (auto intro: prod_eqI)
  qed
  moreover have "distinct (rte_list h)" using l(1) by (simp add: distinct_map)
  ultimately have d: "distinct ?is" by (simp add: distinct_map)
  have alive: "\<forall>i\<in>set ?is. kr ctx i \<noteq> None" using l(2) live by fastforce
  have "drop_rtes h ctx = fold (\<lambda>v s. Option.bind s (del_rte v)) (map snd (sym_class h 0)) (Some ctx)"
    unfolding drop_rtes_def foreach_class_fold fold_map by (simp add: comp_def split_def)
  also have "\<dots> = fold (\<lambda>i s. Option.bind s (del_rte (Some (RteRef i)))) ?is (Some ctx)"
    unfolding l(3) fold_map by (simp add: comp_def split_def)
  finally have e: "drop_rtes h ctx = fold (\<lambda>i s. Option.bind s (del_rte (Some (RteRef i)))) ?is (Some ctx)" .
  have s: "i \<in> set ?is \<longleftrightarrow> refd (\<lambda>k. sym_lookup h (NumKey k)) i" for i
    using l(2) by (force simp: refd_def)
  show thesis
    using drop_list [OF d alive] that unfolding e s by blast
qed

text \<open>A table that is dropped, or cleared, takes its references along.\<close>

lemma rt_inv_lose_all:
  assumes inv: "rt_inv ctx" and rt: "the_rt ctx t = Some rt"
    and v: "\<And>rt'. v = Some rt' \<Longrightarrow> hash_ok (rt_hash rt') \<and> (\<forall>k. sym_lookup (rt_hash rt') k = None)"
  obtains r where "drop_rtes (rt_hash rt) ctx = Some (ctx\<lparr>rtes := r\<rparr>)"
    "rt_inv (set_rt t v (ctx\<lparr>rtes := r\<rparr>))" "keeps ctx (ctx\<lparr>rtes := r\<rparr>)"
proof -
  note d = rt_invD [OF inv]
  have "\<exists>n. kr ctx i = Some (k, n)" if "sym_lookup (rt_hash rt) (NumKey k) = Some (RteRef i)" for k i
    using d(3) [OF rt that] by (auto simp: kr_the_rte)
  from drop_rtes_ok [OF d(1) [OF rt] this] obtain r where r:
    "drop_rtes (rt_hash rt) ctx = Some (ctx\<lparr>rtes := r\<rparr>)"
    "kr (ctx\<lparr>rtes := r\<rparr>) = (\<lambda>i. if refd (\<lambda>k. sym_lookup (rt_hash rt) (NumKey k)) i then dec_ref (kr ctx i) else kr ctx i)"
    "keeps ctx (ctx\<lparr>rtes := r\<rparr>)" by blast
  let ?c = "ctx\<lparr>rtes := r\<rparr>" and ?m = "\<lambda>_::u64. None :: rt_val option"
  have tab: "the_rt ?c = the_rt ctx" "tmap ?c = tmap ctx" by (rule tabs_cong; simp)+
  have m: "tmap ctx t = (\<lambda>k. sym_lookup (rt_hash rt) (NumKey k))" by (simp add: fun_eq_iff tmap_the_rt rt)
  have e: "tmap (set_rt t v ?c) = (tmap ctx)(t := ?m)"
    using rt v by (subst tmap_set) (auto simp: tab fun_eq_iff split: Option.bind_split)
  have "refs_ok ((tmap ctx)(t := ?m)) (\<lambda>i. if refd (tmap ctx t) i \<and> \<not> refd ?m i then dec_ref (kr ctx i) else kr ctx i)"
    by (rule refs_ok_lose [OF d(2)]) simp
  moreover have "kr (set_rt t v ?c) = kr ?c" by (rule rtes_cong) simp
  ultimately have "refs_ok (tmap (set_rt t v ?c)) (kr (set_rt t v ?c))" by (simp add: e r(2) m refd_def)
  moreover have "hash_ok (rt_hash rt')" if "the_rt (set_rt t v ?c) u = Some rt'" for u rt'
    using that rt v d(1) by (auto simp: the_rt_set tab split: if_splits)
  ultimately show thesis using that r by (simp add: rt_inv_def)
qed

lemma uta_rt_drop_ok:
  assumes "rt_inv ctx" "the_rt ctx t = Some rt"
  obtains r where "uta_rt_drop (Some t) ctx = Some (set_rt t None (ctx\<lparr>rtes := r\<rparr>))"
    "rt_inv (set_rt t None (ctx\<lparr>rtes := r\<rparr>))" "keeps ctx (ctx\<lparr>rtes := r\<rparr>)"
proof -
  obtain r where r: "drop_rtes (rt_hash rt) ctx = Some (ctx\<lparr>rtes := r\<rparr>)"
    "rt_inv (set_rt t None (ctx\<lparr>rtes := r\<rparr>))" "keeps ctx (ctx\<lparr>rtes := r\<rparr>)"
    by (rule rt_inv_lose_all [OF assms, of None]) simp_all
  moreover have "uta_rt_drop (Some t) ctx = Some (set_rt t None (ctx\<lparr>rtes := r\<rparr>))"
    by (simp add: uta_rt_drop_def assms(2) r(1))
  ultimately show thesis using that by blast
qed

subsection \<open>Adding and deleting one entry\<close>

lemma refd_upd:
  "refd (m(k := None)) i \<longleftrightarrow> (\<exists>k'. k' \<noteq> k \<and> m k' = Some (RteRef i))"
  by (auto simp: refd_def)

text \<open>Removing the entry of one key, if there is one.\<close>

lemma rt_inv_remove:
  assumes inv: "rt_inv ctx" and rt: "the_rt ctx t = Some rt" and h: "hash_ok h"
    and l: "\<And>k'. sym_lookup h (NumKey k') = (if k' = k then None else sym_lookup (rt_hash rt) (NumKey k'))"
    and i: "sym_lookup (rt_hash rt) (NumKey k) = Some (RteRef i)"
  obtains r where "del_rte (Some (RteRef i)) ctx = Some (ctx\<lparr>rtes := r\<rparr>)"
    "rt_inv (set_rt t (Some (rt\<lparr>rt_hash := h\<rparr>)) (ctx\<lparr>rtes := r\<rparr>))" "keeps ctx (ctx\<lparr>rtes := r\<rparr>)"
proof -
  note d = rt_invD [OF inv]
  have m: "tmap ctx t = (\<lambda>k. sym_lookup (rt_hash rt) (NumKey k))" by (simp add: fun_eq_iff tmap_the_rt rt)
  have "kr ctx i \<noteq> None" using d(3) [OF rt i] by (auto simp: kr_the_rte)
  from del_rte_ok [OF this] obtain r where r: "del_rte (Some (RteRef i)) ctx = Some (ctx\<lparr>rtes := r\<rparr>)"
    "kr (ctx\<lparr>rtes := r\<rparr>) = (kr ctx)(i := dec_ref (kr ctx i))" "keeps ctx (ctx\<lparr>rtes := r\<rparr>)" by blast
  let ?c = "ctx\<lparr>rtes := r\<rparr>" and ?m = "(tmap ctx t)(k := None)"
  let ?s = "set_rt t (Some (rt\<lparr>rt_hash := h\<rparr>)) ?c"
  have tab: "the_rt ?c = the_rt ctx" "tmap ?c = tmap ctx" by (rule tabs_cong; simp)+
  have e: "tmap ?s = (tmap ctx)(t := ?m)"
    using rt by (subst tmap_set) (auto simp: tab fun_eq_iff m l)
  have "(refd (tmap ctx t) j \<and> \<not> refd ?m j) = (j = i)" for j
  proof
    assume "refd (tmap ctx t) j \<and> \<not> refd ?m j"
    then have "tmap ctx t k = Some (RteRef j)" unfolding refd_upd unfolding refd_def by metis
    with i show "j = i" by (simp add: m)
  next
    assume "j = i"
    moreover have "tmap ctx t k = Some (RteRef i)" using i by (simp add: m)
    ultimately show "refd (tmap ctx t) j \<and> \<not> refd ?m j"
      using refs_okD(4) [OF d(2), of t k i t] unfolding refd_upd unfolding refd_def by blast
  qed
  moreover have "refs_ok ((tmap ctx)(t := ?m)) (\<lambda>j. if refd (tmap ctx t) j \<and> \<not> refd ?m j then dec_ref (kr ctx j) else kr ctx j)"
    by (rule refs_ok_lose [OF d(2)]) simp
  moreover have "(\<lambda>j. if j = i then dec_ref (kr ctx j) else kr ctx j) = (kr ctx)(i := dec_ref (kr ctx i))" by auto
  ultimately have "refs_ok (tmap ?s) ((kr ctx)(i := dec_ref (kr ctx i)))" by (simp only: e)
  moreover have "kr ?s = kr ?c" by (rule rtes_cong) simp
  moreover have "hash_ok (rt_hash rt')" if "the_rt ?s u = Some rt'" for u rt'
    using that rt h d(1) by (auto simp: the_rt_set tab split: if_splits)
  ultimately show thesis using that r by (simp add: rt_inv_def)
qed

text \<open>A new entry under a key that has none.\<close>

lemma rt_inv_insert:
  assumes inv: "rt_inv ctx" and rt: "the_rt ctx t = Some rt" and h: "hash_ok h"
    and l: "\<And>k'. sym_lookup h (NumKey k') = (if k' = k then Some (RteRef i) else sym_lookup (rt_hash rt) (NumKey k'))"
    and k: "sym_lookup (rt_hash rt) (NumKey k) = None"
    and e: "rte_key e = k" "rte_refs e = 1" and i: "i = length (rtes ctx)"
  shows "rt_inv (set_rt t (Some (rt\<lparr>rt_hash := h\<rparr>)) (ctx\<lparr>rtes := rtes ctx @ [Some e]\<rparr>))"
proof -
  note d = rt_invD [OF inv]
  let ?c = "ctx\<lparr>rtes := rtes ctx @ [Some e]\<rparr>" and ?m = "(tmap ctx t)(k \<mapsto> RteRef i)"
  let ?s = "set_rt t (Some (rt\<lparr>rt_hash := h\<rparr>)) ?c"
  have tab: "the_rt ?c = the_rt ctx" "tmap ?c = tmap ctx" by (rule tabs_cong; simp)+
  have m: "tmap ctx t = (\<lambda>k. sym_lookup (rt_hash rt) (NumKey k))" by (simp add: fun_eq_iff tmap_the_rt rt)
  have ni: "kr ctx i = None" by (simp add: kr_def i)
  then have un: "tmap ctx u k' \<noteq> Some (RteRef i)" for u k' using refs_okD(2) [OF d(2)] by force
  have kr: "kr ?s = (kr ctx)(i \<mapsto> (k, 1))" by (auto simp: kr_def fun_eq_iff nth_append e i)
  have "tmap ?s = (tmap ctx)(t := ?m)"
    using rt by (subst tmap_set) (auto simp: tab fun_eq_iff m l)
  moreover have "refs_ok ((tmap ctx)(t := ?m)) (kr ?s)"
  proof (rule refs_ok_gain [OF d(2)])
    show "tmap ctx t k' = None \<or> ?m k' = tmap ctx t k'" for k' using k by (simp add: m)
    show "(\<exists>n. kr ctx j = Some (k', n)) \<or> kr ctx j = None \<and> kr ?s j = Some (k', 1)"
      if "?m k' = Some (RteRef j)" "tmap ctx t k' = None" for k' j
      using that ni by (auto simp: kr split: if_splits)
    show "kr ?s j = inc_ref (kr ctx j)" if "refd ?m j" "\<not> refd (tmap ctx t) j" "kr ctx j \<noteq> None" for j
      using that ni by (auto simp: refd_def split: if_splits)
    show "kr ?s j = kr ctx j" if "\<not> (refd ?m j \<and> \<not> refd (tmap ctx t) j)" for j
    proof -
      have "refd ?m i" unfolding refd_def by (rule exI [of _ k]) simp
      moreover have "\<not> refd (tmap ctx t) i" using un by (simp add: refd_def)
      ultimately have "j \<noteq> i" using that by blast
      then show ?thesis by (simp add: kr)
    qed
    show "k1 = k2" if "?m k1 = Some (RteRef j)" "?m k2 = Some (RteRef j)" for k1 k2 j
      using that un refs_okD(4) [OF d(2), of t k1 j t k2] by (auto split: if_splits)
  qed
  moreover have "hash_ok (rt_hash rt')" if "the_rt ?s u = Some rt'" for u rt'
    using that rt h d(1) by (auto simp: the_rt_set tab split: if_splits)
  ultimately show ?thesis by (simp add: rt_inv_def)
qed

lemma del_rte_set_rt: "del_rte v (set_rt t x ctx) = map_option (set_rt t x) (del_rte v ctx)"
  by (auto simp: del_rte_def set_rt_def the_rte_def Let_def split: option.split rt_val.split)

lemma del_rte_append:
  "i < length (rtes ctx) \<Longrightarrow> del_rte (Some (RteRef i)) (ctx\<lparr>rtes := rtes ctx @ [x]\<rparr>) =
     map_option (\<lambda>c. c\<lparr>rtes := rtes c @ [x]\<rparr>) (del_rte (Some (RteRef i)) ctx)"
  by (auto simp: del_rte_def the_rte_def Let_def nth_append list_update_append split: option.split)

lemma kr_Some_less: "kr ctx i = Some x \<Longrightarrow> i < length (rtes ctx)"
  by (simp add: kr_def split: if_splits)

lemma keeps_append: "keeps ctx ctx' \<Longrightarrow> keeps ctx (ctx'\<lparr>rtes := rtes ctx' @ [x]\<rparr>)"
  by (auto simp: keeps_def body_def nth_append)

lemma keeps_set_rt: "keeps ctx ctx' \<Longrightarrow> keeps ctx (set_rt t v ctx')"
  using keeps_trans [OF _ keeps_rtes [of "set_rt t v ctx'" ctx']] by simp

lemma num_key_plain: "k \<noteq> 0 \<Longrightarrow> plain_key (NumKey k)"
  by (simp add: plain_key_def valid_key_def)

lemma uta_add_rte_ok:
  fixes nrr :: int
  assumes inv: "rt_inv ctx" and rt: "the_rt ctx t = Some rt" and key: "key \<noteq> 0"
  defines "n \<equiv> if nrr < 0 then 10 else nrr"
  defines "e \<equiv> \<lparr>rte_key = key, rte_refs = 1, rte_mtype = 0, rrgroups = replicate (nat n) None\<rparr>"
  obtains h r where
    "uta_add_rte t key nrr ctx = Some (length (rtes ctx), set_rt t (Some (rt\<lparr>rt_hash := h\<rparr>)) (ctx\<lparr>rtes := r @ [Some e]\<rparr>))"
    "rt_inv (set_rt t (Some (rt\<lparr>rt_hash := h\<rparr>)) (ctx\<lparr>rtes := r @ [Some e]\<rparr>))"
    "keeps ctx (ctx\<lparr>rtes := r @ [Some e]\<rparr>)" "length r = length (rtes ctx)"
    "sym_lookup h = (sym_lookup (rt_hash rt))(NumKey key \<mapsto> RteRef (length (rtes ctx)))"
proof -
  let ?i = "length (rtes ctx)"
  note pk = num_key_plain [OF key]
  note hok = rt_invD(1) [OF inv rt]
  obtain old h1 where p: "rmr_sym_pull (rt_hash rt) key = (old, h1)" by fastforce
  have h1: "hash_ok h1" "old = sym_lookup (rt_hash rt) (NumKey key)" "sym_lookup h1 = sym_lookup (rt_hash rt)"
    using hash_ok_get [OF hok pk] p by (simp_all add: rmr_sym_pull_def)
  define h2 where "h2 = snd (rmr_sym_map True h1 key (Some (RteRef ?i)))"
  have ent: "ent_ok (NumKey key) (Some (RteRef ?i))" using key by simp
  have h2: "hash_ok h2" "sym_lookup h2 = (sym_lookup (rt_hash rt))(NumKey key \<mapsto> RteRef ?i)"
    using hash_ok_put [OF h1(1) ent] by (auto simp: h2_def rmr_sym_map_def h1(3))
  have code: "uta_add_rte t key nrr ctx =
      Option.bind (del_rte old (set_rt t (Some (rt\<lparr>rt_hash := h1\<rparr>)) (ctx\<lparr>rtes := rtes ctx @ [Some e]\<rparr>)))
        (\<lambda>c. Some (?i, set_rt t (Some (rt\<lparr>rt_hash := h2\<rparr>)) c))"
    by (simp add: uta_add_rte_def rt p Let_def set_hash_set_rt h2_def e_def n_def)
  show thesis
  proof (cases old)
    case None
    have "rt_inv (set_rt t (Some (rt\<lparr>rt_hash := h2\<rparr>)) (ctx\<lparr>rtes := rtes ctx @ [Some e]\<rparr>))"
      using h1(2) h2 None by (intro rt_inv_insert [OF inv rt, where k = key and i = ?i]) (simp_all add: e_def)
    moreover have "uta_add_rte t key nrr ctx =
        Some (?i, set_rt t (Some (rt\<lparr>rt_hash := h2\<rparr>)) (ctx\<lparr>rtes := rtes ctx @ [Some e]\<rparr>))"
      using code None by (simp add: del_rte_def)
    ultimately show thesis
      using that [of h2 "rtes ctx"] keeps_append [OF keeps_refl [of ctx]] h2(2) by simp
  next
    case (Some v)
    then obtain j where j: "sym_lookup (rt_hash rt) (NumKey key) = Some (RteRef j)" "old = Some (RteRef j)"
      using hash_okD(2) [OF hok, of "NumKey key"] h1(2) by auto
    let ?h0 = "rmr_sym_del h1 (NumKey key)"
    note h0 = hash_ok_del [OF h1(1) pk]
    obtain r where r: "del_rte (Some (RteRef j)) ctx = Some (ctx\<lparr>rtes := r\<rparr>)"
      "rt_inv (set_rt t (Some (rt\<lparr>rt_hash := ?h0\<rparr>)) (ctx\<lparr>rtes := r\<rparr>))" "keeps ctx (ctx\<lparr>rtes := r\<rparr>)"
      using h0 h1(3) j(1) by (auto intro: rt_inv_remove [OF inv rt h0(1), of key j])
    let ?c = "set_rt t (Some (rt\<lparr>rt_hash := ?h0\<rparr>)) (ctx\<lparr>rtes := r\<rparr>)"
    have jl: "j < ?i" using rt_invD(3) [OF inv rt j(1)] by (auto simp: the_rte_def split: if_splits)
    have lr: "length r = ?i"
      using r(1) by (auto simp: del_rte_def Let_def split: option.splits dest!: arg_cong [where f = "\<lambda>c. length (rtes c)"])
    have tab: "the_rt (ctx\<lparr>rtes := r\<rparr>) = the_rt ctx" by (rule tabs_cong) simp
    have "rt_inv (set_rt t (Some ((rt\<lparr>rt_hash := ?h0\<rparr>)\<lparr>rt_hash := h2\<rparr>)) (?c\<lparr>rtes := rtes ?c @ [Some e]\<rparr>))"
      using rt h0(2) h1(3) h2 lr tab
      by (intro rt_inv_insert [OF r(2), where k = key and i = ?i and rt = "rt\<lparr>rt_hash := ?h0\<rparr>"]) (auto simp: e_def the_rt_set)
    then have "rt_inv (set_rt t (Some (rt\<lparr>rt_hash := h2\<rparr>)) (ctx\<lparr>rtes := r @ [Some e]\<rparr>))"
      by (simp add: set_rt_def)
    moreover have "uta_add_rte t key nrr ctx = Some (?i, set_rt t (Some (rt\<lparr>rt_hash := h2\<rparr>)) (ctx\<lparr>rtes := r @ [Some e]\<rparr>))"
      using code jl r(1) by (simp add: j(2) del_rte_set_rt del_rte_append)
    ultimately show thesis
      using that [of h2 r] keeps_append [OF r(3), of "Some e"] lr h2(2) by simp
  qed
qed

subsection \<open>Cloning\<close>

lemma collect_things_all:
  "tl_things (rmr_sym_foreach_class h c collect_things \<lparr>tl_nalloc = n, tl_things = []\<rparr>) =
     map (\<lambda>(nm, v). (nm, the v)) (filter (\<lambda>(nm, v). v \<noteq> None) (sym_class h c))"
proof -
  have "tl_things (fold (\<lambda>(nm, v). collect_things nm v) l tl) =
      tl_things tl @ map (\<lambda>(nm, v). (nm, the v)) (filter (\<lambda>(nm, v). v \<noteq> None) l)" for l tl
    by (induction l arbitrary: tl) (auto simp: collect_things_def extend_things_def Let_def split: option.split)
  then show ?thesis by (simp add: foreach_class_fold)
qed

lemma sym_class_names:
  assumes "sym_wf t" "0 < c"
  shows "distinct (map fst (sym_class t c))" "(nm, v) \<in> set (sym_class t c) \<Longrightarrow> nm \<noteq> None"
proof -
  let ?es = "filter (\<lambda>e. se_class e = c) (concat (symlist t))"
  have ok: "ele_ok e \<and> se_class e = c" if "e \<in> set ?es" for e
    using that ele_lookup(4) [OF assms(1)] by auto
  have "distinct (map ele_key ?es)"
    using sym_keys_distinct [OF assms(1)] by (rule distinct_map_filter)
  moreover have "map ele_key ?es = map (\<lambda>e. StrKey (the (se_name e)) c) ?es"
    using ok assms(2) by (auto simp: ele_key_def)
  ultimately have "distinct (map (\<lambda>e. StrKey (the (se_name e)) c) ?es)" by (simp only:)
  then have "inj_on (\<lambda>e. StrKey (the (se_name e)) c) (set ?es)" "distinct ?es"
    by (simp_all only: distinct_map)
  then have "inj_on se_name (set ?es)" "distinct ?es" by (auto simp: inj_on_def)
  then have "distinct (map se_name ?es)" by (simp only: distinct_map)
  then show "distinct (map fst (sym_class t c))" by (simp add: sym_class_def comp_def)
  show "nm \<noteq> None" if nv: "(nm, v) \<in> set (sym_class t c)"
  proof -
    obtain e where "e \<in> set ?es" "nm = se_name e" using nv by (auto simp: sym_class_def)
    with ok [of e] assms(2) show ?thesis by (simp add: ele_ok_def)
  qed
qed

text \<open>What a walk over a class of a table collects.\<close>

lemma collect_me:
  assumes "hash_ok h"
  obtains l where "tl_things (rmr_sym_foreach_class h 2 collect_things \<lparr>tl_nalloc = 2048, tl_things = []\<rparr>) =
      map (\<lambda>(nm, p). (Some nm, EpRef p)) l"
    "distinct (map fst l)" "\<And>nm p. (nm, p) \<in> set l \<longleftrightarrow> sym_lookup h (StrKey nm 2) = Some (EpRef p)"
proof -
  let ?c = "sym_class h 2"
  note wf = hash_okD(1) [OF assms] and n = sym_class_names [OF hash_okD(1) [OF assms], of 2, OF zero_less_numeral]
  let ?l = "map (\<lambda>(nm, v). (the nm, case v of Some (EpRef p) \<Rightarrow> p | _ \<Rightarrow> 0)) ?c"
  have v: "\<exists>n p. nm = Some n \<and> v = Some (EpRef p) \<and> sym_lookup h (StrKey n 2) = v" if nv: "(nm, v) \<in> set ?c" for nm v
  proof -
    obtain m where m: "nm = Some m" using n(2) [OF nv] by auto
    then have "sym_lookup h (StrKey m 2) = v" "sym_present h (StrKey m 2)"
      using nv sym_class_str [OF wf, of 2] by auto
    with m show ?thesis using assms by (force simp: hash_ok_def)
  qed
  have "map (\<lambda>(nm, v). (nm, the v)) (filter (\<lambda>(nm, v). v \<noteq> None) ?c) = map (\<lambda>(nm, v). (nm, the v)) ?c"
    using v by (subst filter_True) auto
  also have "\<dots> = map (\<lambda>(nm, p). (Some nm, EpRef p)) ?l" using v by fastforce
  finally have e: "tl_things (rmr_sym_foreach_class h 2 collect_things \<lparr>tl_nalloc = 2048, tl_things = []\<rparr>) =
      map (\<lambda>(nm, p). (Some nm, EpRef p)) ?l" by (simp add: collect_things_all)
  have "map Some (map fst ?l) = map fst ?c" using v by fastforce
  with n(1) have "distinct (map Some (map fst ?l))" by (simp only:)
  then have d: "distinct (map fst ?l)" by (simp only: distinct_map)
  have "(nm, p) \<in> set ?l \<longleftrightarrow> sym_lookup h (StrKey nm 2) = Some (EpRef p)" for nm p
  proof
    assume "(nm, p) \<in> set ?l"
    then show "sym_lookup h (StrKey nm 2) = Some (EpRef p)" using v by fastforce
  next
    assume "sym_lookup h (StrKey nm 2) = Some (EpRef p)"
    then have "(Some nm, Some (EpRef p)) \<in> set ?c"
      using sym_class_str [OF wf, of 2 nm] hash_okD(3) [OF assms] by auto
    then show "(nm, p) \<in> set ?l" by force
  qed
  with e d show thesis by (rule that)
qed

lemma collect_rte:
  assumes "hash_ok h"
  shows "map snd (tl_things (rmr_sym_foreach_class h 0 collect_things \<lparr>tl_nalloc = 2048, tl_things = []\<rparr>)) =
    map (\<lambda>(k, i). RteRef i) (rte_list h)"
proof -
  have "map snd (map (\<lambda>(nm, v). (nm, the v)) (filter (\<lambda>(nm, v). v \<noteq> None) l)) = map the (filter (\<lambda>v. v \<noteq> None) (map snd l))"
    for l :: "(string option \<times> rt_val option) list"
    by (induction l) auto
  moreover have "map the (filter (\<lambda>v. v \<noteq> None) (map (\<lambda>(k, i). Some (RteRef i)) l)) = map (\<lambda>(k, i). RteRef i) l"
    for l :: "(u64 \<times> nat) list"
    by (induction l) auto
  ultimately show ?thesis by (simp only: collect_things_all rte_list(3) [OF assms])
qed

lemma set_rt_same: "the_rt ctx t = Some rt \<Longrightarrow> set_rt t (Some rt) ctx = ctx"
proof -
  assume "the_rt ctx t = Some rt"
  then have "(tabs ctx)[t := Some rt] = tabs ctx"
    by (metis list_update_id option.distinct(1) the_rt_def)
  then show ?thesis by (simp add: set_rt_def)
qed

text \<open>Names go into the new table; the entries do not change.\<close>

lemma clone_me_list:
  assumes "the_rt ctx n = Some rt"
  shows "clone_things n 2 (map (\<lambda>(nm, p). (Some nm, EpRef p)) l) ctx = Some (set_rt n
    (Some (rt\<lparr>rt_hash := fold (\<lambda>(k, v) t. snd (putin True t k v)) (map (\<lambda>(nm, p). (StrKey nm 2, Some (EpRef p))) l) (rt_hash rt)\<rparr>)) ctx)"
  using assms
proof (induction l arbitrary: ctx rt)
  case Nil
  then show ?case by (simp add: set_rt_same)
next
  case (Cons x l)
  obtain nm p where x: "x = (nm, p)" by (cases x)
  let ?h = "snd (putin True (rt_hash rt) (StrKey nm 2) (Some (EpRef p)))"
  have "clone_thing n 2 (Some nm, EpRef p) ctx = Some (set_rt n (Some (rt\<lparr>rt_hash := ?h\<rparr>)) ctx)"
    using Cons.prems by (simp add: clone_thing_def rmr_sym_put_def set_hash_set_rt)
  moreover have "the_rt (set_rt n (Some (rt\<lparr>rt_hash := ?h\<rparr>)) ctx) n = Some (rt\<lparr>rt_hash := ?h\<rparr>)"
    using Cons.prems by (simp add: the_rt_set)
  from Cons.IH [OF this] calculation show ?case by (simp add: x)
qed

text \<open>Entries go into the new table, each with one more reference.\<close>

lemma clone_rte_list:
  assumes "the_rt ctx n = Some rt" "distinct (map snd l)" "\<forall>(k, i)\<in>set l. \<exists>c. kr ctx i = Some (k, c)"
    "map snd things = map (\<lambda>(k, i). RteRef i) l"
  shows "\<exists>r. clone_things n 0 things ctx = Some (set_rt n
      (Some (rt\<lparr>rt_hash := fold (\<lambda>(k, v) t. snd (putin True t k v)) (map (\<lambda>(k, i). (NumKey k, Some (RteRef i))) l) (rt_hash rt)\<rparr>))
      (ctx\<lparr>rtes := r\<rparr>))
    \<and> kr (ctx\<lparr>rtes := r\<rparr>) = (\<lambda>i. if i \<in> snd ` set l then inc_ref (kr ctx i) else kr ctx i)
    \<and> keeps ctx (ctx\<lparr>rtes := r\<rparr>)"
  using assms
proof (induction l arbitrary: ctx rt things)
  case Nil
  then show ?case by (intro exI [of _ "rtes ctx"]) (simp add: set_rt_same)
next
  case (Cons x l)
  obtain k i where x: "x = (k, i)" by (cases x)
  obtain nm things' where th: "things = (nm, RteRef i) # things'" "map snd things' = map (\<lambda>(k, i). RteRef i) l"
    using Cons.prems(4) by (cases things) (auto simp: x)
  obtain c where c: "kr ctx i = Some (k, c)" using Cons.prems(3) by (auto simp: x)
  then obtain e where e: "the_rte ctx i = Some e" "rte_key e = k" "i < length (rtes ctx)" "rtes ctx ! i = Some e"
    by (auto simp: kr_def the_rte_def split: if_splits)
  let ?h = "snd (putin True (rt_hash rt) (NumKey k) (Some (RteRef i)))"
  let ?r = "(rtes ctx)[i := Some (e\<lparr>rte_refs := rte_refs e + 1\<rparr>)]"
  let ?c = "set_rt n (Some (rt\<lparr>rt_hash := ?h\<rparr>)) (ctx\<lparr>rtes := ?r\<rparr>)"
  have step: "clone_thing n 0 (nm, RteRef i) ctx = Some ?c"
    using Cons.prems(1) e by (simp add: clone_thing_def rmr_sym_map_def set_hash_set_rt)
  have tab: "the_rt (ctx\<lparr>rtes := ?r\<rparr>) = the_rt ctx" by (rule tabs_cong) simp
  have rt: "the_rt ?c n = Some (rt\<lparr>rt_hash := ?h\<rparr>)" using Cons.prems(1) by (simp add: the_rt_set tab)
  have kr: "kr ?c = (kr ctx)(i := inc_ref (kr ctx i))"
    using e by (auto simp: kr_def fun_eq_iff nth_list_update inc_ref_def)
  have "\<forall>(k, j)\<in>set l. \<exists>c. kr ?c j = Some (k, c)"
    using Cons.prems(2,3) by (auto simp: kr x rev_image_eqI)
  from Cons.IH [OF rt _ this th(2)] Cons.prems(2) obtain r where r:
    "clone_things n 0 things' ?c = Some (set_rt n (Some ((rt\<lparr>rt_hash := ?h\<rparr>)\<lparr>rt_hash :=
        fold (\<lambda>(k, v) t. snd (putin True t k v)) (map (\<lambda>(k, i). (NumKey k, Some (RteRef i))) l) (rt_hash (rt\<lparr>rt_hash := ?h\<rparr>))\<rparr>)) (?c\<lparr>rtes := r\<rparr>))"
    "kr (?c\<lparr>rtes := r\<rparr>) = (\<lambda>j. if j \<in> snd ` set l then inc_ref (kr ?c j) else kr ?c j)" "keeps ?c (?c\<lparr>rtes := r\<rparr>)"
    by (auto simp: x)
  have cc: "?c\<lparr>rtes := r\<rparr> = set_rt n (Some (rt\<lparr>rt_hash := ?h\<rparr>)) (ctx\<lparr>rtes := r\<rparr>)" by (simp add: set_rt_def)
  have "kr (ctx\<lparr>rtes := r\<rparr>) = kr (?c\<lparr>rtes := r\<rparr>)" by (rule rtes_cong) simp
  moreover have "i \<notin> snd ` set l" using Cons.prems(2) by (simp add: x)
  ultimately have "kr (ctx\<lparr>rtes := r\<rparr>) = (\<lambda>j. if j \<in> snd ` set (x # l) then inc_ref (kr ctx j) else kr ctx j)"
    by (auto simp: r(2) kr x fun_eq_iff)
  moreover have "keeps ctx ?c" using e by (auto simp: keeps_def body_def nth_list_update)
  then have "keeps ctx (ctx\<lparr>rtes := r\<rparr>)"
    using keeps_trans [OF _ r(3)] keeps_trans [OF _ keeps_rtes [of "ctx\<lparr>rtes := r\<rparr>" "?c\<lparr>rtes := r\<rparr>"]] by simp
  ultimately show ?case
    using step r(1) by (intro exI [of _ r]) (simp add: th(1) x cc)
qed

lemma map_of_inj:
  assumes "inj f"
  shows "map_of (map (\<lambda>(k, v). (f k, g v)) l) (f x) = map_option g (map_of l x)"
    "y \<notin> range f \<Longrightarrow> map_of (map (\<lambda>(k, v). (f k, g v)) l) y = None"
  using assms by (induction l) (auto dest: injD)

lemma clone_me_ok:
  assumes inv: "rt_inv ctx" and s: "the_rt ctx s = Some srt" and n: "the_rt ctx n = Some rt"
  obtains h where "rt_clone_space (Some s) (Some n) 2 ctx = Some (n, set_rt n (Some (rt\<lparr>rt_hash := h\<rparr>)) ctx)"
    "rt_inv (set_rt n (Some (rt\<lparr>rt_hash := h\<rparr>)) ctx)" "hash_ok h"
    "\<And>k. sym_lookup h (NumKey k) = sym_lookup (rt_hash rt) (NumKey k)"
    "\<And>nm c. sym_lookup h (StrKey nm c) = (case sym_lookup (rt_hash srt) (StrKey nm c) of
        Some v \<Rightarrow> Some v | None \<Rightarrow> sym_lookup (rt_hash rt) (StrKey nm c))"
proof -
  note hs = rt_invD(1) [OF inv s] and hn = rt_invD(1) [OF inv n]
  obtain l where l: "tl_things (rmr_sym_foreach_class (rt_hash srt) 2 collect_things \<lparr>tl_nalloc = 2048, tl_things = []\<rparr>) =
      map (\<lambda>(nm, p). (Some nm, EpRef p)) l"
    "distinct (map fst l)" "\<And>nm p. (nm, p) \<in> set l \<longleftrightarrow> sym_lookup (rt_hash srt) (StrKey nm 2) = Some (EpRef p)"
    using collect_me [OF hs] by blast
  let ?ps = "map (\<lambda>(nm, p). (StrKey nm 2, Some (EpRef p))) l"
  define h where "h = fold (\<lambda>(k, v) t. snd (putin True t k v)) ?ps (rt_hash rt)"
  have i: "inj (\<lambda>nm. StrKey nm 2)" by (simp add: inj_def)
  have "map fst ?ps = map (\<lambda>nm. StrKey nm 2) (map fst l)" by auto
  then have d: "distinct (map fst ?ps)" using l(2) i by (simp only: distinct_map) (metis inj_on_subset subset_UNIV)
  have e: "\<forall>(k, v)\<in>set ?ps. ent_ok k v" by auto
  note p = hash_ok_put_all [OF hn e d, folded h_def]
  note mo = map_of_inj [OF i, where g = "\<lambda>p. Some (EpRef p)" and l = l]
  have num: "sym_lookup h (NumKey k) = sym_lookup (rt_hash rt) (NumKey k)" for k
    by (simp add: p(2) mo(2) image_iff)
  have str: "sym_lookup h (StrKey nm c) = (case sym_lookup (rt_hash srt) (StrKey nm c) of
        Some v \<Rightarrow> Some v | None \<Rightarrow> sym_lookup (rt_hash rt) (StrKey nm c))" for nm c
  proof (cases "sym_lookup (rt_hash srt) (StrKey nm c)")
    case None
    have "map_of ?ps (StrKey nm c) = None"
    proof (cases "c = 2")
      case True
      have "map_of l nm = None" using None l(3) True by (auto simp: map_of_eq_None_iff)
      then show ?thesis using mo(1) [of nm] True by simp
    qed (rule mo(2), auto)
    then show ?thesis by (simp add: p(2) None)
  next
    case (Some v)
    then obtain q where q: "c = 2" "v = EpRef q" using hash_okD(2) [OF hs Some] by auto
    then have "map_of l nm = Some q" using l Some by simp
    then show ?thesis using mo(1) [of nm] q Some by (simp add: p(2))
  qed
  have "rt_clone_space (Some s) (Some n) 2 ctx = Some (n, set_rt n (Some (rt\<lparr>rt_hash := h\<rparr>)) ctx)"
    by (simp add: rt_clone_space_def s l(1) clone_me_list [OF n] h_def)
  moreover have "rt_inv (set_rt n (Some (rt\<lparr>rt_hash := h\<rparr>)) ctx)"
    by (rule rt_inv_set_same [OF inv n]) (simp_all add: p(1) num)
  ultimately show thesis using that p(1) num str by blast
qed

lemma clone_rte_ok:
  assumes inv: "rt_inv ctx" and s: "the_rt ctx s = Some srt" and n: "the_rt ctx n = Some rt"
    and empty: "\<And>k. sym_lookup (rt_hash rt) (NumKey k) = None"
  obtains h r where "rt_clone_space (Some s) (Some n) 0 ctx = Some (n, set_rt n (Some (rt\<lparr>rt_hash := h\<rparr>)) (ctx\<lparr>rtes := r\<rparr>))"
    "rt_inv (set_rt n (Some (rt\<lparr>rt_hash := h\<rparr>)) (ctx\<lparr>rtes := r\<rparr>))" "keeps ctx (ctx\<lparr>rtes := r\<rparr>)" "hash_ok h"
    "\<And>k. sym_lookup h (NumKey k) = sym_lookup (rt_hash srt) (NumKey k)"
    "\<And>nm c. sym_lookup h (StrKey nm c) = sym_lookup (rt_hash rt) (StrKey nm c)"
proof -
  note hs = rt_invD(1) [OF inv s] and hn = rt_invD(1) [OF inv n]
  let ?l = "rte_list (rt_hash srt)"
  note l = rte_list [OF hs]
  let ?ps = "map (\<lambda>(k, i). (NumKey k, Some (RteRef i))) ?l"
  define h where "h = fold (\<lambda>(k, v) t. snd (putin True t k v)) ?ps (rt_hash rt)"
  have i: "inj NumKey" by (simp add: inj_def)
  have "map fst ?ps = map NumKey (map fst ?l)" by auto
  then have d: "distinct (map fst ?ps)" using l(1) i by (simp only: distinct_map) (metis inj_on_subset subset_UNIV)
  have e: "\<forall>(k, v)\<in>set ?ps. ent_ok k v" using l(2) hash_okD(2) [OF hs] by fastforce
  note p = hash_ok_put_all [OF hn e d, folded h_def]
  note mo = map_of_inj [OF i, where g = "\<lambda>i. Some (RteRef i)" and l = ?l]
  have str: "sym_lookup h (StrKey nm c) = sym_lookup (rt_hash rt) (StrKey nm c)" for nm c
    by (simp add: p(2) mo(2) image_iff)
  have num: "sym_lookup h (NumKey k) = sym_lookup (rt_hash srt) (NumKey k)" for k
  proof (cases "sym_lookup (rt_hash srt) (NumKey k)")
    case None
    then have "map_of ?l k = None" using l(2) by (auto simp: map_of_eq_None_iff)
    then show ?thesis using mo(1) [of k] None empty by (simp add: p(2))
  next
    case (Some v)
    then obtain j where "v = RteRef j" using hash_okD(2) [OF hs Some] by auto
    moreover from this have "map_of ?l k = Some j" using l Some by simp
    ultimately show ?thesis using mo(1) [of k] Some by (simp add: p(2))
  qed
  have live: "\<exists>c. kr ctx j = Some (k, c)" if "(k, j) \<in> set ?l" for k j
    using rt_invD(3) [OF inv s] that l(2) by (auto simp: kr_the_rte)
  have "inj_on snd (set ?l)"
  proof (rule inj_onI)
    fix x y assume "x \<in> set ?l" "y \<in> set ?l" "snd x = snd y"
    moreover from this have "\<exists>n. kr ctx (snd x) = Some (fst x, n)" "\<exists>n. kr ctx (snd y) = Some (fst y, n)"
      using live by (metis prod.collapse)+
    ultimately show "x = y" by (auto intro: prod_eqI)
  qed
  moreover have "distinct ?l" using l(1) by (simp add: distinct_map)
  ultimately have ds: "distinct (map snd ?l)" by (simp add: distinct_map)
  obtain r where r: "clone_things n 0 (tl_things (rmr_sym_foreach_class (rt_hash srt) 0 collect_things \<lparr>tl_nalloc = 2048, tl_things = []\<rparr>)) ctx
      = Some (set_rt n (Some (rt\<lparr>rt_hash := h\<rparr>)) (ctx\<lparr>rtes := r\<rparr>))"
    "kr (ctx\<lparr>rtes := r\<rparr>) = (\<lambda>i. if i \<in> snd ` set ?l then inc_ref (kr ctx i) else kr ctx i)" "keeps ctx (ctx\<lparr>rtes := r\<rparr>)"
    using clone_rte_list [OF n ds _ collect_rte [OF hs]] live unfolding h_def by blast
  have code: "rt_clone_space (Some s) (Some n) 0 ctx = Some (n, set_rt n (Some (rt\<lparr>rt_hash := h\<rparr>)) (ctx\<lparr>rtes := r\<rparr>))"
    by (simp add: rt_clone_space_def s r(1))
  let ?c = "ctx\<lparr>rtes := r\<rparr>" and ?m = "\<lambda>k. sym_lookup (rt_hash srt) (NumKey k)"
  let ?s = "set_rt n (Some (rt\<lparr>rt_hash := h\<rparr>)) ?c"
  have tab: "the_rt ?c = the_rt ctx" "tmap ?c = tmap ctx" by (rule tabs_cong; simp)+
  have tn: "tmap ctx n k = None" "tmap ctx s = ?m" for k by (simp_all add: tmap_the_rt n empty s fun_eq_iff)
  have "tmap ?s = (tmap ctx)(n := ?m)" using n by (subst tmap_set) (auto simp: tab fun_eq_iff num)
  moreover have kr: "kr ?s = (\<lambda>i. if refd ?m i then inc_ref (kr ctx i) else kr ctx i)"
  proof -
    have "kr ?s = kr ?c" by (rule rtes_cong) simp
    moreover have "i \<in> snd ` set ?l \<longleftrightarrow> refd ?m i" for i using l(2) by (force simp: refd_def)
    ultimately show ?thesis by (simp add: r(2))
  qed
  moreover have "refs_ok ((tmap ctx)(n := ?m)) (kr ?s)"
    using live l(2) refs_okD(4) [OF rt_invD(2) [OF inv], of s _ _ s] tn
    by (intro refs_ok_gain [OF rt_invD(2) [OF inv]]) (auto simp: kr refd_def)
  moreover have "hash_ok (rt_hash rt')" if "the_rt ?s u = Some rt'" for u rt'
    using that n p(1) rt_invD(1) [OF inv] by (auto simp: the_rt_set tab split: if_splits)
  ultimately have "rt_inv ?s" by (simp add: rt_inv_def)
  with code r(3) p(1) num str show thesis using that by blast
qed

end
