(* ===== verification/ParserInv.thy ===== *)
theory ParserInv
  imports RouteInv
begin

text \<open>
  The records of the route manager and the invariant: every record keeps it, works on the table under
  construction only, and publishes that table in one step. The active table, and a drained table that
  is still being read, stay as they are with all their entries.
\<close>

subsection \<open>Work on one table\<close>

text \<open>
  From \<open>ctx\<close> to \<open>ctx'\<close> only table \<open>t\<close> was worked on, which kept its readers and its error mark; entries
  were added or freed, never changed.
\<close>

definition builds :: "nat \<Rightarrow> uta_ctx \<Rightarrow> uta_ctx \<Rightarrow> bool" where
  "builds t ctx ctx' =
     (rt_inv ctx' \<and> keeps ctx ctx' \<and> (\<forall>u. u \<noteq> t \<longrightarrow> the_rt ctx' u = the_rt ctx u) \<and>
      (\<exists>rt rt'. the_rt ctx t = Some rt \<and> the_rt ctx' t = Some rt' \<and> rt_count rt' = rt_count rt \<and> rt_error rt' = rt_error rt) \<and>
      rtable ctx' = rtable ctx \<and> old_rtable ctx' = old_rtable ctx \<and> new_rtable ctx' = new_rtable ctx)"

lemma builds_refl: "rt_inv ctx \<Longrightarrow> the_rt ctx t \<noteq> None \<Longrightarrow> builds t ctx ctx"
  by (auto simp: builds_def)

lemma builds_trans: "builds t a b \<Longrightarrow> builds t b c \<Longrightarrow> builds t a c"
  unfolding builds_def by (elim conjE exE, intro conjI) (auto elim: keeps_trans)

lemma builds_live: "builds t ctx ctx' \<Longrightarrow> rt_inv ctx' \<and> (\<exists>rt. the_rt ctx' t = Some rt) \<and> new_rtable ctx' = new_rtable ctx"
  by (auto simp: builds_def)

text \<open>One table is replaced, and the entries change within \<open>keeps\<close>.\<close>

lemma builds_set:
  assumes "the_rt ctx t = Some rt" "rt_count rt' = rt_count rt" "rt_error rt' = rt_error rt"
    "rt_inv (set_rt t (Some rt') (ctx\<lparr>rtes := r\<rparr>))" "keeps ctx (ctx\<lparr>rtes := r\<rparr>)"
  shows "builds t ctx (set_rt t (Some rt') (ctx\<lparr>rtes := r\<rparr>))"
proof -
  have tab: "the_rt (ctx\<lparr>rtes := r\<rparr>) = the_rt ctx" by (rule tabs_cong) simp
  then show ?thesis using assms keeps_set_rt [OF assms(5)] by (simp add: builds_def the_rt_set)
qed

lemma builds_same_tab:
  assumes "rt_inv ctx" "the_rt ctx t = Some rt" "hash_ok (rt_hash rt')" "rt_count rt' = rt_count rt" "rt_error rt' = rt_error rt"
    "\<And>k. sym_lookup (rt_hash rt') (NumKey k) = sym_lookup (rt_hash rt) (NumKey k)"
  shows "builds t ctx (set_rt t (Some rt') ctx)"
  using builds_set [OF assms(2,4,5), of "rtes ctx"] rt_inv_set_same [OF assms(1,2,3,6)] by simp

text \<open>Endpoints are not the business of the invariant.\<close>

lemma the_frame:
  "the_rt (ctx\<lparr>eps := a, ephash := b\<rparr>) = the_rt ctx" "the_rte (ctx\<lparr>eps := a, ephash := b\<rparr>) = the_rte ctx"
  "the_rt (ctx\<lparr>rtes := r\<rparr>) = the_rt ctx"
  by (simp_all add: the_rt_def the_rte_def fun_eq_iff)

lemma rt_ensure_ep_frame: "\<exists>a b. snd (rt_ensure_ep resolve nm ctx) = ctx\<lparr>eps := a, ephash := b\<rparr>"
proof -
  have "\<exists>a b. ctx = ctx\<lparr>eps := a, ephash := b\<rparr>" by (rule exI [of _ "eps ctx"], rule exI [of _ "ephash ctx"]) simp
  moreover have "\<exists>a b. ctx\<lparr>ephash := h\<rparr> = ctx\<lparr>eps := a, ephash := b\<rparr>" for h
    by (rule exI [of _ "eps ctx"], rule exI [of _ h]) simp
  moreover have "\<exists>c d. ctx\<lparr>ephash := h, eps := a, ephash := b\<rparr> = ctx\<lparr>eps := c, ephash := d\<rparr>" for a b h
    by (rule exI [of _ a], rule exI [of _ b]) simp
  ultimately show ?thesis
    by (auto simp: rt_ensure_ep_def uta_get_ep_def split: option.split prod.split)
qed

lemma uta_add_ep_frame:
  assumes "the_rte ctx i = Some e"
  shows "\<exists>v a b gs. uta_add_ep resolve i nm g ctx =
    Some (v, ctx\<lparr>eps := a, ephash := b, rtes := (rtes ctx)[i := Some (e\<lparr>rrgroups := gs\<rparr>)]\<rparr>)"
proof (cases "int (length (rrgroups e)) \<le> g \<or> g < 0")
  case True
  have "(rtes ctx)[i := Some e] = rtes ctx"
    using assms by (metis list_update_id option.distinct(1) the_rte_def)
  then show ?thesis using True assms
    by (intro exI [of _ None] exI [of _ "eps ctx"] exI [of _ "ephash ctx"] exI [of _ "rrgroups e"]) (simp add: uta_add_ep_def)
next
  case False
  define rrg where "rrg = (case rrgroups e ! nat g of Some r \<Rightarrow> r | None \<Rightarrow> \<lparr>ep_idx = 0, epts = []\<rparr>)"
  define p where "p r = (rrgroups e)[nat g := Some r]" for r
  let ?c = "ctx\<lparr>rtes := (rtes ctx)[i := Some (e\<lparr>rrgroups := p rrg\<rparr>)]\<rparr>"
  obtain ep c1 where r: "rt_ensure_ep resolve (Some nm) ?c = (ep, c1)" by fastforce
  obtain a b where c1: "c1 = ?c\<lparr>eps := a, ephash := b\<rparr>" using rt_ensure_ep_frame [of resolve "Some nm" ?c] r by auto
  define c where "c p' = ctx\<lparr>eps := a, ephash := b, rtes := (rtes ctx)[i := Some (e\<lparr>rrgroups := p'\<rparr>)]\<rparr>" for p'
  have c: "c1 = c (p rrg)" "c1\<lparr>rtes := (rtes c1)[i := Some (e\<lparr>rrgroups := p'\<rparr>)]\<rparr> = c p'" for p'
    by (simp_all add: c1 c_def)
  have "uta_add_ep resolve i nm g ctx =
      (if length (epts rrg) \<ge> MAX_EP_GROUP then Some (None, c1)
       else Some (ep, c1\<lparr>rtes := (rtes c1)[i := Some (e\<lparr>rrgroups := p (rrg\<lparr>epts := epts rrg @ [ep]\<rparr>)\<rparr>)]\<rparr>))"
    using False assms r by (simp add: uta_add_ep_def Let_def rrg_def [symmetric] p_def [symmetric])
  also have "\<dots> = (if length (epts rrg) \<ge> MAX_EP_GROUP then Some (None, c (p rrg))
       else Some (ep, c (p (rrg\<lparr>epts := epts rrg @ [ep]\<rparr>))))" by (simp only: c(2) c(1) [symmetric])
  finally have "\<exists>v p'. uta_add_ep resolve i nm g ctx = Some (v, c p')" by (metis (full_types))
  then show ?thesis unfolding c_def by blast
qed

text \<open>The groups of a new entry: the entry keeps all but its groups, no other entry changes.\<close>

lemma build_eps_frame:
  assumes "the_rte ctx i = Some e"
  shows "\<exists>v a b gs. build_eps resolve i g toks has_ep ctx =
    Some (v, ctx\<lparr>eps := a, ephash := b, rtes := (rtes ctx)[i := Some (e\<lparr>rrgroups := gs\<rparr>)]\<rparr>)"
  using assms
proof (induction toks arbitrary: has_ep ctx e)
  case Nil
  have "(rtes ctx)[i := Some e] = rtes ctx"
    using Nil by (metis list_update_id option.distinct(1) the_rte_def)
  then show ?case
    by (intro exI [of _ has_ep] exI [of _ "eps ctx"] exI [of _ "ephash ctx"] exI [of _ "rrgroups e"]) simp
next
  case (Cons tok toks)
  show ?case
  proof (cases "tok \<noteq> bytes_str (cstr (my_name ctx))")
    case True
    obtain v a b gs where s: "uta_add_ep resolve i tok g ctx =
        Some (v, ctx\<lparr>eps := a, ephash := b, rtes := (rtes ctx)[i := Some (e\<lparr>rrgroups := gs\<rparr>)]\<rparr>)" (is "_ = Some (v, ?c)")
      using uta_add_ep_frame [OF Cons.prems] by blast
    have "the_rte ?c i = Some (e\<lparr>rrgroups := gs\<rparr>)" using Cons.prems by (auto simp: the_rte_def split: if_splits)
    from Cons.IH [OF this, of True] True s show ?thesis by simp
  qed (use Cons in auto)
qed

lemma build_groups_frame:
  assumes "the_rte ctx i = Some e"
  shows "\<exists>a b gs. build_groups resolve i g toks ctx =
    Some (ctx\<lparr>eps := a, ephash := b, rtes := (rtes ctx)[i := Some (e\<lparr>rrgroups := gs\<rparr>)]\<rparr>)"
  using assms
proof (induction toks arbitrary: g ctx e)
  case Nil
  have "(rtes ctx)[i := Some e] = rtes ctx"
    using Nil by (metis list_update_id option.distinct(1) the_rte_def)
  then show ?case
    by (intro exI [of _ "eps ctx"] exI [of _ "ephash ctx"] exI [of _ "rrgroups e"]) simp
next
  case (Cons tok toks)
  obtain v a b gs where s: "build_eps resolve i g (uta_rmip_tokenise (Some tok) (ip_list ctx) 64 (CHR '','')) False ctx =
      Some (v, ctx\<lparr>eps := a, ephash := b, rtes := (rtes ctx)[i := Some (e\<lparr>rrgroups := gs\<rparr>)]\<rparr>)" (is "_ = Some (v, ?c)")
    using build_eps_frame [OF Cons.prems] by blast
  have "the_rte ?c i = Some (e\<lparr>rrgroups := gs\<rparr>)" using Cons.prems by (auto simp: the_rte_def split: if_splits)
  from Cons.IH [OF this] s show ?case by simp
qed


subsection \<open>Entries\<close>

definition tlook :: "uta_ctx \<Rightarrow> nat \<Rightarrow> sym_key \<Rightarrow> rt_val option" where
  "tlook ctx t k = Option.bind (the_rt ctx t) (\<lambda>rt. sym_lookup (rt_hash rt) k)"

text \<open>Counts and keys of the entries are all the invariant reads of them.\<close>

lemma rt_inv_entry:
  assumes "rt_inv ctx" "the_rte ctx i = Some e" "rte_key e' = rte_key e" "rte_refs e' = rte_refs e"
  shows "rt_inv (ctx\<lparr>eps := a, ephash := b, rtes := (rtes ctx)[i := Some e']\<rparr>)" (is "rt_inv ?c")
proof -
  have "kr ?c = kr ctx" using assms(2-4) by (auto simp: kr_def the_rte_def fun_eq_iff nth_list_update split: if_splits)
  moreover have "tmap ?c = tmap ctx" "the_rt ?c = the_rt ctx" by (rule tabs_cong; simp)+
  ultimately show ?thesis using assms(1) by (simp add: rt_inv_def)
qed

lemma keeps_entry:
  assumes "keeps ctx0 ctx" "length (rtes ctx0) \<le> i"
  shows "keeps ctx0 (ctx\<lparr>eps := a, ephash := b, rtes := (rtes ctx)[i := v]\<rparr>)"
  using assms by (auto simp: keeps_def body_def nth_list_update)

definition adds_entry :: "string \<Rightarrow> string \<Rightarrow> uta_ctx \<Rightarrow> bool" where
  "adds_entry ts rr ctx = (for_me (clip ts) ctx \<and> uta_tokenise (Some (clip rr)) 64 (CHR '';'') \<noteq> [])"

lemma build_entry_ok:
  fixes ts rr :: string and subid :: u32
  defines "key \<equiv> build_rt_key (sint subid) (atoi (clip ts))"
  assumes inv: "rt_inv ctx" and n: "new_rtable ctx = Some t" and rt: "the_rt ctx t = Some rt" and key: "key \<noteq> 0"
  obtains ctx' where "build_entry resolve ts subid rr ctx = Some ctx'" "builds t ctx ctx'"
    "tlook ctx' t = (if adds_entry ts rr ctx then (tlook ctx t)(NumKey key \<mapsto> RteRef (length (rtes ctx))) else tlook ctx t)"
    "adds_entry ts rr ctx \<Longrightarrow> \<exists>e. the_rte ctx' (length (rtes ctx)) = Some e \<and> rte_key e = key \<and> rte_refs e = 1 \<and> rte_mtype e = atoi (clip ts)"
    "my_name ctx' = my_name ctx" "ip_list ctx' = ip_list ctx" "table_id ctx' = table_id ctx"
    "\<exists>h. the_rt ctx' t = Some (rt\<lparr>rt_hash := h\<rparr>)"
proof (cases "adds_entry ts rr ctx")
  case False
  then have "build_entry resolve ts subid rr ctx = Some ctx" by (auto simp: build_entry_def adds_entry_def Let_def)
  moreover have "\<exists>h. the_rt ctx t = Some (rt\<lparr>rt_hash := h\<rparr>)" using rt by (intro exI [of _ "rt_hash rt"]) simp
  ultimately show thesis using that builds_refl [OF inv] rt False by simp
next
  case True
  let ?i = "length (rtes ctx)"
  let ?g0 = "uta_tokenise (Some (clip rr)) 64 (CHR '';'')"
  define g where "g = (if hd ?g0 = ''%meid'' then [] else ?g0)"
  define e where "e = \<lparr>rte_key = key, rte_refs = 1, rte_mtype = 0, rrgroups = replicate (nat (if int (length g) < 0 then 10 else int (length g))) None\<rparr>"
  obtain h r where a: "uta_add_rte t key (int (length g)) ctx = Some (?i, set_rt t (Some (rt\<lparr>rt_hash := h\<rparr>)) (ctx\<lparr>rtes := r @ [Some e]\<rparr>))"
    "rt_inv (set_rt t (Some (rt\<lparr>rt_hash := h\<rparr>)) (ctx\<lparr>rtes := r @ [Some e]\<rparr>))" "keeps ctx (ctx\<lparr>rtes := r @ [Some e]\<rparr>)" "length r = ?i"
    "sym_lookup h = (sym_lookup (rt_hash rt))(NumKey key \<mapsto> RteRef ?i)"
    using uta_add_rte_ok [OF inv rt key, of "int (length g)"] unfolding e_def by blast
  let ?c = "set_rt t (Some (rt\<lparr>rt_hash := h\<rparr>)) (ctx\<lparr>rtes := r @ [Some e]\<rparr>)"
  let ?e = "e\<lparr>rte_mtype := atoi (clip ts)\<rparr>"
  let ?c1 = "?c\<lparr>rtes := (rtes ?c)[?i := Some ?e]\<rparr>"
  have e: "the_rte ?c ?i = Some e" "the_rte ?c1 ?i = Some ?e" by (simp_all add: the_rte_def a(4) nth_append)
  obtain p q gs where b: "build_groups resolve ?i 0 g ?c1 = Some (?c1\<lparr>eps := p, ephash := q, rtes := (rtes ?c1)[?i := Some (?e\<lparr>rrgroups := gs\<rparr>)]\<rparr>)"
    using build_groups_frame [OF e(2)] by blast
  let ?e2 = "?e\<lparr>rrgroups := gs\<rparr>"
  let ?c2 = "?c\<lparr>eps := p, ephash := q, rtes := (rtes ?c)[?i := Some ?e2]\<rparr>"
  have c2: "?c1\<lparr>eps := p, ephash := q, rtes := (rtes ?c1)[?i := Some ?e2]\<rparr> = ?c2" by simp
  have "build_entry resolve ts subid rr ctx = Some ?c2"
    using True a(1) e b n unfolding c2 by (simp add: build_entry_def adds_entry_def key_def [symmetric] g_def Let_def)
  moreover have "builds t ctx ?c2"
  proof -
    have "rt_inv ?c2" by (rule rt_inv_entry [OF a(2) e(1)]) simp_all
    moreover have "keeps ctx ?c2" by (rule keeps_entry [OF keeps_set_rt [OF a(3)]]) simp
    moreover have "the_rt ?c2 = the_rt ?c" by (rule tabs_cong) simp
    ultimately show ?thesis using builds_set [OF rt _ _ a(2,3)] by (simp add: builds_def)
  qed
  moreover have rh: "the_rt ?c2 t = Some (rt\<lparr>rt_hash := h\<rparr>)" using rt by (auto simp: the_rt_def split: if_splits)
  then have "tlook ?c2 t = (tlook ctx t)(NumKey key \<mapsto> RteRef ?i)" by (simp add: tlook_def rt a(5) fun_eq_iff)
  moreover have "the_rte ?c2 ?i = Some ?e2" by (simp add: the_rte_def a(4))
  then have "\<exists>e. the_rte ?c2 ?i = Some e \<and> rte_key e = key \<and> rte_refs e = 1 \<and> rte_mtype e = atoi (clip ts)"
    by (simp add: e_def)
  moreover have "\<exists>h. the_rt ?c2 t = Some (rt\<lparr>rt_hash := h\<rparr>)" using rh by blast
  ultimately show thesis using True that [of ?c2] by (simp add: set_rt_def)
qed

lemma trash_entry_ok:
  fixes ts :: string and subid :: u32
  defines "key \<equiv> build_rt_key (sint subid) (atoi (clip ts))"
  assumes inv: "rt_inv ctx" and n: "new_rtable ctx = Some t" and rt: "the_rt ctx t = Some rt" and key: "key \<noteq> 0"
  obtains ctx' where "trash_entry ts subid ctx = Some ctx'" "builds t ctx ctx'"
    "tlook ctx' t = (if for_me (clip ts) ctx then (tlook ctx t)(NumKey key := None) else tlook ctx t)"
    "my_name ctx' = my_name ctx" "ip_list ctx' = ip_list ctx"
proof (cases "for_me (clip ts) ctx")
  case False
  then have "trash_entry ts subid ctx = Some ctx" by (simp add: trash_entry_def n Let_def)
  with that builds_refl [OF inv] rt False show thesis by simp
next
  case True
  note pk = num_key_plain [OF key] and hok = rt_invD(1) [OF inv rt]
  obtain v h where p: "rmr_sym_pull (rt_hash rt) key = (v, h)" by fastforce
  have h: "hash_ok h" "v = sym_lookup (rt_hash rt) (NumKey key)" "sym_lookup h = sym_lookup (rt_hash rt)"
    using hash_ok_get [OF hok pk] p by (simp_all add: rmr_sym_pull_def)
  show thesis
  proof (cases v)
    case None
    let ?c = "set_rt t (Some (rt\<lparr>rt_hash := h\<rparr>)) ctx"
    have "trash_entry ts subid ctx = Some ?c"
      using True p None rt by (simp add: trash_entry_def n Let_def key_def [symmetric] set_hash_set_rt)
    moreover have "builds t ctx ?c" using h by (intro builds_same_tab [OF inv rt]) auto
    moreover have "tlook ?c t = (tlook ctx t)(NumKey key := None)"
      using rt h None by (simp add: tlook_def the_rt_set fun_eq_iff)
    ultimately show thesis using True that by (simp add: set_rt_def)
  next
    case (Some w)
    then obtain j where j: "sym_lookup (rt_hash rt) (NumKey key) = Some (RteRef j)" "v = Some (RteRef j)"
      using hash_okD(2) [OF hok, of "NumKey key"] h(2) by auto
    let ?h = "rmr_sym_del h (NumKey key)"
    note d = hash_ok_del [OF h(1) pk]
    obtain r where r: "del_rte (Some (RteRef j)) ctx = Some (ctx\<lparr>rtes := r\<rparr>)"
      "rt_inv (set_rt t (Some (rt\<lparr>rt_hash := ?h\<rparr>)) (ctx\<lparr>rtes := r\<rparr>))" "keeps ctx (ctx\<lparr>rtes := r\<rparr>)"
      using d h(3) j(1) by (auto intro: rt_inv_remove [OF inv rt d(1), of key j])
    let ?c = "set_rt t (Some (rt\<lparr>rt_hash := ?h\<rparr>)) (ctx\<lparr>rtes := r\<rparr>)"
    have "trash_entry ts subid ctx = Some ?c"
      using True p j r(1) rt
      by (simp add: trash_entry_def n Let_def key_def [symmetric] set_hash_set_rt rmr_sym_ndel_def del_rte_set_rt)
    moreover have "builds t ctx ?c" by (rule builds_set [OF rt _ _ r(2,3)]) simp_all
    moreover have "tlook ?c t = (tlook ctx t)(NumKey key := None)"
      using rt h d(2) by (simp add: tlook_def the_rt_set the_frame fun_eq_iff)
    ultimately show thesis using True that by (simp add: set_rt_def)
  qed
qed


subsection \<open>Managed elements\<close>

lemma str_key_plain: "plain_key (StrKey nm RT_ME_SPACE)"
  by (simp add: plain_key_def valid_key_def)

lemma rt_inv_frame: "rt_inv ctx \<Longrightarrow> rt_inv (ctx\<lparr>eps := a, ephash := b\<rparr>)"
  using rt_inv_cong [of "ctx\<lparr>eps := a, ephash := b\<rparr>" ctx] by simp

lemma builds_frame: "rt_inv ctx \<Longrightarrow> the_rt ctx t \<noteq> None \<Longrightarrow> builds t ctx (ctx\<lparr>eps := a, ephash := b\<rparr>)"
  using rt_inv_frame [where a = a and b = b and ctx = ctx] keeps_rtes [of "ctx\<lparr>eps := a, ephash := b\<rparr>" ctx] by (auto simp: builds_def the_frame)

lemma meid_put_all_ok:
  assumes "rt_inv ctx" "the_rt ctx t = Some rt"
  shows "\<exists>ctx'. meid_put_all resolve t owner toks ctx = Some ctx' \<and> builds t ctx ctx' \<and>
    (\<forall>k. tlook ctx' t (NumKey k) = tlook ctx t (NumKey k)) \<and>
    (\<forall>nm. nm \<notin> set toks \<longrightarrow> tlook ctx' t (StrKey nm RT_ME_SPACE) = tlook ctx t (StrKey nm RT_ME_SPACE))"
  using assms
proof (induction toks arbitrary: ctx rt)
  case Nil
  then show ?case by (simp add: builds_refl)
next
  case (Cons tok toks)
  obtain ep c where r: "rt_ensure_ep resolve (Some owner) ctx = (ep, c)" by fastforce
  obtain a b where c: "c = ctx\<lparr>eps := a, ephash := b\<rparr>" using rt_ensure_ep_frame [of resolve "Some owner" ctx] r by auto
  have cinv: "rt_inv c" and crt: "the_rt c t = Some rt" and cb: "builds t ctx c"
    using Cons.prems by (simp_all add: c rt_inv_frame the_frame builds_frame)
  have tl: "tlook c t = tlook ctx t" by (simp add: tlook_def fun_eq_iff the_frame c)
  show ?case
  proof (cases ep)
    case None
    from Cons.IH [OF cinv crt] r None show ?thesis by (auto simp: tl intro: builds_trans [OF cb])
  next
    case (Some e)
    let ?h = "snd (putin True (rt_hash rt) (StrKey tok RT_ME_SPACE) (Some (EpRef e)))"
    let ?c = "set_rt t (Some (rt\<lparr>rt_hash := ?h\<rparr>)) c"
    have "ent_ok (StrKey tok RT_ME_SPACE) (Some (EpRef e))" by simp
    note p = hash_ok_put [OF rt_invD(1) [OF cinv crt] this]
    have b: "builds t c ?c" using p by (intro builds_same_tab [OF cinv crt]) auto
    have "the_rt ?c t = Some (rt\<lparr>rt_hash := ?h\<rparr>)" using crt by (simp add: the_rt_set)
    from Cons.IH [OF _ this] builds_live [OF b] obtain ctx' where
      i: "meid_put_all resolve t owner toks ?c = Some ctx'" "builds t ?c ctx'"
      "\<forall>k. tlook ctx' t (NumKey k) = tlook ?c t (NumKey k)"
      "\<forall>nm. nm \<notin> set toks \<longrightarrow> tlook ctx' t (StrKey nm RT_ME_SPACE) = tlook ?c t (StrKey nm RT_ME_SPACE)" by blast
    have "tlook ?c t = (tlook ctx t)(StrKey tok RT_ME_SPACE \<mapsto> EpRef e)"
      using crt Cons.prems(2) p(2) by (simp add: tlook_def the_rt_set fun_eq_iff)
    moreover have "meid_put_all resolve t owner (tok # toks) ctx = Some ctx'"
      using r Some crt i(1) by (simp add: set_hash_set_rt rmr_sym_put_def)
    ultimately show ?thesis using i(2-4) builds_trans [OF builds_trans [OF cb b]] by auto
  qed
qed

lemma parse_meid_ar_ok:
  assumes "rt_inv ctx" "the_rt ctx t = Some rt"
  obtains ctx' where "parse_meid_ar resolve t owner l ctx = Some ctx'" "builds t ctx ctx'"
    "\<And>k. tlook ctx' t (NumKey k) = tlook ctx t (NumKey k)"
  using meid_put_all_ok [OF assms] that unfolding parse_meid_ar_def by blast

lemma del_all_ok:
  assumes "hash_ok h"
  shows "hash_ok (fold (\<lambda>tok h. rmr_sym_del h (StrKey tok RT_ME_SPACE)) toks h) \<and>
    sym_lookup (fold (\<lambda>tok h. rmr_sym_del h (StrKey tok RT_ME_SPACE)) toks h) =
      (\<lambda>k. if k \<in> (\<lambda>tok. StrKey tok RT_ME_SPACE) ` set toks then None else sym_lookup h k)"
  using assms by (induction toks arbitrary: h) (auto simp: hash_ok_del str_key_plain fun_eq_iff)

lemma parse_meid_del_ok:
  assumes inv: "rt_inv ctx" and rt: "the_rt ctx t = Some rt"
  obtains ctx' where "parse_meid_del t l ctx = Some ctx'" "builds t ctx ctx'"
    "tlook ctx' t = (\<lambda>k. if k \<in> (\<lambda>tok. StrKey tok RT_ME_SPACE) ` set (uta_tokenise (Some (clip l)) 128 (CHR '' '')) then None
       else tlook ctx t k)"
proof -
  define toks where "toks = uta_tokenise (Some (clip l)) 128 (CHR '' '')"
  let ?h = "fold (\<lambda>tok h. rmr_sym_del h (StrKey tok RT_ME_SPACE)) toks (rt_hash rt)"
  let ?c = "set_rt t (Some (rt\<lparr>rt_hash := ?h\<rparr>)) ctx"
  note d = del_all_ok [OF rt_invD(1) [OF inv rt], of toks]
  have "builds t ctx ?c" using d by (intro builds_same_tab [OF inv rt]) auto
  moreover have "parse_meid_del t l ctx = Some ?c" by (simp add: parse_meid_del_def rt set_hash_set_rt toks_def)
  moreover have "tlook ?c t = (\<lambda>k. if k \<in> (\<lambda>tok. StrKey tok RT_ME_SPACE) ` set toks then None else tlook ctx t k)"
    using d rt by (simp add: tlook_def the_rt_set fun_eq_iff)
  ultimately show thesis using that unfolding toks_def by blast
qed

lemma upd_new_rt_ok:
  assumes inv: "rt_inv ctx" and n: "new_rtable ctx = Some t" and rt: "the_rt ctx t = Some rt"
    and f: "rt_hash (f rt) = rt_hash rt" "rt_count (f rt) = rt_count rt" "rt_error (f rt) = rt_error rt"
  obtains ctx' where "upd_new_rt f ctx = Some ctx'" "ctx' = set_rt t (Some (f rt)) ctx" "builds t ctx ctx'" "tlook ctx' t = tlook ctx t"
proof -
  have "builds t ctx (set_rt t (Some (f rt)) ctx)"
    using f rt_invD(1) [OF inv rt] by (intro builds_same_tab [OF inv rt]) auto
  moreover have "tlook (set_rt t (Some (f rt)) ctx) t = tlook ctx t" using rt f by (simp add: tlook_def the_rt_set fun_eq_iff)
  ultimately show thesis using that by (simp add: upd_new_rt_def n rt)
qed


subsection \<open>Preparing a table\<close>

lemma uta_rt_init_ok:
  assumes inv: "rt_inv ctx"
  shows "rt_inv (ctx\<lparr>tabs := tabs ctx @ [Some empty_rt]\<rparr>)" (is "rt_inv ?c")
    "the_rt (ctx\<lparr>tabs := tabs ctx @ [Some empty_rt]\<rparr>) u = (if u = length (tabs ctx) then Some empty_rt else the_rt ctx u)"
proof -
  show t: "the_rt ?c u = (if u = length (tabs ctx) then Some empty_rt else the_rt ctx u)" for u
    by (auto simp: the_rt_def nth_append)
  have "tmap ?c u k = tmap ctx u k" for u k
    unfolding tmap_the_rt t by (auto simp: empty_rt_def hash_ok_empty(2) the_rt_def)
  then have "tmap ?c = tmap ctx" by (simp add: fun_eq_iff)
  moreover have "kr ?c = kr ctx" by (rule rtes_cong) simp
  moreover have "hash_ok (rt_hash rt)" if "the_rt ?c u = Some rt" for u rt
    using that rt_invD(1) [OF inv] unfolding t by (auto simp: empty_rt_def hash_ok_empty(1) split: if_splits)
  ultimately show "rt_inv ?c" using rt_invD(2) [OF inv] by (simp add: rt_inv_def)
qed

lemma keeps_cong: "rtes a = rtes a' \<Longrightarrow> rtes b = rtes b' \<Longrightarrow> keeps a b = keeps a' b'"
  by (simp add: keeps_def body_def)

text \<open>What a fresh table starts with: the managed elements of the active one, and its entries if asked for.\<close>

fun seeded :: "bool \<Rightarrow> (sym_key \<Rightarrow> rt_val option) \<Rightarrow> sym_key \<Rightarrow> rt_val option" where
  "seeded all l (NumKey k) = (if all then l (NumKey k) else None)"
| "seeded all l (StrKey nm c) = l (StrKey nm c)"

lemma uta_rt_clone_ok:
  assumes inv: "rt_inv ctx" and n: "the_rt ctx n = Some rt" and empty: "\<And>k. sym_lookup (rt_hash rt) k = None"
    and s: "\<And>a. srt = Some a \<Longrightarrow> a \<noteq> n \<and> the_rt ctx a \<noteq> None"
  obtains h r where "uta_rt_clone srt (Some n) all ctx = Some (n, set_rt n (Some (rt\<lparr>rt_hash := h\<rparr>)) (ctx\<lparr>rtes := r\<rparr>))"
    "rt_inv (set_rt n (Some (rt\<lparr>rt_hash := h\<rparr>)) (ctx\<lparr>rtes := r\<rparr>))" "keeps ctx (ctx\<lparr>rtes := r\<rparr>)"
    "sym_lookup h = (case srt of None \<Rightarrow> \<lambda>k. None | Some a \<Rightarrow> seeded all (tlook ctx a))"
proof (cases srt)
  case None
  have "uta_rt_clone srt (Some n) all ctx = Some (n, set_rt n (Some (rt\<lparr>rt_hash := rt_hash rt\<rparr>)) (ctx\<lparr>rtes := rtes ctx\<rparr>))"
    using None n by (simp add: uta_rt_clone_def set_rt_same)
  then show thesis using that [of "rt_hash rt" "rtes ctx"] inv n None empty by (simp add: set_rt_same fun_eq_iff)
next
  case (Some a)
  obtain srt' where a: "a \<noteq> n" "the_rt ctx a = Some srt'" using s [OF Some] by auto
  obtain h1 where h1: "rt_clone_space (Some a) (Some n) 2 ctx = Some (n, set_rt n (Some (rt\<lparr>rt_hash := h1\<rparr>)) ctx)"
    "rt_inv (set_rt n (Some (rt\<lparr>rt_hash := h1\<rparr>)) ctx)" "hash_ok h1"
    "\<And>k. sym_lookup h1 (NumKey k) = sym_lookup (rt_hash rt) (NumKey k)"
    "\<And>nm c. sym_lookup h1 (StrKey nm c) = (case sym_lookup (rt_hash srt') (StrKey nm c) of
        Some v \<Rightarrow> Some v | None \<Rightarrow> sym_lookup (rt_hash rt) (StrKey nm c))"
    using clone_me_ok [OF inv a(2) n] by blast
  have str: "sym_lookup h1 (StrKey nm c) = sym_lookup (rt_hash srt') (StrKey nm c)" for nm c
    by (simp add: h1(5) empty split: option.split)
  let ?c1 = "set_rt n (Some (rt\<lparr>rt_hash := h1\<rparr>)) ctx"
  show thesis
  proof (cases all)
    case False
    have "sym_lookup h1 = seeded all (tlook ctx a)" (is "?l = ?r")
    proof
      show "?l k = ?r k" for k using False a by (cases k) (simp_all add: h1(4) empty str tlook_def)
    qed
    then show thesis using that [of h1 "rtes ctx"] h1 False Some by (simp add: uta_rt_clone_def)
  next
    case True
    have t: "the_rt ?c1 a = Some srt'" "the_rt ?c1 n = Some (rt\<lparr>rt_hash := h1\<rparr>)" using a n by (simp_all add: the_rt_set)
    have e: "sym_lookup (rt_hash (rt\<lparr>rt_hash := h1\<rparr>)) (NumKey k) = None" for k by (simp add: h1(4) empty)
    obtain h r where h: "rt_clone_space (Some a) (Some n) 0 ?c1 = Some (n, set_rt n (Some ((rt\<lparr>rt_hash := h1\<rparr>)\<lparr>rt_hash := h\<rparr>)) (?c1\<lparr>rtes := r\<rparr>))"
      "rt_inv (set_rt n (Some ((rt\<lparr>rt_hash := h1\<rparr>)\<lparr>rt_hash := h\<rparr>)) (?c1\<lparr>rtes := r\<rparr>))" "keeps ?c1 (?c1\<lparr>rtes := r\<rparr>)" "hash_ok h"
      "\<And>k. sym_lookup h (NumKey k) = sym_lookup (rt_hash srt') (NumKey k)"
      "\<And>nm c. sym_lookup h (StrKey nm c) = sym_lookup (rt_hash (rt\<lparr>rt_hash := h1\<rparr>)) (StrKey nm c)"
      by (rule clone_rte_ok [OF h1(2) t e]; rule that)
    have c: "set_rt n (Some ((rt\<lparr>rt_hash := h1\<rparr>)\<lparr>rt_hash := h\<rparr>)) (?c1\<lparr>rtes := r\<rparr>) = set_rt n (Some (rt\<lparr>rt_hash := h\<rparr>)) (ctx\<lparr>rtes := r\<rparr>)"
      by (simp add: set_rt_def)
    have "keeps ctx (ctx\<lparr>rtes := r\<rparr>)" by (rule keeps_cong [THEN iffD1, OF _ _ h(3)]) simp_all
    moreover have "sym_lookup h = seeded all (tlook ctx a)" (is "?l = ?r")
    proof
      show "?l k = ?r k" for k using True a by (cases k) (simp_all add: h(5,6) str tlook_def)
    qed
    ultimately show thesis
      using that [of h r] h(1,2) h1(1) True Some unfolding c by (simp add: uta_rt_clone_def)
  qed
qed

text \<open>
  The invariant of the tables: beside \<open>rt_inv\<close>, the live tables are exactly the active one, the one
  under construction and the one that drains, these are different tables, there is no drained
  table while one is under construction, and nobody reads a table under construction.
\<close>

definition tabs_inv :: "uta_ctx \<Rightarrow> bool" where
  "tabs_inv ctx =
     (rt_inv ctx \<and>
      (\<forall>t. the_rt ctx t \<noteq> None \<longleftrightarrow> Some t \<in> {rtable ctx, old_rtable ctx, new_rtable ctx}) \<and>
      (\<forall>t. rtable ctx = Some t \<longrightarrow> old_rtable ctx \<noteq> Some t \<and> new_rtable ctx \<noteq> Some t) \<and>
      (new_rtable ctx \<noteq> None \<longrightarrow> old_rtable ctx = None) \<and>
      (\<forall>t rt. the_rt ctx t = Some rt \<longrightarrow> \<not> rt_error rt \<and> 0 \<le> rt_count rt \<and> (new_rtable ctx = Some t \<longrightarrow> rt_count rt = 0)))"

lemma tabs_invD:
  assumes "tabs_inv ctx"
  shows "rt_inv ctx" "the_rt ctx t \<noteq> None \<longleftrightarrow> Some t \<in> {rtable ctx, old_rtable ctx, new_rtable ctx}"
    "rtable ctx = Some t \<Longrightarrow> old_rtable ctx \<noteq> Some t \<and> new_rtable ctx \<noteq> Some t"
    "new_rtable ctx \<noteq> None \<Longrightarrow> old_rtable ctx = None"
    "the_rt ctx t = Some rt \<Longrightarrow> \<not> rt_error rt \<and> 0 \<le> rt_count rt \<and> (new_rtable ctx = Some t \<longrightarrow> rt_count rt = 0)"
  using assms unfolding tabs_inv_def by blast+

lemma tabs_inv_cong:
  assumes "tabs ctx' = tabs ctx" "rtes ctx' = rtes ctx" "rtable ctx' = rtable ctx" "old_rtable ctx' = old_rtable ctx"
    "new_rtable ctx' = new_rtable ctx"
  shows "tabs_inv ctx' = tabs_inv ctx"
  using assms(3-5) rt_inv_cong [OF assms(1,2)] tabs_cong(2) [OF assms(1)] by (simp add: tabs_inv_def)

lemma builds_tabs_inv:
  assumes b: "builds t ctx ctx'" and inv: "tabs_inv ctx" and n: "new_rtable ctx = Some t"
  shows "tabs_inv ctx'"
proof -
  note d = tabs_invD [OF inv]
  obtain rt rt' where t: "the_rt ctx t = Some rt" "the_rt ctx' t = Some rt'" "rt_count rt' = rt_count rt" "rt_error rt' = rt_error rt"
    using b by (auto simp: builds_def)
  have u: "the_rt ctx' u = the_rt ctx u" if "u \<noteq> t" for u using b that by (simp add: builds_def)
  have p: "rtable ctx' = rtable ctx" "old_rtable ctx' = old_rtable ctx" "new_rtable ctx' = new_rtable ctx" and i: "rt_inv ctx'"
    using b by (simp_all add: builds_def)
  have live: "the_rt ctx' u \<noteq> None \<longleftrightarrow> Some u \<in> {rtable ctx, old_rtable ctx, new_rtable ctx}" for u
    using d(2) [of u] u [of u] t(2) n by (cases "u = t") auto
  have rt: "\<not> rt_error r \<and> 0 \<le> rt_count r \<and> (new_rtable ctx = Some u \<longrightarrow> rt_count r = 0)" if "the_rt ctx' u = Some r" for u r
  proof (cases "u = t")
    case True
    then have "r = rt'" using that t(2) by simp
    then show ?thesis using d(5) [OF t(1)] t(3,4) n by (metis (no_types))
  next
    case False
    then show ?thesis using d(5) [of u r] u that by metis
  qed
  show ?thesis unfolding tabs_inv_def p
  proof (intro conjI allI impI)
    show "rt_inv ctx'" by (rule i)
    show "(the_rt ctx' u \<noteq> None) = (Some u \<in> {rtable ctx, old_rtable ctx, new_rtable ctx})" for u by (rule live)
  qed (use d(3,4) rt in auto)
qed


text \<open>
  The table to fill: the drained one, cleared, or a new one. \<open>undrained\<close> says that somebody still
  reads the drained table.
\<close>

definition undrained :: "uta_ctx \<Rightarrow> bool" where
  "undrained ctx = (case Option.bind (old_rtable ctx) (the_rt ctx) of None \<Rightarrow> False | Some rt \<Rightarrow> rt_count rt > 0)"

definition active_look :: "uta_ctx \<Rightarrow> sym_key \<Rightarrow> rt_val option" where
  "active_look ctx = (case rtable ctx of None \<Rightarrow> \<lambda>k. None | Some a \<Rightarrow> tlook ctx a)"

lemma seeded_None: "seeded all (\<lambda>k. None) = (\<lambda>k. None)"
proof
  show "seeded all (\<lambda>k. None) k = None" for k by (cases k) simp_all
qed

lemma prep_dest:
  assumes inv: "tabs_inv ctx" and new: "new_rtable ctx = None" and old: "\<not> undrained ctx"
  obtains n ctx1 rt where "prep_new_rt all ctx = Option.bind (uta_rt_clone (rtable ctx) (Some n) all ctx1) (\<lambda>(n, c).
      map_option (\<lambda>rt. (n, set_rt n (Some (rt\<lparr>rt_count := 0\<rparr>)) c)) (the_rt c n))"
    "rt_inv ctx1" "keeps ctx ctx1" "the_rt ctx1 n = Some rt" "\<And>k. sym_lookup (rt_hash rt) k = None" "\<not> rt_error rt"
    "rtable ctx1 = rtable ctx" "old_rtable ctx1 = None" "new_rtable ctx1 = None" "\<And>u. u \<noteq> n \<Longrightarrow> the_rt ctx1 u = the_rt ctx u"
    "rtable ctx \<noteq> Some n" "\<And>u. old_rtable ctx = Some u \<Longrightarrow> u = n" "table_id ctx1 = table_id ctx"
proof (cases "old_rtable ctx")
  case None
  let ?c = "ctx\<lparr>tabs := tabs ctx @ [Some empty_rt]\<rparr>" and ?n = "length (tabs ctx)"
  note i = uta_rt_init_ok [OF tabs_invD(1) [OF inv]]
  have "the_rt ctx ?n = None" by (simp add: the_rt_def)
  then have "rtable ctx \<noteq> Some ?n" using tabs_invD(2) [OF inv, of ?n] by auto
  moreover have "prep_new_rt all ctx = Option.bind (uta_rt_clone (rtable ctx) (Some ?n) all ?c) (\<lambda>(n, c).
      map_option (\<lambda>rt. (n, set_rt n (Some (rt\<lparr>rt_count := 0\<rparr>)) c)) (the_rt c n))"
    using None by (simp add: prep_new_rt_def uta_rt_clone_def uta_rt_init_def)
  moreover have "keeps ctx ?c" by (rule keeps_rtes) simp
  ultimately show thesis
    using that [of ?n ?c empty_rt] i None new by (simp add: empty_rt_def hash_ok_empty(2))
next
  case (Some t)
  obtain rt where rt: "the_rt ctx t = Some rt" using tabs_invD(2) [OF inv, of t] Some by auto
  let ?rt = "rt\<lparr>rt_hash := rmr_sym_clear (rt_hash rt), rt_error := False\<rparr>" and ?c0 = "ctx\<lparr>old_rtable := None\<rparr>"
  have i0: "rt_inv ?c0" "the_rt ?c0 t = Some rt"
    using rt tabs_invD(1) [OF inv] rt_inv_cong [of ?c0 ctx] tabs_cong(2) [of ?c0 ctx] by simp_all
  note e = hash_ok_empty(3,4) [OF rt_invD(1) [OF i0]]
  obtain r where r: "drop_rtes (rt_hash rt) ?c0 = Some (?c0\<lparr>rtes := r\<rparr>)"
    "rt_inv (set_rt t (Some ?rt) (?c0\<lparr>rtes := r\<rparr>))" "keeps ?c0 (?c0\<lparr>rtes := r\<rparr>)"
    by (rule rt_inv_lose_all [OF i0, of "Some ?rt"]) (auto simp: e)
  let ?c = "set_rt t (Some ?rt) (?c0\<lparr>rtes := r\<rparr>)"
  have "\<not> 0 < rt_count rt" using old Some rt by (simp add: undrained_def)
  then have p: "prep_new_rt all ctx = Option.bind (uta_rt_clone (rtable ctx) (Some t) all ?c) (\<lambda>(n, c).
      map_option (\<lambda>rt. (n, set_rt n (Some (rt\<lparr>rt_count := 0\<rparr>)) c)) (the_rt c n))"
    using Some rt r(1) by (simp add: prep_new_rt_def)
  have k: "keeps ctx ?c" by (rule keeps_cong [THEN iffD1, OF _ _ r(3)]) simp_all
  have tab: "the_rt (ctx\<lparr>old_rtable := None, rtes := r\<rparr>) = the_rt ctx" by (simp add: the_rt_def fun_eq_iff)
  have t: "the_rt ?c t = Some ?rt" "u \<noteq> t \<Longrightarrow> the_rt ?c u = the_rt ctx u" for u using rt by (simp_all add: the_rt_set tab)
  have "rtable ctx \<noteq> Some t" using tabs_invD(3) [OF inv, of t] Some by auto
  with e(2) Some new show thesis by (intro that [OF p r(2) k t(1) _ _ _ _ _ t(2)]) (simp_all add: set_rt_def)
qed

lemma prep_new_rt_ok:
  assumes inv: "tabs_inv ctx" and new: "new_rtable ctx = None" and old: "\<not> undrained ctx"
  obtains n ctx' rt where "prep_new_rt all ctx = Some (n, ctx')" "rt_inv ctx'" "keeps ctx ctx'" "the_rt ctx' n = Some rt"
    "rt_count rt = 0" "\<not> rt_error rt" "rtable ctx' = rtable ctx" "old_rtable ctx' = None" "new_rtable ctx' = None"
    "\<And>u. u \<noteq> n \<Longrightarrow> the_rt ctx' u = the_rt ctx u" "rtable ctx \<noteq> Some n" "\<And>u. old_rtable ctx = Some u \<Longrightarrow> u = n"
    "tlook ctx' n = seeded all (active_look ctx)" "table_id ctx' = table_id ctx"
proof -
  obtain n c rt where d: "prep_new_rt all ctx = Option.bind (uta_rt_clone (rtable ctx) (Some n) all c) (\<lambda>(n, c).
      map_option (\<lambda>rt. (n, set_rt n (Some (rt\<lparr>rt_count := 0\<rparr>)) c)) (the_rt c n))"
    "rt_inv c" "keeps ctx c" "the_rt c n = Some rt" "\<And>k. sym_lookup (rt_hash rt) k = None" "\<not> rt_error rt"
    "rtable c = rtable ctx" "old_rtable c = None" "new_rtable c = None" "\<And>u. u \<noteq> n \<Longrightarrow> the_rt c u = the_rt ctx u"
    "rtable ctx \<noteq> Some n" "\<And>u. old_rtable ctx = Some u \<Longrightarrow> u = n" "table_id c = table_id ctx"
    by (rule prep_dest [OF assms, of all]; rule that)
  have s: "a \<noteq> n \<and> the_rt c a \<noteq> None" if "rtable ctx = Some a" for a
    using that d(10,11) tabs_invD(2) [OF inv, of a] by auto
  obtain h r where h: "uta_rt_clone (rtable ctx) (Some n) all c = Some (n, set_rt n (Some (rt\<lparr>rt_hash := h\<rparr>)) (c\<lparr>rtes := r\<rparr>))"
    "rt_inv (set_rt n (Some (rt\<lparr>rt_hash := h\<rparr>)) (c\<lparr>rtes := r\<rparr>))" "keeps c (c\<lparr>rtes := r\<rparr>)"
    "sym_lookup h = (case rtable ctx of None \<Rightarrow> \<lambda>k. None | Some a \<Rightarrow> seeded all (tlook c a))"
    using uta_rt_clone_ok [OF d(2,4,5) s, of "rtable ctx" all] by blast
  let ?c1 = "set_rt n (Some (rt\<lparr>rt_hash := h\<rparr>)) (c\<lparr>rtes := r\<rparr>)"
  let ?rt = "rt\<lparr>rt_hash := h, rt_count := 0\<rparr>"
  let ?c2 = "set_rt n (Some ?rt) (c\<lparr>rtes := r\<rparr>)"
  have tab: "the_rt (c\<lparr>rtes := r\<rparr>) = the_rt c" by (rule tabs_cong) simp
  have t1: "the_rt ?c1 n = Some (rt\<lparr>rt_hash := h\<rparr>)" and t2: "the_rt ?c2 u = (if u = n then Some ?rt else the_rt c u)" for u
    using d(4) tab by (simp_all add: the_rt_set)
  have "rt_inv (set_rt n (Some ?rt) ?c1)"
    using rt_invD(1) [OF h(2) t1] by (intro rt_inv_set_same [OF h(2) t1]) simp_all
  then have i: "rt_inv ?c2" by simp
  have p: "prep_new_rt all ctx = Some (n, ?c2)" using t1 by (simp add: d(1) h(1))
  have k: "keeps ctx ?c2" by (rule keeps_trans [OF d(3) keeps_set_rt [OF h(3)]])
  have "tlook c a = tlook ctx a" if "rtable ctx = Some a" for a
    using that d(10,11) by (auto simp: tlook_def fun_eq_iff)
  then have "sym_lookup h = seeded all (active_look ctx)"
    by (simp add: h(4) active_look_def seeded_None split: option.split)
  then have "tlook ?c2 n = seeded all (active_look ctx)" by (simp add: tlook_def fun_eq_iff t2)
  then show thesis using that [OF p i k, of ?rt] d t2 by (simp add: set_rt_def)
qed


subsection \<open>Starting, ending and abandoning a table\<close>

lemma send_rt_ack_ctx [simp]: "u_ctx (send_rt_ack deliver tid ok reason s) = u_ctx s"
  by (simp add: send_rt_ack_def Let_def split: option.split)

text \<open>The tables somebody may be reading: the active one, and a drained one with readers left.\<close>

definition held :: "uta_ctx \<Rightarrow> nat \<Rightarrow> bool" where
  "held ctx t = (new_rtable ctx \<noteq> Some t \<and> (rtable ctx = Some t \<or> (\<exists>rt. the_rt ctx t = Some rt \<and> rt_count rt > 0)))"

definition isolates :: "uta_ctx \<Rightarrow> uta_ctx \<Rightarrow> bool" where
  "isolates ctx ctx' = (\<forall>t rt. held ctx t \<and> the_rt ctx t = Some rt \<longrightarrow>
     the_rt ctx' t = Some rt \<and>
     (\<forall>k i. sym_lookup (rt_hash rt) (NumKey k) = Some (RteRef i) \<longrightarrow> body ctx i \<noteq> None \<and> body ctx' i = body ctx i))"

lemma keeps_body:
  assumes "keeps ctx ctx'" "i < length (rtes ctx)" "body ctx' i \<noteq> None"
  shows "body ctx' i = body ctx i"
proof -
  have "body ctx' i = None \<or> body ctx' i = body ctx i" using assms(1,2) unfolding keeps_def by blast
  with assms(3) show ?thesis by argo
qed

lemma isolatesI:
  assumes "rt_inv ctx" "rt_inv ctx'" "keeps ctx ctx'" "\<And>t. held ctx t \<Longrightarrow> the_rt ctx t \<noteq> None \<Longrightarrow> the_rt ctx' t = the_rt ctx t"
  shows "isolates ctx ctx'"
  unfolding isolates_def
proof (intro allI impI, elim conjE)
  fix t rt assume t: "held ctx t" "the_rt ctx t = Some rt"
  then have t': "the_rt ctx' t = Some rt" using assms(4) [of t] by simp
  have "body ctx i \<noteq> None \<and> body ctx' i = body ctx i" if i: "sym_lookup (rt_hash rt) (NumKey k) = Some (RteRef i)" for k i
  proof -
    have b: "body ctx i \<noteq> None" "body ctx' i \<noteq> None"
      using rt_invD(3) [OF assms(1) t(2) i] rt_invD(3) [OF assms(2) t' i] by (auto simp: kr_the_rte)
    then have "i < length (rtes ctx)" by (simp add: body_def split: if_splits)
    with b(1) keeps_body [OF assms(3) _ b(2)] show ?thesis by blast
  qed
  with t' show "the_rt ctx' t = Some rt \<and> (\<forall>k i. sym_lookup (rt_hash rt) (NumKey k) = Some (RteRef i) \<longrightarrow>
      body ctx i \<noteq> None \<and> body ctx' i = body ctx i)" by blast
qed

text \<open>The active table changes only when the table under construction takes its place, as it is.\<close>

definition publishes :: "uta_ctx \<Rightarrow> uta_ctx \<Rightarrow> bool" where
  "publishes ctx ctx' = (rtable ctx' = rtable ctx \<or>
     new_rtable ctx \<noteq> None \<and> rtable ctx' = new_rtable ctx \<and> old_rtable ctx' = rtable ctx \<and> new_rtable ctx' = None \<and>
     tabs ctx' = tabs ctx \<and> rtes ctx' = rtes ctx)"

text \<open>The number of readers of a table changes only when an unused table is taken.\<close>

definition readers_kept :: "uta_ctx \<Rightarrow> uta_ctx \<Rightarrow> bool" where
  "readers_kept ctx ctx' = (\<forall>t rt'. the_rt ctx' t = Some rt' \<longrightarrow>
     rt_count rt' = 0 \<or> (\<exists>rt. the_rt ctx t = Some rt \<and> rt_count rt = rt_count rt'))"

definition rec_step :: "uta_ctx \<Rightarrow> uta_ctx \<Rightarrow> bool" where
  "rec_step ctx ctx' = (tabs_inv ctx' \<and> isolates ctx ctx' \<and> publishes ctx ctx' \<and> readers_kept ctx ctx')"

lemma rec_step_refl: "tabs_inv ctx \<Longrightarrow> rec_step ctx ctx"
  using isolatesI [of ctx ctx] tabs_invD(1) [of ctx] by (simp add: rec_step_def publishes_def readers_kept_def)

lemma rec_step_builds:
  assumes "tabs_inv ctx" "new_rtable ctx = Some t" "builds t ctx ctx'"
  shows "rec_step ctx ctx'"
proof -
  have "isolates ctx ctx'"
    using assms by (intro isolatesI) (auto simp: builds_def held_def tabs_invD(1))
  moreover have "readers_kept ctx ctx'"
    using assms(3) unfolding readers_kept_def builds_def by (metis option.inject)
  ultimately show ?thesis using builds_tabs_inv [OF assms(3,1,2)] assms(3) by (simp add: rec_step_def publishes_def builds_def)
qed

lemma rt_discard_ok:
  assumes inv: "tabs_inv (u_ctx s)" and n: "new_rtable (u_ctx s) = Some t"
  obtains s' where "rt_discard deliver reason s = Some s'" "tabs_inv (u_ctx s')" "keeps (u_ctx s) (u_ctx s')"
    "new_rtable (u_ctx s') = None" "rtable (u_ctx s') = rtable (u_ctx s)" "old_rtable (u_ctx s') = None"
    "\<And>u. u \<noteq> t \<Longrightarrow> the_rt (u_ctx s') u = the_rt (u_ctx s) u" "table_id (u_ctx s') = table_id (u_ctx s)"
    "c_flags (u_ctx s') = c_flags (u_ctx s)" "rtable_ready (u_ctx s') = rtable_ready (u_ctx s)"
    "acks s' = acks (send_rt_ack deliver (table_id (u_ctx s)) False (Some reason) s)"
proof -
  note d = tabs_invD [OF inv]
  let ?c = "u_ctx s"
  obtain rt where rt: "the_rt ?c t = Some rt" using d(2) [of t] n by auto
  obtain r where r: "uta_rt_drop (Some t) ?c = Some (set_rt t None (?c\<lparr>rtes := r\<rparr>))"
    "rt_inv (set_rt t None (?c\<lparr>rtes := r\<rparr>))" "keeps ?c (?c\<lparr>rtes := r\<rparr>)"
    by (rule uta_rt_drop_ok [OF d(1) rt]; rule that)
  let ?c1 = "set_rt t None (?c\<lparr>rtes := r\<rparr>)\<lparr>new_rtable := None\<rparr>"
  let ?s = "(send_rt_ack deliver (table_id ?c) False (Some reason) s)\<lparr>u_ctx := ?c1\<rparr>"
  have code: "rt_discard deliver reason s = Some ?s" by (simp add: rt_discard_def n r(1))
  have "the_rt (?c\<lparr>rtes := r\<rparr>) = the_rt ?c" by (rule tabs_cong) simp
  then have "the_rt (set_rt t None (?c\<lparr>rtes := r\<rparr>)) u = (if u = t then None else the_rt ?c u)" for u using rt by (simp add: the_rt_set)
  moreover have "the_rt ?c1 = the_rt (set_rt t None (?c\<lparr>rtes := r\<rparr>))" by (rule tabs_cong) simp
  ultimately have t: "the_rt ?c1 u = (if u = t then None else the_rt ?c u)" for u by simp
  have f: "rtable ?c1 = rtable ?c" "old_rtable ?c1 = None" "new_rtable ?c1 = None" "table_id ?c1 = table_id ?c"
    "c_flags ?c1 = c_flags ?c" "rtable_ready ?c1 = rtable_ready ?c"
    using d(4) n by (simp_all add: set_rt_def)
  have k: "keeps ?c ?c1" by (rule keeps_cong [THEN iffD1, OF _ _ r(3)]) simp_all
  have i: "rt_inv ?c1" using r(2) rt_inv_cong [of ?c1 "set_rt t None (?c\<lparr>rtes := r\<rparr>)"] by simp
  have "tabs_inv ?c1"
    unfolding tabs_inv_def
  proof (intro conjI allI impI)
    show "(the_rt ?c1 u \<noteq> None) = (Some u \<in> {rtable ?c1, old_rtable ?c1, new_rtable ?c1})" for u
      using d(2) [of u] d(3) [of t] d(4) n unfolding f t by auto
  qed (use i f t d(5) in \<open>auto split: if_splits\<close>)
  then show thesis using that [OF code] f t k by simp
qed

lemma undrained_fresh: "old_rtable ctx = None \<Longrightarrow> \<not> undrained ctx"
  by (simp add: undrained_def)

lemma roll_tables_ok:
  assumes inv: "tabs_inv ctx" and n: "new_rtable ctx = Some t"
  shows "roll_tables ctx = ctx\<lparr>old_rtable := rtable ctx, rtable := new_rtable ctx, new_rtable := None\<rparr>"
    "tabs_inv (roll_tables ctx)"
proof -
  note d = tabs_invD [OF inv]
  obtain rt where rt: "the_rt ctx t = Some rt" using d(2) [of t] n by auto
  with d(5) [OF rt] d(4) n show e: "roll_tables ctx = ctx\<lparr>old_rtable := rtable ctx, rtable := new_rtable ctx, new_rtable := None\<rparr>"
    by (simp add: roll_tables_def)
  let ?c = "ctx\<lparr>old_rtable := rtable ctx, rtable := new_rtable ctx, new_rtable := None\<rparr>"
  have t: "the_rt ?c = the_rt ctx" by (rule tabs_cong) simp
  have i: "rt_inv ?c" using d(1) rt_inv_cong [of ?c ctx] by simp
  have "tabs_inv ?c"
    unfolding tabs_inv_def
  proof (intro conjI allI impI)
    show "(the_rt ?c u \<noteq> None) = (Some u \<in> {rtable ?c, old_rtable ?c, new_rtable ?c})" for u
      unfolding t using d(2) [of u] d(4) n by auto
  qed (use i t d(3,5) n in auto)
  then show "tabs_inv (roll_tables ctx)" by (simp only: e)
qed


text \<open>A table in progress, if there is one, goes first.\<close>

lemma rt_clear_way:
  assumes inv: "tabs_inv (u_ctx s)" and old: "\<not> undrained (u_ctx s)"
  obtains s1 where "(if new_rtable (u_ctx s) \<noteq> None then rt_discard deliver reason s else Some s) = Some s1"
    "tabs_inv (u_ctx s1)" "keeps (u_ctx s) (u_ctx s1)" "new_rtable (u_ctx s1) = None" "rtable (u_ctx s1) = rtable (u_ctx s)"
    "\<And>u. new_rtable (u_ctx s) \<noteq> Some u \<Longrightarrow> the_rt (u_ctx s1) u = the_rt (u_ctx s) u" "\<not> undrained (u_ctx s1)"
    "old_rtable (u_ctx s1) = old_rtable (u_ctx s)"
proof (cases "new_rtable (u_ctx s)")
  case None
  then show thesis using that [of s] inv old by simp
next
  case (Some t)
  have o: "old_rtable (u_ctx s) = None" using tabs_invD(4) [OF inv] Some by simp
  obtain s1 where s1: "rt_discard deliver reason s = Some s1" "tabs_inv (u_ctx s1)" "keeps (u_ctx s) (u_ctx s1)"
    "new_rtable (u_ctx s1) = None" "rtable (u_ctx s1) = rtable (u_ctx s)" "old_rtable (u_ctx s1) = None"
    "\<And>u. u \<noteq> t \<Longrightarrow> the_rt (u_ctx s1) u = the_rt (u_ctx s) u"
    by (rule rt_discard_ok [OF inv Some, of deliver reason]) blast
  show thesis
    by (rule that [of s1]) (use s1 Some o in \<open>simp_all add: undrained_fresh\<close>)
qed

lemma tabs_inv_start:
  assumes c: "tabs_inv c" "new_rtable c = None" "rtable c \<noteq> Some n" "\<And>u. old_rtable c = Some u \<Longrightarrow> u = n"
    and c': "rt_inv c'" "rtable c' = rtable c" "old_rtable c' = None" "new_rtable c' = Some n"
    and t: "the_rt c' n = Some rt" "rt_count rt = 0" "\<not> rt_error rt" "\<And>v. v \<noteq> n \<Longrightarrow> the_rt c' v = the_rt c v"
  shows "tabs_inv c'"
  unfolding tabs_inv_def
proof (intro conjI allI impI)
  show "(the_rt c' v \<noteq> None) = (Some v \<in> {rtable c', old_rtable c', new_rtable c'})" for v
    unfolding c' using tabs_invD(2) [OF c(1), of v] t c(2) c(4) [of v] by (cases "v = n") auto
  fix v r assume v: "the_rt c' v = Some r"
  have "\<not> rt_error r \<and> 0 \<le> rt_count r \<and> (v = n \<longrightarrow> rt_count r = 0)"
  proof (cases "v = n")
    case True
    then show ?thesis using t(1-3) v by simp
  next
    case False
    then show ?thesis using tabs_invD(5) [OF c(1), of v r] t(4) v by simp
  qed
  then show "\<not> rt_error r" "0 \<le> rt_count r" "new_rtable c' = Some v \<Longrightarrow> rt_count r = 0" unfolding c' by auto
qed (use c(3) c' in auto)

lemma readers_kept_start:
  assumes c: "tabs_inv c" and c1: "tabs_inv c1" "new_rtable c1 = None" "rtable c1 = rtable c" "old_rtable c1 = old_rtable c"
      "\<And>u. new_rtable c \<noteq> Some u \<Longrightarrow> the_rt c1 u = the_rt c u"
    and t: "the_rt c' n = Some rt" "rt_count rt = 0" "\<And>v. v \<noteq> n \<Longrightarrow> the_rt c' v = the_rt c1 v"
  shows "readers_kept c c'"
  unfolding readers_kept_def
proof (intro allI impI)
  fix v r assume v: "the_rt c' v = Some r"
  show "rt_count r = 0 \<or> (\<exists>rt. the_rt c v = Some rt \<and> rt_count rt = rt_count r)"
  proof (cases "v = n")
    case True
    then show ?thesis using v t(1,2) by simp
  next
    case False
    then have l: "the_rt c1 v = Some r" using t(3) v by simp
    then have "rtable c = Some v \<or> old_rtable c = Some v" using tabs_invD(2) [OF c1(1), of v] c1(2-4) by auto
    then have "new_rtable c \<noteq> Some v" using tabs_invD(3,4) [OF c] by auto
    then show ?thesis using c1(5) l by simp
  qed
qed

lemma held_active:
  assumes "held ctx v" "the_rt ctx v \<noteq> None" "tabs_inv ctx" "\<not> undrained ctx"
  shows "rtable ctx = Some v"
proof (rule ccontr)
  assume n: "rtable ctx \<noteq> Some v"
  then obtain rt where rt: "the_rt ctx v = Some rt" "rt_count rt > 0" "new_rtable ctx \<noteq> Some v"
    using assms(1) by (auto simp: held_def)
  then have "old_rtable ctx = Some v" using tabs_invD(2) [OF assms(3), of v] n by auto
  with rt assms(4) show False by (simp add: undrained_def)
qed

lemma rt_start_ok:
  assumes inv: "tabs_inv (u_ctx s)" and old: "\<not> undrained (u_ctx s)"
    and f: "\<And>rt. rt_hash (zero rt) = rt_hash rt" "\<And>rt. rt_count (zero rt) = rt_count rt" "\<And>rt. rt_error (zero rt) = rt_error rt"
  obtains s' t rt where "rt_start deliver all new_id zero s = Some s'" "rec_step (u_ctx s) (u_ctx s')"
    "rtable (u_ctx s') = rtable (u_ctx s)" "new_rtable (u_ctx s') = Some t" "the_rt (u_ctx s') t = Some (zero rt)"
    "tlook (u_ctx s') t = seeded all (active_look (u_ctx s))"
proof -
  obtain s1 where s1: "(if new_rtable (u_ctx s) \<noteq> None then rt_discard deliver ''table not complete'' s else Some s) = Some s1"
    "tabs_inv (u_ctx s1)" "keeps (u_ctx s) (u_ctx s1)" "new_rtable (u_ctx s1) = None" "rtable (u_ctx s1) = rtable (u_ctx s)"
    "\<And>u. new_rtable (u_ctx s) \<noteq> Some u \<Longrightarrow> the_rt (u_ctx s1) u = the_rt (u_ctx s) u" "\<not> undrained (u_ctx s1)"
    "old_rtable (u_ctx s1) = old_rtable (u_ctx s)"
    by (rule rt_clear_way [OF inv old]; rule that)
  let ?c = "u_ctx s" and ?c1 = "(u_ctx s1)\<lparr>table_id := new_id (table_id (u_ctx s1))\<rparr>"
  have c1: "tabs_inv ?c1" using s1(2) tabs_inv_cong [of ?c1 "u_ctx s1"] by simp
  have t1: "the_rt ?c1 = the_rt (u_ctx s1)" by (rule tabs_cong) simp
  have n1: "new_rtable ?c1 = None" "\<not> undrained ?c1" using s1(4,7) t1 by (simp_all add: undrained_def)
  obtain n c2 rt where p: "prep_new_rt all ?c1 = Some (n, c2)" "rt_inv c2" "keeps ?c1 c2" "the_rt c2 n = Some rt"
    "rt_count rt = 0" "\<not> rt_error rt" "rtable c2 = rtable ?c1" "old_rtable c2 = None" "new_rtable c2 = None"
    "\<And>u. u \<noteq> n \<Longrightarrow> the_rt c2 u = the_rt ?c1 u" "rtable ?c1 \<noteq> Some n" "\<And>u. old_rtable ?c1 = Some u \<Longrightarrow> u = n"
    "tlook c2 n = seeded all (active_look ?c1)" "table_id c2 = table_id ?c1"
    by (rule prep_new_rt_ok [OF c1 n1]; rule that)
  let ?c2 = "c2\<lparr>new_rtable := Some n\<rparr>"
  have c2: "rt_inv ?c2" "the_rt ?c2 n = Some rt" "new_rtable ?c2 = Some n"
    using p(2,4) rt_inv_cong [of ?c2 c2] tabs_cong(2) [of ?c2 c2] by simp_all
  let ?c3 = "set_rt n (Some (zero rt)) ?c2"
  obtain u: "upd_new_rt zero ?c2 = Some ?c3" "builds n ?c2 ?c3" "tlook ?c3 n = tlook ?c2 n"
    by (rule upd_new_rt_ok [OF c2(1,3,2), of zero]) (simp_all add: f)
  have code: "rt_start deliver all new_id zero s = Some (s1\<lparr>u_ctx := ?c3\<rparr>)"
    by (simp only: rt_start_def s1(1) Option.bind.simps Let_def p(1) prod.case u(1) option.map)
  have t3: "the_rt ?c3 n = Some (zero rt)" "v \<noteq> n \<Longrightarrow> the_rt ?c3 v = the_rt (u_ctx s1) v" for v
    using c2(2) p(10) tabs_cong(2) [of ?c2 c2] t1 by (simp_all add: the_rt_set)
  have f3: "rtable ?c3 = rtable ?c" "old_rtable ?c3 = None" "new_rtable ?c3 = Some n" using p(7,8) s1(5) by simp_all
  have "keeps ?c1 ?c3" by (rule keeps_cong [THEN iffD1, OF _ _ p(3)]) simp_all
  then have k: "keeps ?c ?c3" by (rule keeps_trans [OF s1(3) keeps_cong [THEN iffD1, OF _ _], rotated 2]) simp_all
  have rn: "rtable ?c \<noteq> Some n" using p(11) s1(5) by simp
  have i3: "rt_inv ?c3" using u(2) by (simp add: builds_def)
  have "tabs_inv ?c3"
    by (rule tabs_inv_start [OF s1(2,4), where n = n and rt = "zero rt"])
       (use i3 f3 rn s1(5) t3 p(5,6,12) in \<open>simp_all add: f\<close>)
  moreover have "isolates ?c ?c3"
  proof (rule isolatesI [OF tabs_invD(1) [OF inv] i3 k])
    fix v assume h: "held ?c v" and l: "the_rt ?c v \<noteq> None"
    then have "v \<noteq> n" using rn held_active [OF _ _ inv old, of v] by auto
    moreover have "new_rtable ?c \<noteq> Some v" using h by (simp add: held_def)
    ultimately show "the_rt ?c3 v = the_rt ?c v" using t3(2) s1(6) by simp
  qed
  moreover have "readers_kept ?c ?c3"
    by (rule readers_kept_start [OF inv s1(2,4,5,8,6) t3(1) _ t3(2)]) (simp_all add: f p(5))
  ultimately have "rec_step ?c ?c3" using f3 by (simp add: rec_step_def publishes_def)
  moreover have "tlook ?c3 n = seeded all (active_look ?c)"
  proof -
    have "tlook ?c2 n = tlook c2 n" using tabs_cong(2) [of ?c2 c2] by (simp add: tlook_def fun_eq_iff)
    moreover have "tlook ?c1 a = tlook ?c a" if "rtable ?c = Some a" for a
      using tabs_invD(3) [OF inv that] s1(6) [of a] t1 by (simp add: tlook_def fun_eq_iff)
    then have "active_look ?c1 = active_look ?c" using s1(5) by (simp add: active_look_def split: option.split)
    ultimately show ?thesis using u(3) p(13) by simp
  qed
  ultimately show thesis using that [OF code, of n rt] f3 t3(1) by simp
qed


lemma rt_finish_ok:
  assumes inv: "tabs_inv (u_ctx s)" and e: "expected \<noteq> None \<Longrightarrow> new_rtable (u_ctx s) \<noteq> None"
    and r: "\<And>c. tabs (ready c) = tabs c" "\<And>c. rtes (ready c) = rtes c" "\<And>c. rtable (ready c) = rtable c"
      "\<And>c. old_rtable (ready c) = old_rtable c" "\<And>c. new_rtable (ready c) = new_rtable c"
  shows "\<exists>s'. rt_finish deliver count reason expected ready s = Some s' \<and> rec_step (u_ctx s) (u_ctx s')"
proof (cases "new_rtable (u_ctx s)")
  case None
  then have "rt_finish deliver count reason expected ready s = Some s" using e by (cases expected) (simp_all add: rt_finish_def)
  then show ?thesis using rec_step_refl [OF inv] by simp
next
  case (Some t)
  let ?c = "u_ctx s"
  obtain rt where rt: "the_rt ?c t = Some rt" using tabs_invD(2) [OF inv, of t] Some by auto
  define bad where "bad = (case expected of None \<Rightarrow> False | Some n \<Rightarrow> count rt \<noteq> atoi n)"
  have code: "rt_finish deliver count reason expected ready s =
      (if bad then rt_discard deliver (reason (the expected) rt) s
       else let s1 = s\<lparr>u_ctx := roll_tables ?c\<rparr>; s2 = send_rt_ack deliver (table_id (u_ctx s1)) True None s1
            in Some (s2\<lparr>u_ctx := ready (u_ctx s2)\<rparr>))"
    using Some rt by (cases expected) (simp_all add: rt_finish_def bad_def)
  show ?thesis
  proof (cases bad)
    case True
    obtain s' where s': "rt_discard deliver (reason (the expected) rt) s = Some s'" "tabs_inv (u_ctx s')" "keeps ?c (u_ctx s')"
      "rtable (u_ctx s') = rtable ?c" "\<And>u. u \<noteq> t \<Longrightarrow> the_rt (u_ctx s') u = the_rt ?c u"
      "old_rtable (u_ctx s') = None" "new_rtable (u_ctx s') = None"
      by (rule rt_discard_ok [OF inv Some, of deliver "reason (the expected) rt"]) blast
    have "isolates ?c (u_ctx s')"
      using s'(5) Some by (intro isolatesI [OF tabs_invD(1) [OF inv] tabs_invD(1) [OF s'(2)] s'(3)]) (auto simp: held_def)
    moreover have "readers_kept ?c (u_ctx s')"
      using s'(5) tabs_invD(2) [OF s'(2), of t] s'(4,6,7) tabs_invD(3) [OF inv, of t] Some unfolding readers_kept_def by (metis insertE option.distinct(1) singletonD)
    ultimately show ?thesis using True s' code by (simp add: rec_step_def publishes_def)
  next
    case False
    note roll = roll_tables_ok [OF inv Some]
    let ?c1 = "ready (roll_tables ?c)"
    have i: "tabs_inv ?c1" using roll(2) tabs_inv_cong [of ?c1 "roll_tables ?c"] by (simp add: r)
    have f: "tabs ?c1 = tabs ?c" "rtes ?c1 = rtes ?c" "rtable ?c1 = new_rtable ?c" "old_rtable ?c1 = rtable ?c" "new_rtable ?c1 = None"
      by (simp_all add: r roll(1))
    have "isolates ?c ?c1"
      using tabs_cong(2) [OF f(1)] by (intro isolatesI [OF tabs_invD(1) [OF inv] tabs_invD(1) [OF i] keeps_rtes [OF f(2)]]) simp
    then have "rec_step ?c ?c1" using i f Some tabs_cong(2) [OF f(1)] by (simp add: rec_step_def publishes_def readers_kept_def)
    then show ?thesis using False code by (simp add: Let_def)
  qed
qed

subsection \<open>Records\<close>

lemma on_new_rt_ok:
  assumes inv: "tabs_inv (u_ctx s)"
    and f: "\<And>t rt. new_rtable (u_ctx s) = Some t \<Longrightarrow> the_rt (u_ctx s) t = Some rt \<Longrightarrow> \<exists>c. f (u_ctx s) = Some c \<and> builds t (u_ctx s) c"
  shows "\<exists>s'. on_new_rt f s = Some s' \<and> rec_step (u_ctx s) (u_ctx s')"
proof (cases "new_rtable (u_ctx s)")
  case None
  then show ?thesis using rec_step_refl [OF inv] by (simp add: on_new_rt_def)
next
  case (Some t)
  obtain rt where "the_rt (u_ctx s) t = Some rt" using tabs_invD(2) [OF inv, of t] Some by auto
  from f [OF Some this] obtain c where c: "f (u_ctx s) = Some c" "builds t (u_ctx s) c" by blast
  then show ?thesis using rec_step_builds [OF inv Some c(2)] Some by (simp add: on_new_rt_def)
qed

lemma count_update_ok:
  assumes "builds t ctx0 ctx" "new_rtable ctx0 = Some t"
  shows "\<exists>c. count_update ctx = Some c \<and> builds t ctx0 c"
proof -
  obtain rt where b: "rt_inv ctx" "the_rt ctx t = Some rt" "new_rtable ctx = Some t" using builds_live [OF assms(1)] assms(2) by auto
  obtain c where "count_update ctx = Some c" "builds t ctx c"
    by (rule upd_new_rt_ok [OF b(1,3,2), of "\<lambda>rt. rt\<lparr>rt_updates := rt_updates rt + 1\<rparr>"]) (auto simp: count_update_def)
  then show ?thesis using builds_trans [OF assms(1)] by blast
qed

text \<open>The key of the entry a record names.\<close>

definition names_key :: "string \<Rightarrow> int \<Rightarrow> u64" where
  "names_key ts subid = build_rt_key (sint (word_of_int subid :: u32)) (atoi (clip ts))"

lemma rec_del_ok:
  assumes inv: "tabs_inv (u_ctx s)" and k: "length tokens < 3 \<or> names_key (tokens ! 1) (atoi (tokens ! 2)) \<noteq> 0"
  shows "\<exists>s'. rec_del tokens s = Some s' \<and> rec_step (u_ctx s) (u_ctx s')"
  unfolding rec_del_def
proof (rule on_new_rt_ok [OF inv])
  fix t rt assume n: "new_rtable (u_ctx s) = Some t" "the_rt (u_ctx s) t = Some rt"
  note i = tabs_invD(1) [OF inv]
  show "\<exists>c. (if length tokens < 3 then Some (u_ctx s)
      else Option.bind (trash_entry (tokens ! 1) (word_of_int (atoi (tokens ! 2))) (u_ctx s)) count_update) = Some c \<and> builds t (u_ctx s) c"
  proof (cases "length tokens < 3")
    case True
    then show ?thesis using builds_refl [OF i, of t] n by simp
  next
    case False
    then have "build_rt_key (sint (word_of_int (atoi (tokens ! 2)) :: u32)) (atoi (clip (tokens ! 1))) \<noteq> 0"
      using k by (simp add: names_key_def)
    then obtain c where "trash_entry (tokens ! 1) (word_of_int (atoi (tokens ! 2))) (u_ctx s) = Some c" "builds t (u_ctx s) c"
      by (rule trash_entry_ok [OF i n]) blast
    then show ?thesis using False count_update_ok n(1) by simp
  qed
qed

lemma rec_mse_ok:
  assumes inv: "tabs_inv (u_ctx s)" and k: "length tokens < 4 \<or> names_key (tokens ! 1) (atoi (tokens ! 2)) \<noteq> 0"
  shows "\<exists>s'. rec_mse resolve tokens s = Some s' \<and> rec_step (u_ctx s) (u_ctx s')"
  unfolding rec_mse_def
proof (rule on_new_rt_ok [OF inv])
  fix t rt assume n: "new_rtable (u_ctx s) = Some t" "the_rt (u_ctx s) t = Some rt"
  note i = tabs_invD(1) [OF inv]
  show "\<exists>c. (if length tokens < 4 then Some (u_ctx s)
      else Option.bind (build_entry resolve (tokens ! 1) (word_of_int (atoi (tokens ! 2))) (tokens ! 3) (u_ctx s)) count_update) = Some c
      \<and> builds t (u_ctx s) c"
  proof (cases "length tokens < 4")
    case True
    then show ?thesis using builds_refl [OF i, of t] n by simp
  next
    case False
    then have "build_rt_key (sint (word_of_int (atoi (tokens ! 2)) :: u32)) (atoi (clip (tokens ! 1))) \<noteq> 0"
      using k by (simp add: names_key_def)
    then obtain c where "build_entry resolve (tokens ! 1) (word_of_int (atoi (tokens ! 2))) (tokens ! 3) (u_ctx s) = Some c" "builds t (u_ctx s) c"
      by (rule build_entry_ok [OF i n]) blast
    then show ?thesis using False count_update_ok n(1) by simp
  qed
qed

lemma rec_rte_ok:
  assumes inv: "tabs_inv (u_ctx s)" and l: "new_rtable (u_ctx s) \<noteq> None \<Longrightarrow> 3 \<le> length tokens"
    and k: "new_rtable (u_ctx s) \<noteq> None \<Longrightarrow> names_key (tokens ! 1) (if length tokens > 3 then atoi (tokens ! 3) else UNSET_SUBID) \<noteq> 0"
  shows "\<exists>s'. rec_rte resolve tokens s = Some s' \<and> rec_step (u_ctx s) (u_ctx s')"
  unfolding rec_rte_def
proof (rule on_new_rt_ok [OF inv])
  fix t rt assume n: "new_rtable (u_ctx s) = Some t" "the_rt (u_ctx s) t = Some rt"
  let ?sub = "if length tokens > 3 then atoi (tokens ! 3) else UNSET_SUBID"
  have "builds t (u_ctx s) (u_ctx s)" using builds_refl [OF tabs_invD(1) [OF inv], of t] n by simp
  from count_update_ok [OF this n(1)] obtain c1 where c1: "count_update (u_ctx s) = Some c1" "builds t (u_ctx s) c1" by blast
  obtain rt1 where b: "rt_inv c1" "new_rtable c1 = Some t" "the_rt c1 t = Some rt1" using builds_live [OF c1(2)] n(1) by auto
  have "build_rt_key (sint (word_of_int ?sub :: u32)) (atoi (clip (tokens ! 1))) \<noteq> 0" using k n(1) by (simp add: names_key_def)
  then obtain c where c: "build_entry resolve (tokens ! 1) (word_of_int ?sub) (tokens ! 2) c1 = Some c" "builds t c1 c"
    by (rule build_entry_ok [OF b]) blast
  show "\<exists>c. Option.bind (count_update (u_ctx s)) (\<lambda>ctx1. if length tokens < 3 then None
      else if length tokens > 3 then build_entry resolve (tokens ! 1) (word_of_int (atoi (tokens ! 3))) (tokens ! 2) ctx1
      else build_entry resolve (tokens ! 1) (word_of_int UNSET_SUBID) (tokens ! 2) ctx1) = Some c \<and> builds t (u_ctx s) c"
    using c builds_trans [OF c1(2) c(2)] l n(1) by (simp add: c1(1) split: if_splits)
qed


lemma rec_newrt_ok:
  assumes inv: "tabs_inv (u_ctx s)" and l: "2 \<le> length tokens"
    and e: "clip (tokens ! 1) = ''end'' \<Longrightarrow> 2 < length tokens \<Longrightarrow> new_rtable (u_ctx s) \<noteq> None"
    and w: "clip (tokens ! 1) \<noteq> ''end'' \<Longrightarrow> \<not> undrained (u_ctx s)"
  shows "\<exists>s'. rec_newrt deliver tokens s = Some s' \<and> rec_step (u_ctx s) (u_ctx s')"
proof (cases "clip (tokens ! 1) = ''end''")
  case True
  have "\<exists>s'. rt_finish deliver rt_updates missing_reason (nth_tok tokens 2)
      (\<lambda>c. c\<lparr>rtable_ready := True, c_flags := c_flags c OR CFL_FULLRT\<rparr>) s = Some s' \<and> rec_step (u_ctx s) (u_ctx s')"
    using e [OF True] by (intro rt_finish_ok [OF inv]) (auto simp: nth_tok_def split: if_splits)
  then show ?thesis using True l by (simp add: rec_newrt_def nth_tok_def [of tokens "Suc 0"])
next
  case False
  obtain s' where "rt_start deliver False (\<lambda>_. map_option clip (nth_tok tokens 2)) (\<lambda>rt. rt\<lparr>rt_updates := 0\<rparr>) s = Some s'"
    "rec_step (u_ctx s) (u_ctx s')"
    by (rule rt_start_ok [OF inv w [OF False], of "\<lambda>rt. rt\<lparr>rt_updates := 0\<rparr>" deliver False
      "\<lambda>_. map_option clip (nth_tok tokens 2)"]) auto
  then show ?thesis using False l by (simp add: rec_newrt_def nth_tok_def [of tokens "Suc 0"])
qed

lemma rec_update_ok:
  assumes inv: "tabs_inv (u_ctx s)" and l: "c_flags (u_ctx s) AND CFL_FULLRT \<noteq> 0 \<Longrightarrow> 2 \<le> length tokens"
    and w: "c_flags (u_ctx s) AND CFL_FULLRT \<noteq> 0 \<Longrightarrow> clip (tokens ! 1) \<noteq> ''end'' \<Longrightarrow> \<not> undrained (u_ctx s)"
  shows "\<exists>s'. rec_update deliver junk tokens s = Some s' \<and> rec_step (u_ctx s) (u_ctx s')"
proof (cases "c_flags (u_ctx s) AND CFL_FULLRT = 0")
  case True
  then show ?thesis using rec_step_refl [OF inv] by (simp add: rec_update_def)
next
  case full: False
  let ?id = "\<lambda>old. case nth_tok tokens 2 of Some i \<Rightarrow> Some (clip i) | None \<Rightarrow> old"
  show ?thesis
  proof (cases "clip (tokens ! 1) = ''end''")
    case True
    have "\<exists>s'. rt_finish deliver rt_updates (\<lambda>_ _. junk) (nth_tok tokens 2) (\<lambda>c. c\<lparr>rtable_ready := True\<rparr>) s = Some s'
        \<and> rec_step (u_ctx s) (u_ctx s')" if "new_rtable (u_ctx s) \<noteq> None"
      using that by (intro rt_finish_ok [OF inv]) auto
    then show ?thesis using True full l rec_step_refl [OF inv] by (cases "new_rtable (u_ctx s)") (auto simp: rec_update_def nth_tok_def [of tokens "Suc 0"])
  next
    case False
    obtain s' where "rt_start deliver True ?id (\<lambda>rt. rt\<lparr>rt_updates := 0\<rparr>) s = Some s'" "rec_step (u_ctx s) (u_ctx s')"
      by (rule rt_start_ok [OF inv w [OF full False], of "\<lambda>rt. rt\<lparr>rt_updates := 0\<rparr>" deliver True ?id]) auto
    then show ?thesis using False full l by (simp add: rec_update_def nth_tok_def [of tokens "Suc 0"])
  qed
qed

lemma meid_rec_ok:
  assumes inv: "tabs_inv (u_ctx s)" and n: "new_rtable (u_ctx s) = Some t" and c: "f (u_ctx s) = Some c" "builds t (u_ctx s) c"
  shows "\<exists>s'. map_option (\<lambda>c. s\<lparr>u_ctx := c\<rparr>) (Option.bind (f (u_ctx s)) (upd_new_rt (\<lambda>rt. rt\<lparr>rt_mupdates := rt_mupdates rt + 1\<rparr>))) = Some s'
    \<and> rec_step (u_ctx s) (u_ctx s')"
proof -
  obtain rt where b: "rt_inv c" "new_rtable c = Some t" "the_rt c t = Some rt" using builds_live [OF c(2)] n by auto
  obtain c' where c': "upd_new_rt (\<lambda>rt. rt\<lparr>rt_mupdates := rt_mupdates rt + 1\<rparr>) c = Some c'" "builds t c c'"
    by (rule upd_new_rt_ok [OF b, of "\<lambda>rt. rt\<lparr>rt_mupdates := rt_mupdates rt + 1\<rparr>"]) auto
  then show ?thesis using c rec_step_builds [OF inv n builds_trans [OF c(2) c'(2)]] by simp
qed

lemma meid_parser_ok:
  assumes inv: "tabs_inv (u_ctx s)"
    and e: "2 < length tokens \<Longrightarrow> tokens ! 0 = ''meid_map'' \<Longrightarrow> clip (tokens ! 1) = ''end'' \<Longrightarrow> new_rtable (u_ctx s) \<noteq> None"
    and w: "2 \<le> length tokens \<Longrightarrow> tokens ! 0 = ''meid_map'' \<Longrightarrow> clip (tokens ! 1) \<noteq> [] \<Longrightarrow> hd (clip (tokens ! 1)) = CHR ''s'' \<Longrightarrow>
      \<not> undrained (u_ctx s)"
  shows "\<exists>s'. meid_parser resolve deliver tokens s = Some s' \<and> rec_step (u_ctx s) (u_ctx s')"
proof -
  let ?P = "\<lambda>r. \<exists>s'. r = Some s' \<and> rec_step (u_ctx s) (u_ctx s')"
  have stay: "?P (Some s)" using rec_step_refl [OF inv] by simp
  have start: "?P (rt_start deliver True (\<lambda>_. map_option clip (nth_tok tokens 2)) (\<lambda>rt. rt\<lparr>rt_mupdates := 0\<rparr>) s)"
    if "\<not> undrained (u_ctx s)"
    by (rule rt_start_ok [OF inv that, of "\<lambda>rt. rt\<lparr>rt_mupdates := 0\<rparr>" deliver True "\<lambda>_. map_option clip (nth_tok tokens 2)"]) auto
  have fin: "?P (rt_finish deliver rt_mupdates missing_reason (nth_tok tokens 2) (\<lambda>c. c) s)"
    if "tokens ! 0 = ''meid_map''" "clip (tokens ! 1) = ''end''"
    using e [OF _ that] by (intro rt_finish_ok [OF inv]) (auto simp: nth_tok_def split: if_splits)
  have ar: "?P (map_option (\<lambda>c. s\<lparr>u_ctx := c\<rparr>) (Option.bind (parse_meid_ar resolve t (tokens ! 1) (tokens ! 2) (u_ctx s))
      (upd_new_rt (\<lambda>rt. rt\<lparr>rt_mupdates := rt_mupdates rt + 1\<rparr>))))"
    and del: "?P (map_option (\<lambda>c. s\<lparr>u_ctx := c\<rparr>) (Option.bind (parse_meid_del t (tokens ! 1) (u_ctx s))
      (upd_new_rt (\<lambda>rt. rt\<lparr>rt_mupdates := rt_mupdates rt + 1\<rparr>))))"
    if n: "new_rtable (u_ctx s) = Some t" for t
  proof -
    obtain rt where rt: "the_rt (u_ctx s) t = Some rt" using tabs_invD(2) [OF inv, of t] n by auto
    note i = tabs_invD(1) [OF inv]
    obtain c where "parse_meid_ar resolve t (tokens ! 1) (tokens ! 2) (u_ctx s) = Some c" "builds t (u_ctx s) c"
      by (rule parse_meid_ar_ok [OF i rt]) blast
    then show "?P (map_option (\<lambda>c. s\<lparr>u_ctx := c\<rparr>) (Option.bind (parse_meid_ar resolve t (tokens ! 1) (tokens ! 2) (u_ctx s))
        (upd_new_rt (\<lambda>rt. rt\<lparr>rt_mupdates := rt_mupdates rt + 1\<rparr>))))" by (rule meid_rec_ok [OF inv n])
    obtain c where "parse_meid_del t (tokens ! 1) (u_ctx s) = Some c" "builds t (u_ctx s) c"
      by (rule parse_meid_del_ok [OF i rt]) blast
    then show "?P (map_option (\<lambda>c. s\<lparr>u_ctx := c\<rparr>) (Option.bind (parse_meid_del t (tokens ! 1) (u_ctx s))
        (upd_new_rt (\<lambda>rt. rt\<lparr>rt_mupdates := rt_mupdates rt + 1\<rparr>))))" by (rule meid_rec_ok [OF inv n])
  qed
  show ?thesis
  proof (cases "length tokens < 2")
    case False
    then show ?thesis
      unfolding meid_parser_def Let_def
      using stay start fin ar del w by (cases "new_rtable (u_ctx s)") (simp_all split del: if_split split: if_split)
  qed (use stay in \<open>simp add: meid_parser_def\<close>)
qed


text \<open>
  The records the parser gets through: they have the fields the code reads without looking, an end
  record that gives a count comes while a table is under construction, a start record does
  not have to wait for readers, and no record names the entry of message type 0 and subscription 0.
\<close>

definition rec_safe :: "string \<Rightarrow> uta_ctx \<Rightarrow> bool" where
  "rec_safe buf ctx =
     (let raw = uta_tokenise (Some (trim buf)) 128 (CHR ''|'');
          t0 = clip (hd raw); tokens = t0 # tl raw; n = length tokens;
          t1 = clip (tokens ! 1); building = (new_rtable ctx \<noteq> None)
      in if raw = [] \<or> t0 = [] then True
         else if hd t0 = CHR ''d'' then n < 3 \<or> names_key (tokens ! 1) (atoi (tokens ! 2)) \<noteq> 0
         else if hd t0 = CHR ''n'' then 2 \<le> n \<and> (if t1 = ''end'' then 2 < n \<longrightarrow> building else \<not> undrained ctx)
         else if hd t0 = CHR ''m'' then
           (if t0 = ''mse'' then n < 4 \<or> names_key (tokens ! 1) (atoi (tokens ! 2)) \<noteq> 0
            else if 2 \<le> n \<and> t0 = ''meid_map''
            then (t1 = ''end'' \<and> 2 < n \<longrightarrow> building) \<and> (t1 \<noteq> [] \<and> hd t1 = CHR ''s'' \<longrightarrow> \<not> undrained ctx)
            else True)
         else if hd t0 = CHR ''r'' then
           building \<longrightarrow> 3 \<le> n \<and> names_key (tokens ! 1) (if n > 3 then atoi (tokens ! 3) else UNSET_SUBID) \<noteq> 0
         else if hd t0 = CHR ''u'' then
           c_flags ctx AND CFL_FULLRT \<noteq> 0 \<longrightarrow> 2 \<le> n \<and> (t1 \<noteq> ''end'' \<longrightarrow> \<not> undrained ctx)
         else True)"

lemma parse_rt_rec_ok:
  assumes inv: "tabs_inv (u_ctx s)" and ok: "rec_safe buf (u_ctx s)"
  shows "\<exists>s'. parse_rt_rec resolve deliver junk buf s = Some s' \<and> rec_step (u_ctx s) (u_ctx s')"
proof -
  define raw where "raw = uta_tokenise (Some (trim buf)) 128 (CHR ''|'')"
  define t0 where "t0 = clip (hd raw)"
  define tokens where "tokens = t0 # tl raw"
  let ?P = "\<lambda>r. \<exists>s'. r = Some s' \<and> rec_step (u_ctx s) (u_ctx s')"
  have stay: "?P (Some s)" using rec_step_refl [OF inv] by simp
  have code: "parse_rt_rec resolve deliver junk buf s =
      (if raw = [] \<or> t0 = [] \<or> hd t0 = CHR ''#'' then Some s
       else if hd t0 = CHR ''d'' then rec_del tokens s
       else if hd t0 = CHR ''n'' then rec_newrt deliver tokens s
       else if hd t0 = CHR ''m'' then (if t0 = ''mse'' then rec_mse resolve tokens s else meid_parser resolve deliver tokens s)
       else if hd t0 = CHR ''r'' then rec_rte resolve tokens s
       else if hd t0 = CHR ''u'' then rec_update deliver junk tokens s else Some s)"
    by (simp add: parse_rt_rec_def raw_def t0_def tokens_def Let_def)
  note ok = ok [unfolded rec_safe_def Let_def, folded raw_def, folded t0_def, folded tokens_def]
  have z: "tokens ! 0 = t0" by (simp add: tokens_def)
  consider "raw = [] \<or> t0 = [] \<or> hd t0 = CHR ''#''" | "raw \<noteq> []" "t0 \<noteq> []" "hd t0 = CHR ''d''" | "raw \<noteq> []" "t0 \<noteq> []" "hd t0 = CHR ''n''"
    | "raw \<noteq> []" "t0 \<noteq> []" "hd t0 = CHR ''m''" "t0 = ''mse''" | "raw \<noteq> []" "t0 \<noteq> []" "hd t0 = CHR ''m''" "t0 \<noteq> ''mse''"
    | "raw \<noteq> []" "t0 \<noteq> []" "hd t0 = CHR ''r''" | "raw \<noteq> []" "t0 \<noteq> []" "hd t0 = CHR ''u''"
    | "raw \<noteq> []" "t0 \<noteq> []" "hd t0 \<notin> set ''#dnmru''" by force
  then show ?thesis
  proof cases
    case 2
    then show ?thesis using ok code rec_del_ok [OF inv, of tokens] by simp
  next
    case 3
    then show ?thesis using ok code rec_newrt_ok [OF inv, of tokens deliver] by (simp split: if_splits)
  next
    case 4
    then show ?thesis using ok code rec_mse_ok [OF inv, of tokens resolve] by simp
  next
    case 5
    then show ?thesis using ok code meid_parser_ok [OF inv, of tokens resolve deliver] by (auto simp: z split: if_splits)
  next
    case 6
    then show ?thesis using ok code rec_rte_ok [OF inv, of tokens resolve] by simp
  next
    case 7
    then show ?thesis using ok code rec_update_ok [OF inv, of tokens deliver junk] by simp
  qed (use stay code in auto)
qed

end
