(* ===== verification/RouteSys.thy ===== *)
theory RouteSys
  imports ParserInv
begin

text \<open>
  The route tables as a system: the collector that handles records, and any number of senders that
  take the active table, look entries up, select endpoints and release the table, in any order.
  One step is one record or one call of a sender; what the code does under a lock is one step.
\<close>

subsection \<open>Sequences of guarded steps\<close>

fun run_steps :: "('e \<Rightarrow> 's \<Rightarrow> 's option) \<Rightarrow> 'e list \<Rightarrow> 's \<Rightarrow> 's option" where
  "run_steps step [] s = Some s"
| "run_steps step (e # es) s = Option.bind (step e s) (run_steps step es)"

text \<open>Every step that is reached meets its guard.\<close>

fun safe_run :: "('e \<Rightarrow> 's \<Rightarrow> 's option) \<Rightarrow> ('e \<Rightarrow> 's \<Rightarrow> bool) \<Rightarrow> 'e list \<Rightarrow> 's \<Rightarrow> bool" where
  "safe_run step ok [] s = True"
| "safe_run step ok (e # es) s = (ok e s \<and> (case step e s of None \<Rightarrow> True | Some s' \<Rightarrow> safe_run step ok es s'))"

locale guarded_steps =
  fixes step :: "'e \<Rightarrow> 's \<Rightarrow> 's option"
    and ok :: "'e \<Rightarrow> 's \<Rightarrow> bool"
    and sinv :: "'s \<Rightarrow> bool"
    and change :: "'s \<Rightarrow> 's \<Rightarrow> bool"
  assumes step_runs: "sinv s \<Longrightarrow> ok e s \<Longrightarrow> \<exists>s'. step e s = Some s'"
    and step_inv: "sinv s \<Longrightarrow> ok e s \<Longrightarrow> step e s = Some s' \<Longrightarrow> sinv s'"
    and step_change: "sinv s \<Longrightarrow> ok e s \<Longrightarrow> step e s = Some s' \<Longrightarrow> change s s'"
begin

lemma run_ok: "sinv s \<Longrightarrow> safe_run step ok es s \<Longrightarrow> \<exists>s'. run_steps step es s = Some s' \<and> sinv s'"
proof (induction es arbitrary: s)
  case (Cons e es)
  then obtain s1 where "step e s = Some s1" using step_runs by fastforce
  with Cons step_inv show ?case by fastforce
qed simp

lemma run_changes:
  assumes "sinv s" "safe_run step ok es s" "run_steps step es s = Some s'"
  shows "change\<^sup>*\<^sup>* s s'"
  using assms
proof (induction es arbitrary: s)
  case (Cons e es)
  then obtain s1 where s1: "step e s = Some s1" using step_runs by fastforce
  then have "change s s1" "sinv s1" using Cons.prems step_change step_inv by auto
  with Cons s1 show ?case by (auto intro: converse_rtranclp_into_rtranclp)
qed simp

end

interpretation recs: guarded_steps "parse_rt_rec resolve deliver junk" "\<lambda>buf s. rec_safe buf (u_ctx s)"
    "\<lambda>s. tabs_inv (u_ctx s)" "\<lambda>s s'. rec_step (u_ctx s) (u_ctx s')" for resolve deliver junk
proof unfold_locales
  fix s :: rtc_state and buf s'
  assume a: "tabs_inv (u_ctx s)" "rec_safe buf (u_ctx s)"
  note ok = parse_rt_rec_ok [OF a, of resolve deliver junk]
  then show "\<exists>s'. parse_rt_rec resolve deliver junk buf s = Some s'" by blast
  assume "parse_rt_rec resolve deliver junk buf s = Some s'"
  with ok have "rec_step (u_ctx s) (u_ctx s')" by simp
  then show "rec_step (u_ctx s) (u_ctx s')" "tabs_inv (u_ctx s')" by (simp_all add: rec_step_def)
qed

lemma parse_recs_run: "parse_recs resolve deliver junk bs s = run_steps (parse_rt_rec resolve deliver junk) bs s"
proof (induction bs arbitrary: s)
  case (Cons b bs)
  then show ?case by (cases "parse_rt_rec resolve deliver junk b s") simp_all
qed simp


subsection \<open>Senders and the collector\<close>

text \<open>\<open>holders\<close> lists the tables taken and not yet released, once for each time.\<close>

record rt_system =
  sys :: rtc_state
  holders :: "nat list"

definition sys_set :: "uta_ctx \<Rightarrow> nat list \<Rightarrow> rt_system \<Rightarrow> rt_system" where
  "sys_set c hs x = x\<lparr>sys := (sys x)\<lparr>u_ctx := c\<rparr>, holders := hs\<rparr>"

inductive route_step :: "(string \<Rightarrow> u32 option) \<Rightarrow> (string \<Rightarrow> int) \<Rightarrow> string \<Rightarrow> (string \<Rightarrow> int) \<Rightarrow> rt_system \<Rightarrow> rt_system \<Rightarrow> bool"
  for resolve deliver junk connect where
  record_step: "rec_safe buf (u_ctx (sys x)) \<Longrightarrow> parse_rt_rec resolve deliver junk buf (sys x) = Some s' \<Longrightarrow>
    route_step resolve deliver junk connect x (x\<lparr>sys := s'\<rparr>)"
| take_step: "get_rt (u_ctx (sys x)) = (Some t, c) \<Longrightarrow>
    route_step resolve deliver junk connect x (sys_set c (t # holders x) x)"
| release_step: "t \<in> set (holders x) \<Longrightarrow>
    route_step resolve deliver junk connect x (sys_set (release_rt (Some t) (u_ctx (sys x))) (remove1 t (holders x)) x)"
| lookup_step: "t \<in> set (holders x) \<Longrightarrow> build_rt_key sid mtype \<noteq> 0 \<Longrightarrow> uta_get_rte (Some t) sid mtype True (u_ctx (sys x)) = (v, c) \<Longrightarrow>
    route_step resolve deliver junk connect x (sys_set c (holders x) x)"
| owner_step: "t \<in> set (holders x) \<Longrightarrow> get_meid_owner (Some t) meid (u_ctx (sys x)) = (v, c) \<Longrightarrow>
    route_step resolve deliver junk connect x (sys_set c (holders x) x)"
| select_step: "t \<in> set (holders x) \<Longrightarrow> tlook (u_ctx (sys x)) t (NumKey k) = Some (RteRef i) \<Longrightarrow>
    uta_epsock_rr connect i grp (u_ctx (sys x)) = Some (r, c) \<Longrightarrow>
    route_step resolve deliver junk connect x (sys_set c (holders x) x)"

inductive_cases route_stepE: "route_step resolve deliver junk connect x y"

definition sys_inv :: "rt_system \<Rightarrow> bool" where
  "sys_inv x = (tabs_inv (u_ctx (sys x)) \<and>
     (\<forall>t rt. the_rt (u_ctx (sys x)) t = Some rt \<longrightarrow> rt_count rt = int (count_list (holders x) t)) \<and>
     (\<forall>t\<in>set (holders x). the_rt (u_ctx (sys x)) t \<noteq> None))"

lemma sys_invD:
  assumes "sys_inv x"
  shows "tabs_inv (u_ctx (sys x))" "the_rt (u_ctx (sys x)) t = Some rt \<Longrightarrow> rt_count rt = int (count_list (holders x) t)"
    "t \<in> set (holders x) \<Longrightarrow> \<exists>rt. the_rt (u_ctx (sys x)) t = Some rt \<and> rt_count rt > 0"
proof -
  show "tabs_inv (u_ctx (sys x))" and c: "the_rt (u_ctx (sys x)) t = Some rt \<Longrightarrow> rt_count rt = int (count_list (holders x) t)" for rt
    using assms by (auto simp: sys_inv_def)
  assume t: "t \<in> set (holders x)"
  then obtain rt where rt: "the_rt (u_ctx (sys x)) t = Some rt" using assms by (auto simp: sys_inv_def)
  moreover have "count_list (holders x) t \<noteq> 0" using t by (simp add: count_list_0_iff)
  ultimately show "\<exists>rt. the_rt (u_ctx (sys x)) t = Some rt \<and> rt_count rt > 0" using c [OF rt] by auto
qed

text \<open>A table with readers is not the one under construction.\<close>

lemma holder_not_new:
  assumes "sys_inv x" "t \<in> set (holders x)"
  shows "new_rtable (u_ctx (sys x)) \<noteq> Some t" "held (u_ctx (sys x)) t"
  using sys_invD(3) [OF assms] tabs_invD(5) [OF sys_invD(1) [OF assms(1)], of t] by (auto simp: held_def)

lemma sys_inv_record:
  assumes inv: "sys_inv x" and ok: "rec_safe buf (u_ctx (sys x))" and r: "parse_rt_rec resolve deliver junk buf (sys x) = Some s'"
  shows "sys_inv (x\<lparr>sys := s'\<rparr>)" "t \<in> set (holders x) \<Longrightarrow> the_rt (u_ctx s') t = the_rt (u_ctx (sys x)) t"
proof -
  let ?c = "u_ctx (sys x)"
  have "rec_step ?c (u_ctx s')" by (rule recs.step_change [OF sys_invD(1) [OF inv] ok r])
  then have s: "tabs_inv (u_ctx s')" "isolates ?c (u_ctx s')" "readers_kept ?c (u_ctx s')" by (auto simp: rec_step_def)
  show k: "the_rt (u_ctx s') t = the_rt ?c t" if t: "t \<in> set (holders x)" for t
    using s(2) holder_not_new(2) [OF inv t] sys_invD(3) [OF inv t] by (auto simp: isolates_def)
  have "rt_count rt = int (count_list (holders x) t)" if rt: "the_rt (u_ctx s') t = Some rt" for t rt
  proof (cases "t \<in> set (holders x)")
    case True
    then show ?thesis using k [OF True] rt sys_invD(2) [OF inv] by simp
  next
    case False
    then have z: "count_list (holders x) t = 0" by simp
    have "rt_count rt = 0 \<or> (\<exists>r. the_rt ?c t = Some r \<and> rt_count r = rt_count rt)" using s(3) rt by (simp add: readers_kept_def)
    then show ?thesis using sys_invD(2) [OF inv, of t] z by auto
  qed
  then show "sys_inv (x\<lparr>sys := s'\<rparr>)" using s(1) k sys_invD(3) [OF inv] by (fastforce simp: sys_inv_def)
qed

text \<open>Replacing a table that is not under construction, with the same entries.\<close>

lemma tabs_inv_set:
  assumes inv: "tabs_inv ctx" and rt: "the_rt ctx t = Some rt" and n: "new_rtable ctx \<noteq> Some t"
    and rt': "hash_ok (rt_hash rt')" "\<And>k. sym_lookup (rt_hash rt') (NumKey k) = sym_lookup (rt_hash rt) (NumKey k)"
      "rt_error rt' = rt_error rt" "0 \<le> rt_count rt'"
  shows "tabs_inv (set_rt t (Some rt') ctx)"
  unfolding tabs_inv_def
proof (intro conjI allI impI)
  note d = tabs_invD [OF inv]
  let ?c = "set_rt t (Some rt') ctx"
  have t: "the_rt ?c u = (if u = t then Some rt' else the_rt ctx u)" for u using rt by (simp add: the_rt_set)
  show "rt_inv ?c" by (rule rt_inv_set_same [OF d(1) rt rt'(1,2)])
  show "(the_rt ?c u \<noteq> None) = (Some u \<in> {rtable ?c, old_rtable ?c, new_rtable ?c})" for u
    using d(2) [of u] rt by (auto simp: t)
  show "\<not> rt_error r" if "the_rt ?c u = Some r" for u r using that d(5) [of u r] d(5) [OF rt] rt'(3) by (auto simp: t split: if_splits)
  show "0 \<le> rt_count r" if "the_rt ?c u = Some r" for u r using that d(5) [of u r] rt'(4) by (auto simp: t split: if_splits)
  show "rt_count r = 0" if "the_rt ?c u = Some r" "new_rtable ?c = Some u" for u r
    using that d(5) [of u r] n by (auto simp: t split: if_splits)
qed (use tabs_invD(3,4) [OF inv] in auto)

text \<open>A step that leaves the tables as they are but for one, with the same entries and managed elements.\<close>

lemma sys_inv_set:
  assumes inv: "sys_inv x" and rt: "the_rt (u_ctx (sys x)) t = Some rt" and n: "new_rtable (u_ctx (sys x)) \<noteq> Some t"
    and rt': "hash_ok (rt_hash rt')" "sym_lookup (rt_hash rt') = sym_lookup (rt_hash rt)" "rt_error rt' = rt_error rt"
      "rt_count rt' = int (count_list hs t)"
    and hs: "\<And>u. u \<noteq> t \<Longrightarrow> count_list hs u = count_list (holders x) u"
  shows "sys_inv (sys_set (set_rt t (Some rt') (u_ctx (sys x))) hs x)"
    "tlook (set_rt t (Some rt') (u_ctx (sys x))) u = tlook (u_ctx (sys x)) u"
proof -
  let ?c = "set_rt t (Some rt') (u_ctx (sys x))"
  have t: "the_rt ?c u = (if u = t then Some rt' else the_rt (u_ctx (sys x)) u)" for u using rt by (simp add: the_rt_set)
  then show "tlook ?c u = tlook (u_ctx (sys x)) u" using rt rt'(2) by (auto simp: tlook_def fun_eq_iff)
  have "tabs_inv ?c" by (rule tabs_inv_set [OF sys_invD(1) [OF inv] rt n rt'(1)]) (simp_all add: rt'(2-4))
  moreover have "rt_count r = int (count_list hs u)" if "the_rt ?c u = Some r" for u r
    using that sys_invD(2) [OF inv, of u r] rt'(4) hs [of u] by (auto simp: t split: if_splits)
  moreover have "the_rt ?c u \<noteq> None" if "u \<in> set hs" for u
  proof (cases "u = t")
    case False
    then have "u \<in> set (holders x)" using hs [OF False] that by (metis count_list_0_iff)
    then show ?thesis using sys_invD(3) [OF inv] False by (auto simp: t)
  qed (simp add: t)
  ultimately show "sys_inv (sys_set ?c hs x)" by (simp add: sys_inv_def sys_set_def)
qed


lemma count_list_remove1: "count_list (remove1 t hs) u = (if u = t then count_list hs u - 1 else count_list hs u)"
  by (induction hs) auto

text \<open>The effect of each call of a sender: one table gets another number of readers or other use counts.\<close>

lemma get_rt_some:
  assumes "get_rt ctx = (Some t, c)"
  obtains rt where "rtable ctx = Some t" "the_rt ctx t = Some rt" "c = set_rt t (Some (rt\<lparr>rt_count := rt_count rt + 1\<rparr>)) ctx"
  using assms by (auto simp: get_rt_def split: option.splits Option.bind_splits)

lemma alt_key_nonzero: "build_rt_key UNSET_SUBID mtype \<noteq> 0"
proof
  assume "build_rt_key UNSET_SUBID mtype = 0"
  from arg_cong [OF this, of "\<lambda>w. bit w 32"] have "\<not> bit (0xffffffff00000000 OR word_of_int mtype :: u64) 32"
    by (simp add: build_rt_key_def)
  moreover have "bit (0xffffffff00000000 :: u64) 32" by simp
  ultimately show False by (simp add: bit_or_iff)
qed

lemma uta_get_rte_ok:
  assumes rt: "the_rt ctx t = Some rt" and h: "hash_ok (rt_hash rt)" and k: "build_rt_key sid mtype \<noteq> 0"
  obtains h' where "uta_get_rte (Some t) sid mtype try_alt ctx =
      ((case sym_lookup (rt_hash rt) (NumKey (build_rt_key sid mtype)) of
          Some v \<Rightarrow> Some v
        | None \<Rightarrow> if try_alt \<and> sid \<noteq> UNSET_SUBID then sym_lookup (rt_hash rt) (NumKey (build_rt_key UNSET_SUBID mtype)) else None),
       set_rt t (Some (rt\<lparr>rt_hash := h'\<rparr>)) ctx)"
    "hash_ok h'" "sym_lookup h' = sym_lookup (rt_hash rt)"
proof -
  obtain v h1 where p: "rmr_sym_pull (rt_hash rt) (build_rt_key sid mtype) = (v, h1)" by fastforce
  have h1: "hash_ok h1" "v = sym_lookup (rt_hash rt) (NumKey (build_rt_key sid mtype))" "sym_lookup h1 = sym_lookup (rt_hash rt)"
    using hash_ok_get [OF h num_key_plain [OF k]] p by (simp_all add: rmr_sym_pull_def)
  obtain v2 h2 where p2: "rmr_sym_pull h1 (build_rt_key UNSET_SUBID mtype) = (v2, h2)" by fastforce
  have h2: "hash_ok h2" "v2 = sym_lookup (rt_hash rt) (NumKey (build_rt_key UNSET_SUBID mtype))" "sym_lookup h2 = sym_lookup (rt_hash rt)"
    using hash_ok_get [OF h1(1) num_key_plain [OF alt_key_nonzero [of mtype]]] p2 by (simp_all add: rmr_sym_pull_def h1(3))
  let ?alt = "v = None \<and> try_alt \<and> sid \<noteq> UNSET_SUBID"
  have "uta_get_rte (Some t) sid mtype try_alt ctx =
      ((case v of Some w \<Rightarrow> Some w | None \<Rightarrow> if try_alt \<and> sid \<noteq> UNSET_SUBID then v2 else None),
       set_rt t (Some (rt\<lparr>rt_hash := if ?alt then h2 else h1\<rparr>)) ctx)"
    by (auto simp: uta_get_rte_def rt p p2 set_hash_set_rt split: option.split)
  moreover have "hash_ok (if ?alt then h2 else h1)" "sym_lookup (if ?alt then h2 else h1) = sym_lookup (rt_hash rt)"
    using h1 h2 by simp_all
  ultimately show thesis unfolding h1(2) h2(2) by (rule that)
qed

lemma get_meid_owner_ok:
  assumes rt: "the_rt ctx t = Some rt" and h: "hash_ok (rt_hash rt)"
  obtains h' where "get_meid_owner (Some t) meid ctx =
      (if meid = [] then None else sym_lookup (rt_hash rt) (StrKey meid RT_ME_SPACE), set_rt t (Some (rt\<lparr>rt_hash := h'\<rparr>)) ctx)"
    "hash_ok h'" "sym_lookup h' = sym_lookup (rt_hash rt)"
proof (cases "meid = []")
  case True
  then show thesis using that [of "rt_hash rt"] rt h by (simp add: get_meid_owner_def set_rt_same)
next
  case False
  obtain v h1 where p: "rmr_sym_get (rt_hash rt) (StrKey meid RT_ME_SPACE) = (v, h1)" by fastforce
  then show thesis using that [of h1] hash_ok_get [OF h str_key_plain, of meid] False rt
    by (simp add: get_meid_owner_def set_hash_set_rt)
qed

lemma ep_socket_frame: "\<exists>a b. snd (ep_socket m connect e ctx) = ctx\<lparr>eps := a, fd2ep := b\<rparr>"
proof -
  have u: "\<exists>a b. upd_ep e f c = ctx\<lparr>eps := a, fd2ep := b\<rparr>" "\<exists>a b. fd2ep_add fd e' c = ctx\<lparr>eps := a, fd2ep := b\<rparr>"
    if ex: "\<exists>a b. c = ctx\<lparr>eps := a, fd2ep := b\<rparr>" for c f fd e'
  proof -
    obtain a b where c: "c = ctx\<lparr>eps := a, fd2ep := b\<rparr>" using ex by blast
    have "upd_ep e f c = ctx\<lparr>eps := a[e := f (a ! e)], fd2ep := b\<rparr>" by (simp add: upd_ep_def c)
    then show "\<exists>a b. upd_ep e f c = ctx\<lparr>eps := a, fd2ep := b\<rparr>" by blast
    show "\<exists>a b. fd2ep_add fd e' c = ctx\<lparr>eps := a, fd2ep := b\<rparr>" by (auto simp: fd2ep_add_def c)
  qed
  have z: "\<exists>a b. ctx = ctx\<lparr>eps := a, fd2ep := b\<rparr>" by (rule exI [of _ "eps ctx"], rule exI [of _ "fd2ep ctx"]) simp
  have l: "\<exists>a b. snd (uta_link2 connect (Some e) c) = ctx\<lparr>eps := a, fd2ep := b\<rparr>" if "\<exists>a b. c = ctx\<lparr>eps := a, fd2ep := b\<rparr>" for c
    unfolding uta_link2_def Let_def using u that by (simp split: if_split)
  obtain ok c1 where c1: "uta_link2 connect (Some e) (upd_ep e ep_address ctx) = (ok, c1)" by fastforce
  have "\<exists>a b. c1 = ctx\<lparr>eps := a, fd2ep := b\<rparr>" using l [OF u(1) [OF z]] c1 by (metis snd_conv)
  then show ?thesis using z u by (simp add: ep_socket_def c1 Let_def)
qed

lemma uta_epsock_rr_frame:
  assumes "uta_epsock_rr connect i grp ctx = Some (r, c)"
  shows "\<exists>a b e e'. the_rte ctx i = Some e \<and> rte_key e' = rte_key e \<and> rte_refs e' = rte_refs e \<and>
    c = ctx\<lparr>eps := a, fd2ep := b, rtes := (rtes ctx)[i := Some e']\<rparr>"
proof -
  obtain e where e: "the_rte ctx i = Some e" using assms by (cases "the_rte ctx i") (auto simp: uta_epsock_rr_def)
  then have s: "(rtes ctx)[i := Some e] = rtes ctx" by (metis list_update_id option.distinct(1) the_rte_def)
  have stay: ?thesis if "c = ctx"
    using e s that by (intro exI [of _ "eps ctx"] exI [of _ "fd2ep ctx"] exI [of _ e]) simp
  have move: ?thesis if cc: "c = snd (ep_socket True connect p (ctx\<lparr>rtes := (rtes ctx)[i := Some (e\<lparr>rrgroups := gs\<rparr>)]\<rparr>))" for p gs
  proof -
    obtain a b where "c = (ctx\<lparr>rtes := (rtes ctx)[i := Some (e\<lparr>rrgroups := gs\<rparr>)]\<rparr>)\<lparr>eps := a, fd2ep := b\<rparr>"
      using ep_socket_frame [of True connect p "ctx\<lparr>rtes := (rtes ctx)[i := Some (e\<lparr>rrgroups := gs\<rparr>)]\<rparr>"] cc by blast
    then show ?thesis using e by (intro exI [of _ a] exI [of _ b] exI [of _ e] exI [of _ "e\<lparr>rrgroups := gs\<rparr>"]) simp
  qed
  have "c = ctx \<or> (\<exists>p gs. c = snd (ep_socket True connect p (ctx\<lparr>rtes := (rtes ctx)[i := Some (e\<lparr>rrgroups := gs\<rparr>)]\<rparr>)))"
  proof (cases "grp < 0 \<or> grp \<ge> int (length (rrgroups e)) \<or> rrgroups e ! nat grp = None \<or> epts (the (rrgroups e ! nat grp)) = []")
    case True
    then show ?thesis using assms e by (auto simp: uta_epsock_rr_def Let_def split: if_splits option.splits)
  next
    case False
    then obtain rrg where "rrgroups e ! nat grp = Some rrg" "epts rrg \<noteq> []" by auto
    then show ?thesis using assms e False by (auto simp: uta_epsock_rr_def Let_def split_beta split: option.splits)
  qed
  then show ?thesis using stay move by blast
qed


subsection \<open>Every step keeps the invariant\<close>

lemma sys_inv_hash:
  assumes inv: "sys_inv x" and t: "t \<in> set (holders x)" and rt: "the_rt (u_ctx (sys x)) t = Some rt"
    and h: "hash_ok h" "sym_lookup h = sym_lookup (rt_hash rt)"
  shows "sys_inv (sys_set (set_rt t (Some (rt\<lparr>rt_hash := h\<rparr>)) (u_ctx (sys x))) (holders x) x)"
    "tlook (set_rt t (Some (rt\<lparr>rt_hash := h\<rparr>)) (u_ctx (sys x))) u = tlook (u_ctx (sys x)) u"
  using sys_inv_set [OF inv rt holder_not_new(1) [OF inv t], of "rt\<lparr>rt_hash := h\<rparr>" "holders x"] h sys_invD(2) [OF inv rt]
  by simp_all

lemma sys_inv_entry:
  assumes inv: "sys_inv x" and e: "the_rte (u_ctx (sys x)) i = Some e" "rte_key e' = rte_key e" "rte_refs e' = rte_refs e"
    and c: "c = (u_ctx (sys x))\<lparr>eps := a, fd2ep := b, rtes := (rtes (u_ctx (sys x)))[i := Some e']\<rparr>"
  shows "sys_inv (sys_set c (holders x) x)" "tlook c u = tlook (u_ctx (sys x)) u"
proof -
  let ?c = "u_ctx (sys x)"
  have t: "the_rt c = the_rt ?c" by (rule tabs_cong) (simp add: c)
  have "rt_inv (?c\<lparr>eps := a, ephash := ephash ?c, rtes := (rtes ?c)[i := Some e']\<rparr>)" (is "rt_inv ?d")
    by (rule rt_inv_entry [OF tabs_invD(1) [OF sys_invD(1) [OF inv]] e])
  then have "rt_inv c" using rt_inv_cong [of c ?d] by (simp add: c)
  then have "tabs_inv c" using sys_invD(1) [OF inv] t by (simp add: tabs_inv_def c)
  then show "sys_inv (sys_set c (holders x) x)" using inv t by (simp add: sys_inv_def sys_set_def)
  show "tlook c u = tlook ?c u" by (simp add: tlook_def fun_eq_iff t)
qed

lemma route_step_ok:
  assumes "route_step resolve deliver junk connect x y" "sys_inv x"
  shows "sys_inv y" "t \<in> set (holders x) \<Longrightarrow> tlook (u_ctx (sys y)) t = tlook (u_ctx (sys x)) t"
proof -
  have "sys_inv y \<and> (\<forall>t\<in>set (holders x). tlook (u_ctx (sys y)) t = tlook (u_ctx (sys x)) t)"
    using assms(1)
  proof cases
    case (record_step buf s')
    then show ?thesis
      using sys_inv_record [OF assms(2)] by (auto simp: tlook_def fun_eq_iff)
  next
    case (take_step t c)
    obtain rt where rt: "rtable (u_ctx (sys x)) = Some t" "the_rt (u_ctx (sys x)) t = Some rt"
      "c = set_rt t (Some (rt\<lparr>rt_count := rt_count rt + 1\<rparr>)) (u_ctx (sys x))"
      by (rule get_rt_some [OF take_step(2)])
    have "new_rtable (u_ctx (sys x)) \<noteq> Some t" using tabs_invD(3) [OF sys_invD(1) [OF assms(2)] rt(1)] by simp
    note k = sys_inv_set [OF assms(2) rt(2) this, of "rt\<lparr>rt_count := rt_count rt + 1\<rparr>" "t # holders x", folded rt(3)]
    have "hash_ok (rt_hash rt)" by (rule rt_invD(1) [OF tabs_invD(1) [OF sys_invD(1) [OF assms(2)]] rt(2)])
    with k sys_invD(2) [OF assms(2) rt(2)] take_step(1) show ?thesis by (simp add: sys_set_def)
  next
    case (release_step t)
    obtain rt where rt: "the_rt (u_ctx (sys x)) t = Some rt" "rt_count rt > 0" using sys_invD(3) [OF assms(2) release_step(2)] by blast
    have c: "release_rt (Some t) (u_ctx (sys x)) = set_rt t (Some (rt\<lparr>rt_count := rt_count rt - 1\<rparr>)) (u_ctx (sys x))"
      using rt by (simp add: release_rt_def)
    have h: "hash_ok (rt_hash rt)" by (rule rt_invD(1) [OF tabs_invD(1) [OF sys_invD(1) [OF assms(2)]] rt(1)])
    have "rt_count rt - 1 = int (count_list (remove1 t (holders x)) t)"
      using sys_invD(2) [OF assms(2) rt(1)] rt(2) by (simp add: count_list_remove1)
    with h show ?thesis
      using sys_inv_set [OF assms(2) rt(1) holder_not_new(1) [OF assms(2) release_step(2)],
          of "rt\<lparr>rt_count := rt_count rt - 1\<rparr>" "remove1 t (holders x)"] release_step(1)
      by (simp add: c sys_set_def count_list_remove1)
  next
    case (lookup_step t sid mtype v c)
    obtain rt where rt: "the_rt (u_ctx (sys x)) t = Some rt" using sys_invD(3) [OF assms(2) lookup_step(2)] by blast
    have h: "hash_ok (rt_hash rt)" by (rule rt_invD(1) [OF tabs_invD(1) [OF sys_invD(1) [OF assms(2)]] rt])
    obtain h' where "c = set_rt t (Some (rt\<lparr>rt_hash := h'\<rparr>)) (u_ctx (sys x))" "hash_ok h'" "sym_lookup h' = sym_lookup (rt_hash rt)"
      by (rule uta_get_rte_ok [OF rt h lookup_step(3), of True]) (use lookup_step(4) in auto)
    then show ?thesis using sys_inv_hash [OF assms(2) lookup_step(2) rt] lookup_step(1) by (simp add: sys_set_def)
  next
    case (owner_step t meid v c)
    obtain rt where rt: "the_rt (u_ctx (sys x)) t = Some rt" using sys_invD(3) [OF assms(2) owner_step(2)] by blast
    have h: "hash_ok (rt_hash rt)" by (rule rt_invD(1) [OF tabs_invD(1) [OF sys_invD(1) [OF assms(2)]] rt])
    obtain h' where "c = set_rt t (Some (rt\<lparr>rt_hash := h'\<rparr>)) (u_ctx (sys x))" "hash_ok h'" "sym_lookup h' = sym_lookup (rt_hash rt)"
      by (rule get_meid_owner_ok [OF rt h, of meid]) (use owner_step(3) in auto)
    then show ?thesis using sys_inv_hash [OF assms(2) owner_step(2) rt] owner_step(1) by (simp add: sys_set_def)
  next
    case (select_step t k i grp r c)
    obtain a b e e' where "the_rte (u_ctx (sys x)) i = Some e" "rte_key e' = rte_key e" "rte_refs e' = rte_refs e"
      "c = (u_ctx (sys x))\<lparr>eps := a, fd2ep := b, rtes := (rtes (u_ctx (sys x)))[i := Some e']\<rparr>"
      using uta_epsock_rr_frame [OF select_step(4)] by blast
    then show ?thesis using sys_inv_entry [OF assms(2)] select_step(1) by (simp add: sys_set_def)
  qed
  then show "sys_inv y" "t \<in> set (holders x) \<Longrightarrow> tlook (u_ctx (sys y)) t = tlook (u_ctx (sys x)) t" by auto
qed

lemma route_steps_ok:
  assumes "(route_step resolve deliver junk connect)\<^sup>*\<^sup>* x y" "sys_inv x"
  shows "sys_inv y"
  using assms by (induction rule: rtranclp_induct) (auto intro: route_step_ok(1))

end
