(* ===== verification/Init.thy ===== *)
theory Init
  imports MtCall RouteSys
begin

text \<open>
  Setting up a context (\<open>init\<close> and \<open>rmr_init\<close> of \<^verbatim>\<open>si/src/rmr_si.c\<close>), and the state the other
  components start from.

  The environment variables the function reads, the name of the host, the addresses of its interfaces and
  whether the transport and its listener start are the argument \<open>init_env\<close>; memory is available. The
  result is \<open>Undef\<close> where the code reads through an invalid pointer. Starting the threads is the last
  component of the result: none, the collector that reads a file only, or the full one.
\<close>

record init_env =
  env_rtg_port :: "string option"
  env_src_id :: "string option"
  env_name_only :: "string option"
  env_warnings :: "string option"
  env_bind_if :: "string option"
  host_name :: "string option"
  host_ifs :: "if_addr list"
  si_starts :: bool
  si_listens :: bool

datatype collector_thread = NoCollector | FileCollector | FullCollector

abbreviation (input) RMRFL_NOTHREAD :: u32 where "RMRFL_NOTHREAD \<equiv> 1"
abbreviation (input) RMRFL_NAME_ONLY :: u32 where "RMRFL_NAME_ONLY \<equiv> 4"
abbreviation (input) RMRFL_NOLOCK :: u32 where "RMRFL_NOLOCK \<equiv> 8"
abbreviation (input) UFL_MASK :: u32 where "UFL_MASK \<equiv> 0xff"
abbreviation (input) CFL_WARN :: u32 where "CFL_WARN \<equiv> 4"
abbreviation (input) MAX_RIVERS :: nat where "MAX_RIVERS \<equiv> 1024"

text \<open>The port of \<^verbatim>\<open>proto:port\<close>, \<^verbatim>\<open>:port\<close> or \<^verbatim>\<open>port\<close>.\<close>

definition listen_port :: "string \<Rightarrow> string" where
  "listen_port proto_port =
     (if CHR '':'' \<in> set proto_port then tl (dropWhile (\<lambda>c. c \<noteq> CHR '':'') proto_port) else proto_port)"

text \<open>
  The name to use as the source, without its port. Of a bracketed address the code keeps all up to the
  bracket that closes it; there is no test that there is one.
\<close>

definition chop_src_id :: "string \<Rightarrow> string option" where
  "chop_src_id t =
     (if t \<noteq> [] \<and> hd t = CHR ''[''
      then (if CHR '']'' \<in> set t then Some (takeWhile (\<lambda>c. c \<noteq> CHR '']'') t @ [CHR '']'']) else None)
      else Some (takeWhile (\<lambda>c. c \<noteq> CHR '':'') t))"

definition own_host :: "init_env \<Rightarrow> (errno + string) outcome" where
  "own_host env = (case env_src_id env of
      Some t \<Rightarrow> (case chop_src_id t of None \<Rightarrow> Undef | Some n \<Rightarrow> Return (Inr (take (RMR_MAX_SRC - 1) n)))
    | None \<Rightarrow> (case host_name env of
        None \<Rightarrow> Return (Inl E0)
      | Some h \<Rightarrow> Return (Inr (takeWhile (\<lambda>c. c \<noteq> CHR ''.'') h))))"

definition own_flags :: "init_env \<Rightarrow> u32 \<Rightarrow> u32" where
  "own_flags env flags =
     (case env_name_only env of Some t \<Rightarrow> if atoi t > 0 then flags OR RMRFL_NAME_ONLY else flags | None \<Rightarrow> flags)"

text \<open>
  The context before anything can fail: everything not set is zero. The largest inbound message is the size
  asked for with room for the headers; the sum is one of \<^verbatim>\<open>size_t\<close> that is cut to an \<^verbatim>\<open>int\<close> (\<open>to_int32\<close>), so
  that it is negative for sizes of the last 398 values below \<open>2 ^ 31\<close>.
\<close>

definition zero_ctx :: "chute list \<Rightarrow> int \<Rightarrow> u32 \<Rightarrow> uta_ctx" where
  "zero_ctx old def_msg_size flags =
     (let mk = (\<lambda>sz. the (uta_mk_ring True True sz) :: mbuf ring);
          rlock = (\<lambda>r. snd (uta_ring_config True True r RING_RLOCK));
          wlock = (\<lambda>r. snd (uta_ring_config True True (snd (uta_ring_config True True r RING_WLOCK)) RING_FRLOCK));
          lock = (flags AND RMRFL_NOLOCK = 0)
      in init_mtcall old
         \<lparr>my_name = [], my_ip = [], max_plen = if def_msg_size > 0 then def_msg_size else 2048, trace_data_len = 0,
          d1_len = 4, d2_len = 0, zcb_mring = if lock then wlock (mk 128) else mk 128,
          mring = if lock then rlock (mk 4096) else mk 4096, chutes = [], dcount = 0, acc_dcount = 0, acc_ecount = 0,
          last_warning = 0, max_ibm = to_int32 (max 1024 def_msg_size + (int MHDR_SIZE + 4 + 0 + int TP_HDR_LEN + 64)),
          nrivers = int MAX_RIVERS, rivers = replicate MAX_RIVERS river_zero, river_hash = the (rmr_sym_alloc True 129),
          rx_heap = [], c_flags = 0, send_retries = 1, rtable_ready = False, eps = [],
          ephash = the (rmr_sym_alloc True 129), fd2ep = the (rmr_sym_alloc True 129), rtes = [], tabs = [],
          rtable = None, old_rtable = None, new_rtable = None, ip_list = None, seed_rt_fname = None, table_id = None,
          rtg_whid = 0, wormholes = None\<rparr>)"

definition bind_interface :: "init_env \<Rightarrow> string \<Rightarrow> string" where
  "bind_interface env ip = (case env_bind_if env of
      Some i \<Rightarrow> i
    | None \<Rightarrow> if ip \<noteq> [] \<and> hd ip = CHR ''['' then ''[::]'' else ''0.0.0.0'')"

definition init ::
    "init_env \<Rightarrow> chute list \<Rightarrow> string option \<Rightarrow> int \<Rightarrow> u32
      \<Rightarrow> (errno + uta_ctx \<times> string \<times> collector_thread) outcome" where
  "init env old uproto_port def_msg_size uflags =
     (let port = listen_port (case uproto_port of None \<Rightarrow> ''tcp:4560'' | Some p \<Rightarrow> p) in
      if \<not> si_starts env then Return (Inl E0)
      else case own_host env of
        Undef \<Rightarrow> Undef
      | NoFuel \<Rightarrow> NoFuel
      | Return (Inl e) \<Rightarrow> Return (Inl e)
      | Return (Inr host) \<Rightarrow>
         (let nm = host @ '':'' @ port in
          if length nm \<ge> RMR_MAX_SRC then Return (Inl EINVAL)
          else let flags = own_flags env uflags;
                   ips = mk_ip_list (env_bind_if env) (host_ifs env) port;
                   ip = (case get_default_ip (Some ips) of Some i \<Rightarrow> i | None \<Rightarrow> nm);
                   src_ip = (if flags AND RMRFL_NAME_ONLY \<noteq> 0 then nm else ip);
                   warn = (case env_warnings env of Some (c # _) \<Rightarrow> c = CHR ''1'' | _ \<Rightarrow> False);
                   bind_info = take 255 (bind_interface env ip @ '':'' @ port);
                   ctx = (zero_ctx old def_msg_size uflags)
                     \<lparr>my_name := str_bytes nm @ [0], my_ip := str_bytes src_ip @ [0], ip_list := Some ips,
                      c_flags := (if warn then CFL_WARN else 0) OR CFL_MTC_ENABLED\<rparr>
               in if \<not> si_listens env then Return (Inl E0)
                  else case rt_clone_space None None 0 ctx of
                    None \<Rightarrow> Undef
                  | Some (t, ctx1) \<Rightarrow>
                      Return (Inr (ctx1\<lparr>rtable := Some t, rtable_ready := (flags AND RMRFL_NOTHREAD \<noteq> 0)\<rparr>, bind_info,
                        if flags AND RMRFL_NOTHREAD \<noteq> 0 then NoCollector
                        else if (case env_rtg_port env of Some p \<Rightarrow> atoi p < 0 | None \<Rightarrow> False) then FileCollector
                        else FullCollector))))"

definition rmr_init ::
    "init_env \<Rightarrow> chute list \<Rightarrow> string option \<Rightarrow> int \<Rightarrow> u32
      \<Rightarrow> (errno + uta_ctx \<times> string \<times> collector_thread) outcome" where
  "rmr_init env old uproto_port def_msg_size flags = init env old uproto_port def_msg_size (flags AND UFL_MASK)"


subsection \<open>The state a context starts in\<close>

lemma rt_inv_no_entries:
  assumes "tabs ctx = [Some empty_rt]" "rtes ctx = []"
  shows "rt_inv ctx"
proof -
  have "tmap ctx t k = None" for t k
    using assms by (simp add: tmap_def empty_rt_def hash_ok_empty(2) nth_Cons split: nat.split)
  moreover have "kr ctx i = None" for i using assms by (simp add: kr_def)
  ultimately have "refs_ok (tmap ctx) (kr ctx)" by (simp add: refs_ok_def)
  moreover have "hash_ok (rt_hash rt)" if "the_rt ctx t = Some rt" for t rt
    using that assms by (auto simp: the_rt_def empty_rt_def hash_ok_empty(1) split: if_splits)
  ultimately show ?thesis by (simp add: rt_inv_def)
qed

lemma tabs_inv_first:
  assumes "tabs ctx = [Some empty_rt]" "rtes ctx = []" "rtable ctx = Some 0" "old_rtable ctx = None" "new_rtable ctx = None"
  shows "tabs_inv ctx"
proof -
  have t: "the_rt ctx t = (if t = 0 then Some empty_rt else None)" for t using assms(1) by (simp add: the_rt_def)
  show ?thesis using rt_inv_no_entries [OF assms(1,2)] by (simp add: tabs_inv_def t assms(3-5)) (simp add: empty_rt_def)
qed


lemma init_mtcall_fields [simp]:
  "tabs (init_mtcall old ctx) = tabs ctx" "rtes (init_mtcall old ctx) = rtes ctx" "rtable (init_mtcall old ctx) = rtable ctx"
  "old_rtable (init_mtcall old ctx) = old_rtable ctx" "new_rtable (init_mtcall old ctx) = new_rtable ctx"
  "mring (init_mtcall old ctx) = mring ctx" "nrivers (init_mtcall old ctx) = nrivers ctx" "rivers (init_mtcall old ctx) = rivers ctx"
  "max_ibm (init_mtcall old ctx) = max_ibm ctx" "zcb_mring (init_mtcall old ctx) = zcb_mring ctx" "eps (init_mtcall old ctx) = eps ctx"
  "ephash (init_mtcall old ctx) = ephash ctx" "fd2ep (init_mtcall old ctx) = fd2ep ctx"
  "river_hash (init_mtcall old ctx) = river_hash ctx" "wormholes (init_mtcall old ctx) = wormholes ctx"
  by (simp_all add: init_mtcall_def)

lemma zero_ctx_fields:
  "tabs (zero_ctx old sz fl) = []" "rtes (zero_ctx old sz fl) = []" "rtable (zero_ctx old sz fl) = None"
  "old_rtable (zero_ctx old sz fl) = None" "new_rtable (zero_ctx old sz fl) = None" "nrivers (zero_ctx old sz fl) = 1024"
  "rivers (zero_ctx old sz fl) = replicate 1024 river_zero" "max_ibm (zero_ctx old sz fl) = to_int32 (max 1024 sz + 398)"
  "eps (zero_ctx old sz fl) = []" "ephash (zero_ctx old sz fl) = the (rmr_sym_alloc True 129)"
  "fd2ep (zero_ctx old sz fl) = the (rmr_sym_alloc True 129)" "river_hash (zero_ctx old sz fl) = the (rmr_sym_alloc True 129)"
  "wormholes (zero_ctx old sz fl) = None"
  unfolding zero_ctx_def Let_def by simp_all

text \<open>Locks and the like do not change what a ring holds.\<close>

lemma ring_config_keeps:
  "ring_abs (snd (uta_ring_config a b r f)) = ring_abs r" "ring_ok (snd (uta_ring_config a b r f)) = ring_ok r"
proof -
  let ?r = "snd (uta_ring_config a b r f)"
  have e: "r_head ?r = r_head r" "r_tail ?r = r_tail r" "nelements ?r = nelements r" "r_data ?r = r_data r" "r_pfd ?r = r_pfd r"
    by (simp_all add: uta_ring_config_def Let_def)
  show "ring_abs ?r = ring_abs r" by (simp add: ring_abs_def e)
  then show "ring_ok ?r = ring_ok r" by (simp add: ring_ok_def ring_wf_def ring_pfd_ok_def e split: option.splits)
qed

lemma zero_ctx_ring:
  "ring_ok (mring (zero_ctx old sz fl))" "ring_abs (mring (zero_ctx old sz fl)) = []"
  "ch_barrier (chutes (zero_ctx old sz fl) ! 0) = 0" "length (chutes (zero_ctx old sz fl)) = 256"
  "ring_ok (zcb_mring (zero_ctx old sz fl))" "ring_abs (zcb_mring (zero_ctx old sz fl)) = []"
proof -
  have mk: "uta_mk_ring True True n = Some (the (uta_mk_ring True True n) :: mbuf ring)" if "n = 4096 \<or> n = 128" for n
    using that by (auto simp: uta_mk_ring_def Let_def)
  note ok = uta_mk_ring_ok [OF mk [of 4096]] uta_mk_ring_ok [OF mk [of 128]]
  show "ring_ok (mring (zero_ctx old sz fl))" "ring_abs (mring (zero_ctx old sz fl)) = []"
    "ring_ok (zcb_mring (zero_ctx old sz fl))" "ring_abs (zcb_mring (zero_ctx old sz fl)) = []"
    using ok unfolding zero_ctx_def Let_def by (simp_all add: ring_config_keeps)
  show "ch_barrier (chutes (zero_ctx old sz fl) ! 0) = 0" "length (chutes (zero_ctx old sz fl)) = 256"
    unfolding zero_ctx_def Let_def init_mtcall_def by (simp_all add: nth_append del: upt_Suc)
qed

lemma init_ctx:
  assumes "init env old p sz flags = Return (Inr (ctx, b, th))"
  obtains c host where "own_host env = Return (Inr host)"
    "my_name ctx = str_bytes (host @ '':'' @ listen_port (case p of None \<Rightarrow> ''tcp:4560'' | Some p \<Rightarrow> p)) @ [0]"
    "length (my_name ctx) \<le> RMR_MAX_SRC" "tabs ctx = [Some empty_rt]" "rtes ctx = []" "rtable ctx = Some 0"
    "old_rtable ctx = None" "new_rtable ctx = None" "mring ctx = mring (zero_ctx old sz flags)"
    "chutes ctx = chutes (zero_ctx old sz flags)" "rtable_ready ctx = (th = NoCollector)"
    "nrivers ctx = 1024" "rivers ctx = replicate 1024 river_zero" "max_ibm ctx = to_int32 (max 1024 sz + 398)"
    "c_flags ctx = c OR CFL_MTC_ENABLED" "c = 0 \<or> c = CFL_WARN"
    "zcb_mring ctx = zcb_mring (zero_ctx old sz flags)" "eps ctx = []" "ephash ctx = the (rmr_sym_alloc True 129)"
    "fd2ep ctx = the (rmr_sym_alloc True 129)" "river_hash ctx = the (rmr_sym_alloc True 129)" "wormholes ctx = None"
proof -
  obtain host where h: "own_host env = Return (Inr host)"
    using assms by (auto simp: init_def Let_def split: if_splits outcome.splits sum.splits)
  let ?nm = "host @ '':'' @ listen_port (case p of None \<Rightarrow> ''tcp:4560'' | Some p \<Rightarrow> p)"
  have l: "length ?nm < RMR_MAX_SRC" "si_starts env" "si_listens env"
    using assms h by (auto simp: init_def Let_def split: if_splits option.splits)
  define c where "c = (if case env_warnings env of Some (c # _) \<Rightarrow> c = CHR ''1'' | _ \<Rightarrow> False then CFL_WARN else 0)"
  obtain ips sip where e: "ctx = (zero_ctx old sz flags)\<lparr>my_name := str_bytes ?nm @ [0], my_ip := sip, ip_list := ips,
      c_flags := c OR CFL_MTC_ENABLED, tabs := [Some empty_rt], rtable := Some 0,
      rtable_ready := (th = NoCollector)\<rparr>"
    using assms h l by (auto simp: init_def Let_def rt_clone_space_def uta_rt_init_def zero_ctx_fields c_def split: if_splits)
  show thesis by (rule that [OF h, of c]) (use l in \<open>simp_all add: e zero_ctx_fields str_bytes_def c_def\<close>)
qed

end
