(* ===== verification/RouteProps.thy ===== *)
theory RouteProps
  imports Init
begin

text \<open>
  What the route tables promise: the invariant under any sequence of records, the safety of senders that use
  tables while records arrive, what a table that was published holds, and how entries are found.
\<close>

subsection \<open>Setting up\<close>

lemma init_total:
  assumes "si_starts env" "si_listens env" "own_host env = Return (Inr host)"
    "length (host @ '':'' @ listen_port (case p of None \<Rightarrow> ''tcp:4560'' | Some p \<Rightarrow> p)) < RMR_MAX_SRC"
  shows "\<exists>ctx b th. init env old p sz flags = Return (Inr (ctx, b, th))"
  using assms unfolding init_def Let_def by (simp add: rt_clone_space_def uta_rt_init_def)

definition start_system :: "rtc_pctx option \<Rightarrow> uta_ctx \<Rightarrow> rt_system" where
  "start_system p ctx = \<lparr>sys = \<lparr>u_ctx = ctx, p_ctx = p, acks = []\<rparr>, holders = []\<rparr>"

lemma init_sys_inv:
  assumes "init env old p sz flags = Return (Inr (ctx, b, th))"
  shows "tabs_inv ctx" "sys_inv (start_system q ctx)"
proof -
  obtain c host where i: "tabs ctx = [Some empty_rt]" "rtes ctx = []" "rtable ctx = Some 0" "old_rtable ctx = None" "new_rtable ctx = None"
    by (rule init_ctx [OF assms]) blast
  then show t: "tabs_inv ctx" by (rule tabs_inv_first)
  have "rt_count rt = 0" if "the_rt ctx u = Some rt" for u rt
    using that i(1) by (auto simp: the_rt_def empty_rt_def split: if_splits)
  with t show "sys_inv (start_system q ctx)" by (simp add: sys_inv_def start_system_def)
qed

text \<open>A host for the witnesses.\<close>

definition demo_env :: init_env where
  "demo_env = \<lparr>env_rtg_port = None, env_src_id = None, env_name_only = None, env_warnings = None, env_bind_if = None,
     host_name = Some ''ric.local'', host_ifs = [], si_starts = True, si_listens = True\<rparr>"

lemma demo_init:
  obtains ctx b th where "init demo_env [] None 0 0 = Return (Inr (ctx, b, th))"
proof -
  have "own_host demo_env = Return (Inr ''ric'')" by (simp add: own_host_def demo_env_def)
  moreover have "length (''ric'' @ '':'' @ listen_port (case None of None \<Rightarrow> ''tcp:4560'' | Some p \<Rightarrow> p)) < RMR_MAX_SRC"
    by (simp add: listen_port_def)
  moreover have "si_starts demo_env" "si_listens demo_env" by (simp_all add: demo_env_def)
  ultimately show thesis using that init_total by blast
qed

text \<open>
  C12: a context that \<open>init\<close> returns is in order. The route tables satisfy their invariant, with one empty table,
  which is active; there are no endpoints, and the tables of endpoint names, of descriptors and of hashed rivers
  are well formed and hold nothing. The receive ring and the ring of free buffers are well formed and empty, and
  the semaphore of the readers has no message to wait for. The rivers for descriptors below 1024 are new, and
  there are no wormholes. The name has at most 63 characters. As long as the size of the largest message plus 398
  is an \<^verbatim>\<open>int\<close>, inbound messages of the size asked for fit with their headers (beyond that the size wraps). Route based sends
  are ready only in the mode without a collector.
\<close>

theorem init_establishes:
  assumes "init env old p sz flags = Return (Inr (ctx, b, th))"
  shows "tabs_inv ctx \<and> rtable ctx = Some 0 \<and> the_rt ctx 0 = Some empty_rt \<and> eps ctx = [] \<and>
    sym_wf (ephash ctx) \<and> sym_wf (fd2ep ctx) \<and> sym_wf (river_hash ctx) \<and>
    (\<forall>k. \<not> sym_present (ephash ctx) k \<and> \<not> sym_present (fd2ep ctx) k \<and> \<not> sym_present (river_hash ctx) k) \<and>
    ring_ok (mring ctx) \<and> ring_abs (mring ctx) = [] \<and> ring_ok (zcb_mring ctx) \<and> ring_abs (zcb_mring ctx) = [] \<and>
    ch_barrier (chutes ctx ! 0) = length (ring_abs (mring ctx)) \<and> wormholes ctx = None \<and>
    nrivers ctx = int (length (rivers ctx)) \<and> (\<forall>r\<in>set (rivers ctx). rv_state r = RS_NEW) \<and>
    length (cstr (my_name ctx)) < RMR_MAX_SRC \<and> max_ibm ctx = to_int32 (max 1024 sz + 398) \<and>
    (sz + 398 < 2 ^ 31 \<longrightarrow> sz + int MHDR_SIZE + int TP_HDR_LEN \<le> max_ibm ctx) \<and>
    rtable_ready ctx = (th = NoCollector)"
proof -
  obtain c host where i: "own_host env = Return (Inr host)"
    "my_name ctx = str_bytes (host @ '':'' @ listen_port (case p of None \<Rightarrow> ''tcp:4560'' | Some p \<Rightarrow> p)) @ [0]"
    "length (my_name ctx) \<le> RMR_MAX_SRC" "tabs ctx = [Some empty_rt]" "rtes ctx = []" "rtable ctx = Some 0"
    "old_rtable ctx = None" "new_rtable ctx = None" "mring ctx = mring (zero_ctx old sz flags)"
    "chutes ctx = chutes (zero_ctx old sz flags)" "rtable_ready ctx = (th = NoCollector)"
    "nrivers ctx = 1024" "rivers ctx = replicate 1024 river_zero" "max_ibm ctx = to_int32 (max 1024 sz + 398)"
    "c_flags ctx = c OR CFL_MTC_ENABLED" "c = 0 \<or> c = CFL_WARN"
    "zcb_mring ctx = zcb_mring (zero_ctx old sz flags)" "eps ctx = []" "ephash ctx = the (rmr_sym_alloc True 129)"
    "fd2ep ctx = the (rmr_sym_alloc True 129)" "river_hash ctx = the (rmr_sym_alloc True 129)" "wormholes ctx = None"
    by (rule init_ctx [OF assms])
  have "length (cstr (my_name ctx)) \<le> length (butlast (my_name ctx))"
    using i(2) by (simp add: cstr_def length_takeWhile_le takeWhile_append)
  then have "length (cstr (my_name ctx)) < RMR_MAX_SRC" using i(2,3) by simp
  moreover have "sz + 398 < 2 ^ 31 \<longrightarrow> sz + int MHDR_SIZE + int TP_HDR_LEN \<le> to_int32 (max 1024 sz + 398)"
    by (auto simp: to_int32_small)
  moreover have "the_rt ctx 0 = Some empty_rt" using i(4) by (simp add: the_rt_def)
  ultimately show ?thesis
    using init_sys_inv(1) [OF assms] zero_ctx_ring [of old sz flags] i
    by (simp add: river_zero_def rmr_sym_alloc_wf sym_present_alloc)
qed

theorem init_establishes_witness:
  "\<exists>ctx b th. init demo_env [] None 0 0 = Return (Inr (ctx, b, th)) \<and> tabs_inv ctx \<and> ring_abs (mring ctx) = []"
proof -
  obtain ctx b th where "init demo_env [] None 0 0 = Return (Inr (ctx, b, th))" by (rule demo_init)
  then show ?thesis using init_establishes by blast
qed


subsection \<open>Records\<close>

lemma demo_start_tokens:
  "uta_tokenise (Some (trim ''newrt|start|t1'')) 128 (CHR ''|'') = [''newrt'', ''start'', ''t1'']"
  "clip ''newrt'' = ''newrt''" "clip ''start'' = ''start''" "clip ''t1'' = ''t1''"
  by code_simp+

lemma demo_start_safe: "old_rtable ctx = None \<Longrightarrow> rec_safe ''newrt|start|t1'' ctx"
  by (simp add: rec_safe_def demo_start_tokens undrained_fresh)

text \<open>
  C4: the route tables stay sound under any sequence of records the parser gets through (\<open>rec_safe\<close>, which is asked of each record in the state it
  finds). Such a record has the fields the code reads without looking; it does not have to wait for readers; an end
  record that gives a count comes while a table is under construction (without one, the code goes through a nil pointer); and it is not about the entry of
  subscription 0 and type 0, whose key the symbol table confuses with strings. All others are taken, also those that make no sense. The parser gets through all of them; in the end every table holds entries under numeric keys
  and endpoints under element names, no table refers to a freed entry, the reference count of each
  entry is the number of tables that refer to it, and the tables allocated are exactly the active one, the one
  under construction and the one that drains.
\<close>

theorem records_keep_invariant:
  assumes "tabs_inv (u_ctx s)" "safe_run (parse_rt_rec resolve deliver junk) (\<lambda>buf s. rec_safe buf (u_ctx s)) bs s"
  shows "\<exists>s'. parse_recs resolve deliver junk bs s = Some s' \<and> tabs_inv (u_ctx s')"
  using recs.run_ok [OF assms] by (simp add: parse_recs_run)

theorem records_keep_invariant_witness:
  "\<exists>ctx b th s'. init demo_env [] None 0 0 = Return (Inr (ctx, b, th)) \<and>
    parse_recs (\<lambda>_. None) (\<lambda>_. 0) [] [''newrt|start|t1''] (sys (start_system None ctx)) = Some s' \<and> tabs_inv (u_ctx s')"
proof -
  obtain ctx b th where i: "init demo_env [] None 0 0 = Return (Inr (ctx, b, th))" by (rule demo_init)
  let ?s = "sys (start_system None ctx)"
  have "old_rtable ctx = None" by (rule init_ctx [OF i])
  then have "safe_run (parse_rt_rec (\<lambda>_. None) (\<lambda>_. 0) []) (\<lambda>buf s. rec_safe buf (u_ctx s)) [''newrt|start|t1''] ?s"
    by (simp add: demo_start_safe start_system_def split: option.split)
  with records_keep_invariant [of ?s] init_sys_inv(1) [OF i] i show ?thesis by (fastforce simp: start_system_def)
qed

text \<open>
  C8: a record does not disturb those who read. The active table, and a table that drains while somebody
  still uses it, are unchanged after the record, and so is every entry they refer to. The active table is
  replaced only by the table under construction, as it stands, in one step; the table that was active is then
  the one that drains.
\<close>

theorem record_isolated:
  assumes "tabs_inv (u_ctx s)" "rec_safe buf (u_ctx s)"
  shows "\<exists>s'. parse_rt_rec resolve deliver junk buf s = Some s' \<and>
    (\<forall>t rt. held (u_ctx s) t \<and> the_rt (u_ctx s) t = Some rt \<longrightarrow> the_rt (u_ctx s') t = Some rt \<and>
       (\<forall>k i. sym_lookup (rt_hash rt) (NumKey k) = Some (RteRef i) \<longrightarrow> body (u_ctx s) i \<noteq> None \<and> body (u_ctx s') i = body (u_ctx s) i)) \<and>
    (rtable (u_ctx s') = rtable (u_ctx s) \<or>
       rtable (u_ctx s') = new_rtable (u_ctx s) \<and> old_rtable (u_ctx s') = rtable (u_ctx s) \<and> new_rtable (u_ctx s') = None \<and>
       tabs (u_ctx s') = tabs (u_ctx s) \<and> rtes (u_ctx s') = rtes (u_ctx s))"
  using parse_rt_rec_ok [OF assms, of resolve deliver junk] unfolding rec_step_def isolates_def publishes_def by blast

theorem record_isolated_witness:
  "\<exists>ctx b th s'. init demo_env [] None 0 0 = Return (Inr (ctx, b, th)) \<and>
    parse_rt_rec (\<lambda>_. None) (\<lambda>_. 0) [] ''newrt|start|t1'' (sys (start_system None ctx)) = Some s' \<and>
    the_rt (u_ctx s') 0 = Some empty_rt"
proof -
  obtain ctx b th where i: "init demo_env [] None 0 0 = Return (Inr (ctx, b, th))" by (rule demo_init)
  obtain t: "tabs ctx = [Some empty_rt]" "rtable ctx = Some 0" "old_rtable ctx = None" "new_rtable ctx = None"
    by (rule init_ctx [OF i]) blast
  then have "held ctx 0" "the_rt ctx 0 = Some empty_rt" by (simp_all add: held_def the_rt_def)
  then show ?thesis
    using record_isolated [of "sys (start_system None ctx)" "''newrt|start|t1''" "\<lambda>_. None" "\<lambda>_. 0" "[]"]
      init_sys_inv(1) [OF i] demo_start_safe [OF t(3)] i by (fastforce simp: start_system_def)
qed

subsection \<open>Senders and records together\<close>

text \<open>
  C2: no sender ever uses a route table or an entry that was freed. In every state that records and the calls of
  senders can reach from what \<open>init\<close> returns, in any order, each table a sender holds exists, and
  so does every entry it refers to, under its key; there are never more than two tables; and an entry that is not
  freed has as its count the number of tables that refer to it.
\<close>

theorem senders_never_dangle:
  assumes "init env old p sz flags = Return (Inr (ctx, b, th))"
    "(route_step resolve deliver junk connect)\<^sup>*\<^sup>* (start_system q ctx) x"
  shows "(\<forall>t\<in>set (holders x). \<exists>rt. the_rt (u_ctx (sys x)) t = Some rt \<and>
      (\<forall>k i. sym_lookup (rt_hash rt) (NumKey k) = Some (RteRef i) \<longrightarrow> (\<exists>e. the_rte (u_ctx (sys x)) i = Some e \<and> rte_key e = k))) \<and>
    card {t. the_rt (u_ctx (sys x)) t \<noteq> None} \<le> 2 \<and>
    (\<forall>i e. the_rte (u_ctx (sys x)) i = Some e \<longrightarrow>
      rte_refs e = int (card {t. tlook (u_ctx (sys x)) t (NumKey (rte_key e)) = Some (RteRef i)}) \<and> rte_refs e > 0)"
proof (intro conjI ballI allI impI)
  have inv: "sys_inv x" by (rule route_steps_ok [OF assms(2) init_sys_inv(2) [OF assms(1)]])
  let ?c = "u_ctx (sys x)"
  note t = sys_invD(1) [OF inv] and d = tabs_invD [OF sys_invD(1) [OF inv]]
  show "\<exists>rt. the_rt ?c t = Some rt \<and> (\<forall>k i. sym_lookup (rt_hash rt) (NumKey k) = Some (RteRef i) \<longrightarrow> (\<exists>e. the_rte ?c i = Some e \<and> rte_key e = k))"
    if "t \<in> set (holders x)" for t
    using sys_invD(3) [OF inv that] rt_invD(3) [OF d(1)] by blast
  have "{t. the_rt ?c t \<noteq> None} \<subseteq> set_option (rtable ?c) \<union> set_option (if new_rtable ?c = None then old_rtable ?c else new_rtable ?c)"
    using d(2,4) by auto
  moreover have "card (set_option a \<union> set_option b) \<le> 2 \<and> finite (set_option a \<union> set_option b)" for a b :: "nat option"
    by (cases a; cases b) (auto simp: card_insert_if)
  ultimately show "card {t. the_rt ?c t \<noteq> None} \<le> 2" by (meson card_mono le_trans)
  fix i e assume e: "the_rte ?c i = Some e"
  then have k: "kr ?c i = Some (rte_key e, rte_refs e)" by (simp add: kr_the_rte)
  have "tlook ?c t (NumKey k) = tmap ?c t k" for t k by (simp add: tlook_def tmap_the_rt)
  then show "rte_refs e = int (card {t. tlook ?c t (NumKey (rte_key e)) = Some (RteRef i)})" "rte_refs e > 0"
    using refs_okD(3) [OF rt_invD(2) [OF d(1)] k] by simp_all
qed

theorem senders_never_dangle_witness:
  "\<exists>ctx b th x. init demo_env [] None 0 0 = Return (Inr (ctx, b, th)) \<and>
    (route_step (\<lambda>_. None) (\<lambda>_. 0) [] (\<lambda>_. 0))\<^sup>*\<^sup>* (start_system None ctx) x \<and> holders x = [0] \<and>
    card {t. the_rt (u_ctx (sys x)) t \<noteq> None} \<le> 2"
proof -
  obtain ctx b th where i: "init demo_env [] None 0 0 = Return (Inr (ctx, b, th))" by (rule demo_init)
  obtain t: "tabs ctx = [Some empty_rt]" "rtable ctx = Some 0" by (rule init_ctx [OF i]) blast
  let ?x = "start_system None ctx"
  obtain c where "get_rt (u_ctx (sys ?x)) = (Some 0, c)" by (simp add: get_rt_def start_system_def t the_rt_def)
  then have s: "(route_step (\<lambda>_. None) (\<lambda>_. 0) [] (\<lambda>_. 0))\<^sup>*\<^sup>* ?x (sys_set c (0 # holders ?x) ?x)"
    by (intro r_into_rtranclp take_step)
  have "holders (sys_set c (0 # holders ?x) ?x) = [0]" by (simp add: sys_set_def start_system_def)
  with senders_never_dangle [OF i s] i s show ?thesis by blast
qed

text \<open>
  C9: the routes a sender sees do not change while it holds the table. Whatever the next step of the system is (a
  record, or a call of this or another sender), each table that is held answers every lookup as before.
\<close>

theorem held_table_stable:
  assumes "init env old p sz flags = Return (Inr (ctx, b, th))"
    "(route_step resolve deliver junk connect)\<^sup>*\<^sup>* (start_system q ctx) x" "route_step resolve deliver junk connect x y"
  shows "\<forall>t\<in>set (holders x). tlook (u_ctx (sys y)) t = tlook (u_ctx (sys x)) t"
  using route_step_ok(2) [OF assms(3) route_steps_ok [OF assms(2) init_sys_inv(2) [OF assms(1)]]] by blast

theorem held_table_stable_witness:
  "\<exists>ctx b th x y. init demo_env [] None 0 0 = Return (Inr (ctx, b, th)) \<and> holders x = [0] \<and>
    route_step (\<lambda>_. None) (\<lambda>_. 0) [] (\<lambda>_. 0) x y \<and> tlook (u_ctx (sys y)) 0 = tlook (u_ctx (sys x)) 0"
proof -
  obtain ctx b th where i: "init demo_env [] None 0 0 = Return (Inr (ctx, b, th))" by (rule demo_init)
  obtain t: "tabs ctx = [Some empty_rt]" "rtable ctx = Some 0" by (rule init_ctx [OF i]) blast
  let ?x = "start_system None ctx"
  obtain c where "get_rt (u_ctx (sys ?x)) = (Some 0, c)" by (simp add: get_rt_def start_system_def t the_rt_def)
  then have s: "(route_step (\<lambda>_. None) (\<lambda>_. 0) [] (\<lambda>_. 0))\<^sup>*\<^sup>* ?x (sys_set c (0 # holders ?x) ?x)"
    by (intro r_into_rtranclp take_step)
  let ?y = "sys_set c (0 # holders ?x) ?x"
  have h: "holders ?y = [0]" by (simp add: sys_set_def start_system_def)
  then have "route_step (\<lambda>_. None) (\<lambda>_. 0) [] (\<lambda>_. 0) ?y (sys_set (release_rt (Some 0) (u_ctx (sys ?y))) (remove1 0 (holders ?y)) ?y)"
    by (intro release_step) simp
  with held_table_stable [OF i s] i h show ?thesis by fastforce
qed


subsection \<open>A table from its records\<close>

text \<open>The fields of the entry records of one table: type and sender, subscription, endpoints.\<close>

definition mse_tokens :: "string \<times> string \<times> string \<Rightarrow> string list" where
  "mse_tokens e = [''mse'', fst e, fst (snd e), snd (snd e)]"

definition entry_key :: "string \<times> string \<times> string \<Rightarrow> u64" where
  "entry_key e = names_key (fst e) (atoi (fst (snd e)))"

text \<open>What table \<open>t\<close> holds once the records \<open>es\<close> were handled: for each key the entry of its last record.\<close>

definition holds_entries :: "(string \<times> string \<times> string) list \<Rightarrow> nat \<Rightarrow> uta_ctx \<Rightarrow> bool" where
  "holds_entries es t ctx = (\<forall>k. case map_of (rev (map (\<lambda>e. (entry_key e, fst e)) es)) k of
      None \<Rightarrow> tlook ctx t (NumKey k) = None
    | Some ts \<Rightarrow> \<exists>i ent. tlook ctx t (NumKey k) = Some (RteRef i) \<and> the_rte ctx i = Some ent \<and>
        rte_key ent = k \<and> rte_mtype ent = atoi (clip ts))"

lemma holds_entries_cong: "tlook c' = tlook c \<Longrightarrow> the_rte c' = the_rte c \<Longrightarrow> holds_entries es t c' = holds_entries es t c"
  by (simp only: holds_entries_def)

lemma holds_entriesD:
  assumes "holds_entries es t ctx"
  shows "map_of (rev (map (\<lambda>e. (entry_key e, fst e)) es)) k = None \<Longrightarrow> tlook ctx t (NumKey k) = None"
    "map_of (rev (map (\<lambda>e. (entry_key e, fst e)) es)) k = Some ts \<Longrightarrow> \<exists>i ent. tlook ctx t (NumKey k) = Some (RteRef i) \<and>
       the_rte ctx i = Some ent \<and> rte_key ent = k \<and> rte_mtype ent = atoi (clip ts)"
  using assms [unfolded holds_entries_def, THEN spec, of k] by simp_all

lemma holds_entries_step:
  assumes h: "holds_entries es t ctx" and inv: "rt_inv ctx'" and k: "keeps ctx ctx'"
    and t: "tlook ctx' t = (tlook ctx t)(NumKey (entry_key e) \<mapsto> RteRef i)"
    and i: "the_rte ctx' i = Some ent" "rte_key ent = entry_key e" "rte_mtype ent = atoi (clip (fst e))"
  shows "holds_entries (es @ [e]) t ctx'"
  unfolding holds_entries_def
proof
  fix k' let ?m = "map_of (rev (map (\<lambda>e. (entry_key e, fst e)) es))"
  show "case map_of (rev (map (\<lambda>e. (entry_key e, fst e)) (es @ [e]))) k' of
      None \<Rightarrow> tlook ctx' t (NumKey k') = None
    | Some ts \<Rightarrow> \<exists>i ent. tlook ctx' t (NumKey k') = Some (RteRef i) \<and> the_rte ctx' i = Some ent \<and> rte_key ent = k' \<and> rte_mtype ent = atoi (clip ts)"
  proof (cases "k' = entry_key e")
    case True
    then show ?thesis using t i by simp
  next
    case False
    then have l: "tlook ctx' t (NumKey k') = tlook ctx t (NumKey k')" by (simp add: t)
    show ?thesis
    proof (cases "?m k'")
      case None
      then have "tlook ctx t (NumKey k') = None" by (rule holds_entriesD(1) [OF h])
      then show ?thesis using None l False by simp
    next
      case (Some ts)
      then obtain j en where j: "tlook ctx t (NumKey k') = Some (RteRef j)" "the_rte ctx j = Some en" "rte_key en = k'" "rte_mtype en = atoi (clip ts)"
        using holds_entriesD(2) [OF h] by blast
      obtain rt where "the_rt ctx' t = Some rt" "sym_lookup (rt_hash rt) (NumKey k') = Some (RteRef j)"
        using l j(1) by (auto simp: tlook_def split: Option.bind_splits)
      from rt_invD(3) [OF inv this] obtain en' where en': "the_rte ctx' j = Some en'" "rte_key en' = k'" by blast
      have "j < length (rtes ctx)" using j(2) by (simp add: the_rte_def split: if_splits)
      moreover have "body ctx' j \<noteq> None" using en'(1) by (simp add: kr_the_rte)
      ultimately have "body ctx' j = body ctx j" by (rule keeps_body [OF k])
      then have "rte_mtype en' = rte_mtype en" using j(2) en'(1) by (simp add: kr_the_rte)
      then show ?thesis using Some False j l en' by simp
    qed
  qed
qed

lemma rec_mse_effect:
  assumes inv: "tabs_inv (u_ctx s)" and n: "new_rtable (u_ctx s) = Some t" and rt: "the_rt (u_ctx s) t = Some rt"
    and k: "entry_key e \<noteq> 0" and a: "adds_entry (fst e) (snd (snd e)) (u_ctx s)" and h: "holds_entries es t (u_ctx s)"
  obtains c h' where "rec_mse resolve (mse_tokens e) s = Some (s\<lparr>u_ctx := c\<rparr>)" "tabs_inv c" "new_rtable c = Some t"
    "rtable c = rtable (u_ctx s)" "the_rt c t = Some (rt\<lparr>rt_hash := h', rt_updates := rt_updates rt + 1\<rparr>)" "holds_entries (es @ [e]) t c"
    "\<And>nm cl. tlook c t (StrKey nm cl) = tlook (u_ctx s) t (StrKey nm cl)"
    "my_name c = my_name (u_ctx s)" "ip_list c = ip_list (u_ctx s)" "table_id c = table_id (u_ctx s)"
proof -
  let ?c = "u_ctx s" and ?i = "length (rtes (u_ctx s))"
  have key: "build_rt_key (sint (word_of_int (atoi (fst (snd e))) :: u32)) (atoi (clip (fst e))) = entry_key e"
    by (simp add: entry_key_def names_key_def)
  obtain c where c: "build_entry resolve (fst e) (word_of_int (atoi (fst (snd e)))) (snd (snd e)) ?c = Some c" "builds t ?c c"
    "tlook c t = (tlook ?c t)(NumKey (entry_key e) \<mapsto> RteRef ?i)"
    "\<exists>en. the_rte c ?i = Some en \<and> rte_key en = entry_key e \<and> rte_refs en = 1 \<and> rte_mtype en = atoi (clip (fst e))"
    "my_name c = my_name ?c" "ip_list c = ip_list ?c" "table_id c = table_id ?c" "\<exists>h. the_rt c t = Some (rt\<lparr>rt_hash := h\<rparr>)"
    by (rule build_entry_ok [OF tabs_invD(1) [OF inv] n rt, of "word_of_int (atoi (fst (snd e)))" "fst e" resolve "snd (snd e)"])
       (use a k in \<open>auto simp: key\<close>)
  obtain h' where h': "the_rt c t = Some (rt\<lparr>rt_hash := h'\<rparr>)" using c(8) by blast
  have b: "rt_inv c" "new_rtable c = Some t" using builds_live [OF c(2)] n by auto
  let ?f = "\<lambda>rt. rt\<lparr>rt_updates := rt_updates rt + 1\<rparr>"
  let ?c2 = "set_rt t (Some (?f (rt\<lparr>rt_hash := h'\<rparr>))) c"
  obtain u: "upd_new_rt ?f c = Some ?c2" "builds t c ?c2" "tlook ?c2 t = tlook c t"
    by (rule upd_new_rt_ok [OF b h', of ?f]) simp_all
  have code: "rec_mse resolve (mse_tokens e) s = Some (s\<lparr>u_ctx := ?c2\<rparr>)"
    using n c(1) u(1) by (simp add: rec_mse_def on_new_rt_def mse_tokens_def count_update_def numeral_nat)
  have b2: "builds t ?c ?c2" by (rule builds_trans [OF c(2) u(2)])
  obtain en where en: "the_rte c ?i = Some en" "rte_key en = entry_key e" "rte_mtype en = atoi (clip (fst e))" using c(4) by blast
  have "the_rte ?c2 = the_rte c" by (rule rtes_cong) simp
  then have "holds_entries (es @ [e]) t ?c2"
    using u(3) c(3) en b2 by (intro holds_entries_step [OF h, where i = ?i and ent = en]) (auto simp: builds_def)
  moreover have "the_rt ?c2 t = Some (rt\<lparr>rt_hash := h', rt_updates := rt_updates rt + 1\<rparr>)" using h' by (simp add: the_rt_set)
  moreover have "tabs_inv ?c2" by (rule builds_tabs_inv [OF b2 inv n])
  moreover have "tlook ?c2 t (StrKey nm cl) = tlook ?c t (StrKey nm cl)" for nm cl using u(3) c(3) by simp
  ultimately show thesis using that [OF code] b2 n c(5-7) by (simp add: builds_def set_rt_def)
qed


text \<open>A record for every process, with endpoints, for an entry other than type 0 of subscription 0.\<close>

definition entry_plain :: "string \<times> string \<times> string \<Rightarrow> bool" where
  "entry_plain e = (entry_key e \<noteq> 0 \<and> CHR '','' \<notin> set (clip (fst e)) \<and>
     uta_tokenise (Some (clip (snd (snd e)))) 64 (CHR '';'') \<noteq> [])"

lemma mse_run:
  assumes "tabs_inv (u_ctx s)" "new_rtable (u_ctx s) = Some t" "the_rt (u_ctx s) t = Some rt" "rt_updates rt = int (length es0)"
    "\<forall>e\<in>set es. entry_plain e" "holds_entries es0 t (u_ctx s)"
  shows "\<exists>c rt'. run_steps (\<lambda>e. rec_mse resolve (mse_tokens e)) es s = Some (s\<lparr>u_ctx := c\<rparr>) \<and> tabs_inv c \<and>
    new_rtable c = Some t \<and> the_rt c t = Some rt' \<and> rt_updates rt' = int (length (es0 @ es)) \<and> holds_entries (es0 @ es) t c \<and>
    (\<forall>nm cl. tlook c t (StrKey nm cl) = tlook (u_ctx s) t (StrKey nm cl))"
  using assms
proof (induction es arbitrary: s es0 rt)
  case Nil
  then show ?case by (intro exI [of _ "u_ctx s"] exI [of _ rt]) simp
next
  case (Cons e es)
  have p: "entry_key e \<noteq> 0" "adds_entry (fst e) (snd (snd e)) (u_ctx s)"
    using Cons.prems(5) by (auto simp: entry_plain_def adds_entry_def for_me_def)
  obtain c h' where c: "rec_mse resolve (mse_tokens e) s = Some (s\<lparr>u_ctx := c\<rparr>)" "tabs_inv c" "new_rtable c = Some t"
    "the_rt c t = Some (rt\<lparr>rt_hash := h', rt_updates := rt_updates rt + 1\<rparr>)" "holds_entries (es0 @ [e]) t c"
    "\<And>nm cl. tlook c t (StrKey nm cl) = tlook (u_ctx s) t (StrKey nm cl)"
    by (rule rec_mse_effect [OF Cons.prems(1-3) p Cons.prems(6), of resolve]) blast
  let ?s = "s\<lparr>u_ctx := c\<rparr>" and ?rt = "rt\<lparr>rt_hash := h', rt_updates := rt_updates rt + 1\<rparr>"
  have "\<exists>c' rt'. run_steps (\<lambda>e. rec_mse resolve (mse_tokens e)) es ?s = Some (?s\<lparr>u_ctx := c'\<rparr>) \<and> tabs_inv c' \<and>
    new_rtable c' = Some t \<and> the_rt c' t = Some rt' \<and> rt_updates rt' = int (length ((es0 @ [e]) @ es)) \<and> holds_entries ((es0 @ [e]) @ es) t c' \<and>
    (\<forall>nm cl. tlook c' t (StrKey nm cl) = tlook (u_ctx ?s) t (StrKey nm cl))"
    by (rule Cons.IH [where rt = ?rt]) (use c Cons.prems(4,5) in auto)
  then show ?case using c(1,6) by simp
qed

lemma demo_words: "clip ''end'' = ''end''" "clip ''start'' \<noteq> ''end''"
  by code_simp+

text \<open>
  C5: the records of a table make the active table. After the start record, any list of entry records that name
  no sender, and the end record with their number, the active table maps exactly the keys of these records to
  entries: each to an entry of that key and message type, the last record of a key counting. Managed elements
  keep the owners they had in the table that was active before, and sends can be routed.
\<close>

theorem table_published:
  assumes "tabs_inv (u_ctx s)" "\<not> undrained (u_ctx s)" "\<forall>e\<in>set es. entry_plain e" "atoi cnt = int (length es)"
  shows "\<exists>s1 s2 s3 t. rec_newrt deliver [''newrt'', ''start'', tid] s = Some s1 \<and>
    run_steps (\<lambda>e. rec_mse resolve (mse_tokens e)) es s1 = Some s2 \<and> rec_newrt deliver [''newrt'', ''end'', cnt] s2 = Some s3 \<and>
    rtable (u_ctx s3) = Some t \<and> holds_entries es t (u_ctx s3) \<and>
    (\<forall>nm cl. tlook (u_ctx s3) t (StrKey nm cl) = active_look (u_ctx s) (StrKey nm cl)) \<and>
    tabs_inv (u_ctx s3) \<and> rtable_ready (u_ctx s3)"
proof -
  obtain s1 t rt where s1: "rt_start deliver False (\<lambda>_. Some (clip tid)) (\<lambda>rt. rt\<lparr>rt_updates := 0\<rparr>) s = Some s1"
    "rec_step (u_ctx s) (u_ctx s1)" "new_rtable (u_ctx s1) = Some t" "the_rt (u_ctx s1) t = Some (rt\<lparr>rt_updates := 0\<rparr>)"
    "tlook (u_ctx s1) t = seeded False (active_look (u_ctx s))"
    by (rule rt_start_ok [OF assms(1,2), of "\<lambda>rt. rt\<lparr>rt_updates := 0\<rparr>" deliver False "\<lambda>_. Some (clip tid)"]) auto
  have c1: "rec_newrt deliver [''newrt'', ''start'', tid] s = Some s1"
    using s1(1) by (simp add: rec_newrt_def nth_tok_def demo_words)
  have i1: "tabs_inv (u_ctx s1)" using s1(2) by (simp add: rec_step_def)
  have "holds_entries [] t (u_ctx s1)" by (simp add: holds_entries_def s1(5))
  from mse_run [OF i1 s1(3,4) _ assms(3) this, of resolve] obtain c rt' where c: "run_steps (\<lambda>e. rec_mse resolve (mse_tokens e)) es s1 = Some (s1\<lparr>u_ctx := c\<rparr>)"
    "tabs_inv c" "new_rtable c = Some t" "the_rt c t = Some rt'" "rt_updates rt' = int (length es)" "holds_entries es t c"
    "\<And>nm cl. tlook c t (StrKey nm cl) = tlook (u_ctx s1) t (StrKey nm cl)" by auto
  note roll = roll_tables_ok [OF c(2,3)]
  define s3 where "s3 = (let s' = (s1\<lparr>u_ctx := roll_tables c\<rparr>); s'' = send_rt_ack deliver (table_id (u_ctx s')) True None s'
    in s''\<lparr>u_ctx := (u_ctx s'')\<lparr>rtable_ready := True, c_flags := c_flags (u_ctx s'') OR CFL_FULLRT\<rparr>\<rparr>)"
  have c3: "rec_newrt deliver [''newrt'', ''end'', cnt] (s1\<lparr>u_ctx := c\<rparr>) = Some s3"
    using c(3-5) assms(4) by (simp add: rec_newrt_def nth_tok_def demo_words rt_finish_def s3_def Let_def)
  let ?c3 = "(roll_tables c)\<lparr>rtable_ready := True, c_flags := c_flags (roll_tables c) OR CFL_FULLRT\<rparr>"
  have u3: "u_ctx s3 = ?c3" by (simp add: s3_def Let_def)
  have "tabs_inv ?c3" using roll(2) tabs_inv_cong [of ?c3 "roll_tables c"] by simp
  moreover have "the_rt ?c3 = the_rt c" by (rule tabs_cong) (simp add: roll(1))
  then have "tlook ?c3 = tlook c" by (simp add: tlook_def fun_eq_iff)
  moreover have "the_rte ?c3 = the_rte c" by (rule rtes_cong) (simp add: roll(1))
  then have "holds_entries es t ?c3" using c(6) holds_entries_cong [OF \<open>tlook ?c3 = tlook c\<close>] by blast
  moreover have "rtable ?c3 = Some t" by (simp add: roll(1) c(3))
  ultimately show ?thesis using c1 c(1) c3 c(7) s1(5) unfolding u3 [symmetric] by (auto simp: u3)
qed


theorem table_published_witness:
  "\<exists>ctx b th s1 s2 s3 t. init demo_env [] None 0 0 = Return (Inr (ctx, b, th)) \<and>
    rec_newrt (\<lambda>_. 0) [''newrt'', ''start'', ''t1''] (sys (start_system None ctx)) = Some s1 \<and>
    run_steps (\<lambda>e. rec_mse (\<lambda>_. None) (mse_tokens e)) [(''1'', ''7'', ''svc:4560'')] s1 = Some s2 \<and>
    rec_newrt (\<lambda>_. 0) [''newrt'', ''end'', ''1''] s2 = Some s3 \<and> rtable (u_ctx s3) = Some t \<and>
    holds_entries [(''1'', ''7'', ''svc:4560'')] t (u_ctx s3)"
proof -
  obtain ctx b th where i: "init demo_env [] None 0 0 = Return (Inr (ctx, b, th))" by (rule demo_init)
  have "old_rtable ctx = None" by (rule init_ctx [OF i])
  then have "\<not> undrained ctx" by (rule undrained_fresh)
  moreover have "entry_plain (''1'', ''7'', ''svc:4560'')" by code_simp
  moreover have "atoi ''1'' = int (length [(''1'', ''7'', ''svc:4560'')])" by code_simp
  ultimately show ?thesis
    using table_published [of "sys (start_system None ctx)" "[(''1'', ''7'', ''svc:4560'')]" "''1''" "\<lambda>_. 0" "''t1''" "\<lambda>_. None"]
      init_sys_inv(1) [OF i] i by (simp add: start_system_def) blast
qed

subsection \<open>Finding an entry\<close>

lemma build_rt_key_parts:
  "take_bit 32 (build_rt_key sub m) = take_bit 32 (word_of_int m :: u64)"
  "drop_bit 32 (build_rt_key sub m) = (take_bit 32 (word_of_int sub) :: u64)"
proof -
  have e: "(0xffffffff00000000 :: u64) = push_bit 32 (mask 32)" "(0xffffffff :: u64) = mask 32"
    by (simp_all add: mask_eq_exp_minus_1 push_bit_eq_mult)
  show "take_bit 32 (build_rt_key sub m) = take_bit 32 (word_of_int m :: u64)"
    unfolding build_rt_key_def e
    by (rule bit_eqI) (auto simp: bit_take_bit_iff bit_or_iff bit_and_iff bit_push_bit_iff bit_mask_iff)
  show "drop_bit 32 (build_rt_key sub m) = (take_bit 32 (word_of_int sub) :: u64)"
    unfolding build_rt_key_def e
    by (rule bit_eqI) (auto simp: bit_take_bit_iff bit_drop_bit_eq bit_or_iff bit_and_iff bit_push_bit_iff bit_mask_iff bit_word_of_int_iff)
qed

lemma int32_bits:
  assumes "- (2 ^ 31) \<le> a" "a < 2 ^ 31" "- (2 ^ 31) \<le> b" "b < (2 ^ 31 :: int)"
    "take_bit 32 (word_of_int a :: u64) = take_bit 32 (word_of_int b)"
  shows "a = b"
proof -
  have "bit a n = bit b n" if "n < 32" for n
  proof -
    have "bit (take_bit 32 (word_of_int a :: u64)) n = bit (take_bit 32 (word_of_int b :: u64)) n" using assms(5) by simp
    then show ?thesis using that by (simp add: bit_take_bit_iff bit_word_of_int_iff)
  qed
  then have "take_bit 32 a = take_bit 32 b" by (intro bit_eqI) (auto simp: bit_take_bit_iff)
  then have "signed_take_bit 31 a = signed_take_bit 31 b" by (simp add: signed_take_bit_eq_iff_take_bit_eq)
  then show ?thesis using assms(1-4) by (simp add: signed_take_bit_int_eq_self)
qed

text \<open>
  C27: subscription and message type are both recovered from the key of an entry: two pairs of 32 bit numbers have
  the same key only if they are the same pair, negative numbers and the unset subscription included.
\<close>

theorem route_key_injective:
  assumes "- (2 ^ 31) \<le> s" "s < 2 ^ 31" "- (2 ^ 31) \<le> m" "m < 2 ^ 31"
    "- (2 ^ 31) \<le> s'" "s' < 2 ^ 31" "- (2 ^ 31) \<le> m'" "m' < 2 ^ 31"
  shows "build_rt_key s m = build_rt_key s' m' \<longleftrightarrow> s = s' \<and> m = m'"
proof
  assume "build_rt_key s m = build_rt_key s' m'"
  then have "take_bit 32 (word_of_int m :: u64) = take_bit 32 (word_of_int m')" "take_bit 32 (word_of_int s :: u64) = take_bit 32 (word_of_int s')"
    using build_rt_key_parts [of s m] build_rt_key_parts [of s' m'] by simp_all
  then show "s = s' \<and> m = m'" using int32_bits assms by blast
qed simp

theorem route_key_injective_witness: "build_rt_key (- 1) 5 \<noteq> build_rt_key 0 5"
  using route_key_injective [of "- 1" 5 0 5] by simp

text \<open>
  C13: for every subscription and type other than 0 and 0 (whose key the symbol table confuses with strings) a lookup gives the entry of exactly this subscription and type if the table has one, otherwise, for a
  message with a subscription, the entry of its type alone, otherwise nothing. What it gives is an entry that
  exists, with one of these two keys, and no table answers any lookup differently afterwards.
\<close>

theorem route_lookup:
  assumes inv: "rt_inv ctx" and rt: "the_rt ctx t = Some rt" and k: "build_rt_key sid mtype \<noteq> 0"
  shows "case uta_get_rte (Some t) sid mtype True ctx of (v, ctx') \<Rightarrow>
    v = (case tlook ctx t (NumKey (build_rt_key sid mtype)) of
        Some w \<Rightarrow> Some w
      | None \<Rightarrow> if sid = UNSET_SUBID then None else tlook ctx t (NumKey (build_rt_key UNSET_SUBID mtype))) \<and>
    (\<forall>w. v = Some w \<longrightarrow> (\<exists>i e. w = RteRef i \<and> the_rte ctx' i = Some e \<and>
       rte_key e \<in> {build_rt_key sid mtype, build_rt_key UNSET_SUBID mtype})) \<and>
    tlook ctx' = tlook ctx"
proof -
  have hok: "hash_ok (rt_hash rt)" by (rule rt_invD(1) [OF inv rt])
  obtain h where h: "uta_get_rte (Some t) sid mtype True ctx =
      ((case sym_lookup (rt_hash rt) (NumKey (build_rt_key sid mtype)) of
          Some v \<Rightarrow> Some v
        | None \<Rightarrow> if True \<and> sid \<noteq> UNSET_SUBID then sym_lookup (rt_hash rt) (NumKey (build_rt_key UNSET_SUBID mtype)) else None),
       set_rt t (Some (rt\<lparr>rt_hash := h\<rparr>)) ctx)" (is "_ = (?v, ?c)")
    "hash_ok h" "sym_lookup h = sym_lookup (rt_hash rt)"
    by (rule uta_get_rte_ok [OF rt hok k, of True])
  have tl: "tlook ctx t = sym_lookup (rt_hash rt)" by (simp add: tlook_def rt fun_eq_iff)
  have e: "the_rte ?c = the_rte ctx" by (rule rtes_cong) simp
  have ent: "\<exists>i e. w = RteRef i \<and> the_rte ctx i = Some e \<and> rte_key e = key" if l: "sym_lookup (rt_hash rt) (NumKey key) = Some w" for w key
  proof -
    obtain i where "w = RteRef i" using hash_okD(2) [OF hok l] by auto
    with rt_invD(3) [OF inv rt, of key i] l show ?thesis by auto
  qed
  have "\<exists>i e. w = RteRef i \<and> the_rte ?c i = Some e \<and> rte_key e \<in> {build_rt_key sid mtype, build_rt_key UNSET_SUBID mtype}"
    if "?v = Some w" for w
    using that ent [of "build_rt_key sid mtype" w] ent [of "build_rt_key UNSET_SUBID mtype" w] unfolding e
    by (auto split: option.splits if_splits)
  moreover have "tlook ?c = tlook ctx"
    using rt h(3) by (auto simp: tlook_def the_rt_set fun_eq_iff)
  ultimately show ?thesis unfolding h(1) tl by (auto split: option.split)
qed

theorem route_lookup_witness:
  "\<exists>ctx b th. init demo_env [] None 0 0 = Return (Inr (ctx, b, th)) \<and> fst (uta_get_rte (Some 0) 7 1 True ctx) = None"
proof -
  obtain ctx b th where i: "init demo_env [] None 0 0 = Return (Inr (ctx, b, th))" by (rule demo_init)
  obtain t: "tabs ctx = [Some empty_rt]" by (rule init_ctx [OF i]) blast
  have r: "the_rt ctx 0 = Some empty_rt" by (simp add: the_rt_def t)
  have "tlook ctx 0 k = None" for k by (simp add: tlook_def r empty_rt_def hash_ok_empty(2))
  with route_lookup [OF tabs_invD(1) [OF init_sys_inv(1) [OF i]] r, of 7 1] i show ?thesis
    by (auto simp: build_rt_key_def split: prod.splits)
qed

end
