(* ===== verification/Receive.thy ===== *)
theory Receive
  imports RouteProps
begin

text \<open>
  Receiving and calling: the receive ring and the semaphore its readers wait on agree, over any history of
  arriving messages and receives, except where messages are put back; a call returns only its own answer; the
  time a wait ends is computed to the nanosecond, almost.
\<close>

subsection \<open>The ring and its semaphore\<close>

definition recv_inv :: "('c) rx_ctx_scheme \<Rightarrow> bool" where
  "recv_inv ctx = (ring_ok (mring ctx) \<and> None \<notin> set (ring_abs (mring ctx)) \<and> chutes ctx \<noteq> [] \<and>
     ch_barrier (chutes ctx ! 0) = length (ring_abs (mring ctx)))"

text \<open>What happens on the receive side: a message arrives at a time, a receive polls, a receive waits.\<close>

datatype rx_op = RxArrive int mbuf | RxPoll | RxWait

text \<open>
  A history: the messages that were queued, those that receives gave, and the context. A wait that finds
  the semaphore at zero is not woken within the history.
\<close>

fun rx_run :: "rx_op list \<Rightarrow> ('c) rx_ctx_scheme \<Rightarrow> mbuf list \<times> mbuf list \<times> ('c) rx_ctx_scheme" where
  "rx_run [] ctx = ([], [], ctx)"
| "rx_run (RxArrive now m # ops) ctx =
     (let ctx1 = queue_normal now ctx m; (i, out, ctx2) = rx_run ops ctx1
      in (if acc_ecount ctx1 \<noteq> acc_ecount ctx then m # i else i, out, ctx2))"
| "rx_run (RxPoll # ops) ctx =
     (let (mo, ctx1) = rmr_mt_rcv (\<lambda>_. None) ctx None 0; (i, out, ctx2) = rx_run ops ctx1
      in (i, (case mo of None \<Rightarrow> out | Some m \<Rightarrow> m # out), ctx2))"
| "rx_run (RxWait # ops) ctx =
     (let (mo, ctx1) = rmr_mt_rcv (\<lambda>_. None) ctx None (- 1); (i, out, ctx2) = rx_run ops ctx1
      in (i, (case mo of None \<Rightarrow> out | Some m \<Rightarrow> m # out), ctx2))"

lemma queue_normal_recv:
  assumes "recv_inv ctx"
  shows "recv_inv (queue_normal now ctx m)"
    "ring_abs (mring (queue_normal now ctx m)) = ring_abs (mring ctx) @ (if acc_ecount (queue_normal now ctx m) \<noteq> acc_ecount ctx then [Some m] else [])"
proof -
  have r: "ring_ok (mring ctx)" using assms by (simp add: recv_inv_def)
  show "ring_abs (mring (queue_normal now ctx m)) = ring_abs (mring ctx) @ (if acc_ecount (queue_normal now ctx m) \<noteq> acc_ecount ctx then [Some m] else [])"
    and "recv_inv (queue_normal now ctx m)"
  proof (atomize (full), cases "length (ring_abs (mring ctx)) = ring_cap (mring ctx)")
    case True
    then have "uta_ring_insert True (mring ctx) (Some m) = (Inl EXFULL, mring ctx)" using msg_ring.ins_full [OF r] by blast
    then show "ring_abs (mring (queue_normal now ctx m)) = ring_abs (mring ctx) @ (if acc_ecount (queue_normal now ctx m) \<noteq> acc_ecount ctx then [Some m] else []) \<and> recv_inv (queue_normal now ctx m)"
      using assms by (simp add: queue_normal_def Let_def recv_inv_def)
  next
    case False
    then have l: "length (ring_abs (mring ctx)) < ring_cap (mring ctx)" using msg_ring.bound [OF r] by simp
    obtain x r' where i: "uta_ring_insert True (mring ctx) (Some m) = (x, r')" by fastforce
    have "x = Inr ()" "ring_ok r'" "ring_abs r' = ring_abs (mring ctx) @ [Some m]" using msg_ring.ins_ok [OF r l, of "Some m"] i by auto
    then show "ring_abs (mring (queue_normal now ctx m)) = ring_abs (mring ctx) @ (if acc_ecount (queue_normal now ctx m) \<noteq> acc_ecount ctx then [Some m] else []) \<and> recv_inv (queue_normal now ctx m)"
      using assms i by (simp add: queue_normal_def recv_inv_def chute_post_def)
  qed
qed

text \<open>A receive takes the first message, or there is none; the semaphore goes along.\<close>

lemma rmr_mt_rcv_first:
  assumes inv: "recv_inv ctx" and q: "ring_abs (mring ctx) = Some m # rest"
  shows "recv_inv (snd (rmr_mt_rcv env ctx om w))" "ring_abs (mring (snd (rmr_mt_rcv env ctx om w))) = rest"
    "\<exists>r. fst (rmr_mt_rcv env ctx om w) = Some r \<and> mb_tp_buf r = mb_tp_buf m \<and> mb_payload r = mb_payload m \<and> mb_len r = mb_len m"
proof -
  have r: "ring_ok (mring ctx)" and b: "ch_barrier (chutes ctx ! 0) > 0" and c: "chutes ctx \<noteq> []" "ch_barrier (chutes ctx ! 0) = Suc (length rest)"
    using inv q by (simp_all add: recv_inv_def)
  obtain x r' where e: "uta_ring_extract True (mring ctx) = (x, r')" by fastforce
  have "x = Some m" "ring_ok r'" "ring_abs r' = rest" using msg_ring.ext_ok [OF r q] e by auto
  moreover have "None \<notin> set rest" using inv q by (simp add: recv_inv_def)
  ultimately show "recv_inv (snd (rmr_mt_rcv env ctx om w))" "ring_abs (mring (snd (rmr_mt_rcv env ctx om w))) = rest"
    "\<exists>r. fst (rmr_mt_rcv env ctx om w) = Some r \<and> mb_tp_buf r = mb_tp_buf m \<and> mb_payload r = mb_payload m \<and> mb_len r = mb_len m"
    using b c by (simp_all add: rmr_mt_rcv_def e sem_wait0_def sem_dec_def recv_inv_def)
qed

lemma rmr_mt_rcv_none:
  assumes inv: "recv_inv ctx" and q: "ring_abs (mring ctx) = []"
  shows "fst (rmr_mt_rcv (\<lambda>_. None) ctx None w) = None" "snd (rmr_mt_rcv (\<lambda>_. None) ctx None w) = ctx"
proof -
  have r: "ring_ok (mring ctx)" and b: "ch_barrier (chutes ctx ! 0) = 0" using inv q by (simp_all add: recv_inv_def)
  have "uta_ring_extract True (mring ctx) = (None, mring ctx)" using msg_ring.ext_none [OF r q] .
  then show "fst (rmr_mt_rcv (\<lambda>_. None) ctx None w) = None" "snd (rmr_mt_rcv (\<lambda>_. None) ctx None w) = ctx"
    using b by (simp_all add: rmr_mt_rcv_def sem_wait0_def)
qed


lemma rx_run_conserves:
  assumes "recv_inv ctx" "rx_run ops ctx = (acc, out, ctx')"
  shows "recv_inv ctx' \<and> map (\<lambda>x. mb_tp_buf (the x)) (ring_abs (mring ctx)) @ map mb_tp_buf acc =
      map mb_tp_buf out @ map (\<lambda>x. mb_tp_buf (the x)) (ring_abs (mring ctx'))"
  using assms
proof (induction ops arbitrary: ctx acc out)
  case (Cons op ops)
  have rcv: ?case if s: "rmr_mt_rcv (\<lambda>_. None) ctx None w = (mo, c1)" "rx_run ops c1 = (acc, o1, ctx')"
    "out = (case mo of None \<Rightarrow> o1 | Some m \<Rightarrow> m # o1)" for w mo c1 o1
  proof (cases "ring_abs (mring ctx)")
    case Nil
    then show ?thesis using rmr_mt_rcv_none [OF Cons.prems(1) Nil, of w] s Cons.IH [OF Cons.prems(1)] by simp
  next
    case (Cons x rest)
    then obtain m where x: "ring_abs (mring ctx) = Some m # rest" using \<open>recv_inv ctx\<close> by (cases x) (auto simp: recv_inv_def)
    note f = rmr_mt_rcv_first [OF \<open>recv_inv ctx\<close> x, of "\<lambda>_. None" None w, unfolded s(1)]
    show ?thesis using f Cons.IH [OF _ s(2)] s(3) x by auto
  qed
  show ?case
  proof (cases op)
    case (RxArrive now m)
    obtain a1 where a1: "rx_run ops (queue_normal now ctx m) = (a1, out, ctx')"
      "acc = (if acc_ecount (queue_normal now ctx m) \<noteq> acc_ecount ctx then m # a1 else a1)"
      using Cons.prems(2) RxArrive by (auto simp: Let_def split: prod.splits)
    show ?thesis using Cons.IH [OF queue_normal_recv(1) [OF Cons.prems(1), of now m] a1(1)] queue_normal_recv(2) [OF Cons.prems(1), of now m] a1(2)
      by (simp split: if_splits)
  next
    case RxPoll
    then show ?thesis using Cons.prems(2) rcv [of 0] by (auto split: prod.splits)
  next
    case RxWait
    then show ?thesis using Cons.prems(2) rcv [of "- 1"] by (auto split: prod.splits)
  qed
qed simp

text \<open>
  C18: what is received is given to the application once and in order. Over any history of arriving messages, polls and
  waits, the messages that were queued are, in this order, those that receives returned followed by those still
  in the ring; the semaphore always counts exactly the messages in the ring, so a receive that waits
  never sleeps while a message is there.
\<close>

theorem receive_history:
  assumes "recv_inv ctx" "rx_run ops ctx = (acc, out, ctx')"
  shows "recv_inv ctx' \<and>
    map (\<lambda>x. mb_tp_buf (the x)) (ring_abs (mring ctx)) @ map mb_tp_buf acc = map mb_tp_buf out @ map (\<lambda>x. mb_tp_buf (the x)) (ring_abs (mring ctx')) \<and>
    (ring_abs (mring ctx') \<noteq> [] \<longrightarrow> fst (rmr_mt_rcv (\<lambda>_. None) ctx' None (- 1)) \<noteq> None)"
proof -
  note r = rx_run_conserves [OF assms]
  have "fst (rmr_mt_rcv (\<lambda>_. None) ctx' None (- 1)) \<noteq> None" if n: "ring_abs (mring ctx') \<noteq> []"
  proof -
    have inv: "recv_inv ctx'" using r by blast
    with n obtain m rest where "ring_abs (mring ctx') = Some m # rest"
      by (cases "ring_abs (mring ctx')"; cases "hd (ring_abs (mring ctx'))") (auto simp: recv_inv_def)
    from rmr_mt_rcv_first(3) [OF inv this, of "\<lambda>_. None" None "- 1"] show ?thesis by auto
  qed
  then show ?thesis using r by blast
qed

lemma demo_recv_inv: "recv_inv demo_rx_ctx" "ring_abs (mring demo_rx_ctx) = []" "ring_cap (mring demo_rx_ctx) = 4095"
proof -
  have mk: "uta_mk_ring True True 4096 = Some (mring demo_rx_ctx)"
    by (simp add: uta_mk_ring_def Let_def demo_rx_ctx_def mb_ctx.defs)
  show "ring_cap (mring demo_rx_ctx) = 4095" using uta_mk_ring_cap [of 4096 True, where ?'a = mbuf] mk by simp
  show a: "ring_abs (mring demo_rx_ctx) = []" using uta_mk_ring_ok(2) [OF mk] .
  show "recv_inv demo_rx_ctx" using uta_mk_ring_ok(1) [OF mk] a by (simp add: recv_inv_def) (simp add: demo_rx_ctx_def mb_ctx.defs)
qed

theorem receive_history_witness:
  "\<exists>acc out c. rx_run [RxArrive 5 mbuf_zero, RxPoll, RxWait] demo_rx_ctx = (acc, out, c) \<and> recv_inv c"
proof -
  obtain acc out c where r: "rx_run [RxArrive 5 mbuf_zero, RxPoll, RxWait] demo_rx_ctx = (acc, out, c)" by (rule prod_cases3)
  then show ?thesis using receive_history [OF demo_recv_inv(1) r] by blast
qed

subsection \<open>Messages that are put back\<close>

lemma rcv_fields:
  assumes inv: "recv_inv ctx" and q: "ring_abs (mring ctx) = [Some m]"
  obtains c r where "rmr_mt_rcv env ctx None (- 1) = (Some r, c)" "msg_xid r = msg_xid m" "mb_tp_buf r = mb_tp_buf m" "mb_state r = RMR_OK"
    "ring_ok (mring c)" "ring_abs (mring c) = []" "ch_barrier (chutes c ! 0) = 0" "ring_cap (mring c) = ring_cap (mring ctx)" "chutes c \<noteq> []"
proof -
  have r: "ring_ok (mring ctx)" and b: "ch_barrier (chutes ctx ! 0) = 1" "chutes ctx \<noteq> []" using inv q by (simp_all add: recv_inv_def)
  obtain x r' where e: "uta_ring_extract True (mring ctx) = (x, r')" by fastforce
  have x: "x = Some m" "ring_ok r'" "ring_abs r' = []" "ring_cap r' = ring_cap (mring ctx)" using msg_ring.ext_ok [OF r q] e by auto
  let ?r = "m\<lparr>mb_state := RMR_OK, mb_flags := mb_flags m OR MFL_ADDSRC, mb_tp_state := E0\<rparr>"
  let ?c = "(sem_dec ctx)\<lparr>mring := r'\<rparr>"
  have "rmr_mt_rcv env ctx None (- 1) = (Some ?r, ?c)" using b by (simp add: rmr_mt_rcv_def sem_wait0_def sem_dec_def e x(1))
  then show thesis using that [of ?r ?c] x b by (simp add: msg_xid_def sem_dec_def)
qed

text \<open>
  C28: a message that \<open>rmr_rcv_specific\<close> puts back is stranded. It returns to the ring, but the semaphore is not
  raised again: a receive that waits sleeps although the message is there. (Only a poll, or the wake of a later
  message, brings it out.)
\<close>

theorem put_back_stranded:
  assumes "recv_inv ctx" "ring_abs (mring ctx) = [Some m]" "0 < ring_cap (mring ctx)" "cstr x \<noteq> []"
    "take (length (take RMR_MAX_XID (cstr x))) (msg_xid m) \<noteq> take RMR_MAX_XID (cstr x)"
  shows "\<exists>c r. rmr_rcv_specific 2 (\<lambda>_. None) ctx None (Some x) 1 = Return (Inl ETIMEDOUT, c) \<and>
    ring_abs (mring c) = [Some r] \<and> mb_tp_buf r = mb_tp_buf m \<and> \<not> recv_inv c \<and> fst (rmr_mt_rcv (\<lambda>_. None) c None (- 1)) = None"
proof -
  obtain c r where f: "rmr_mt_rcv (\<lambda>_. None) ctx None (- 1) = (Some r, c)" "msg_xid r = msg_xid m" "mb_tp_buf r = mb_tp_buf m" "mb_state r = RMR_OK"
    "ring_ok (mring c)" "ring_abs (mring c) = []" "ch_barrier (chutes c ! 0) = 0" "ring_cap (mring c) = ring_cap (mring ctx)" "chutes c \<noteq> []"
    by (rule rcv_fields [OF assms(1,2)])
  obtain y r' where i: "uta_ring_insert True (mring c) (Some r) = (y, r')" by fastforce
  have y: "y = Inr ()" "ring_abs r' = [Some r]" using msg_ring.ins_ok [OF f(5), of "Some r"] assms(3) f(6,8) i by auto
  let ?c = "c\<lparr>mring := r'\<rparr>"
  have "rmr_rcv_specific 2 (\<lambda>_. None) ctx None (Some x) 1 = Return (Inl ETIMEDOUT, ?c)"
    using assms(4,5) f i y(1) by (simp add: rmr_rcv_specific_def numeral_2_eq_2)
  moreover have "\<not> recv_inv ?c" using f(7) y(2) by (simp add: recv_inv_def)
  moreover have "fst (rmr_mt_rcv (\<lambda>_. None) ?c None (- 1)) = None" using f(7) by (simp add: rmr_mt_rcv_def sem_wait0_def)
  ultimately show ?thesis using y(2) f(3) by (intro exI [of _ ?c] exI [of _ r]) simp
qed

theorem put_back_stranded_witness:
  "\<exists>c. rmr_rcv_specific 2 (\<lambda>_. None) (queue_normal 5 demo_rx_ctx mbuf_zero) None (Some [65, 0]) 1 = Return (Inl ETIMEDOUT, c) \<and>
    fst (rmr_mt_rcv (\<lambda>_. None) c None (- 1)) = None"
proof -
  let ?c = "queue_normal 5 demo_rx_ctx mbuf_zero"
  have l: "length (ring_abs (mring demo_rx_ctx)) < ring_cap (mring demo_rx_ctx)" using demo_recv_inv by simp
  have r: "ring_ok (mring demo_rx_ctx)" using demo_recv_inv(1) by (simp add: recv_inv_def)
  obtain y r' where i: "uta_ring_insert True (mring demo_rx_ctx) (Some mbuf_zero) = (y, r')" by fastforce
  have "y = Inr ()" "ring_abs r' = [Some mbuf_zero]" "ring_cap r' = 4095"
    using msg_ring.ins_ok [OF r l, of "Some mbuf_zero"] i demo_recv_inv by auto
  then have "ring_abs (mring ?c) = [Some mbuf_zero]" "ring_cap (mring ?c) = 4095" using i by (simp_all add: queue_normal_def)
  with put_back_stranded [OF queue_normal_recv(1) [OF demo_recv_inv(1)], of 5 mbuf_zero mbuf_zero "[65, 0]"] show ?thesis
    by (fastforce simp: cstr_def msg_xid_def mbuf_zero_def)
qed

end
