(* ===== verification/SendProps.thy ===== *)
theory SendProps
  imports Receive
begin

text \<open>
  Sending: how often a send is tried, what goes onto the wire, and that the other side gets the message that was
  sent, whatever way the bytes arrive; what a routed send does with the groups of its entry; calls and their answers.
\<close>

subsection \<open>The retry loop\<close>

text \<open>The attempt that ends the loop at the latest, when every attempt before it is blocked.\<close>

definition max_tries :: "int \<Rightarrow> int \<Rightarrow> nat" where
  "max_tries spin retries = (if retries \<le> 0 then 1 else nat (max 1 spin) + nat (retries - 1) * 1000)"

lemma max_tries_step:
  "retries > 0 \<Longrightarrow> spin - 1 > 0 \<Longrightarrow> max_tries spin retries = Suc (max_tries (spin - 1) retries)"
  "retries - 1 > 0 \<Longrightarrow> spin - 1 \<le> 0 \<Longrightarrow> max_tries spin retries = Suc (max_tries 1000 (retries - 1))"
  by (auto simp: max_tries_def max_def nat_diff_distrib Suc_nat_eq_nat_zadd1 nat_add_distrib)

lemma send_loop_first:
  assumes "k < max_tries spin retries" "\<And>j. j < k \<Longrightarrow> fst (si (n + j)) = SI_ERR_BLOCKED" "fst (si (n + k)) \<noteq> SI_ERR_BLOCKED"
  shows "send_loop si n spin retries = (n + k + 1, 0, fst (si (n + k)), snd (si (n + k)))"
  using assms
proof (induction k arbitrary: n spin retries)
  case 0
  then show ?case by (subst send_loop.simps) (auto split: prod.splits)
next
  case (Suc k)
  have b: "fst (si n) = SI_ERR_BLOCKED" using Suc.prems(2) [of 0] by simp
  have r: "retries > 0" using Suc.prems(1) by (auto simp: max_tries_def split: if_splits)
  have nxt: "\<And>j. j < k \<Longrightarrow> fst (si (n + 1 + j)) = SI_ERR_BLOCKED" "fst (si (n + 1 + k)) \<noteq> SI_ERR_BLOCKED"
    using Suc.prems(2) [of "Suc j" for j] Suc.prems(3) by simp_all
  consider "spin - 1 > 0" | "spin - 1 \<le> 0" "retries - 1 > 0" | "spin - 1 \<le> 0" "retries - 1 \<le> 0" by linarith
  then show ?case
  proof cases
    case 1
    then show ?thesis using Suc.IH [OF _ nxt, of "spin - 1" retries] Suc.prems(1) r b max_tries_step(1) [OF r 1]
      by (subst send_loop.simps) (auto split: prod.splits)
  next
    case 2
    then show ?thesis using Suc.IH [OF _ nxt, of 1000 "retries - 1"] Suc.prems(1) r b max_tries_step(2) [OF 2(2,1)]
      by (subst send_loop.simps) (auto split: prod.splits)
  next
    case 3
    then have "max_tries spin retries = 1" using r by (simp add: max_tries_def)
    then show ?thesis using Suc.prems(1) by simp
  qed
qed

lemma send_loop_blocked:
  assumes "retries > 0" "\<And>j. j < max_tries spin retries \<Longrightarrow> fst (si (n + j)) = SI_ERR_BLOCKED"
  shows "\<exists>e. send_loop si n spin retries = (n + max_tries spin retries, SI_ERR_BLOCKED, SI_ERR_BLOCKED, e)"
  using assms
proof (induction si n spin retries rule: send_loop.induct)
  case (1 si n spin retries)
  have b: "fst (si n) = SI_ERR_BLOCKED" using "1.prems"(2) [of 0] "1.prems"(1) by (auto simp: max_tries_def max_def)
  then have sn: "(SI_ERR_BLOCKED, snd (si n)) = si n" by (metis prod.collapse)
  consider "spin - 1 > 0" | "spin - 1 \<le> 0" "retries - 1 > 0" | "spin - 1 \<le> 0" "retries - 1 \<le> 0" by linarith
  then show ?case
  proof cases
    case 1
    note m = max_tries_step(1) [OF "1.prems"(1) 1]
    have "\<And>j. j < max_tries (spin - 1) retries \<Longrightarrow> fst (si (n + 1 + j)) = SI_ERR_BLOCKED" using "1.prems"(2) [of "Suc j" for j] m by simp
    then have "\<exists>e. send_loop si (n + 1) (spin - 1) retries = (n + 1 + max_tries (spin - 1) retries, SI_ERR_BLOCKED, SI_ERR_BLOCKED, e)"
      using "1.IH"(2) [of "si n" "fst (si n)" "snd (si n)"] 1 "1.prems"(1) b sn by simp
    then show ?thesis using 1 b "1.prems"(1) m by (subst send_loop.simps) (auto split: prod.splits)
  next
    case 2
    note m = max_tries_step(2) [OF 2(2,1)]
    have "\<And>j. j < max_tries 1000 (retries - 1) \<Longrightarrow> fst (si (n + 1 + j)) = SI_ERR_BLOCKED" using "1.prems"(2) [of "Suc j" for j] m by simp
    then have "\<exists>e. send_loop si (n + 1) 1000 (retries - 1) = (n + 1 + max_tries 1000 (retries - 1), SI_ERR_BLOCKED, SI_ERR_BLOCKED, e)"
      using "1.IH"(1) [of "si n" "fst (si n)" "snd (si n)"] 2 "1.prems"(1) b sn by simp
    then show ?thesis using 2 b "1.prems"(1) m by (subst send_loop.simps) (auto split: prod.splits)
  next
    case 3
    then have "max_tries spin retries = 1" using "1.prems"(1) by (simp add: max_tries_def)
    then show ?thesis using 3 b "1.prems"(1) by (subst send_loop.simps) (auto split: prod.splits)
  qed
qed

text \<open>
  C26: a send always comes to an end, after a number of attempts the retry setting fixes. Whatever the transport does,
  at most \<open>max_tries\<close> attempts are made: 1000 for each retry of the setting (1 by default), and 100 when the setting is 0, although the documentation
  of \<open>rmr_set_stimeout\<close> says that there are no retries then. The first attempt that is not blocked ends the
  loop with the transport's answer; if all are blocked, the loop reports that.
\<close>

theorem send_loop_bound:
  assumes "retries > 0"
  shows "max_tries 1000 retries = 1000 * nat retries \<and> max_tries 100 1 = 100 \<and>
    (\<forall>k < max_tries spin retries. (\<forall>j < k. fst (si j) = SI_ERR_BLOCKED) \<and> fst (si k) \<noteq> SI_ERR_BLOCKED \<longrightarrow>
        send_loop si 0 spin retries = (k + 1, 0, fst (si k), snd (si k))) \<and>
    ((\<forall>j < max_tries spin retries. fst (si j) = SI_ERR_BLOCKED) \<longrightarrow>
        (\<exists>e. send_loop si 0 spin retries = (max_tries spin retries, SI_ERR_BLOCKED, SI_ERR_BLOCKED, e)))"
proof (intro conjI allI impI)
  show "max_tries 1000 retries = 1000 * nat retries" "max_tries 100 1 = 100"
    using assms by (simp_all add: max_tries_def nat_diff_distrib algebra_simps)
next
  fix k assume "k < max_tries spin retries" "(\<forall>j < k. fst (si j) = SI_ERR_BLOCKED) \<and> fst (si k) \<noteq> SI_ERR_BLOCKED"
  then show "send_loop si 0 spin retries = (k + 1, 0, fst (si k), snd (si k))" using send_loop_first [of k spin retries si 0] by simp
next
  assume "\<forall>j < max_tries spin retries. fst (si j) = SI_ERR_BLOCKED"
  then show "\<exists>e. send_loop si 0 spin retries = (max_tries spin retries, SI_ERR_BLOCKED, SI_ERR_BLOCKED, e)"
    using send_loop_blocked [OF assms, of spin si 0] by simp
qed

theorem send_loop_bound_witness:
  "send_loop (\<lambda>n. if n < 5 then (SI_ERR_BLOCKED, EAGAIN) else (SI_OK, E0)) 0 1000 2 = (6, 0, RMR_OK, E0)"
  using send_loop_bound [of 2 1000 "\<lambda>n. if n < 5 then (SI_ERR_BLOCKED, EAGAIN) else (SI_OK, E0)"]
  by (auto simp: max_tries_def dest: spec [of _ 5])

subsection \<open>What goes onto the wire\<close>

text \<open>The bytes of a message that a send does not touch: identifiers, flags and lengths, and all behind the header.\<close>

definition kept :: "nat \<Rightarrow> nat \<Rightarrow> bool" where
  "kept off n = (62 \<le> off \<and> off + n \<le> 126 \<or> 190 \<le> off \<and> off + n \<le> 262 \<or> 330 \<le> off)"

lemma send_header_spec:
  assumes l: "330 \<le> length b"
  shows "length (send_header ctx m 50 b) = length b"
    "kept off n \<Longrightarrow> bget off n (send_header ctx m 50 b) = bget off n b"
    "hget 50 F_mtype (send_header ctx m 50 b) = word_of_int (mb_mtype m)"
    "hget 50 F_sub_id (send_header ctx m 50 b) = word_of_int (mb_sub_id m)"
    "hget 50 F_plen (send_header ctx m 50 b) = word_of_int (mb_len m)"
    "mb_flags m AND MFL_ADDSRC \<noteq> 0 \<Longrightarrow> cstr (bget (50 + uta_mhdr_t F_src) 64 (send_header ctx m 50 b)) = take 63 (cstr (my_name ctx))"
proof -
  let ?b1 = "hset 50 F_plen (word_of_int (mb_len m)) (hset 50 F_sub_id (word_of_int (mb_sub_id m)) (hset 50 F_mtype (word_of_int (mb_mtype m)) b))"
  have l1: "50 + 280 \<le> length ?b1" "length ?b1 = length b" using l by simp_all
  note f1 = fill_field_spec [OF l1(1), where f = F_src and src = "my_name ctx", simplified]
  let ?b2 = "fill_field 50 F_src (my_name ctx) ?b1"
  have l2: "50 + 280 \<le> length ?b2" using f1(1) l1 by simp
  note f2 = fill_field_spec [OF l2, where f = F_srcip and src = "my_ip ctx", simplified]
  show "length (send_header ctx m 50 b) = length b"
    "hget 50 F_mtype (send_header ctx m 50 b) = word_of_int (mb_mtype m)"
    "hget 50 F_sub_id (send_header ctx m 50 b) = word_of_int (mb_sub_id m)"
    "hget 50 F_plen (send_header ctx m 50 b) = word_of_int (mb_len m)"
    using l f1(1,3) f2(1,3) by (simp_all add: send_header_def Let_def)
  show "cstr (bget (50 + uta_mhdr_t F_src) 64 (send_header ctx m 50 b)) = take 63 (cstr (my_name ctx))" if "mb_flags m AND MFL_ADDSRC \<noteq> 0"
    using that f1(2) f2(4) [of 126 64] by (simp add: send_header_def Let_def)
  show "bget off n (send_header ctx m 50 b) = bget off n b" if k: "kept off n"
  proof -
    have "bget off n ?b1 = bget off n b"
      using k l by (auto simp: kept_def hset_def bget_bput_other length_bput)
    moreover have "bget off n ?b2 = bget off n ?b1" using k f1(4) [of off n] by (auto simp: kept_def)
    moreover have "bget off n (fill_field 50 F_srcip (my_ip ctx) ?b2) = bget off n ?b2" using k f2(4) [of off n] by (auto simp: kept_def)
    ultimately show ?thesis by (simp add: send_header_def Let_def)
  qed
qed

text \<open>A message that can be sent: well formed, with its payload inside of the buffer and 32 bit fields.\<close>

definition sendable :: "mbuf \<Rightarrow> bytes \<Rightarrow> bool" where
  "sendable m b = (mbuf_wf m \<and> mb_tp_buf m = Some b \<and> 0 \<le> mb_len m \<and> int (PAYLOAD_ADDR 50 b) + mb_len m \<le> mb_alloc_len m \<and>
     - (2 ^ 31) \<le> mb_mtype m \<and> mb_mtype m < 2 ^ 31 \<and> - (2 ^ 31) \<le> mb_sub_id m \<and> mb_sub_id m < 2 ^ 31 \<and> length b + 128 < 2 ^ 31)"

text \<open>What a message says: its type, its subscription, its payload, the transaction id and the managed element.\<close>

definition content :: "mbuf \<Rightarrow> int \<times> int \<times> bytes \<times> bytes \<times> bytes" where
  "content m = (let b = the (mb_tp_buf m) in
     (mb_mtype m, mb_sub_id m, bget (the (mb_payload m)) (nat (mb_len m)) b, bget (50 + uta_mhdr_t F_xid) RMR_MAX_XID b,
      bget (50 + uta_mhdr_t F_meid) RMR_MAX_MEID b))"

text \<open>The bytes on the wire.\<close>

definition wire_frame :: "('c) mb_ctx_scheme \<Rightarrow> mbuf \<Rightarrow> bytes \<Rightarrow> bytes" where
  "wire_frame ctx m b = (let b1 = send_header ctx m 50 b; n = send_len m 50 b1 in take (nat n) (insert_mlen (word_of_int n) b1))"

lemma un_mlen:
  assumes "13 \<le> length b"
  shows "extract_mlen (insert_mlen w b) = w"
proof -
  have "bget 8 1 (insert_mlen w b) = [36]" using assms by (simp add: insert_mlen_def bget_bput_same block_simps)
  then have "insert_mlen w b ! 8 = 36" using assms bget_nth [of 0 1 8 "insert_mlen w b"] by simp
  moreover have "bget 0 4 (insert_mlen w b) = le32 w" "bget 4 4 (insert_mlen w b) = be32 w"
    using assms by (simp_all add: insert_mlen_def block_simps)
  ultimately show ?thesis by (simp add: extract_mlen_def)
qed

lemma send_header_lens:
  assumes "330 \<le> length b"
  shows "f \<in> {F_len0, F_len1, F_len2, F_len3} \<Longrightarrow> hget 50 f (send_header ctx m 50 b) = hget 50 f b"
    "PAYLOAD_ADDR 50 (send_header ctx m 50 b) = PAYLOAD_ADDR 50 b" "RMR_HDR_LEN 50 (send_header ctx m 50 b) = RMR_HDR_LEN 50 b"
proof -
  have f: "hget 50 f (send_header ctx m 50 b) = hget 50 f b" if "f \<in> {F_len0, F_len1, F_len2, F_len3}" for f
    using that send_header_spec(2) [OF assms, of "50 + uta_mhdr_t f" 4 ctx m] by (auto simp: hget_def kept_def)
  show "f \<in> {F_len0, F_len1, F_len2, F_len3} \<Longrightarrow> hget 50 f (send_header ctx m 50 b) = hget 50 f b" by (rule f)
  show "PAYLOAD_ADDR 50 (send_header ctx m 50 b) = PAYLOAD_ADDR 50 b" "RMR_HDR_LEN 50 (send_header ctx m 50 b) = RMR_HDR_LEN 50 b"
    by (simp_all add: PAYLOAD_ADDR_def RMR_HDR_LEN_def f)
qed

lemma sendable_facts:
  assumes "sendable m b"
  shows "330 \<le> length b" "330 \<le> PAYLOAD_ADDR 50 b" "mb_hdr m = Some (50, b)" "mb_payload m = Some (PAYLOAD_ADDR 50 b)"
    "send_len m 50 (send_header ctx m 50 b) = int (PAYLOAD_ADDR 50 b) + mb_len m" "PAYLOAD_ADDR 50 b + nat (mb_len m) \<le> length b"
    "length b + 128 < 2 ^ 31" "0 \<le> mb_len m" "int (PAYLOAD_ADDR 50 b) + mb_len m < 2 ^ 31"
proof -
  have w: "mbuf_wf m" "mb_tp_buf m = Some b" using assms by (simp_all add: sendable_def)
  note f = mbuf_wf_facts [OF w]
  show "330 \<le> length b" "330 \<le> PAYLOAD_ADDR 50 b" "mb_hdr m = Some (50, b)" "mb_payload m = Some (PAYLOAD_ADDR 50 b)" using f by simp_all
  show "0 \<le> mb_len m" "length b + 128 < 2 ^ 31" and k: "PAYLOAD_ADDR 50 b + nat (mb_len m) \<le> length b"
    using assms f by (auto simp: sendable_def)
  have "int (length b) < 2 ^ 31" using f(7) by (simp only: of_nat_less_numeral_power_cancel_iff)
  then show lt: "int (PAYLOAD_ADDR 50 b) + mb_len m < 2 ^ 31" using k by linarith
  have "uint (RMR_HDR_LEN 50 b) = int (PAYLOAD_ADDR 50 b) - 50" by (rule mbuf_wf_hdr_len(4) [OF w])
  moreover have "to_int32 (mb_len m + int (PAYLOAD_ADDR 50 b)) = int (PAYLOAD_ADDR 50 b) + mb_len m"
    using lt \<open>0 \<le> mb_len m\<close> by (subst to_int32_small) linarith+
  ultimately show "send_len m 50 (send_header ctx m 50 b) = int (PAYLOAD_ADDR 50 b) + mb_len m"
    using assms send_header_lens(3) [OF f(9), of ctx m] by (simp add: send_len_def sendable_def Let_def)
qed

lemma wire_frame_spec:
  assumes s: "sendable m b"
  shows "length (wire_frame ctx m b) = PAYLOAD_ADDR 50 b + nat (mb_len m)" "frame_ok (wire_frame ctx m b)"
    "13 \<le> off \<Longrightarrow> off + n \<le> length (wire_frame ctx m b) \<Longrightarrow> bget off n (wire_frame ctx m b) = bget off n (send_header ctx m 50 b)"
proof -
  note f = sendable_facts [OF s]
  let ?n = "int (PAYLOAD_ADDR 50 b) + mb_len m"
  let ?b1 = "send_header ctx m 50 b"
  have l1: "length ?b1 = length b" using send_header_spec(1) [OF f(1)] .
  have w: "wire_frame ctx m b = take (nat ?n) (insert_mlen (word_of_int ?n) ?b1)" by (simp add: wire_frame_def Let_def f(5))
  show l: "length (wire_frame ctx m b) = PAYLOAD_ADDR 50 b + nat (mb_len m)"
    using f l1 unfolding w by (simp add: nat_add_distrib)
  have "unat (word_of_int ?n :: u32) = nat ?n" using f by (intro unat_word_of_int_small) linarith+
  moreover have "extract_mlen (wire_frame ctx m b) = word_of_int ?n"
    unfolding w using f l1 by (subst extract_mlen_take) (simp_all add: un_mlen nat_add_distrib)
  ultimately show "frame_ok (wire_frame ctx m b)" using l f by (simp add: frame_ok_def nat_add_distrib)
  show "bget off n (wire_frame ctx m b) = bget off n ?b1" if "13 \<le> off" "off + n \<le> length (wire_frame ctx m b)"
  proof -
    have "bget off n (take (nat ?n) (insert_mlen (word_of_int ?n) ?b1)) = bget off n (insert_mlen (word_of_int ?n) ?b1)"
      using that(2) l f by (simp add: bget_def drop_take nat_add_distrib)
    then show ?thesis using that(1) f l1 by (simp add: w insert_mlen_frame)
  qed
qed

lemma bget_take_eq: "take k raw = f \<Longrightarrow> off + n \<le> k \<Longrightarrow> bget off n raw = bget off n f"
  by (auto simp: bget_def drop_take)

text \<open>The receiving side: any accumulator that starts with the bytes that were sent.\<close>

lemma frame_received:
  assumes s: "sendable m b" and raw: "take (length (wire_frame ctx m b)) raw = wire_frame ctx m b" "length raw < 2 ^ 31"
    "length (wire_frame ctx m b) \<le> length raw"
  shows "rx_accepts raw (int (length raw))" "content (rx_mbuf mibm m0 raw (int (length raw)) fd) = content m"
    "mb_state (rx_mbuf mibm m0 raw (int (length raw)) fd) = RMR_OK" "mb_len (rx_mbuf mibm m0 raw (int (length raw)) fd) = mb_len m"
    "mb_flags m AND MFL_ADDSRC \<noteq> 0 \<Longrightarrow> cstr (bget (50 + uta_mhdr_t F_src) 64 raw) = take 63 (cstr (my_name ctx))"
    "hflags 50 raw = hflags 50 b" "RMR_D1_LEN 50 raw = RMR_D1_LEN 50 b" "DATA1_ADDR 50 raw = DATA1_ADDR 50 b"
    "DATA1_ADDR 50 b < PAYLOAD_ADDR 50 b \<Longrightarrow> raw ! DATA1_ADDR 50 b = b ! DATA1_ADDR 50 b"
    "x \<in> {F_len0, F_len1, F_len2, F_len3} \<Longrightarrow> hget 50 x raw = hget 50 x b"
    "length raw + 128 < 2 ^ 31 \<Longrightarrow> sendable (rx_mbuf mibm m0 raw (int (length raw)) fd) raw"
proof -
  note f = sendable_facts [OF s] and w = wire_frame_spec [OF s, where ctx = ctx]
  let ?b1 = "send_header ctx m 50 b"
  have g1: "bget off n raw = bget off n ?b1" if "13 \<le> off" "off + n \<le> PAYLOAD_ADDR 50 b + nat (mb_len m)" for off n
    using bget_take_eq [OF raw(1)] w(3) [OF that(1)] that(2) w(1) by simp
  have g: "bget off n raw = bget off n b" if "kept off n" "off + n \<le> PAYLOAD_ADDR 50 b + nat (mb_len m)" for off n
    using g1 [OF _ that(2)] that(1) send_header_spec(2) [OF f(1) that(1), of ctx m] by (auto simp: kept_def)
  have h1: "hget 50 x raw = hget 50 x ?b1" if "int_field x" for x
    using g1 [of "50 + uta_mhdr_t x" 4] int_field_range [OF that] f(2) by (simp add: hget_def)
  have hl: "hget 50 x raw = hget 50 x b" if "x \<in> {F_len0, F_len1, F_len2, F_len3}" for x
    using h1 [of x] send_header_lens(1) [OF f(1) that, of ctx m] that by auto
  show "x \<in> {F_len0, F_len1, F_len2, F_len3} \<Longrightarrow> hget 50 x raw = hget 50 x b" by (rule hl)
  have pa: "PAYLOAD_ADDR 50 raw = PAYLOAD_ADDR 50 b" and rl: "RMR_HDR_LEN 50 raw = RMR_HDR_LEN 50 b"
    by (simp_all add: PAYLOAD_ADDR_def RMR_HDR_LEN_def hl)
  show "RMR_D1_LEN 50 raw = RMR_D1_LEN 50 b" "DATA1_ADDR 50 raw = DATA1_ADDR 50 b" by (simp_all add: RMR_D1_LEN_def DATA1_ADDR_def hl)
  show "hflags 50 raw = hflags 50 b" using g [of 242 4] f(2) by (simp add: hflags_def kept_def)
  have pl: "hget 50 F_plen raw = word_of_int (mb_len m)" using h1 [of F_plen] send_header_spec(5) [OF f(1)] by simp
  have hd: "sint (RMR_HDR_LEN 50 b) = int (PAYLOAD_ADDR 50 b) - 50" "PAYLOAD_ADDR 50 b = 50 + unat (RMR_HDR_LEN 50 b)"
    using s mbuf_wf_hdr_len(1,3) by (auto simp: sendable_def)
  have ul: "unat (word_of_int (mb_len m) :: u32) = nat (mb_len m)" using f by (intro unat_word_of_int_small) linarith+
  have le: "PAYLOAD_ADDR 50 b + nat (mb_len m) \<le> length raw" using raw(3) w(1) by simp
  have "unat (RMR_HDR_LEN 50 b + 50 + word_of_int (mb_len m)) = PAYLOAD_ADDR 50 b + nat (mb_len m)"
    using hd(2) ul le raw(2) by (simp add: unat_word_ariths)
  moreover have "unat (word_of_int (int (length raw)) :: u32) = length raw" using raw(2) by (subst unat_word_of_int_small) simp_all
  ultimately show "rx_accepts raw (int (length raw))" using le by (simp add: rx_accepts_def rl pl not_less word_le_nat_alt)
  have sl: "sint (hget 50 F_plen raw) = mb_len m" unfolding pl using f by (intro sint_word_of_int) linarith+
  have ns: "\<not> sint (hget 50 F_plen raw) > int (length raw) - sint (RMR_HDR_LEN 50 raw)" unfolding sl rl hd(1) using le f(8) by linarith
  show "mb_state (rx_mbuf mibm m0 raw (int (length raw)) fd) = RMR_OK" "mb_len (rx_mbuf mibm m0 raw (int (length raw)) fd) = mb_len m"
    using ns by (simp_all add: rx_mbuf_def ref_tpbuf_def Let_def sl)
  show "sendable (rx_mbuf mibm m0 raw (int (length raw)) fd) raw" if "length raw + 128 < 2 ^ 31"
  proof -
    have "- (2 ^ 31) \<le> sint w" "sint w < 2 ^ 31" for w :: u32 using sint_greater_eq [of w] sint_lt [of w] by simp_all
    moreover have "hget 50 F_len0 raw = 280" using hl [of F_len0] s by (auto simp: sendable_def mbuf_wf_def)
    ultimately show ?thesis using ns le f(8) that by (simp add: sendable_def mbuf_wf_def rx_mbuf_def ref_tpbuf_def Let_def sl pa)
  qed
  have "sint (hget 50 F_mtype raw) = mb_mtype m" "sint (hget 50 F_sub_id raw) = mb_sub_id m"
    using h1 [of F_mtype] h1 [of F_sub_id] send_header_spec(3,4) [OF f(1), of ctx m] s by (simp_all add: sendable_def sint_word_of_int)
  moreover have "bget (PAYLOAD_ADDR 50 b) (nat (mb_len m)) raw = bget (PAYLOAD_ADDR 50 b) (nat (mb_len m)) b"
    "bget 62 32 raw = bget 62 32 b" "bget 190 32 raw = bget 190 32 b" using f(2) by (simp_all add: g kept_def)
  moreover have "mb_tp_buf m = Some b" using s by (simp add: sendable_def)
  ultimately show "content (rx_mbuf mibm m0 raw (int (length raw)) fd) = content m"
    using ns f(4) by (simp add: content_def rx_mbuf_def ref_tpbuf_def Let_def sl pa)
  show "cstr (bget (50 + uta_mhdr_t F_src) 64 raw) = take 63 (cstr (my_name ctx))" if "mb_flags m AND MFL_ADDSRC \<noteq> 0"
    using g1 [of 126 64] f(2) send_header_spec(6) [OF f(1) that, of ctx] by simp
  show "raw ! DATA1_ADDR 50 b = b ! DATA1_ADDR 50 b" if "DATA1_ADDR 50 b < PAYLOAD_ADDR 50 b"
  proof -
    have "330 \<le> DATA1_ADDR 50 b" using s by (auto simp: DATA1_ADDR_def sendable_def mbuf_wf_def)
    with that have "bget (DATA1_ADDR 50 b) 1 raw = bget (DATA1_ADDR 50 b) 1 b" by (intro g) (simp_all add: kept_def)
    then show ?thesis using bget_nth [of 0 1 "DATA1_ADDR 50 b" raw] bget_nth [of 0 1 "DATA1_ADDR 50 b" b] that le f(6) by simp
  qed
qed

text \<open>A send whose first attempt that is not blocked comes in time puts this frame on the wire.\<close>

lemma send_msg_frame:
  assumes s: "sendable m b" and r: "send_msg si mem junk ctx m fd retries = Return (mo, e, ctx', w)"
  shows "w = [] \<or> w = [(fd, wire_frame ctx m b)]"
    "fst (si 0) = SI_OK \<Longrightarrow> w = [(fd, wire_frame ctx m b)]"
proof -
  note f = sendable_facts [OF s]
  have "length (insert_mlen x (send_header ctx m 50 b)) = length b" for x using f(1) send_header_spec(1) [OF f(1), of ctx m] by simp
  then show "w = [] \<or> w = [(fd, wire_frame ctx m b)]" "fst (si 0) = SI_OK \<Longrightarrow> w = [(fd, wire_frame ctx m b)]"
    using r by (auto simp: send_msg_def f(3) Let_def wire_frame_def send_loop.simps [of si 0] split: prod.splits if_splits)
qed

subsection \<open>From sender to receiver\<close>

text \<open>
  The message is for the receive queue: it is sent as a call, or it has no data area for a call id, or no call id.
  (An answer with a call id goes to the chute of that call.)
\<close>

definition no_call :: "bytes \<Rightarrow> bool" where
  "no_call b = (hflags 50 b AND HFL_CALL_MSG \<noteq> 0 \<or> RMR_D1_LEN 50 b = 0 \<or> b ! DATA1_ADDR 50 b = 0)"

text \<open>\<open>f\<close> is what a send of \<open>m\<close> puts on the wire.\<close>

definition sent_as :: "mbuf \<Rightarrow> bytes \<Rightarrow> bool" where
  "sent_as m f = (\<exists>b si mem junk (ctx :: uta_ctx) fd retries mo e ctx'. sendable m b \<and> no_call b \<and>
     send_msg si mem junk ctx m fd retries = Return (mo, e, ctx', [(fd, f)]))"

lemma sent_asD:
  assumes "sent_as m f"
  obtains b and ctx :: uta_ctx where "sendable m b" "no_call b" "f = wire_frame ctx m b"
proof -
  obtain b si mem junk fd retries mo e ctx' and ctx :: uta_ctx
    where s: "sendable m b" "no_call b" "send_msg si mem junk ctx m fd retries = Return (mo, e, ctx', [(fd, f)])"
    using assms unfolding sent_as_def by blast
  from send_msg_frame(1) [OF s(1,3)] have "f = wire_frame ctx m b" by simp
  with s that show thesis by blast
qed

text \<open>What the messages in the receive queue say.\<close>

definition queued :: "('c) rx_ctx_scheme \<Rightarrow> (int \<times> int \<times> bytes \<times> bytes \<times> bytes) list" where
  "queued ctx = map (\<lambda>x. content (the x)) (ring_abs (mring ctx))"

text \<open>One connection: the buffers the transport passes to the callback, one after the other.\<close>

fun rx_chunks :: "int \<Rightarrow> (nat \<Rightarrow> u8) \<Rightarrow> int \<Rightarrow> bytes list \<Rightarrow> ('c) rx_ctx_scheme \<Rightarrow> ('c) rx_ctx_scheme outcome" where
  "rx_chunks now junk fd [] ctx = Return ctx"
| "rx_chunks now junk fd (c # cs) ctx =
     (case mt_data_cb (length c) True now junk ctx fd c of
        Return ctx' \<Rightarrow> rx_chunks now junk fd cs ctx'
      | Undef \<Rightarrow> Undef
      | NoFuel \<Rightarrow> NoFuel)"

lemma buf2mbuf_sent:
  assumes m: "sent_as m f" and raw: "take (length f) raw = f" "length f \<le> length raw" "length raw < 2 ^ 31"
  obtains m' r where "buf2mbuf True now raw (int (length raw)) fd ctx = Some (queue_normal now (ctx\<lparr>zcb_mring := r\<rparr>) m')"
    "content m' = content m" "mb_state m' = RMR_OK"
proof -
  obtain b and c :: uta_ctx where s: "sendable m b" "no_call b" and f: "f = wire_frame c m b" by (rule sent_asD [OF m])
  note fr = frame_received [OF s(1), of c raw, folded f, OF raw(1,3,2)]
  obtain x r where "uta_ring_extract True (zcb_mring ctx) = (x, r)" by fastforce
  then obtain m0 where a: "alloc_mbuf True ctx RMR_ERR_UNSET = (Some m0, ctx\<lparr>zcb_mring := r\<rparr>)"
    by (auto simp: alloc_mbuf_def)
  let ?m = "rx_mbuf (max_ibm ctx) m0 raw (int (length raw)) fd"
  have l: "PAYLOAD_ADDR 50 b \<le> length raw" using raw(2) wire_frame_spec(1) [OF s(1), of c] f by simp
  have d: "DATA1_ADDR 50 b < PAYLOAD_ADDR 50 b" if "RMR_D1_LEN 50 b \<noteq> 0"
    using that by (simp add: DATA1_ADDR_def PAYLOAD_ADDR_def RMR_D1_LEN_def unat_gt_0)
  have "buf2mbuf True now raw (int (length raw)) fd ctx = Some (queue_normal now (ctx\<lparr>zcb_mring := r\<rparr>) ?m)"
    using s(2) fr(6-9) d l by (auto simp: buf2mbuf_def fr(1) a no_call_def Let_def)
  from that [OF this fr(2,3)] show thesis .
qed

lemma queue_normal_frame [simp]:
  "rivers (queue_normal now ctx m) = rivers ctx" "nrivers (queue_normal now ctx m) = nrivers ctx" "max_ibm (queue_normal now ctx m) = max_ibm ctx"
  by (simp_all add: queue_normal_def Let_def split: prod.splits sum.splits)

lemma queue_normal_room:
  assumes "recv_inv ctx" "length (ring_abs (mring ctx)) < ring_cap (mring ctx)"
  shows "ring_abs (mring (queue_normal now ctx m)) = ring_abs (mring ctx) @ [Some m]"
    "ring_cap (mring (queue_normal now ctx m)) = ring_cap (mring ctx)"
proof -
  obtain x r' where i: "uta_ring_insert True (mring ctx) (Some m) = (x, r')" by fastforce
  have "ring_ok (mring ctx)" using assms(1) by (simp add: recv_inv_def)
  from msg_ring.ins_ok [OF this assms(2), of "Some m"] i
  show "ring_abs (mring (queue_normal now ctx m)) = ring_abs (mring ctx) @ [Some m]"
    "ring_cap (mring (queue_normal now ctx m)) = ring_cap (mring ctx)" by (simp_all add: queue_normal_def)
qed

lemma deliver_sent:
  assumes "list_all2 sent_as ms fs" "carries raws fs" "recv_inv ctx" "length (ring_abs (mring ctx)) + length ms \<le> ring_cap (mring ctx)"
  obtains ctx' where "deliver_all (\<lambda>raw n c. buf2mbuf True now raw n fd c) raws ctx = Some ctx'" "recv_inv ctx'"
    "queued ctx' = queued ctx @ map content ms"
    "ring_cap (mring ctx') = ring_cap (mring ctx)" "rivers ctx' = rivers ctx" "nrivers ctx' = nrivers ctx" "max_ibm ctx' = max_ibm ctx"
  using assms
proof (induction ms fs arbitrary: raws ctx thesis rule: list_all2_induct)
  case Nil
  then show ?case by (auto simp: carries_def)
next
  case (Cons m ms f fs)
  obtain raw raws' where rw: "raws = raw # raws'" "take (length f) raw = f" "length f \<le> length raw" "length raw < 2 ^ 31" "carries raws' fs"
    using Cons.prems(2) by (auto simp: carries_def list_all2_Cons2)
  obtain m' r where q: "buf2mbuf True now raw (int (length raw)) fd ctx = Some (queue_normal now (ctx\<lparr>zcb_mring := r\<rparr>) m')" "content m' = content m"
    by (rule buf2mbuf_sent [OF Cons.hyps(1) rw(2-4)])
  let ?c = "ctx\<lparr>zcb_mring := r\<rparr>"
  have c: "recv_inv ?c" "length (ring_abs (mring ?c)) < ring_cap (mring ?c)" using Cons.prems(3,4) by (simp_all add: recv_inv_def)
  note n = queue_normal_room [OF c, of now m']
  have qd: "queued (queue_normal now ?c m') = queued ctx @ [content m]" using n(1) q(2) by (simp add: queued_def)
  have R: "recv_inv (queue_normal now ?c m')" by (rule queue_normal_recv(1) [OF c(1)])
  have L: "length (ring_abs (mring (queue_normal now ?c m'))) + length ms \<le> ring_cap (mring (queue_normal now ?c m'))" using Cons.prems(4) n by simp
  obtain ctx' where ih: "deliver_all (\<lambda>raw n c. buf2mbuf True now raw n fd c) raws' (queue_normal now ?c m') = Some ctx'" "recv_inv ctx'"
    "queued ctx' = queued (queue_normal now ?c m') @ map content ms"
    "ring_cap (mring ctx') = ring_cap (mring (queue_normal now ?c m'))" "rivers ctx' = rivers ctx" "nrivers ctx' = nrivers ctx" "max_ibm ctx' = max_ibm ctx"
    by (rule Cons.IH [OF _ rw(5) R L]) (rule that, assumption+, simp_all)
  show ?case by (rule Cons.prems(1) [OF _ ih(2)]) (use ih q(1) n(2) qd in \<open>simp_all add: rw(1)\<close>)
qed

lemma mt_data_cb_sent:
  assumes "list_all2 sent_as ms (fst (deframe (p @ c)))" "stream_ok (p @ c)" "c \<noteq> []" "river_at (max_ibm ctx) (rivers ctx ! nat fd) p"
    "recv_inv ctx" "length (ring_abs (mring ctx)) + length ms \<le> ring_cap (mring ctx)"
    "ibm_ok (max_ibm ctx)" "0 \<le> fd" "fd < nrivers ctx" "nat fd < length (rivers ctx)"
  obtains ctx' where "mt_data_cb (length c) True now junk ctx fd c = Return ctx'" "recv_inv ctx'"
    "queued ctx' = queued ctx @ map content ms"
    "ring_cap (mring ctx') = ring_cap (mring ctx)" "river_at (max_ibm ctx) (rivers ctx' ! nat fd) (snd (deframe (p @ c)))"
    "length (rivers ctx') = length (rivers ctx)" "nrivers ctx' = nrivers ctx" "max_ibm ctx' = max_ibm ctx"
proof -
  let ?d = "\<lambda>raw n c. buf2mbuf True now raw n fd c"
  obtain raws r' where r: "carries raws (fst (deframe (p @ c)))" "river_at (max_ibm ctx) r' (snd (deframe (p @ c)))"
    "river_data (length c) ?d junk (max_ibm ctx) c (rivers ctx ! nat fd) ctx = run_result r' (deliver_all ?d raws ctx)"
    using river_data_stream [OF assms(7,4,2) order.refl, of ?d junk ctx] by auto
  obtain c1 where c1: "deliver_all ?d raws ctx = Some c1" "recv_inv c1"
    "queued c1 = queued ctx @ map content ms"
    "ring_cap (mring c1) = ring_cap (mring ctx)" "rivers c1 = rivers ctx" "nrivers c1 = nrivers ctx" "max_ibm c1 = max_ibm ctx"
    by (rule deliver_sent [OF assms(1) r(1) assms(5,6)])
  let ?c = "c1\<lparr>rivers := (rivers c1)[nat fd := r']\<rparr>"
  have "mt_data_cb (length c) True now junk ctx fd c = Return ?c" using assms(3,8,9) r(3) c1(1) by (simp add: mt_data_cb_def Let_def)
  moreover have "recv_inv ?c" using c1(2) by (simp add: recv_inv_def)
  moreover have "queued ?c = queued c1" by (simp add: queued_def)
  ultimately show thesis using that [of ?c] c1 r(2) assms(10) by simp
qed

lemma rx_chunks_sent:
  assumes "list_all2 sent_as ms (fst (deframe (p @ concat cs)))" "stream_ok (p @ concat cs)" "[] \<notin> set cs"
    "river_at (max_ibm ctx) (rivers ctx ! nat fd) p" "recv_inv ctx" "length (ring_abs (mring ctx)) + length ms \<le> ring_cap (mring ctx)"
    "ibm_ok (max_ibm ctx)" "0 \<le> fd" "fd < nrivers ctx" "nat fd < length (rivers ctx)"
  shows "\<exists>ctx'. rx_chunks now junk fd cs ctx = Return ctx' \<and> recv_inv ctx' \<and>
    queued ctx' = queued ctx @ map content ms \<and>
    river_at (max_ibm ctx) (rivers ctx' ! nat fd) (snd (deframe (p @ concat cs)))"
  using assms
proof (induction cs arbitrary: ms p ctx)
  case Nil
  have "deframe p = ([], p)"
    using Nil.prems(4) by (cases "length p < 9") (auto simp: river_at_def river_holds_def deframe_short intro: deframe_wait)
  then show ?case using Nil.prems by simp
next
  case (Cons c cs)
  have "stream_ok ((p @ c) @ concat cs)" using Cons.prems(2) by simp
  note sa = stream_ok_append [OF this]
  let ?q = "snd (deframe (p @ c))"
  obtain m1 m2 where ms: "ms = m1 @ m2" "list_all2 sent_as m1 (fst (deframe (p @ c)))" "list_all2 sent_as m2 (fst (deframe (?q @ concat cs)))"
    using Cons.prems(1) sa by (auto simp: list_all2_append2)
  have nc: "c \<noteq> []" "[] \<notin> set cs" and room: "length (ring_abs (mring ctx)) + length m1 \<le> ring_cap (mring ctx)" using Cons.prems(3,6) ms(1) by auto
  obtain c1 where c1: "mt_data_cb (length c) True now junk ctx fd c = Return c1" "recv_inv c1"
    "queued c1 = queued ctx @ map content m1"
    "ring_cap (mring c1) = ring_cap (mring ctx)" "river_at (max_ibm ctx) (rivers c1 ! nat fd) ?q"
    "length (rivers c1) = length (rivers ctx)" "nrivers c1 = nrivers ctx" "max_ibm c1 = max_ibm ctx"
    by (rule mt_data_cb_sent [OF ms(2) _ nc(1) Cons.prems(4,5) room Cons.prems(7-10)]) (use sa in blast)
  from c1(3) have "length (ring_abs (mring c1)) = length (ring_abs (mring ctx)) + length m1" by (metis queued_def length_append length_map)
  then have "length (ring_abs (mring c1)) + length m2 \<le> ring_cap (mring c1)" using Cons.prems(6) ms(1) c1(4) by simp
  from Cons.IH [OF ms(3) _ nc(2) _ c1(2) this] sa c1 Cons.prems(7-10) obtain c2 where
    "rx_chunks now junk fd cs c1 = Return c2" "recv_inv c2"
    "queued c2 = queued c1 @ map content m2"
    "river_at (max_ibm ctx) (rivers c2 ! nat fd) (snd (deframe (?q @ concat cs)))" by auto
  then show ?case using c1(1,3) ms(1) sa by simp
qed

text \<open>
  A message arrives as it was sent. Take any messages that are sent on a connection, and any division of the
  bytes that went onto the wire into buffers: the receiver's callback handles them without error, the receive
  queue gets exactly these messages in the order they were sent, each with the type, subscription,
  payload, transaction id and managed element of the message sent, and the connection is left ready for the next one.
\<close>

theorem end_to_end:
  assumes "list_all2 sent_as ms fs" "concat cs = concat fs" "[] \<notin> set cs"
    "rv_state (rivers ctx ! nat fd) = RS_NEW" "recv_inv ctx" "length (ring_abs (mring ctx)) + length ms \<le> ring_cap (mring ctx)"
    "ibm_ok (max_ibm ctx)" "0 \<le> fd" "fd < nrivers ctx" "nat fd < length (rivers ctx)"
  shows "\<exists>ctx'. rx_chunks now junk fd cs ctx = Return ctx' \<and> recv_inv ctx' \<and>
    queued ctx' = queued ctx @ map content ms \<and>
    river_at (max_ibm ctx) (rivers ctx' ! nat fd) []"
proof -
  have "list_all frame_ok fs"
    using assms(1)
  proof (induction ms fs rule: list_all2_induct)
    case (Cons m ms f fs)
    obtain b and c :: uta_ctx where "sendable m b" "f = wire_frame c m b" by (rule sent_asD [OF Cons.hyps(1)]) blast
    then show ?case using wire_frame_spec(2) Cons.IH by simp
  qed simp
  note d = deframe_frames [OF this]
  have at: "river_at (max_ibm ctx) (rivers ctx ! nat fd) []" using assms(4) by (simp add: river_at_def)
  show ?thesis using rx_chunks_sent [of ms "[]" cs, OF _ _ assms(3) at assms(5-10)] d assms(1,2) by simp
qed

text \<open>A fresh message can be sent, with any part of the room for its payload.\<close>

lemma fresh_sendable:
  assumes "ring_wf (zcb_mring ctx)" "ring_count (zcb_mring ctx) = 0" "ctx_lens_ok ctx sz"
    "280 + trace_data_len ctx + d1_len ctx + d2_len ctx + sz + 50 = mlen" "mlen + 128 < 2 ^ 31" "0 \<le> n" "n \<le> sz"
  obtains m where "mb_alloc_len m = mlen" "mb_mtype m = -1" "mb_sub_id m = -1" "mb_flags m = MFL_ZEROCOPY"
    "int (PAYLOAD_ADDR 50 (fresh_bytes junk ctx mlen)) = 330 + trace_data_len ctx + d1_len ctx"
    "mb_len m = n" "sendable m (fresh_bytes junk ctx mlen)"
proof -
  obtain r c' where a: "alloc_zcmsg True junk ctx None sz 0 0 = (r, c')" by fastforce
  obtain m where m: "mb_tp_buf m = Some (fresh_bytes junk ctx mlen)" "mbuf_wf m" "mb_alloc_len m = mlen" "mb_mtype m = -1" "mb_sub_id m = -1"
    "mb_flags m = MFL_ZEROCOPY" "int (PAYLOAD_ADDR 50 (fresh_bytes junk ctx mlen)) = 330 + trace_data_len ctx + d1_len ctx"
    by (rule alloc_zcmsg_fresh [OF assms(1-3) _ a, unfolded assms(4)]) simp
  have l: "330 \<le> mlen" "0 \<le> d2_len ctx" using assms(3,4) by (auto simp: ctx_lens_ok_def)
  have "sendable (m\<lparr>mb_len := n\<rparr>) (fresh_bytes junk ctx mlen)"
    using m fresh_bytes_spec(1) [OF l(1), of junk ctx] assms(4-7) l(2) by (auto simp: sendable_def mbuf_wf_def)
  with that [of "m\<lparr>mb_len := n\<rparr>"] m(3-7) show thesis by simp
qed

lemma demo_sendable:
  obtains m b where "sendable m b" "no_call b"
proof -
  let ?c = "demo_mb_ctx\<lparr>d1_len := 0\<rparr>" and ?b = "fresh_bytes (\<lambda>_. 170) (demo_mb_ctx\<lparr>d1_len := 0\<rparr>) 438"
  have ok: "ring_wf (zcb_mring ?c)" "ring_count (zcb_mring ?c) = 0" "ctx_lens_ok ?c 100"
    using demo_mb_ctx_ok by (simp_all add: ctx_lens_ok_def demo_mb_ctx_def)
  have n: "280 + trace_data_len ?c + d1_len ?c + d2_len ?c + 100 + 50 = 438" "438 + 128 < (2 :: int) ^ 31" "0 \<le> (5 :: int)" "(5 :: int) \<le> 100"
    by (simp_all add: demo_mb_ctx_def)
  obtain m where "sendable m ?b" by (rule fresh_sendable [OF ok n, of "\<lambda>_. 170"])
  moreover have "no_call ?b" using fresh_bytes_spec(4) [of 438 "\<lambda>_. 170" ?c] by (simp add: no_call_def RMR_D1_LEN_def)
  ultimately show thesis using that by blast
qed

lemma send_msg_first:
  assumes s: "sendable m b" and ok: "si 0 = (SI_OK, e)"
  shows "\<exists>mo ctx'. send_msg si mem junk ctx m fd retries = Return (mo, e, ctx', [(fd, wire_frame ctx m b)])"
proof -
  note f = sendable_facts [OF s]
  have "length (insert_mlen x (send_header ctx m 50 b)) = length b" for x using f(1) send_header_spec(1) [OF f(1), of ctx m] by simp
  moreover have "send_loop si 0 spin r = (1, 0, RMR_OK, e)" for spin r using ok by (subst send_loop.simps) simp
  ultimately show ?thesis using f(5) [of ctx] f(6,8)
    by (auto simp: send_msg_def f(3) Let_def wire_frame_def split: prod.splits)
qed

theorem end_to_end_witness:
  "\<exists>m f ctx'. sent_as m f \<and> rx_chunks 5 (\<lambda>_. 0) 7 [take 100 f, drop 100 f] demo_rx_ctx = Return ctx' \<and> queued ctx' = [content m]"
proof -
  obtain m b where m: "sendable m b" "no_call b" by (rule demo_sendable) blast
  obtain ctx :: uta_ctx and bd th where "init demo_env [] None 0 0 = Return (Inr (ctx, bd, th))" by (rule demo_init)
  let ?f = "wire_frame ctx m b"
  obtain mo ctx' where "send_msg (\<lambda>_. (SI_OK, E0)) True (\<lambda>_. 0) ctx m 7 0 = Return (mo, E0, ctx', [(7, ?f)])"
    using send_msg_first [OF m(1), of "\<lambda>_. (SI_OK, E0)" E0] by blast
  then have s: "sent_as m ?f" unfolding sent_as_def using m by blast
  have l: "330 \<le> length ?f" using wire_frame_spec(1) [OF m(1), of ctx] sendable_facts(2) [OF m(1)] by simp
  have q0: "queued demo_rx_ctx = []" by (simp add: queued_def demo_recv_inv(2))
  have "\<exists>ctx'. rx_chunks 5 (\<lambda>_. 0) 7 [take 100 ?f, drop 100 ?f] demo_rx_ctx = Return ctx' \<and> recv_inv ctx' \<and>
      queued ctx' = queued demo_rx_ctx @ map content [m] \<and> river_at (max_ibm demo_rx_ctx) (rivers ctx' ! nat 7) []"
  proof (rule end_to_end [where fs = "[?f]"])
    show "rv_state (rivers demo_rx_ctx ! nat 7) = RS_NEW" "ibm_ok (max_ibm demo_rx_ctx)" "7 < nrivers demo_rx_ctx" "nat 7 < length (rivers demo_rx_ctx)"
      by (simp_all add: demo_rx_ctx_def mb_ctx.defs ibm_ok_def river_zero_def)
    show "[] \<notin> set [take 100 ?f, drop 100 ?f]" using l by auto
  qed (use s demo_recv_inv in simp_all)
  then obtain c' where "rx_chunks 5 (\<lambda>_. 0) 7 [take 100 ?f, drop 100 ?f] demo_rx_ctx = Return c'" "queued c' = [content m]" using q0 by auto
  then show ?thesis using s by (intro exI [of _ m] exI [of _ ?f] exI [of _ c']) (simp del: rx_chunks.simps)
qed

end
