(* ===== verification/CallProps.thy ===== *)
theory CallProps
  imports SendProps
begin

text \<open>
  Calls: the request reaches the other side's queue, the answer returned to the sender reaches the chute of the call
  that waits, and what the wait makes of the messages that arrive there.
\<close>

subsection \<open>Changes that keep a message sendable\<close>

abbreviation (input) len_fields :: "hfield set" where "len_fields \<equiv> {F_len0, F_len1, F_len2, F_len3}"

lemma addr_cong:
  assumes "\<And>f. f \<in> len_fields \<Longrightarrow> hget 50 f b' = hget 50 f b"
  shows "PAYLOAD_ADDR 50 b' = PAYLOAD_ADDR 50 b" "DATA1_ADDR 50 b' = DATA1_ADDR 50 b" "RMR_D1_LEN 50 b' = RMR_D1_LEN 50 b"
  using assms by (simp_all add: PAYLOAD_ADDR_def DATA1_ADDR_def RMR_D1_LEN_def)

lemma sendable_cong:
  assumes "sendable m b" "\<And>f. f \<in> len_fields \<Longrightarrow> hget 50 f b' = hget 50 f b" "length b' = length b"
    "mb_tp_buf m' = Some b'" "mb_header m' = mb_header m" "mb_payload m' = mb_payload m" "mb_xaction m' = mb_xaction m"
    "mb_alloc_len m' = mb_alloc_len m" "mb_len m' = mb_len m" "mb_mtype m' = mb_mtype m" "mb_sub_id m' = mb_sub_id m"
  shows "sendable m' b'"
  using assms(1,3-) assms(2) [of F_len0] addr_cong(1) [of b' b, OF assms(2)] by (auto simp: sendable_def mbuf_wf_def)

lemma hget_upd_behind:
  assumes "330 \<le> at" "int_field f"
  shows "hget 50 f (b[at := v]) = hget 50 f b"
  using assms(1) by (intro hget_prefix [OF assms(2)]) (simp add: take_update_swap list_update_beyond)

lemma bget_upd_behind: "off + n \<le> at \<Longrightarrow> bget off n (b[at := v]) = bget off n b"
  by (simp add: bget_def drop_update_swap take_update_swap list_update_beyond)

lemma set_hflags_spec:
  assumes "330 \<le> length b"
  shows "hflags 50 (set_hflags 50 w b) = w" "off + n \<le> 242 \<or> 246 \<le> off \<Longrightarrow> bget off n (set_hflags 50 w b) = bget off n b"
  using assms by (simp_all add: hflags_def set_hflags_def bget_bput_same bget_bput_other)

lemma D1_inside: "RMR_D1_LEN 50 b \<noteq> 0 \<Longrightarrow> DATA1_ADDR 50 b < PAYLOAD_ADDR 50 b"
  by (simp add: DATA1_ADDR_def PAYLOAD_ADDR_def RMR_D1_LEN_def unat_gt_0)

text \<open>The request: the mark leaves the content alone, and a data area is there to take the call id.\<close>

lemma mark_call_spec:
  assumes s: "sendable m b" and d: "RMR_D1_LEN 50 b \<noteq> 0"
  obtains b' where "mark_call cid m = Some (m\<lparr>mb_tp_buf := Some b', mb_flags := mb_flags m OR MFL_NOALLOC\<rparr>)"
    "sendable (m\<lparr>mb_tp_buf := Some b', mb_flags := mb_flags m OR MFL_NOALLOC\<rparr>) b'"
    "hflags 50 b' AND HFL_CALL_MSG \<noteq> 0" "RMR_D1_LEN 50 b' = RMR_D1_LEN 50 b" "DATA1_ADDR 50 b' = DATA1_ADDR 50 b"
    "b' ! DATA1_ADDR 50 b' = word_of_int cid" "content (m\<lparr>mb_tp_buf := Some b', mb_flags := mb_flags m OR MFL_NOALLOC\<rparr>) = content m"
proof -
  note f = sendable_facts [OF s]
  let ?b1 = "set_hflags 50 (hflags 50 b OR HFL_CALL_MSG) b"
  let ?at = "DATA1_ADDR 50 b" and ?b' = "(set_hflags 50 (hflags 50 b OR HFL_CALL_MSG) b)[DATA1_ADDR 50 b := word_of_int cid]"
  have l1: "330 \<le> length ?b1" "length ?b1 = length b" using f(1) by simp_all
  have at: "330 \<le> ?at" "?at < PAYLOAD_ADDR 50 b" "?at < length b"
    using s D1_inside [OF d] f(6) by (auto simp: DATA1_ADDR_def sendable_def mbuf_wf_def)
  have h: "hget 50 x ?b' = hget 50 x b" if "x \<in> len_fields" for x
    using that at(1) f(1) by (auto simp: hget_upd_behind)
  have a1: "DATA1_ADDR 50 ?b1 = ?at" using f(1) by (simp add: DATA1_ADDR_def)
  note ac = addr_cong [of ?b' b, OF h]
  let ?m = "m\<lparr>mb_tp_buf := Some ?b', mb_flags := mb_flags m OR MFL_NOALLOC\<rparr>"
  have "sendable ?m ?b'" by (rule sendable_cong [OF s h]) (use l1 in simp_all)
  moreover have "mark_call cid m = Some ?m" using at(3) l1 f(3) by (simp add: mark_call_def Let_def a1)
  moreover have "hflags 50 ?b' = hflags 50 b OR HFL_CALL_MSG"
    using set_hflags_spec(1) [OF f(1)] at(1) bget_upd_behind [of 242 4 ?at] by (simp add: hflags_def)
  moreover have "(w OR HFL_CALL_MSG) AND HFL_CALL_MSG \<noteq> 0" for w :: u32
  proof -
    have "(w OR HFL_CALL_MSG) AND HFL_CALL_MSG = HFL_CALL_MSG" by (rule bit_word_eqI) (auto simp: bit_simps)
    then show ?thesis by simp
  qed
  moreover have "content ?m = content m"
  proof -
    have "bget (PAYLOAD_ADDR 50 b) k ?b' = bget (PAYLOAD_ADDR 50 b) k b" for k
    proof -
      have "bget (PAYLOAD_ADDR 50 b) k ?b' = bget (PAYLOAD_ADDR 50 b) k ?b1" using at(2) by (simp add: bget_def)
      then show ?thesis using set_hflags_spec(2) [OF f(1)] f(2) by simp
    qed
    moreover have "bget off k ?b' = bget off k b" if "off + k \<le> 242" for off k
      using that at(1) set_hflags_spec(2) [OF f(1), of off k] bget_upd_behind [of off k ?at] by simp
    moreover have "mb_tp_buf m = Some b" using s by (simp add: sendable_def)
    ultimately show ?thesis using f(4) by (simp add: content_def)
  qed
  ultimately show thesis using that [of ?b'] ac at(3) l1 by simp
qed

subsection \<open>The answer\<close>

lemma mask_off_on: "(w AND NOT x) AND x = (0 :: u32)"
  by (rule bit_word_eqI) (auto simp: bit_simps)

lemma rts_socket_open:
  assumes "fst (get_rt ctx) \<noteq> None" "0 \<le> fd"
  shows "\<exists>s ep c. rts_socket resolve connect h b fd ctx = Some ((Some s, ep), c)"
proof -
  obtain t c where g: "get_rt ctx = (Some t, c)" using assms(1) by (cases "get_rt ctx") auto
  then have "uta_epsock_byname resolve connect (hdr_str F_src h b) ctx \<noteq> None"
    unfolding uta_epsock_byname_def Let_def by (auto simp del: not_None_eq split: prod.splits)
  then obtain sock ep c1 where u: "uta_epsock_byname resolve connect (hdr_str F_src h b) ctx = Some ((sock, ep), c1)" by auto
  show ?thesis using assms(2) by (cases sock) (simp_all add: rts_socket_def u)
qed

lemma alloc_zcmsg_hdr: "alloc_zcmsg mem junk ctx (Some m) sz st tr = (Some m', c) \<Longrightarrow> mb_hdr m' \<noteq> None"
  by (auto simp: alloc_zcmsg_def Let_def mb_hdr_def split: if_splits)

lemma alloc_zcmsg_some: "fst (alloc_zcmsg mem junk ctx (Some m) sz st tr) \<noteq> None"
  by (simp add: alloc_zcmsg_def Let_def)

text \<open>
  The buffer that goes back: our name as its source and no call flag; identifiers, lengths and data as they came.
\<close>

definition rts_bytes :: "('c) mb_ctx_scheme \<Rightarrow> bytes \<Rightarrow> bytes" where
  "rts_bytes ctx b = fill_field 50 F_src (my_name ctx) (set_hflags 50 (hflags 50 b AND NOT HFL_CALL_MSG) b)"

lemma rts_bytes_spec:
  assumes "330 \<le> length b"
  shows "length (rts_bytes ctx b) = length b" "x \<in> len_fields \<Longrightarrow> hget 50 x (rts_bytes ctx b) = hget 50 x b"
    "hflags 50 (rts_bytes ctx b) AND HFL_CALL_MSG = 0"
    "off + n \<le> 126 \<or> 190 \<le> off \<and> off + n \<le> 242 \<or> 246 \<le> off \<Longrightarrow> bget off n (rts_bytes ctx b) = bget off n b"
proof -
  let ?b1 = "set_hflags 50 (hflags 50 b AND NOT HFL_CALL_MSG) b"
  have l: "50 + 280 \<le> length ?b1" using assms by simp
  note f = fill_field_spec [OF l, where f = F_src and src = "my_name ctx", simplified]
  show "length (rts_bytes ctx b) = length b" using f(1) assms by (simp add: rts_bytes_def)
  show "hget 50 x (rts_bytes ctx b) = hget 50 x b" if "x \<in> len_fields"
    using that f(3) [of x] assms by (auto simp: rts_bytes_def)
  show "hflags 50 (rts_bytes ctx b) AND HFL_CALL_MSG = 0"
  proof -
    have "hflags 50 (rts_bytes ctx b) = hflags 50 ?b1" using f(4) [of 242 4] by (simp add: hflags_def rts_bytes_def)
    then show ?thesis using set_hflags_spec(1) [OF assms] by (simp only: mask_off_on)
  qed
  show "bget off n (rts_bytes ctx b) = bget off n b" if "off + n \<le> 126 \<or> 190 \<le> off \<and> off + n \<le> 242 \<or> 246 \<le> off"
    using that f(4) [of off n] set_hflags_spec(2) [OF assms, of off n] by (auto simp: rts_bytes_def)
qed

lemma rmr_rts_sends:
  assumes s: "sendable r b" and g: "fst (get_rt ctx) \<noteq> None" and fd: "0 \<le> mb_rts_fd r" and ok: "si 0 = (SI_OK, e)"
  shows "\<exists>m1 (c1 :: uta_ctx) mo c f sfd. rmr_rts_msg si resolve connect mem junk ctx (Some r) = Return (mo, c, [(sfd, f)]) \<and>
    m1 = r\<lparr>mb_state := RMR_OK, mb_tp_buf := Some (rts_bytes c1 b)\<rparr> \<and> f = wire_frame c1 m1 (rts_bytes c1 b) \<and> sendable m1 (rts_bytes c1 b)"
proof -
  note f = sendable_facts [OF s]
  let ?b1 = "set_hflags 50 (hflags 50 b AND NOT HFL_CALL_MSG) b"
  obtain sfd ep c1 where sk: "rts_socket resolve connect 50 ?b1 (mb_rts_fd r) ctx = Some ((Some sfd, ep), c1)"
    using rts_socket_open [OF g fd, of resolve connect 50 ?b1] by blast
  let ?m1 = "r\<lparr>mb_state := RMR_OK, mb_tp_buf := Some (rts_bytes c1 b)\<rparr>"
  have s1: "sendable ?m1 (rts_bytes c1 b)" by (rule sendable_cong [OF s]) (use rts_bytes_spec(1,2) [OF f(1), where ctx = c1] in simp_all)
  obtain mo c2 where sm: "send_msg si mem junk c1 ?m1 sfd (- 1) = Return (mo, e, c2, [(sfd, wire_frame c1 ?m1 (rts_bytes c1 b))])"
    using send_msg_first [of ?m1 "rts_bytes c1 b" si, OF s1 ok] by blast
  have hd: "mb_hdr m2 \<noteq> None" if m2: "mo = Some m2" for m2
    using sm that ok alloc_zcmsg_hdr unfolding send_msg_def sendable_facts(3) [OF s1]
    by (auto simp: Let_def send_loop.simps [of si 0] mb_hdr_def split: if_splits prod.splits)
  have "\<exists>mo' c'. rmr_rts_msg si resolve connect mem junk ctx (Some r) = Return (mo', c', [(sfd, wire_frame c1 ?m1 (rts_bytes c1 b))])"
    using sk sm hd f(3) unfolding rts_bytes_def rmr_rts_msg_def by (auto simp: Let_def split: option.splits)
  then show ?thesis using s1 by blast
qed

lemma msg_xid_content: "sendable m b \<Longrightarrow> msg_xid m = fst (snd (snd (snd (content m))))"
  by (auto simp: sendable_def mbuf_wf_def msg_xid_def content_def split: option.splits)

lemma buf2mbuf_answer:
  assumes s: "sendable m b" and d: "RMR_D1_LEN 50 b \<noteq> 0" "hflags 50 b AND HFL_CALL_MSG = 0" "unat (b ! DATA1_ADDR 50 b) = n" "0 < n"
    and raw: "take (length (wire_frame ctx m b)) raw = wire_frame ctx m b" "length (wire_frame ctx m b) \<le> length raw" "length raw < 2 ^ 31"
  obtains a z where "buf2mbuf True now raw (int (length raw)) fd c =
      Some (c\<lparr>zcb_mring := z, chutes := chute_post n ((chutes c)[n := (chutes c ! n)\<lparr>ch_mbuf := Some a\<rparr>])\<rparr>)"
    "content a = content m" "mb_state a = RMR_OK" "msg_xid a = msg_xid m"
proof -
  note fr = frame_received [OF s raw(1,3,2)]
  obtain x z where "uta_ring_extract True (zcb_mring c) = (x, z)" by fastforce
  then obtain m0 where a: "alloc_mbuf True c RMR_ERR_UNSET = (Some m0, c\<lparr>zcb_mring := z\<rparr>)" by (auto simp: alloc_mbuf_def)
  let ?m = "rx_mbuf (max_ibm c) m0 raw (int (length raw)) fd"
  have l: "DATA1_ADDR 50 b < PAYLOAD_ADDR 50 b" "PAYLOAD_ADDR 50 b \<le> length raw"
    using D1_inside [OF d(1)] raw(2) wire_frame_spec(1) [OF s, of ctx] by simp_all
  have "buf2mbuf True now raw (int (length raw)) fd c =
      Some (c\<lparr>zcb_mring := z, chutes := chute_post n ((chutes c)[n := (chutes c ! n)\<lparr>ch_mbuf := Some ?m\<rparr>])\<rparr>)"
    using d l fr(6-9) by (simp add: buf2mbuf_def fr(1) a Let_def)
  moreover have "msg_xid ?m = fst (snd (snd (snd (content ?m))))" by (simp add: msg_xid_def content_def rx_mbuf_def ref_tpbuf_def Let_def)
  ultimately show thesis using that fr(2,3) msg_xid_content [OF s] by metis
qed

lemma call_id_byte: "1 \<le> cid \<Longrightarrow> cid \<le> 255 \<Longrightarrow> unat (word_of_int cid :: u8) = nat cid"
  by (simp add: unat_eq_nat_uint uint_word_of_int take_bit_int_eq_self)

lemma rts_content:
  assumes "sendable r b"
  shows "content (r\<lparr>mb_state := st, mb_tp_buf := Some (rts_bytes ctx b)\<rparr>) = content r"
proof -
  note sf = sendable_facts [OF assms]
  have "bget off k (rts_bytes ctx b) = bget off k b" if "off + k \<le> 126 \<or> 190 \<le> off \<and> off + k \<le> 242 \<or> 246 \<le> off" for off k
    by (rule rts_bytes_spec(4) [OF sf(1) that])
  moreover have "mb_tp_buf r = Some b" using assms by (simp add: sendable_def)
  ultimately show ?thesis using sf(2,4) by (simp add: content_def)
qed

text \<open>Returning a message keeps the call id in its data area.\<close>

lemma rts_call_id:
  assumes "sendable r b" "RMR_D1_LEN 50 b \<noteq> 0"
  shows "rts_bytes ctx b ! DATA1_ADDR 50 (rts_bytes ctx b) = b ! DATA1_ADDR 50 b" "RMR_D1_LEN 50 (rts_bytes ctx b) \<noteq> 0"
proof -
  note sf = sendable_facts [OF assms(1)] and rb = rts_bytes_spec [OF sendable_facts(1) [OF assms(1)], where ctx = ctx]
  have ac: "DATA1_ADDR 50 (rts_bytes ctx b) = DATA1_ADDR 50 b" "RMR_D1_LEN 50 (rts_bytes ctx b) = RMR_D1_LEN 50 b"
    by (rule addr_cong(2) [OF rb(2)], assumption, rule addr_cong(3) [OF rb(2)])
  have "330 \<le> DATA1_ADDR 50 b" "DATA1_ADDR 50 b < PAYLOAD_ADDR 50 b"
    using D1_inside [OF assms(2)] assms(1) by (auto simp: DATA1_ADDR_def sendable_def mbuf_wf_def)
  then show "rts_bytes ctx b ! DATA1_ADDR 50 (rts_bytes ctx b) = b ! DATA1_ADDR 50 b"
    using rb(4) [of "DATA1_ADDR 50 b" 1] sf(6) bget_nth [of 0 1 "DATA1_ADDR 50 b" b] bget_nth [of 0 1 "DATA1_ADDR 50 b" "rts_bytes ctx b"] rb(1)
    by (simp add: ac(1))
  show "RMR_D1_LEN 50 (rts_bytes ctx b) \<noteq> 0" using ac(2) assms(2) by simp
qed

text \<open>
  C7: the answer to a call finds the call. A request marked with a call id goes to the queue of the other side; when
  that side returns the message to its sender, the bytes, in whatever accumulator they end up, are put onto the chute of
  exactly this call id and wake the caller there, with the transaction id the call expects; nothing enters the
  caller's queue.
\<close>

theorem call_roundtrip:
  fixes sctx rctx :: uta_ctx
  assumes m: "sendable m b" "RMR_D1_LEN 50 b \<noteq> 0" "1 \<le> cid" "cid \<le> 255" "mark_call cid m = Some mc"
    and sent: "send_msg si0 mem0 junk0 sctx mc fd0 retries = Return (mo0, e0, sctx', [(fd0, f1)])"
    and raw1: "take (length f1) raw1 = f1" "length f1 \<le> length raw1" "length raw1 + 128 < 2 ^ 31"
    and rts: "0 \<le> fd1" "fst (get_rt rctx) \<noteq> None" "si 0 = (SI_OK, e)"
  shows "(\<exists>q z. buf2mbuf True now raw1 (int (length raw1)) fd1 rx = Some (queue_normal now (rx\<lparr>zcb_mring := z\<rparr>) q) \<and> content q = content m) \<and>
    (\<exists>mo c sfd f2. rmr_rts_msg si resolve connect mem junk rctx (Some (rx_mbuf mibm m0 raw1 (int (length raw1)) fd1)) = Return (mo, c, [(sfd, f2)]) \<and> frame_ok f2 \<and>
      (\<forall>raw2. take (length f2) raw2 = f2 \<and> length f2 \<le> length raw2 \<and> length raw2 < 2 ^ 31 \<longrightarrow>
        (\<exists>a z. buf2mbuf True now raw2 (int (length raw2)) fd2 cctx =
            Some (cctx\<lparr>zcb_mring := z, chutes := chute_post (nat cid) ((chutes cctx)[nat cid := (chutes cctx ! nat cid)\<lparr>ch_mbuf := Some a\<rparr>])\<rparr>) \<and>
          content a = content m \<and> msg_xid a = msg_xid m)))"
proof -
  obtain bc where x: "mark_call cid m = Some (m\<lparr>mb_tp_buf := Some bc, mb_flags := mb_flags m OR MFL_NOALLOC\<rparr>)"
    "sendable (m\<lparr>mb_tp_buf := Some bc, mb_flags := mb_flags m OR MFL_NOALLOC\<rparr>) bc"
    "hflags 50 bc AND HFL_CALL_MSG \<noteq> 0" "RMR_D1_LEN 50 bc = RMR_D1_LEN 50 b" "bc ! DATA1_ADDR 50 bc = word_of_int cid"
    "content (m\<lparr>mb_tp_buf := Some bc, mb_flags := mb_flags m OR MFL_NOALLOC\<rparr>) = content m"
    by (rule mark_call_spec [OF m(1,2), of cid])
  have "mc = m\<lparr>mb_tp_buf := Some bc, mb_flags := mb_flags m OR MFL_NOALLOC\<rparr>" using x(1) m(5) by simp
  note mc = this x(2-6) [folded this]
  have f1: "f1 = wire_frame sctx mc bc" using send_msg_frame(1) [OF mc(2) sent] by simp
  have "sent_as mc f1" unfolding sent_as_def no_call_def using mc(2,3) sent by blast
  from buf2mbuf_sent [OF this raw1(1,2)] raw1(3) mc(6)
  have 1: "\<exists>q z. buf2mbuf True now raw1 (int (length raw1)) fd1 rx = Some (queue_normal now (rx\<lparr>zcb_mring := z\<rparr>) q) \<and> content q = content m"
    by (metis add_lessD1)
  let ?r = "rx_mbuf mibm m0 raw1 (int (length raw1)) fd1"
  have lt: "length raw1 < 2 ^ 31" using raw1(3) by linarith
  note fr = frame_received [OF mc(2), of sctx raw1, folded f1, OF raw1(1) lt raw1(2)]
  have sr: "sendable ?r raw1" by (rule fr(11) [OF raw1(3)])
  have fd: "0 \<le> mb_rts_fd ?r" using rts(1) by (simp add: rx_mbuf_def ref_tpbuf_def Let_def)
  obtain m1 c1 mo c f2 sfd where r: "rmr_rts_msg si resolve connect mem junk rctx (Some ?r) = Return (mo, c, [(sfd, f2)])"
    "m1 = ?r\<lparr>mb_state := RMR_OK, mb_tp_buf := Some (rts_bytes c1 raw1)\<rparr>" "f2 = wire_frame (c1 :: uta_ctx) m1 (rts_bytes c1 raw1)" "sendable m1 (rts_bytes c1 raw1)"
    using rmr_rts_sends [of _ _ _ si, OF sr rts(2) fd rts(3)] by blast
  note sf = sendable_facts [OF sr]
  note rb = rts_bytes_spec [OF sf(1), where ctx = c1]
  have d1: "RMR_D1_LEN 50 raw1 \<noteq> 0" using fr(7) mc(4) m(2) by simp
  note ci = rts_call_id [OF sr d1, of c1]
  have "raw1 ! DATA1_ADDR 50 raw1 = word_of_int cid" using fr(8,9) mc(5) D1_inside [of bc] mc(4) m(2) by simp
  then have n: "unat (rts_bytes c1 raw1 ! DATA1_ADDR 50 (rts_bytes c1 raw1)) = nat cid"
    using call_id_byte [OF m(3,4)] unfolding ci(1) by simp
  have "content m1 = content ?r" unfolding r(2) by (rule rts_content [OF sr])
  then have cm: "content m1 = content m" using fr(2) mc(6) by simp
  have xm: "msg_xid m1 = msg_xid m" using msg_xid_content [OF r(4)] msg_xid_content [OF m(1)] cm by simp
  have "\<exists>a z. buf2mbuf True now raw2 (int (length raw2)) fd2 cctx =
        Some (cctx\<lparr>zcb_mring := z, chutes := chute_post (nat cid) ((chutes cctx)[nat cid := (chutes cctx ! nat cid)\<lparr>ch_mbuf := Some a\<rparr>])\<rparr>) \<and>
      content a = content m \<and> msg_xid a = msg_xid m"
    if "take (length f2) raw2 = f2 \<and> length f2 \<le> length raw2 \<and> length raw2 < 2 ^ 31" for raw2
    using buf2mbuf_answer [OF r(4) ci(2) rb(3) n, of c1 raw2 now fd2 cctx, folded r(3)] that m(3) cm xm by (metis zero_less_nat_eq zero_less_one_class.zero_less_one order_less_le_trans)
  then show ?thesis using 1 r(1) wire_frame_spec(2) [OF r(4), of c1, folded r(3)] by blast
qed

lemma demo_lens:
  "280 + trace_data_len demo_mb_ctx + d1_len demo_mb_ctx + d2_len demo_mb_ctx + 100 + 50 = 442" "442 + 128 < (2 :: int) ^ 31" "0 \<le> (0 :: int)" "(0 :: int) \<le> 100"
  by (simp_all add: demo_mb_ctx_def)

lemma demo_call_msg:
  obtains m b where "sendable m b" "RMR_D1_LEN 50 b \<noteq> 0"
proof -
  let ?b = "fresh_bytes (\<lambda>_. 170) demo_mb_ctx 442"
  obtain m where "sendable m ?b" by (rule fresh_sendable [OF demo_mb_ctx_ok demo_lens, of "\<lambda>_. 170"])
  moreover have "RMR_D1_LEN 50 ?b \<noteq> 0" using fresh_bytes_spec(4) [of 442 "\<lambda>_. 170" demo_mb_ctx] by (simp add: RMR_D1_LEN_def demo_mb_ctx_def)
  ultimately show thesis using that by blast
qed

lemma demo_ctx:
  obtains ctx :: uta_ctx where "fst (get_rt ctx) \<noteq> None" "c_flags ctx AND CFL_MTC_ENABLED \<noteq> 0"
proof -
  obtain ctx :: uta_ctx and bd th where i: "init demo_env [] None 0 0 = Return (Inr (ctx, bd, th))" by (rule demo_init)
  obtain c where c: "tabs ctx = [Some empty_rt]" "rtable ctx = Some 0" "c_flags ctx = c OR CFL_MTC_ENABLED" "c = 0 \<or> c = CFL_WARN"
    by (rule init_ctx [OF i]) blast
  have "fst (get_rt ctx) \<noteq> None" using c(1,2) by (simp add: get_rt_def the_rt_def)
  moreover have "c_flags ctx AND CFL_MTC_ENABLED \<noteq> 0" using c(3,4) by auto
  ultimately show thesis using that by blast
qed

theorem call_roundtrip_witness:
  "\<exists>m mc f1 ctx mo c sfd f2 a z. mark_call 7 m = Some mc \<and>
    rmr_rts_msg (\<lambda>_. (SI_OK, E0)) (\<lambda>_. None) (\<lambda>_. -1) True (\<lambda>_. 0) ctx (Some (rx_mbuf 1024 mbuf_zero f1 (int (length f1)) 5)) = Return (mo, c, [(sfd, f2)]) \<and>
    buf2mbuf True 9 f2 (int (length f2)) 6 demo_rx_ctx = Some (demo_rx_ctx\<lparr>zcb_mring := z,
      chutes := chute_post 7 ((chutes demo_rx_ctx)[7 := (chutes demo_rx_ctx ! 7)\<lparr>ch_mbuf := Some a\<rparr>])\<rparr>) \<and> msg_xid a = msg_xid m"
proof -
  obtain m b where m: "sendable m b" "RMR_D1_LEN 50 b \<noteq> 0" by (rule demo_call_msg)
  obtain ctx :: uta_ctx where ctx: "fst (get_rt ctx) \<noteq> None" by (rule demo_ctx) blast
  obtain mc bc where mc: "mark_call 7 m = Some mc" "sendable mc bc" by (rule mark_call_spec [OF m, of 7]) blast
  let ?f = "wire_frame ctx mc bc"
  obtain mo c' where s: "send_msg (\<lambda>_. (SI_OK, E0)) True (\<lambda>_. 0) ctx mc 4 0 = Return (mo, E0, c', [(4, ?f)])"
    using send_msg_first [OF mc(2), of "\<lambda>_. (SI_OK, E0)" E0] by blast
  have l: "length ?f + 128 < 2 ^ 31" using wire_frame_spec(2) [OF mc(2), of ctx] by (simp add: frame_ok_def)
  obtain mo c sfd f2 where r: "rmr_rts_msg (\<lambda>_. (SI_OK, E0)) (\<lambda>_. None) (\<lambda>_. -1) True (\<lambda>_. 0) ctx (Some (rx_mbuf 1024 mbuf_zero ?f (int (length ?f)) 5)) = Return (mo, c, [(sfd, f2)])"
    "frame_ok f2" "\<forall>raw2. take (length f2) raw2 = f2 \<and> length f2 \<le> length raw2 \<and> length raw2 < 2 ^ 31 \<longrightarrow>
        (\<exists>a z. buf2mbuf True 9 raw2 (int (length raw2)) 6 demo_rx_ctx =
            Some (demo_rx_ctx\<lparr>zcb_mring := z, chutes := chute_post (nat 7) ((chutes demo_rx_ctx)[nat 7 := (chutes demo_rx_ctx ! nat 7)\<lparr>ch_mbuf := Some a\<rparr>])\<rparr>) \<and>
          content a = content m \<and> msg_xid a = msg_xid m)"
    using call_roundtrip [OF m _ _ mc(1) s, of ?f 5 ctx "\<lambda>_. (SI_OK, E0)" E0 9 demo_rx_ctx "\<lambda>_. None" "\<lambda>_. -1" True "\<lambda>_. 0" 1024 mbuf_zero 6 demo_rx_ctx] l ctx by auto
  have "length f2 < 2 ^ 31" using r(2) by (simp add: frame_ok_def)
  then obtain a z where "buf2mbuf True 9 f2 (int (length f2)) 6 demo_rx_ctx =
      Some (demo_rx_ctx\<lparr>zcb_mring := z, chutes := chute_post 7 ((chutes demo_rx_ctx)[7 := (chutes demo_rx_ctx ! 7)\<lparr>ch_mbuf := Some a\<rparr>])\<rparr>)" "msg_xid a = msg_xid m"
    using r(3) [rule_format, of f2] by auto
  then show ?thesis using mc(1) r(1) by blast
qed

subsection \<open>The wait\<close>

fun early :: "call_ev \<Rightarrow> bool" where
  "early (CEarly m) = True" | "early _ = False"

lemma mt_wait_answer:
  assumes "mt_wait failed x evs = Return (Some r, left)" "\<forall>ev\<in>set evs. \<not> early ev"
  shows "\<exists>m. CWake (Some m) \<in> set evs \<and> r = m\<lparr>mb_state := RMR_OK\<rparr> \<and> msg_xid m = x \<and> left = None"
  using assms by (induction failed x evs rule: mt_wait.induct) (auto split: option.splits if_splits)

lemma mt_wait_first:
  assumes "\<And>ev. ev \<in> set evs \<Longrightarrow> ev \<in> {CWake None, CIntr None} \<or> (\<exists>m. ev \<in> {CWake (Some m), CIntr (Some m), CTimeout (Some m)} \<and> msg_xid m \<noteq> x)"
    "msg_xid m = x"
  shows "mt_wait failed x (evs @ CWake (Some m) # rest) = Return (Some (m\<lparr>mb_state := RMR_OK\<rparr>), None)"
  using assms
proof (induction evs arbitrary: failed)
  case (Cons ev evs)
  have "mt_wait f x (evs @ CWake (Some m) # rest) = Return (Some (m\<lparr>mb_state := RMR_OK\<rparr>), None)" for f
    using Cons.IH Cons.prems by simp
  then show ?case using Cons.prems(1) [of ev] by auto
qed simp

lemma msg_xid_mark [simp]: "msg_xid (m\<lparr>mb_state := s\<rparr>) = msg_xid m"
  by (simp add: msg_xid_def)

text \<open>
  C10: a call gives back its own answer, as long as no message is put on its chute before it tests the chute (outside of a
  wait). Whatever arrives while it waits, a message returned in good state is one that
  arrived on its chute during a wait and that has the transaction id of the request; and after any number of other
  messages, empty wakes and interruptions, the answer is returned when it comes. (What becomes of messages put on the chute
  before the test is another property: they are returned unchecked.)
\<close>

theorem call_answer:
  assumes "mt_call si connect mem junk evs ctx m cid ep = Return (Some r, ctx', w)" "mb_state r = RMR_OK" "\<forall>ev\<in>set evs. \<not> early ev"
  shows "msg_xid r = msg_xid m \<and> (\<exists>a. CWake (Some a) \<in> set evs \<and> r = a\<lparr>mb_state := RMR_OK\<rparr>) \<and>
    (\<forall>evs' a rest failed. (\<forall>ev\<in>set evs'. ev \<in> {CWake None, CIntr None} \<or>
        (\<exists>o'. ev \<in> {CWake (Some o'), CIntr (Some o'), CTimeout (Some o')} \<and> msg_xid o' \<noteq> msg_xid m)) \<and> msg_xid a = msg_xid m \<longrightarrow>
      mt_wait failed (msg_xid m) (evs' @ CWake (Some a) # rest) = Return (Some (a\<lparr>mb_state := RMR_OK\<rparr>), None))"
proof -
  obtain left where "mt_wait False (msg_xid m) evs = Return (Some r, left)"
    using assms(1,2) unfolding mt_call_def Let_def by (auto split: if_splits option.splits outcome.splits)
  from mt_wait_answer [OF this assms(3)] show ?thesis using mt_wait_first by fastforce
qed

text \<open>A call to an endpoint whose transport takes the request comes to its wait.\<close>

lemma mt_call_waits:
  assumes m: "sendable m b" "RMR_D1_LEN 50 b \<noteq> 0" and ctx: "c_flags ctx AND CFL_MTC_ENABLED \<noteq> 0" "0 \<le> cid" "cid \<le> 255"
    and ok: "\<And>fd. si 0 fd 0 = (SI_OK, er)"
  shows "\<exists>c w. \<forall>evs. mt_call si connect mem junk evs ctx m cid (Some e) =
    (case mt_wait False (msg_xid m) evs of Undef \<Rightarrow> Undef | NoFuel \<Rightarrow> NoFuel
     | Return (res, left) \<Rightarrow> Return (res, chute_leave (nat cid) left c, w))"
proof -
  obtain mc bc where mc: "mark_call cid m = Some mc" "sendable mc bc" and fl: "mb_flags mc = mb_flags m OR MFL_NOALLOC"
    by (rule mark_call_spec [OF m, of cid]) force
  let ?c = "chute_expect (nat cid) (msg_xid m) ctx"
  let ?fd = "ep_sock (eps ?c ! e)"
  obtain mo c where s: "send_msg (si 0 ?fd) mem junk ?c mc ?fd (- 1) = Return (mo, er, c, [(?fd, wire_frame ?c mc bc)])"
    using send_msg_first [of mc bc "si 0 ?fd", OF mc(2) ok] by blast
  have "mb_state m1 = RMR_OK" if "mo = Some m1" for m1
    using s that ok unfolding send_msg_def sendable_facts(3) [OF mc(2)]
    by (auto simp: Let_def send_loop.simps [of "si 0 ?fd" 0] alloc_zcmsg_def split: if_splits prod.splits)
  then have "\<not> (case mo of Some m1 \<Rightarrow> mb_state m1 \<noteq> RMR_OK | None \<Rightarrow> False)" by (auto split: option.split)
  then have "mt_call si connect mem junk evs ctx m cid (Some e) =
    (case mt_wait False (msg_xid m) evs of Undef \<Rightarrow> Undef | NoFuel \<Rightarrow> NoFuel
     | Return (res, left) \<Rightarrow> Return (res, chute_leave (nat cid) left c, [(?fd, wire_frame ?c mc bc)]))" for evs
    using ctx s unfolding mt_call_def Let_def mc(1) by (cases mo) (simp_all split: outcome.split)
  then show ?thesis by blast
qed

lemma demo_xid: "sendable m b \<Longrightarrow> msg_xid mbuf_zero \<noteq> msg_xid m"
proof
  assume s: "sendable m b" and e: "msg_xid mbuf_zero = msg_xid m"
  have "length (msg_xid m) = 32" using s sendable_facts(1) [OF s] by (auto simp: msg_xid_content content_def sendable_def length_bget)
  then show False using e [symmetric] by (simp add: msg_xid_def mbuf_zero_def)
qed

theorem call_answer_witness:
  "\<exists>ctx m r c w. mt_call (\<lambda>_ _ _. (SI_OK, E0)) (\<lambda>_. 0) True (\<lambda>_. 0) [CIntr None, CWake (Some mbuf_zero), CWake (Some m)] ctx m 7 (Some 0) = Return (Some r, c, w) \<and>
    msg_xid r = msg_xid m"
proof -
  obtain m b where m: "sendable m b" "RMR_D1_LEN 50 b \<noteq> 0" by (rule demo_call_msg)
  obtain ctx :: uta_ctx where ctx: "c_flags ctx AND CFL_MTC_ENABLED \<noteq> 0" by (rule demo_ctx) blast
  note x = demo_xid [OF m(1)]
  obtain c w where r: "mt_call (\<lambda>_ _ _. (SI_OK, E0)) (\<lambda>_. 0) True (\<lambda>_. 0) [CIntr None, CWake (Some mbuf_zero), CWake (Some m)] ctx m 7 (Some 0) =
      Return (Some (m\<lparr>mb_state := RMR_OK\<rparr>), c, w)"
    using mt_call_waits [OF m ctx, of 7 "\<lambda>_ _ _. (SI_OK, E0)" E0 "\<lambda>_. 0" True "\<lambda>_. 0" 0] x by fastforce
  from call_answer [OF this] have "msg_xid (m\<lparr>mb_state := RMR_OK\<rparr>) = msg_xid m" by simp
  with r show ?thesis by blast
qed

text \<open>
  C39: two ways a call goes wrong. A message the receive thread puts on the chute before the call tests it is
  returned as the answer, in good state, whatever its transaction id is; and an answer that arrives as the wait is
  interrupted by a signal stays on the chute while the caller gets nothing.
\<close>

theorem call_unchecked:
  assumes "sendable m b" "RMR_D1_LEN 50 b \<noteq> 0" "c_flags ctx AND CFL_MTC_ENABLED \<noteq> 0" "0 \<le> cid" "cid \<le> 255"
    "\<And>fd. si 0 fd 0 = (SI_OK, er)"
  shows "(\<forall>a evs. \<exists>c w. mt_call si connect mem junk (CEarly a # evs) ctx m cid (Some e) = Return (Some (a\<lparr>mb_state := RMR_OK\<rparr>), c, w)) \<and>
    (\<forall>a. msg_xid a = msg_xid m \<longrightarrow>
      (\<exists>c w. mt_call si connect mem junk [CIntr (Some a)] ctx m cid (Some e) = Return (None, chute_leave (nat cid) (Some a) c, w)))"
proof -
  obtain c w where "\<And>evs. mt_call si connect mem junk evs ctx m cid (Some e) =
      (case mt_wait False (msg_xid m) evs of Undef \<Rightarrow> Undef | NoFuel \<Rightarrow> NoFuel
       | Return (res, left) \<Rightarrow> Return (res, chute_leave (nat cid) left c, w))"
    using mt_call_waits [of m b ctx cid si er connect mem junk e, OF assms] by blast
  then show ?thesis by auto
qed

theorem call_unchecked_witness:
  "\<exists>ctx m r c w. mt_call (\<lambda>_ _ _. (SI_OK, E0)) (\<lambda>_. 0) True (\<lambda>_. 0) [CEarly mbuf_zero] ctx m 7 (Some 0) = Return (Some r, c, w) \<and>
    mb_state r = RMR_OK \<and> msg_xid r \<noteq> msg_xid m"
proof -
  obtain m b where m: "sendable m b" "RMR_D1_LEN 50 b \<noteq> 0" by (rule demo_call_msg)
  obtain ctx :: uta_ctx where ctx: "c_flags ctx AND CFL_MTC_ENABLED \<noteq> 0" by (rule demo_ctx) blast
  obtain c w where "mt_call (\<lambda>_ _ _. (SI_OK, E0)) (\<lambda>_. 0) True (\<lambda>_. 0) [CEarly mbuf_zero] ctx m 7 (Some 0) = Return (Some (mbuf_zero\<lparr>mb_state := RMR_OK\<rparr>), c, w)"
    using call_unchecked [OF m ctx, of 7 "\<lambda>_ _ _. (SI_OK, E0)" E0 "\<lambda>_. 0" True "\<lambda>_. 0" 0] by simp blast
  moreover have "msg_xid (mbuf_zero\<lparr>mb_state := RMR_OK\<rparr>) \<noteq> msg_xid m" using demo_xid [OF m(1)] by simp
  ultimately show ?thesis by (intro exI [of _ ctx] exI [of _ m] exI [of _ "mbuf_zero\<lparr>mb_state := RMR_OK\<rparr>"] exI [of _ c] exI [of _ w]) simp
qed

subsection \<open>When a wait ends\<close>

text \<open>
  The time a wait of some milliseconds ends is a valid time, and it is right up to one nanosecond: it is
  one too late exactly when the nanoseconds carry over into the seconds.
\<close>

theorem wait_until_exact:
  assumes "0 \<le> ns" "ns < 10 ^ 9" "0 \<le> ms"
  shows "case wait_until (s, ns) ms of (s', ns') \<Rightarrow> 0 \<le> ns' \<and> ns' < 10 ^ 9 \<and>
    s' * 10 ^ 9 + ns' = s * 10 ^ 9 + ns + ms * 10 ^ 6 + (if ns + ms mod 1000 * 10 ^ 6 \<ge> 10 ^ 9 then 1 else 0)"
proof -
  have m: "0 \<le> ms mod 1000" "ms mod 1000 \<le> 999" "ms = ms div 1000 * 1000 + ms mod 1000" "ms \<le> 999 \<Longrightarrow> ms div 1000 = 0"
    using assms(3) by (simp_all add: zmod_le_nonneg_dividend)
  have e: "ms - ms div 1000 * 1000 = ms mod 1000" using m(3) by linarith
  have "ms \<le> 999 \<Longrightarrow> ms mod 1000 = ms" using assms(3) by simp
  then show ?thesis using assms m e by (auto simp: wait_until_def Let_def split: if_splits)
qed

theorem wait_until_exact_witness: "wait_until (10, 999000000) 1500 = (12, 499000001)"
  using wait_until_exact [of 999000000 1500 10] by (simp add: wait_until_def)

end
