(* ===== verification/EpProps.thy ===== *)
theory EpProps
  imports RouteProps "HOL-Library.Multiset"
begin

text \<open>
  Endpoints: there is one endpoint for a name, the groups of an entry hold the endpoints its record names, the
  selection in a group goes around, and a connection that is lost closes the endpoint it belonged to.
\<close>

subsection \<open>One endpoint for a name\<close>

definition ep_inv :: "uta_ctx \<Rightarrow> bool" where
  "ep_inv ctx = (sym_wf (ephash ctx) \<and>
     (\<forall>n e. sym_lookup (ephash ctx) (StrKey n RT_NAME_SPACE) = Some e \<longleftrightarrow> e < length (eps ctx) \<and> ep_name (eps ctx ! e) = n))"

lemma name_key_plain: "plain_key (StrKey n RT_NAME_SPACE)"
  by (simp add: plain_key_def valid_key_def)

lemma ep_invD:
  assumes "ep_inv ctx"
  shows "sym_wf (ephash ctx)" "sym_lookup (ephash ctx) (StrKey n RT_NAME_SPACE) = Some e \<longleftrightarrow> e < length (eps ctx) \<and> ep_name (eps ctx ! e) = n"
  using assms by (auto simp: ep_inv_def)

text \<open>What an operation on endpoints may do: add some at the end, under new names.\<close>

definition ep_grows :: "uta_ctx \<Rightarrow> uta_ctx \<Rightarrow> bool" where
  "ep_grows ctx ctx' = (ep_inv ctx' \<and> (\<exists>l. eps ctx' = eps ctx @ l))"

lemma rt_ensure_ep_ok:
  assumes inv: "ep_inv ctx" and n: "n \<noteq> []"
  obtains e c where "rt_ensure_ep resolve (Some n) ctx = (Some e, c)" "ep_grows ctx c" "e < length (eps c)" "ep_name (eps c ! e) = n"
    "e < length (eps ctx) \<longleftrightarrow> n \<in> ep_name ` set (eps ctx)"
proof -
  note d = ep_invD [OF inv] and pk = name_key_plain [of n]
  obtain v h where g: "rmr_sym_get (ephash ctx) (StrKey n RT_NAME_SPACE) = (v, h)" by fastforce
  have v: "v = sym_lookup (ephash ctx) (StrKey n RT_NAME_SPACE)" "sym_wf h" "sym_lookup h = sym_lookup (ephash ctx)"
    using any_tab.laws(1-3) [OF d(1) pk] g by simp_all
  have u: "uta_get_ep (Some n) ctx = (v, ctx\<lparr>ephash := h\<rparr>)" using n g by (simp add: uta_get_ep_def)
  show thesis
  proof (cases v)
    case (Some e)
    then have e: "e < length (eps ctx)" "ep_name (eps ctx ! e) = n" using d(2) [of n e] v(1) by auto
    have "ep_grows ctx (ctx\<lparr>ephash := h\<rparr>)" using inv v by (simp add: ep_grows_def ep_inv_def)
    moreover have "n \<in> ep_name ` set (eps ctx)" using e by (metis image_eqI nth_mem)
    moreover have "rt_ensure_ep resolve (Some n) ctx = (Some e, ctx\<lparr>ephash := h\<rparr>)" using n u Some by (simp add: rt_ensure_ep_def)
    ultimately show thesis using that e by simp
  next
    case None
    let ?e = "length (eps ctx)" and ?h = "snd (putin True h (StrKey n RT_NAME_SPACE) (Some (length (eps ctx))))"
    let ?c = "ctx\<lparr>eps := eps ctx @ [new_endpoint resolve n], ephash := ?h\<rparr>"
    note p = any_tab.put_inv [OF v(2) pk] any_tab.put_view [OF v(2) pk]
    have new: "ep_name (eps ctx ! e) \<noteq> n" if "e < length (eps ctx)" for e using None v(1) d(2) [of n e] that by auto
    have "sym_lookup ?h (StrKey m RT_NAME_SPACE) = Some e \<longleftrightarrow> e < Suc ?e \<and> ep_name ((eps ctx @ [new_endpoint resolve n]) ! e) = m" for m e
      unfolding p(2) v(3) using d(2) [of m e] new by (cases "e = ?e") (auto simp: nth_append new_endpoint_def)
    then have "ep_grows ctx ?c" using p(1) by (simp add: ep_grows_def ep_inv_def)
    moreover have "n \<notin> ep_name ` set (eps ctx)" using new by (metis (no_types) imageE in_set_conv_nth)
    moreover have "rt_ensure_ep resolve (Some n) ctx = (Some ?e, ?c)" using n u None by (simp add: rt_ensure_ep_def rmr_sym_put_def)
    ultimately show thesis using that [of ?e ?c] by (simp add: new_endpoint_def)
  qed
qed


subsection \<open>The groups of an entry\<close>

text \<open>The names of the endpoints of a group, and that all of them exist.\<close>

definition rnames :: "endpoint list \<Rightarrow> rrgroup \<Rightarrow> string option list" where
  "rnames E r = map (map_option (\<lambda>p. ep_name (E ! p))) (epts r)"

definition rok :: "endpoint list \<Rightarrow> rrgroup \<Rightarrow> bool" where
  "rok E r = (\<forall>x\<in>set (epts r). \<exists>p < length E. x = Some p)"

lemma rnames_append: "rok E r \<Longrightarrow> rnames (E @ l) r = rnames E r" "rok E r \<Longrightarrow> rok (E @ l) r"
  by (force simp: rnames_def rok_def nth_append)+

text \<open>One more endpoint: nothing else of the entry changes, the group takes it while it has room.\<close>

lemma uta_add_ep_ok:
  assumes inv: "ep_inv ctx" and e: "the_rte ctx i = Some e" and g: "g < length (rrgroups e)" and n: "nm \<noteq> []"
    and r: "r = (case rrgroups e ! g of Some r \<Rightarrow> r | None \<Rightarrow> \<lparr>ep_idx = 0, epts = []\<rparr>)" "rok (eps ctx) r"
      "length (epts r) \<le> 32"
  obtains v c r' where "uta_add_ep resolve i nm (int g) ctx = Some (v, c)" "ep_grows ctx c" "my_name c = my_name ctx"
    "the_rte c i = Some (e\<lparr>rrgroups := (rrgroups e)[g := Some r']\<rparr>)" "ip_list c = ip_list ctx"
    "rok (eps c) r'" "rnames (eps c) r' = take 32 (rnames (eps ctx) r @ [Some nm])"
proof -
  let ?put = "\<lambda>r c. c\<lparr>rtes := (rtes c)[i := Some (e\<lparr>rrgroups := (rrgroups e)[g := Some r]\<rparr>)]\<rparr>"
  have i: "i < length (rtes ctx)" using e by (simp add: the_rte_def split: if_splits)
  have "ep_inv (?put r ctx)" using inv by (simp add: ep_inv_def)
  from rt_ensure_ep_ok [OF this n] obtain p c where c: "rt_ensure_ep resolve (Some nm) (?put r ctx) = (Some p, c)" "ep_grows (?put r ctx) c"
    "p < length (eps c)" "ep_name (eps c ! p) = nm" by blast
  obtain a b where ab: "c = (?put r ctx)\<lparr>eps := a, ephash := b\<rparr>" using rt_ensure_ep_frame [of resolve "Some nm" "?put r ctx"] c(1) by auto
  obtain l where l: "eps c = eps ctx @ l" using c(2) by (auto simp: ep_grows_def)
  have gr: "ep_grows ctx c" using c(2) by (simp add: ep_grows_def)
  have code: "uta_add_ep resolve i nm (int g) ctx =
      (if length (epts r) \<ge> 32 then Some (None, c) else Some (Some p, ?put (r\<lparr>epts := epts r @ [Some p]\<rparr>) c))"
    using e g c(1) by (simp add: uta_add_ep_def r(1) [symmetric])
  note ra = rnames_append [OF r(2), of l, folded l]
  show thesis
  proof (cases "length (epts r) \<ge> 32")
    case full: True
    have "the_rte c i = Some (e\<lparr>rrgroups := (rrgroups e)[g := Some r]\<rparr>)" using i by (simp add: the_rte_def ab)
    moreover have "rnames (eps c) r = take 32 (rnames (eps ctx) r @ [Some nm])" using r(3) full ra by (simp add: rnames_def)
    ultimately show thesis using that [of None c r] code gr full ra by (simp add: ab)
  next
    case False
    let ?r = "r\<lparr>epts := epts r @ [Some p]\<rparr>"
    have "the_rte (?put ?r c) i = Some (e\<lparr>rrgroups := (rrgroups e)[g := Some ?r]\<rparr>)" using i by (simp add: the_rte_def ab)
    moreover have "rok (eps c) ?r" using ra(2) c(3) by (auto simp: rok_def)
    moreover have "rnames (eps c) ?r = take 32 (rnames (eps ctx) r @ [Some nm])"
      using False ra(1) c(4) by (simp add: rnames_def)
    moreover have "ep_grows ctx (?put ?r c)" using gr by (simp add: ep_grows_def ep_inv_def)
    ultimately show thesis using that [of "Some p" "?put ?r c" ?r] code False by (simp add: ab)
  qed
qed


abbreviation (input) self_name :: "uta_ctx \<Rightarrow> string" where "self_name ctx \<equiv> bytes_str (cstr (my_name ctx))"

lemma ep_grows_trans: "ep_grows a b \<Longrightarrow> ep_grows b c \<Longrightarrow> ep_grows a c"
  by (auto simp: ep_grows_def)

lemma take_take_app: "take n (take n (a @ [x]) @ b) = take n (a @ x # b)"
  by (cases "n \<le> length a") (auto simp: take_append take_Cons')

lemma rnames_length: "rnames E r = take 32 l \<Longrightarrow> length (epts r) \<le> 32"
  by (metis length_map length_take min.cobounded2 rnames_def)

lemma build_eps_ok:
  assumes "ep_inv ctx" "the_rte ctx i = Some e" "g < length (rrgroups e)" "\<forall>t\<in>set toks. t \<noteq> []"
    "r = (case rrgroups e ! g of Some r \<Rightarrow> r | None \<Rightarrow> \<lparr>ep_idx = 0, epts = []\<rparr>)" "rok (eps ctx) r" "length (epts r) \<le> 32"
  shows "\<exists>c x. build_eps resolve i (int g) toks has_ep ctx = Some (has_ep \<or> filter (\<lambda>t. t \<noteq> self_name ctx) toks \<noteq> [], c) \<and>
    ep_grows ctx c \<and> my_name c = my_name ctx \<and> ip_list c = ip_list ctx \<and>
    the_rte c i = Some (e\<lparr>rrgroups := (rrgroups e)[g := x]\<rparr>) \<and>
    (if filter (\<lambda>t. t \<noteq> self_name ctx) toks = [] then x = rrgroups e ! g
     else \<exists>r'. x = Some r' \<and> rok (eps c) r' \<and> rnames (eps c) r' = take 32 (rnames (eps ctx) r @ map Some (filter (\<lambda>t. t \<noteq> self_name ctx) toks)))"
  using assms
proof (induction toks arbitrary: ctx e r has_ep)
  case Nil
  then show ?case by (intro exI [of _ ctx] exI [of _ "rrgroups e ! g"]) (simp add: ep_grows_def)
next
  case (Cons tok toks)
  show ?case
  proof (cases "tok = self_name ctx")
    case True
    then have e: "build_eps resolve i (int g) (tok # toks) has_ep ctx = build_eps resolve i (int g) toks has_ep ctx"
      "filter (\<lambda>t. t \<noteq> self_name ctx) (tok # toks) = filter (\<lambda>t. t \<noteq> self_name ctx) toks" by simp_all
    have "\<forall>t\<in>set toks. t \<noteq> []" using Cons.prems(4) by simp
    then show ?thesis unfolding e by (rule Cons.IH [OF Cons.prems(1-3) _ Cons.prems(5-7)])
  next
    case False
    have "tok \<noteq> []" using Cons.prems(4) by simp
    then obtain v c r' where a: "uta_add_ep resolve i tok (int g) ctx = Some (v, c)" "ep_grows ctx c" "my_name c = my_name ctx"
      "the_rte c i = Some (e\<lparr>rrgroups := (rrgroups e)[g := Some r']\<rparr>)" "ip_list c = ip_list ctx"
      "rok (eps c) r'" "rnames (eps c) r' = take 32 (rnames (eps ctx) r @ [Some tok])"
      by (rule uta_add_ep_ok [OF Cons.prems(1-3) _ Cons.prems(5-7), of tok resolve])
    let ?e = "e\<lparr>rrgroups := (rrgroups e)[g := Some r']\<rparr>" and ?f = "filter (\<lambda>t. t \<noteq> self_name ctx) toks"
    have q: "rrgroups ?e ! g = Some r'" "?e\<lparr>rrgroups := (rrgroups ?e)[g := x]\<rparr> = e\<lparr>rrgroups := (rrgroups e)[g := x]\<rparr>" for x
      using Cons.prems(3) by simp_all
    have "\<exists>c' x. build_eps resolve i (int g) toks True c = Some (True \<or> filter (\<lambda>t. t \<noteq> self_name c) toks \<noteq> [], c') \<and>
      ep_grows c c' \<and> my_name c' = my_name c \<and> ip_list c' = ip_list c \<and>
      the_rte c' i = Some (?e\<lparr>rrgroups := (rrgroups ?e)[g := x]\<rparr>) \<and>
      (if filter (\<lambda>t. t \<noteq> self_name c) toks = [] then x = rrgroups ?e ! g
       else \<exists>r''. x = Some r'' \<and> rok (eps c') r'' \<and> rnames (eps c') r'' = take 32 (rnames (eps c) r' @ map Some (filter (\<lambda>t. t \<noteq> self_name c) toks)))"
      by (rule Cons.IH) (use a Cons.prems(3,4) rnames_length [OF a(7)] in \<open>auto simp: ep_grows_def\<close>)
    then obtain c' x where b: "build_eps resolve i (int g) toks True c = Some (True, c')" "ep_grows c c'" "my_name c' = my_name c"
      "ip_list c' = ip_list c" "the_rte c' i = Some (e\<lparr>rrgroups := (rrgroups e)[g := x]\<rparr>)"
      "if ?f = [] then x = Some r' else \<exists>r''. x = Some r'' \<and> rok (eps c') r'' \<and> rnames (eps c') r'' = take 32 (rnames (eps c) r' @ map Some ?f)"
      unfolding a(3) q simp_thms by blast
    obtain l where l: "eps c' = eps c @ l" using b(2) by (auto simp: ep_grows_def)
    have "\<exists>r''. x = Some r'' \<and> rok (eps c') r'' \<and> rnames (eps c') r'' = take 32 (rnames (eps ctx) r @ map Some (tok # ?f))"
    proof (cases "?f = []")
      case True
      then show ?thesis using b(6) a(6,7) rnames_append [OF a(6), of l] by (simp add: l)
    next
      case False
      then obtain r'' where r'': "x = Some r''" "rok (eps c') r''" "rnames (eps c') r'' = take 32 (rnames (eps c) r' @ map Some ?f)"
        using b(6) by auto
      then show ?thesis unfolding a(7) take_take_app by simp
    qed
    moreover have "build_eps resolve i (int g) (tok # toks) has_ep ctx = Some (True, c')" using False a(1) b(1) by simp
    moreover have "ep_grows ctx c'" by (rule ep_grows_trans [OF a(2) b(2)])
    moreover have "filter (\<lambda>t. t \<noteq> self_name ctx) (tok # toks) = tok # ?f" using False by simp
    ultimately show ?thesis using a(3,5) b(3,4,5) by (intro exI [of _ c'] exI [of _ x]) (simp del: take_append)
  qed
qed


text \<open>The endpoints a group of a record names, leaving out this process.\<close>

definition group_toks :: "uta_ctx \<Rightarrow> string \<Rightarrow> string list" where
  "group_toks ctx g = filter (\<lambda>t. t \<noteq> self_name ctx) (uta_rmip_tokenise (Some g) (ip_list ctx) 64 (CHR '',''))"

definition toks_ok :: "uta_ctx \<Rightarrow> string \<Rightarrow> bool" where
  "toks_ok ctx g = (\<forall>t\<in>set (uta_rmip_tokenise (Some g) (ip_list ctx) 64 (CHR '','')). t \<noteq> [])"

definition groups_ok :: "endpoint list \<Rightarrow> rrgroup option list \<Rightarrow> bool" where
  "groups_ok E G = (\<forall>x\<in>set G. \<exists>r. x = Some r \<and> rok E r)"

lemma groups_append:
  assumes "groups_ok E G"
  shows "groups_ok (E @ l) G" "map (map_option (rnames (E @ l))) G = map (map_option (rnames E)) G"
  using assms rnames_append by (fastforce simp: groups_ok_def)+

text \<open>One group: it takes the next free place if it has endpoints.\<close>

lemma build_group_step:
  assumes inv: "ep_inv ctx" and e: "the_rte ctx i = Some e" and G: "rrgroups e = G @ replicate (Suc m) None" and tok: "toks_ok ctx tok"
  shows "\<exists>c x. build_eps resolve i (int (length G)) (uta_rmip_tokenise (Some tok) (ip_list ctx) 64 (CHR '','')) False ctx =
      Some (group_toks ctx tok \<noteq> [], c) \<and> ep_grows ctx c \<and> my_name c = my_name ctx \<and> ip_list c = ip_list ctx \<and>
    the_rte c i = Some (e\<lparr>rrgroups := G @ x # replicate m None\<rparr>) \<and>
    (if group_toks ctx tok = [] then x = None
     else \<exists>r. x = Some r \<and> rok (eps c) r \<and> rnames (eps c) r = take 32 (map Some (group_toks ctx tok)))"
proof -
  let ?toks = "uta_rmip_tokenise (Some tok) (ip_list ctx) 64 (CHR '','')"
  have g: "length G < length (rrgroups e)" "rrgroups e ! length G = None" by (simp_all add: G nth_append)
  have "\<exists>c x. build_eps resolve i (int (length G)) ?toks False ctx = Some (False \<or> filter (\<lambda>t. t \<noteq> self_name ctx) ?toks \<noteq> [], c) \<and>
    ep_grows ctx c \<and> my_name c = my_name ctx \<and> ip_list c = ip_list ctx \<and>
    the_rte c i = Some (e\<lparr>rrgroups := (rrgroups e)[length G := x]\<rparr>) \<and>
    (if filter (\<lambda>t. t \<noteq> self_name ctx) ?toks = [] then x = rrgroups e ! length G
     else \<exists>r'. x = Some r' \<and> rok (eps c) r' \<and>
       rnames (eps c) r' = take 32 (rnames (eps ctx) \<lparr>ep_idx = 0, epts = []\<rparr> @ map Some (filter (\<lambda>t. t \<noteq> self_name ctx) ?toks)))"
    by (rule build_eps_ok [OF inv e g(1)]) (use tok g in \<open>simp_all add: toks_ok_def rok_def\<close>)
  moreover have u: "(rrgroups e)[length G := x] = G @ x # replicate m None" for x by (simp add: G)
  moreover have v: "rnames (eps ctx) \<lparr>ep_idx = 0, epts = []\<rparr> = []" by (simp add: rnames_def)
  ultimately show ?thesis unfolding g(2) group_toks_def [symmetric] simp_thms u v append_Nil by blast
qed

lemma build_groups_ok:
  assumes "ep_inv ctx" "the_rte ctx i = Some e" "rrgroups e = G @ replicate m None" "groups_ok (eps ctx) G" "length gs \<le> m"
    "\<forall>g\<in>set gs. toks_ok ctx g"
  shows "\<exists>c G'. build_groups resolve i (int (length G)) gs ctx = Some c \<and> ep_grows ctx c \<and>
    the_rte c i = Some (e\<lparr>rrgroups := G @ G' @ replicate (m - length G') None\<rparr>) \<and> groups_ok (eps c) (G @ G') \<and>
    map (map_option (rnames (eps c))) G' = map (\<lambda>l. Some (take 32 (map Some l))) (filter (\<lambda>l. l \<noteq> []) (map (group_toks ctx) gs))"
  using assms
proof (induction gs arbitrary: ctx e G m)
  case Nil
  have "e\<lparr>rrgroups := G @ replicate m None\<rparr> = e" using Nil.prems(3) by (cases e) simp
  then show ?case using Nil.prems by (intro exI [of _ ctx] exI [of _ "[]"]) (simp add: ep_grows_def)
next
  case (Cons g gs)
  then obtain m' where m: "m = Suc m'" by (cases m) auto
  have "toks_ok ctx g" using Cons.prems(6) by simp
  with build_group_step [OF Cons.prems(1,2), of G m' g resolve] Cons.prems(3) obtain c x where s:
    "build_eps resolve i (int (length G)) (uta_rmip_tokenise (Some g) (ip_list ctx) 64 (CHR '','')) False ctx = Some (group_toks ctx g \<noteq> [], c)"
    "ep_grows ctx c" "my_name c = my_name ctx" "ip_list c = ip_list ctx" "the_rte c i = Some (e\<lparr>rrgroups := G @ x # replicate m' None\<rparr>)"
    "if group_toks ctx g = [] then x = None
     else \<exists>r. x = Some r \<and> rok (eps c) r \<and> rnames (eps c) r = take 32 (map Some (group_toks ctx g))" unfolding m by blast
  have sel: "group_toks c = group_toks ctx" "toks_ok c = toks_ok ctx" by (simp_all add: fun_eq_iff group_toks_def toks_ok_def s(3,4))
  obtain l where l: "eps c = eps ctx @ l" and ic: "ep_inv c" using s(2) by (auto simp: ep_grows_def)
  note Gc = groups_append [OF Cons.prems(4), of l, folded l]
  show ?case
  proof (cases "group_toks ctx g = []")
    case True
    then have "rrgroups (e\<lparr>rrgroups := G @ x # replicate m' None\<rparr>) = G @ replicate m None" using s(6) by (simp add: m)
    from Cons.IH [OF ic s(5) this Gc(1)] Cons.prems(5,6) obtain c' G' where
      r: "build_groups resolve i (int (length G)) gs c = Some c'" "ep_grows c c'"
      "the_rte c' i = Some ((e\<lparr>rrgroups := G @ x # replicate m' None\<rparr>)\<lparr>rrgroups := G @ G' @ replicate (m - length G') None\<rparr>)" "groups_ok (eps c') (G @ G')"
      "map (map_option (rnames (eps c'))) G' = map (\<lambda>l. Some (take 32 (map Some l))) (filter (\<lambda>l. l \<noteq> []) (map (group_toks c) gs))"
      by (auto simp: sel)
    then show ?thesis using True s(1) ep_grows_trans [OF s(2) r(2)]
      by (intro exI [of _ c'] exI [of _ G']) (simp add: sel)
  next
    case False
    then obtain r where x: "x = Some r" "rok (eps c) r" "rnames (eps c) r = take 32 (map Some (group_toks ctx g))" using s(6) by auto
    have "rrgroups (e\<lparr>rrgroups := G @ x # replicate m' None\<rparr>) = (G @ [x]) @ replicate m' None" by simp
    moreover have "groups_ok (eps c) (G @ [x])" using Gc(1) x by (auto simp: groups_ok_def)
    ultimately obtain c' G' where
      r: "build_groups resolve i (int (length (G @ [x]))) gs c = Some c'" "ep_grows c c'"
      "the_rte c' i = Some ((e\<lparr>rrgroups := G @ x # replicate m' None\<rparr>)\<lparr>rrgroups := (G @ [x]) @ G' @ replicate (m' - length G') None\<rparr>)"
      "groups_ok (eps c') ((G @ [x]) @ G')"
      "map (map_option (rnames (eps c'))) G' = map (\<lambda>l. Some (take 32 (map Some l))) (filter (\<lambda>l. l \<noteq> []) (map (group_toks c) gs))"
      using Cons.IH [OF ic s(5), of "G @ [x]" m'] Cons.prems(5,6) by (auto simp: sel m)
    obtain l' where "eps c' = eps c @ l'" using r(2) by (auto simp: ep_grows_def)
    then have "rnames (eps c') r = take 32 (map Some (group_toks ctx g))" using rnames_append(1) [OF x(2)] x(3) by simp
    then show ?thesis using False s(1) r ep_grows_trans [OF s(2) r(2)]
      by (intro exI [of _ c'] exI [of _ "x # G'"]) (simp add: sel x(1) m add.commute)
  qed
qed


text \<open>
  C15: a record routes to the endpoints it names. The entry a record adds is found under its key, and its groups
  are the groups of the record in their order, without those that name nobody but this process: each group
  holds the endpoints of the names listed, in order, at most the first 32 of them. Names stand for endpoints one
  to one, before and after.
\<close>

theorem entry_groups:
  fixes ts rr :: string and subid :: u32
  defines "key \<equiv> build_rt_key (sint subid) (atoi (clip ts))" and "gs \<equiv> uta_tokenise (Some (clip rr)) 64 (CHR '';'')"
  assumes "rt_inv ctx" "ep_inv ctx" "new_rtable ctx = Some t" "the_rt ctx t = Some rt" "key \<noteq> 0" "for_me (clip ts) ctx"
    "gs \<noteq> []" "hd gs \<noteq> ''%meid''" "\<forall>g\<in>set gs. toks_ok ctx g"
  shows "\<exists>ctx' e G. build_entry resolve ts subid rr ctx = Some ctx' \<and> tlook ctx' t (NumKey key) = Some (RteRef (length (rtes ctx))) \<and>
    the_rte ctx' (length (rtes ctx)) = Some e \<and> rte_key e = key \<and> rrgroups e = G @ replicate (length gs - length G) None \<and>
    map (map_option (rnames (eps ctx'))) G = map (\<lambda>l. Some (take 32 (map Some l))) (filter (\<lambda>l. l \<noteq> []) (map (group_toks ctx) gs)) \<and>
    ep_inv ctx'"
proof -
  let ?i = "length (rtes ctx)"
  define e where "e = \<lparr>rte_key = key, rte_refs = 1, rte_mtype = 0, rrgroups = replicate (nat (if int (length gs) < 0 then 10 else int (length gs))) None\<rparr>"
  obtain h r where a: "uta_add_rte t key (int (length gs)) ctx = Some (?i, set_rt t (Some (rt\<lparr>rt_hash := h\<rparr>)) (ctx\<lparr>rtes := r @ [Some e]\<rparr>))"
    "length r = ?i" "sym_lookup h = (sym_lookup (rt_hash rt))(NumKey key \<mapsto> RteRef ?i)"
    using uta_add_rte_ok [OF assms(3,6,7), of "int (length gs)"] unfolding e_def by blast
  let ?c = "set_rt t (Some (rt\<lparr>rt_hash := h\<rparr>)) (ctx\<lparr>rtes := r @ [Some e]\<rparr>)" and ?e = "e\<lparr>rte_mtype := atoi (clip ts)\<rparr>"
  define c1 where "c1 = ?c\<lparr>rtes := (rtes ?c)[?i := Some ?e]\<rparr>"
  have en: "the_rte ?c ?i = Some e" "the_rte c1 ?i = Some ?e" "rrgroups ?e = [] @ replicate (length gs) None"
    by (simp_all add: the_rte_def a(2) nth_append e_def c1_def)
  have g: "group_toks c1 = group_toks ctx" "toks_ok c1 = toks_ok ctx" by (simp_all add: fun_eq_iff group_toks_def toks_ok_def set_rt_def c1_def)
  have "ep_inv c1" using assms(4) by (simp add: ep_inv_def c1_def)
  from build_groups_ok [OF this en(2,3), of gs resolve] assms(11) obtain c G where b: "build_groups resolve ?i 0 gs c1 = Some c"
    "ep_grows c1 c" "the_rte c ?i = Some (?e\<lparr>rrgroups := G @ replicate (length gs - length G) None\<rparr>)"
    "map (map_option (rnames (eps c))) G = map (\<lambda>l. Some (take 32 (map Some l))) (filter (\<lambda>l. l \<noteq> []) (map (group_toks ctx) gs))"
    by (auto simp: g groups_ok_def)
  have "build_entry resolve ts subid rr ctx = Some c"
    using assms(5,8-10) a(1) b(1) en(1) unfolding build_entry_def Let_def key_def [symmetric] gs_def [symmetric] by (simp add: c1_def)
  moreover have "the_rt c t = Some (rt\<lparr>rt_hash := h\<rparr>)"
  proof -
    obtain p q gs' where "c = c1\<lparr>eps := p, ephash := q, rtes := (rtes c1)[?i := Some (?e\<lparr>rrgroups := gs'\<rparr>)]\<rparr>"
      using build_groups_frame [OF en(2), of resolve 0 gs] b(1) by auto
    then have "tabs c = (tabs ctx)[t := Some (rt\<lparr>rt_hash := h\<rparr>)]" by (simp add: c1_def)
    then show ?thesis using assms(6) by (auto simp: the_rt_def split: if_splits)
  qed
  then have "tlook c t (NumKey key) = Some (RteRef ?i)" by (simp add: tlook_def a(3))
  ultimately show ?thesis using b by (auto simp: ep_grows_def e_def)
qed

lemma demo_group_tokens:
  "clip ''1'' = ''1''" "atoi ''1'' = 1" "clip ''a:1,b:2;c:3'' = ''a:1,b:2;c:3''"
  "uta_tokenise (Some ''a:1,b:2;c:3'') 64 (CHR '';'') = [''a:1,b:2'', ''c:3'']"
  "uta_rmip_tokenise (Some ''a:1,b:2'') None 64 (CHR '','') = [''a:1'', ''b:2'']"
  "uta_rmip_tokenise (Some ''c:3'') None 64 (CHR '','') = [''c:3'']"
  by code_simp+

theorem entry_groups_witness:
  "\<exists>ctx ctx' e G. build_entry (\<lambda>_. None) ''1'' 7 ''a:1,b:2;c:3'' ctx = Some ctx' \<and>
    the_rte ctx' (length (rtes ctx)) = Some e \<and> rrgroups e = G @ replicate (2 - length G) None \<and>
    map (map_option (rnames (eps ctx'))) G = [Some [Some ''a:1'', Some ''b:2''], Some [Some ''c:3'']]"
proof -
  obtain ctx b th where i: "init demo_env [] None 0 0 = Return (Inr (ctx, b, th))" by (rule demo_init)
  obtain t: "tabs ctx = [Some empty_rt]" by (rule init_ctx [OF i]) blast
  let ?c = "ctx\<lparr>my_name := [0], ip_list := None, eps := [], ephash := the (rmr_sym_alloc True 129), new_rtable := Some 0\<rparr>"
  have "rt_inv ?c" using tabs_invD(1) [OF init_sys_inv(1) [OF i]] rt_inv_cong [of ?c ctx] by simp
  moreover have "ep_inv ?c" by (simp add: ep_inv_def rmr_sym_alloc_wf hash_ok_empty(2) sym_lookup_absent sym_present_alloc)
  moreover have "the_rt ?c 0 = Some empty_rt" by (simp add: the_rt_def t)
  moreover have "build_rt_key (sint (7 :: u32)) (atoi (clip ''1'')) \<noteq> 0" by (simp add: build_rt_key_def demo_group_tokens)
  moreover have "for_me (clip ''1'') ?c" by (simp add: for_me_def demo_group_tokens)
  moreover have "\<forall>g\<in>set (uta_tokenise (Some (clip ''a:1,b:2;c:3'')) 64 (CHR '';'')). toks_ok ?c g"
    by (simp add: demo_group_tokens toks_ok_def)
  moreover have "map (group_toks ?c) [''a:1,b:2'', ''c:3''] = [[''a:1'', ''b:2''], [''c:3'']]"
    by (simp add: group_toks_def demo_group_tokens cstr_def bytes_str_def)
  ultimately show ?thesis
    using entry_groups [of ?c 0 empty_rt 7 "''1''" "''a:1,b:2;c:3''" "\<lambda>_. None"] by (fastforce simp: demo_group_tokens)
qed

subsection \<open>Round robin\<close>

text \<open>The endpoints a number of selections in a row give.\<close>

fun rr_run :: "(string \<Rightarrow> int) \<Rightarrow> nat \<Rightarrow> int \<Rightarrow> nat \<Rightarrow> uta_ctx \<Rightarrow> nat list" where
  "rr_run connect i grp 0 ctx = []"
| "rr_run connect i grp (Suc m) ctx = (case uta_epsock_rr connect i grp ctx of
      Some ((_, _, Some p), c) \<Rightarrow> p # rr_run connect i grp m c
    | _ \<Rightarrow> [])"

lemma rr_step:
  assumes e: "the_rte ctx i = Some e" and g: "g < length (rrgroups e)" "rrgroups e ! g = Some r"
    and n: "1 < length (epts r)" and p: "epts r ! (unat (ep_idx r) mod length (epts r)) = Some p"
  obtains mr sel c where "uta_epsock_rr connect i (int g) ctx = Some ((mr, sel, Some p), c)"
    "the_rte c i = Some (e\<lparr>rrgroups := (rrgroups e)[g := Some (r\<lparr>ep_idx := ep_idx r + 1\<rparr>)]\<rparr>)"
proof -
  let ?e = "e\<lparr>rrgroups := (rrgroups e)[g := Some (r\<lparr>ep_idx := ep_idx r + 1\<rparr>)]\<rparr>"
  let ?c = "ctx\<lparr>rtes := (rtes ctx)[i := Some ?e]\<rparr>"
  obtain fd c where s: "ep_socket True connect p ?c = (fd, c)" by fastforce
  have "epts r \<noteq> []" "length (epts r) \<noteq> Suc 0" using n by auto
  then have "uta_epsock_rr connect i (int g) ctx = Some ((int g < int (length (rrgroups e)) - 1 \<and> rrgroups e ! (g + 1) \<noteq> None,
      map_option (\<lambda>s. (unat (ep_idx r) mod length (epts r) + 1, s)) fd, Some p), c)"
    using e g p s by (simp add: uta_epsock_rr_def Let_def)
  moreover obtain a b where "c = ?c\<lparr>eps := a, fd2ep := b\<rparr>" using ep_socket_frame [of True connect p ?c] s by auto
  then have "the_rte c i = Some ?e" using e by (auto simp: the_rte_def split: if_splits)
  ultimately show thesis by (rule that)
qed

lemma rr_run_spec:
  assumes "the_rte ctx i = Some e" "g < length (rrgroups e)" "rrgroups e ! g = Some r" "1 < length (epts r)"
    "None \<notin> set (epts r)" "unat (ep_idx r) + m \<le> 2 ^ 16 \<or> length (epts r) dvd 2 ^ 16"
  shows "rr_run connect i (int g) m ctx = map (\<lambda>j. the (epts r ! ((unat (ep_idx r) + j) mod length (epts r)))) [0..<m]"
  using assms
proof (induction m arbitrary: ctx e r)
  case (Suc m)
  let ?n = "length (epts r)"
  have "unat (ep_idx r) mod ?n < ?n" using Suc.prems(4) by (intro mod_less_divisor) linarith
  then obtain p where p: "epts r ! (unat (ep_idx r) mod ?n) = Some p" using Suc.prems(5) by (metis nth_mem option.exhaust)
  from rr_step [OF Suc.prems(1-4) p, of connect] obtain mr sel c where s: "uta_epsock_rr connect i (int g) ctx = Some ((mr, sel, Some p), c)"
    "the_rte c i = Some (e\<lparr>rrgroups := (rrgroups e)[g := Some (r\<lparr>ep_idx := ep_idx r + 1\<rparr>)]\<rparr>)" by blast
  show ?case
  proof (cases m)
    case 0
    then show ?thesis using s p by simp
  next
    case (Suc m')
    have a: "unat (ep_idx r + 1) = (unat (ep_idx r) + 1) mod 2 ^ 16" by (simp add: unat_word_ariths)
    have u: "(unat (ep_idx r + 1) + j) mod ?n = (unat (ep_idx r) + 1 + j) mod ?n" for j
    proof (cases "?n dvd 2 ^ 16")
      case True
      then have "(unat (ep_idx r) + 1) mod 2 ^ 16 mod ?n = (unat (ep_idx r) + 1) mod ?n" by (rule mod_mod_cancel)
      then show ?thesis unfolding a by (rule mod_add_cong) simp
    next
      case False
      then have "unat (ep_idx r) + 1 < 2 ^ 16" using Suc.prems(6) \<open>m = Suc m'\<close> by simp
      then show ?thesis unfolding a by simp
    qed
    have "unat (ep_idx r + 1) + m \<le> 2 ^ 16 \<or> ?n dvd 2 ^ 16" using Suc.prems(6) \<open>m = Suc m'\<close> a by (cases "?n dvd 2 ^ 16") simp_all
    then have "rr_run connect i (int g) m c = map (\<lambda>j. the (epts r ! ((unat (ep_idx r + 1) + j) mod ?n))) [0..<m]"
      by (intro Suc.IH [OF s(2), of "r\<lparr>ep_idx := ep_idx r + 1\<rparr>", simplified]) (use Suc.prems in auto)
    then show ?thesis using s(1) p by (simp add: u map_upt_Suc del: upt_Suc)
  qed
qed simp


lemma rr_rotation:
  assumes "xs \<noteq> []"
  shows "map (\<lambda>j. xs ! ((k + j) mod length xs)) [0..<length xs] = rotate k xs"
  using assms by (intro nth_equalityI) (simp_all add: nth_rotate)

text \<open>
  C16: the selection in a group of more than one endpoint goes around, up to the wrap of its index. As long as the 16 bit index does not wrap, or the size of the group
  is a power of two so that the wrap does no harm, selections in a row give the
  endpoints in their order, starting where the index stands, and as many selections as the group has endpoints
  give each of them exactly once; whether an endpoint can be connected makes no difference.
\<close>

theorem round_robin_fair:
  assumes "the_rte ctx i = Some e" "g < length (rrgroups e)" "rrgroups e ! g = Some r" "1 < length (epts r)"
    "None \<notin> set (epts r)" "unat (ep_idx r) + length (epts r) \<le> 2 ^ 16 \<or> length (epts r) dvd 2 ^ 16"
  shows "map Some (rr_run connect i (int g) (length (epts r)) ctx) = rotate (unat (ep_idx r)) (epts r) \<and>
    mset (map Some (rr_run connect i (int g) (length (epts r)) ctx)) = mset (epts r)"
proof -
  let ?n = "length (epts r)"
  have n: "epts r \<noteq> []" "0 < ?n" using assms(4) by auto
  have s: "Some (the (epts r ! (k mod ?n))) = epts r ! (k mod ?n)" for k
    using assms(5) mod_less_divisor [OF n(2), of k] by (metis nth_mem option.exhaust_sel)
  have "map Some (rr_run connect i (int g) ?n ctx) = rotate (unat (ep_idx r)) (epts r)"
    using rr_run_spec [OF assms, of connect] rr_rotation [OF n(1), of "unat (ep_idx r)"] by (simp add: s comp_def)
  moreover have "mset (rotate k xs) = mset xs" for k and xs :: "nat option list"
    by (metis add.commute append_take_drop_id mset_append rotate_drop_take)
  ultimately show ?thesis by simp
qed

theorem round_robin_fair_witness:
  "\<exists>ctx e. the_rte ctx 0 = Some e \<and> rrgroups e = [Some \<lparr>ep_idx = 4, epts = [Some 0, Some 1, Some 2]\<rparr>] \<and>
    map Some (rr_run (\<lambda>_. 5) 0 (int 0) 3 ctx) = [Some 1, Some 2, Some 0]"
proof -
  obtain ctx b th where "init demo_env [] None 0 0 = Return (Inr (ctx, b, th))" by (rule demo_init)
  let ?r = "\<lparr>ep_idx = 4, epts = [Some 0, Some 1, Some (2::nat)]\<rparr>"
  let ?e = "\<lparr>rte_key = 1, rte_refs = 1, rte_mtype = 1, rrgroups = [Some ?r]\<rparr>" and ?c = "ctx\<lparr>rtes := [Some \<lparr>rte_key = 1, rte_refs = 1, rte_mtype = 1, rrgroups = [Some \<lparr>ep_idx = 4, epts = [Some 0, Some 1, Some (2::nat)]\<rparr>]\<rparr>]\<rparr>"
  have e: "the_rte ?c 0 = Some ?e" by (simp add: the_rte_def)
  have "map Some (rr_run (\<lambda>_. 5) 0 (int 0) (length (epts ?r)) ?c) = rotate (unat (ep_idx ?r)) (epts ?r)"
    using round_robin_fair [OF e, of 0 ?r "\<lambda>_. 5"] by simp
  moreover have "rotate (unat (ep_idx ?r)) (epts ?r) = [Some 1, Some 2, Some 0]" by (simp add: rotate_drop_take)
  moreover have "length (epts ?r) = 3" by simp
  ultimately have "map Some (rr_run (\<lambda>_. 5) 0 (int 0) 3 ?c) = [Some 1, Some 2, Some 0]" by (simp only:)
  with e show ?thesis by (intro exI [of _ ?c] exI [of _ ?e] conjI) (simp only: rte.simps)+
qed

subsection \<open>Connections\<close>

lemma fd2ep_ops:
  assumes "num_tab (fd2ep ctx)"
  shows "num_tab (fd2ep (fd2ep_add fd e ctx))"
    "sym_lookup (fd2ep (fd2ep_add fd e ctx)) k = (if k = NumKey (word_of_int fd) then Some e else sym_lookup (fd2ep ctx) k)"
    "fst (fd2ep_get fd ctx) = sym_lookup (fd2ep ctx) (NumKey (word_of_int fd))"
    "fst (fd2ep_del fd ctx) = sym_lookup (fd2ep ctx) (NumKey (word_of_int fd))"
    "num_tab (fd2ep (snd (fd2ep_del fd ctx)))"
    "sym_lookup (fd2ep (snd (fd2ep_del fd ctx))) (NumKey (word_of_int fd)) = None"
proof -
  let ?k = "NumKey (word_of_int fd)"
  have k: "num_key ?k" by (simp add: num_key_def)
  note l = fd_tab.laws [OF assms k]
  show "num_tab (fd2ep (fd2ep_add fd e ctx))" using l(4) by (simp add: fd2ep_add_def rmr_sym_map_def)
  show "sym_lookup (fd2ep (fd2ep_add fd e ctx)) k = (if k = ?k then Some e else sym_lookup (fd2ep ctx) k)"
    using l(5) by (simp add: fd2ep_add_def rmr_sym_map_def)
  obtain v h where p: "rmr_sym_pull (fd2ep ctx) (word_of_int fd) = (v, h)" by fastforce
  then have h: "v = sym_lookup (fd2ep ctx) ?k" "num_tab h" "sym_lookup h = sym_lookup (fd2ep ctx)"
    using l(1-3) by (simp_all add: rmr_sym_pull_def)
  show "fst (fd2ep_get fd ctx) = sym_lookup (fd2ep ctx) ?k" using p h(1) by (simp add: fd2ep_get_def)
  show "fst (fd2ep_del fd ctx) = sym_lookup (fd2ep ctx) ?k" using p h(1) by (simp add: fd2ep_del_def)
  note d = fd_tab.laws(6,7) [OF h(2) k]
  show "num_tab (fd2ep (snd (fd2ep_del fd ctx)))" using p h(2) d(1) by (simp add: fd2ep_del_def rmr_sym_ndel_def)
  show "sym_lookup (fd2ep (snd (fd2ep_del fd ctx))) ?k = None" using p h d(2) by (auto simp: fd2ep_del_def rmr_sym_ndel_def)
qed


lemma upd_ep_fields [simp]:
  "fd2ep (upd_ep e f ctx) = fd2ep ctx" "length (eps (upd_ep e f ctx)) = length (eps ctx)"
  "e' \<noteq> e \<Longrightarrow> eps (upd_ep e f ctx) ! e' = eps ctx ! e'" "e < length (eps ctx) \<Longrightarrow> eps (upd_ep e f ctx) ! e = f (eps ctx ! e)"
  by (simp_all add: upd_ep_def)

lemma rx_disc_fields [simp]: "fd2ep (rx_disc ctx fd) = fd2ep ctx" "eps (rx_disc ctx fd) = eps ctx"
  by (simp_all add: rx_disc_def Let_def split: option.split prod.split)

lemma num_tab_alloc: "num_tab (the (rmr_sym_alloc True n))"
  by (simp add: num_tab_def num_chains_def rmr_sym_alloc_wf) (simp add: rmr_sym_alloc_def Let_def list_all_iff)

text \<open>
  C17: a lost connection closes exactly the endpoint it belonged to. After an endpoint was connected, the descriptor is
  known to be its own and it is open; when the transport reports that descriptor as closed, this endpoint
  is closed and will be connected anew, the descriptor belongs to nobody, and no other endpoint changes.
\<close>

theorem connection_lost:
  assumes "num_tab (fd2ep ctx)" "e < length (eps ctx)" "CHR '':'' \<in> set (ep_name (eps ctx ! e))" "\<not> ep_open (eps ctx ! e)"
    "connect (take 511 (ep_name (eps ctx ! e))) = fd" "0 \<le> fd"
  shows "\<exists>c. uta_link2 connect (Some e) ctx = (True, c) \<and> ep_open (eps c ! e) \<and> ep_sock (eps c ! e) = fd \<and>
    fst (fd2ep_get fd c) = Some e \<and> \<not> ep_open (eps (mt_disc_cb fd c) ! e) \<and> fst (fd2ep_get fd (mt_disc_cb fd c)) = None \<and>
    (\<forall>e'. e' \<noteq> e \<longrightarrow> eps (mt_disc_cb fd c) ! e' = eps ctx ! e')"
proof -
  let ?f = "\<lambda>p. p\<lparr>ep_sock := fd, ep_open := True, ep_notify := True\<rparr>"
  let ?c = "fd2ep_add fd e (upd_ep e ?f ctx)"
  have link: "uta_link2 connect (Some e) ctx = (True, ?c)" using assms(3-6) by (simp add: uta_link2_def Let_def)
  have ep: "eps ?c = eps (upd_ep e ?f ctx)" by (simp add: fd2ep_add_def)
  have n: "num_tab (fd2ep (upd_ep e ?f ctx))" using assms(1) by simp
  note a = fd2ep_ops(1,2) [OF n, of fd e]
  have nc: "num_tab (fd2ep (rx_disc ?c fd))" using a(1) by simp
  note d = fd2ep_ops(4,5,6) [OF nc, of fd]
  let ?c1 = "snd (fd2ep_del fd (rx_disc ?c fd))"
  have e1: "eps ?c1 = eps ?c" by (simp add: fd2ep_del_def Let_def split: prod.split)
  have "fst (fd2ep_del fd (rx_disc ?c fd)) = Some e" using d(1) a(2) by simp
  then have disc: "mt_disc_cb fd ?c = upd_ep e (\<lambda>p. p\<lparr>ep_open := False, ep_sock := -1\<rparr>) ?c1"
    by (auto simp: mt_disc_cb_def split: prod.splits)
  have "num_tab (fd2ep (mt_disc_cb fd ?c))" using d(2) by (simp add: disc)
  then have "fst (fd2ep_get fd (mt_disc_cb fd ?c)) = None" using fd2ep_ops(3) d(3) by (simp add: disc)
  moreover have "fst (fd2ep_get fd ?c) = Some e" using fd2ep_ops(3) [OF a(1)] a(2) by simp
  moreover have "e < length (eps ?c1)" using assms(2) by (simp add: e1 ep)
  ultimately show ?thesis using link assms(2) by (intro exI [of _ ?c]) (simp add: disc e1 ep)
qed

theorem connection_lost_witness:
  "\<exists>ctx c. uta_link2 (\<lambda>_. 9) (Some 0) ctx = (True, c) \<and> ep_open (eps c ! 0) \<and> \<not> ep_open (eps (mt_disc_cb 9 c) ! 0)"
proof -
  obtain ctx b th where "init demo_env [] None 0 0 = Return (Inr (ctx, b, th))" by (rule demo_init)
  let ?c = "ctx\<lparr>eps := [new_endpoint (\<lambda>_. None) ''svc:4560''], fd2ep := the (rmr_sym_alloc True 129)\<rparr>"
  have "num_tab (fd2ep ?c)" by (simp add: num_tab_alloc)
  with connection_lost [of ?c 0 "\<lambda>_. 9" 9] show ?thesis by (auto simp: new_endpoint_def)
qed

end
