(* ===== verification/FanOut.thy ===== *)
theory FanOut
  imports CallProps EpProps
begin

text \<open>
  Routed sends: a copy of a message says what the message says, and a send to an entry gives every group of the
  entry one copy, whatever the transport does with them.
\<close>

subsection \<open>Copies\<close>

text \<open>
  A message that can be sent to several groups. The copy reads the trace and data areas twice, so there has to be as
  much room behind the header again.
\<close>

definition fan_ok :: "mbuf \<Rightarrow> bytes \<Rightarrow> bool" where
  "fan_ok m b = (sendable m b \<and> mb_alloc_len m + 178 < 2 ^ 31 \<and>
     int (PAYLOAD_ADDR 50 b + unat (RMR_TR_LEN 50 b) + unat (RMR_D1_LEN 50 b) + unat (RMR_D2_LEN 50 b)) \<le> mb_alloc_len m)"

lemma copy_len:
  assumes "fan_ok m b"
  defines "n \<equiv> RMR_HDR_LEN 50 b + RMR_TR_LEN 50 b + RMR_D1_LEN 50 b + RMR_D2_LEN 50 b"
  shows "50 + unat n = PAYLOAD_ADDR 50 b + unat (RMR_TR_LEN 50 b) + unat (RMR_D1_LEN 50 b) + unat (RMR_D2_LEN 50 b)"
proof -
  have s: "sendable m b" and a: "mb_alloc_len m < 2 ^ 31"
    "int (PAYLOAD_ADDR 50 b + unat (RMR_TR_LEN 50 b) + unat (RMR_D1_LEN 50 b) + unat (RMR_D2_LEN 50 b)) \<le> mb_alloc_len m"
    using assms(1) by (simp_all add: fan_ok_def)
  have p: "PAYLOAD_ADDR 50 b = 50 + unat (RMR_HDR_LEN 50 b)" using s mbuf_wf_hdr_len(1) by (auto simp: sendable_def)
  have "int (unat (RMR_HDR_LEN 50 b) + unat (RMR_TR_LEN 50 b) + unat (RMR_D1_LEN 50 b) + unat (RMR_D2_LEN 50 b)) < 2 ^ 32"
    using a less_trans [of "mb_alloc_len m" "2 ^ 31" "2 ^ 32"] unfolding p by simp
  then have "unat (RMR_HDR_LEN 50 b) + unat (RMR_TR_LEN 50 b) + unat (RMR_D1_LEN 50 b) + unat (RMR_D2_LEN 50 b) < 2 ^ 32"
    by (simp only: of_nat_less_numeral_power_cancel_iff)
  then have "unat n = unat (RMR_HDR_LEN 50 b) + unat (RMR_TR_LEN 50 b) + unat (RMR_D1_LEN 50 b) + unat (RMR_D2_LEN 50 b)"
    unfolding n_def by (simp add: unat_word_ariths)
  with p show ?thesis by simp
qed

lemma clone_ok:
  assumes f: "fan_ok m b"
  obtains c b' where "clone_msg junk m = Some c" "fan_ok c b'" "content c = content m" "mb_state c = mb_state m"
proof -
  have s: "sendable m b" using f by (simp add: fan_ok_def)
  note sf = sendable_facts [OF s]
  let ?n = "RMR_HDR_LEN 50 b + RMR_TR_LEN 50 b + RMR_D1_LEN 50 b + RMR_D2_LEN 50 b"
  let ?blk = "malloc_block junk (mb_alloc_len m + 50)" and ?p = "PAYLOAD_ADDR 50 b"
  define N where "N = unat ?n"
  note n = copy_len [OF f, folded N_def]
  have al: "int (50 + N) \<le> mb_alloc_len m" "mb_alloc_len m \<le> int (length b)" "mb_alloc_len m + 178 < 2 ^ 31" "?p \<le> 50 + N"
    using f n s by (auto simp: fan_ok_def sendable_def mbuf_wf_def)
  have u: "uint ?n = int N" unfolding N_def by (rule uint_nat)
  let ?b1 = "bput 50 (bget 50 (N) b) ?blk"
  have lb: "length (bget 50 (N) b) = N" using al by (intro length_bget) linarith
  have "0 \<le> mb_alloc_len m" using al(1) by linarith
  then have lk: "int (length ?blk) = mb_alloc_len m + 50" by simp
  have c1: "memcpy ?blk (int 50) b (int 50) (uint ?n) = Some ?b1" using al lk unfolding u memcpy_def by simp
  have l1: "length ?b1 = length ?blk" using al(1) lb lk by (simp add: length_bput)
  have g1: "bget off k ?b1 = bget off k b" if "50 \<le> off" "off + k \<le> 50 + N" for off k
    using bget_bput_inside [of 50 "bget 50 (N) b" ?blk off k] that lb al lk bget_bget [of "off - 50" k "N" 50 b] by simp
  have h1: "hget 50 x ?b1 = hget 50 x b" if "int_field x" for x
    using g1 [of "50 + uta_mhdr_t x" 4] int_field_range [OF that] al(4) sf(2) by (simp add: hget_def)
  have p1: "PAYLOAD_ADDR 50 ?b1 = ?p" by (simp add: PAYLOAD_ADDR_def h1)
  have i2: "int ?p + mb_len m \<le> int (length ?b1)" "int ?p + mb_len m \<le> int (length b)" using s l1 lk al(2) by (simp_all add: sendable_def)
  define b2 where "b2 = bput ?p (bget ?p (nat (mb_len m)) b) ?b1"
  have c2: "memcpy ?b1 (int ?p) b (int ?p) (mb_len m) = Some b2" using i2 sf(8) by (simp add: memcpy_def b2_def)
  have "330 \<le> length ?b1" using i2(1) sf(2,8) by linarith
  note mb = memcpy_behind [OF c2 sf(2) this]
  let ?c = "mbuf_zero\<lparr>mb_header := Some 50, mb_tp_buf := Some b2, mb_payload := Some ?p, mb_mtype := mb_mtype m, mb_sub_id := mb_sub_id m,
     mb_len := mb_len m, mb_alloc_len := mb_alloc_len m, mb_xaction := Some (50 + uta_mhdr_t F_xid), mb_state := mb_state m, mb_flags := mb_flags m OR MFL_ZEROCOPY\<rparr>"
  have cl: "clone_msg junk m = Some ?c" using sf(3,4) c1 c2 by (simp add: clone_msg_def Let_def p1)
  have h2: "hget 50 x b2 = hget 50 x b" if "int_field x" for x using mb(2) [OF that] h1 [OF that] by simp
  have p2: "PAYLOAD_ADDR 50 b2 = ?p" by (simp add: PAYLOAD_ADDR_def h2)
  have l2: "int (length b2) = mb_alloc_len m + 50" using mb(1) l1 lk by simp
  have "sendable ?c b2" using s l2 al(3) p2 h2 [of F_len0] by (auto simp: sendable_def mbuf_wf_def mbuf_zero_def)
  then have "fan_ok ?c b2" using f by (simp add: fan_ok_def p2 RMR_TR_LEN_def RMR_D1_LEN_def RMR_D2_LEN_def h2)
  moreover have "content ?c = content m"
  proof -
    have "bget off k b2 = bget off k b" if "50 \<le> off" "off + k \<le> 330" for off k
      using mb(4) [of off k] g1 [of off k] that sf(2) al(4) by simp
    then show ?thesis using mb(3) s sf(4) by (simp add: content_def sendable_def)
  qed
  ultimately show thesis using that [OF cl] by simp
qed

subsection \<open>The groups of an entry\<close>

text \<open>
  The entry has \<open>k\<close> groups in use, at its start, and each has endpoints, of the \<open>N\<close> there are. Entries that records make are such
  (\<open>EpProps\<close>).
\<close>

definition groups_good :: "nat \<Rightarrow> rte \<Rightarrow> nat \<Rightarrow> bool" where
  "groups_good N e k = (0 < k \<and> k \<le> length (rrgroups e) \<and>
     (\<forall>g < k. \<exists>r. rrgroups e ! g = Some r \<and> epts r \<noteq> [] \<and> (\<forall>x\<in>set (epts r). \<exists>p < N. x = Some p)) \<and>
     (k < length (rrgroups e) \<longrightarrow> rrgroups e ! k = None))"

text \<open>The endpoint of a group whose turn it is, and the group after the turn.\<close>

definition rr_choice :: "rrgroup \<Rightarrow> nat option" where
  "rr_choice r = epts r ! (if length (epts r) = 1 then 0 else unat (ep_idx r) mod length (epts r))"

definition rr_next :: "rrgroup \<Rightarrow> rrgroup" where
  "rr_next r = (if length (epts r) = 1 then r else r\<lparr>ep_idx := ep_idx r + 1\<rparr>)"

definition rr_turn :: "nat \<Rightarrow> nat \<Rightarrow> rte \<Rightarrow> rte" where
  "rr_turn g k e = e\<lparr>rrgroups := map (\<lambda>j. if g \<le> j \<and> j < k then map_option rr_next (rrgroups e ! j) else rrgroups e ! j) [0..<length (rrgroups e)]\<rparr>"

text \<open>The socket of an endpoint: the one it has, or the one it gets when it is connected.\<close>

definition sock_of :: "(string \<Rightarrow> int) \<Rightarrow> uta_ctx \<Rightarrow> nat \<Rightarrow> int" where
  "sock_of connect ctx p = (if ep_open (eps ctx ! p) then ep_sock (eps ctx ! p) else connect (take 511 (ep_name (eps ctx ! p))))"

text \<open>Something went out on the socket of the endpoint of group \<open>g\<close> whose turn it is.\<close>

definition sent_to :: "(string \<Rightarrow> int) \<Rightarrow> uta_ctx \<Rightarrow> rte \<Rightarrow> nat \<Rightarrow> wire \<Rightarrow> bool" where
  "sent_to connect ctx e g w = (\<exists>r p. rrgroups e ! g = Some r \<and> rr_choice r = Some p \<and> fst w = sock_of connect ctx p)"

lemma rr_turn_step:
  assumes "rrgroups e ! g = Some r" "g < k" "k \<le> length (rrgroups e)"
  shows "rr_turn (g + 1) k (e\<lparr>rrgroups := (rrgroups e)[g := Some (rr_next r)]\<rparr>) = rr_turn g k e"
    "g + 1 = k \<Longrightarrow> e\<lparr>rrgroups := (rrgroups e)[g := Some (rr_next r)]\<rparr> = rr_turn g k e"
proof -
  have "(if g + 1 \<le> j \<and> j < k then map_option rr_next ((rrgroups e)[g := Some (rr_next r)] ! j) else (rrgroups e)[g := Some (rr_next r)] ! j) =
      (if g \<le> j \<and> j < k then map_option rr_next (rrgroups e ! j) else rrgroups e ! j)" if "j < length (rrgroups e)" for j
    using assms that by (cases "j = g") auto
  then show t: "rr_turn (g + 1) k (e\<lparr>rrgroups := (rrgroups e)[g := Some (rr_next r)]\<rparr>) = rr_turn g k e"
    by (simp add: rr_turn_def cong: if_cong)
  assume k: "g + 1 = k"
  let ?l = "(rrgroups e)[g := Some (rr_next r)]"
  have "map (\<lambda>j. if k \<le> j \<and> j < k then map_option rr_next (?l ! j) else ?l ! j) [0..<length (rrgroups e)] = ?l"
    by (rule nth_equalityI) auto
  then show "e\<lparr>rrgroups := ?l\<rparr> = rr_turn g k e"
    unfolding t [symmetric] k by (simp add: rr_turn_def cong: if_cong)
qed

text \<open>Every endpoint of the entry exists and has a name with a port.\<close>

definition links :: "string list \<Rightarrow> rte \<Rightarrow> bool" where
  "links names e = (\<forall>r p. Some r \<in> set (rrgroups e) \<and> Some p \<in> set (epts r) \<longrightarrow> p < length names \<and> CHR '':'' \<in> set (names ! p))"

lemma upd_ep_names: "(\<And>p. ep_name (f p) = ep_name p) \<Longrightarrow> map ep_name (eps (upd_ep e f ctx)) = map ep_name (eps ctx)"
  by (simp add: upd_ep_def map_update) (metis list_update_beyond list_update_id not_le_imp_less nth_map length_map)

lemma fd2ep_add_eps [simp]: "eps (fd2ep_add fd e ctx) = eps ctx"
  by (simp add: fd2ep_add_def)

lemma ep_address_name [simp]: "ep_name (ep_address p) = ep_name p"
  by (simp add: ep_address_def)

lemma uta_link2_names: "map ep_name (eps (snd (uta_link2 connect (Some e) ctx))) = map ep_name (eps ctx)"
  by (simp add: uta_link2_def Let_def upd_ep_names)

lemma ep_socket_names: "map ep_name (eps (snd (ep_socket b connect e ctx))) = map ep_name (eps ctx)"
proof -
  obtain ok c where u: "uta_link2 connect (Some e) (upd_ep e ep_address ctx) = (ok, c)" by fastforce
  have "map ep_name (eps c) = map ep_name (eps ctx)" using uta_link2_names [of connect e "upd_ep e ep_address ctx"] u by (simp add: upd_ep_names)
  then show ?thesis by (simp add: ep_socket_def u Let_def upd_ep_names)
qed

lemma ep_socket_links:
  assumes "e < length (eps ctx)" "CHR '':'' \<in> set (ep_name (eps ctx ! e))" "\<And>n. 0 \<le> connect n"
  shows "fst (ep_socket b connect e ctx) \<noteq> None"
proof (cases "ep_open (eps ctx ! e)")
  case False
  let ?c = "upd_ep e ep_address ctx"
  have "eps ?c ! e = ep_address (eps ctx ! e)" using assms(1) by (simp add: upd_ep_def)
  then have "fst (uta_link2 connect (Some e) ?c)" using assms(2) assms(3) [of "take 511 (ep_name (eps ctx ! e))"] by (simp add: uta_link2_def Let_def)
  then show ?thesis using False by (auto simp: ep_socket_def Let_def split: prod.splits)
qed (simp add: ep_socket_def)

lemma ep_socket_rtes: "rtes (snd (ep_socket b connect e ctx)) = rtes ctx" "tabs (snd (ep_socket b connect e ctx)) = tabs ctx"
  using ep_socket_frame [of b connect e ctx] by auto

text \<open>Connecting an endpoint does not change the socket of any, as long as connecting to a name gives the same socket.\<close>

lemma sock_upd:
  assumes "\<And>p. ep_name (f p) = ep_name p" "e < length (eps ctx) \<Longrightarrow> ep_open (f (eps ctx ! e)) = ep_open (eps ctx ! e)"
    "e < length (eps ctx) \<Longrightarrow> ep_open (eps ctx ! e) \<Longrightarrow> ep_sock (f (eps ctx ! e)) = ep_sock (eps ctx ! e)"
  shows "sock_of connect (upd_ep e f ctx) q = sock_of connect ctx q"
  using assms by (cases "e < length (eps ctx)"; cases "q = e") (simp_all add: sock_of_def upd_ep_def not_less list_update_beyond)

lemma sock_opened:
  assumes "\<not> ep_open (eps ctx ! e)" "e < length (eps ctx)" "ep_name p = ep_name (eps ctx ! e)" "ep_open p" "ep_sock p = connect (take 511 (ep_name p))"
  shows "sock_of connect (upd_ep e (\<lambda>_. p) ctx) q = sock_of connect ctx q"
  using assms by (cases "q = e") (simp_all add: sock_of_def upd_ep_def)

lemma sock_cong: "eps c = eps ctx \<Longrightarrow> sock_of connect c q = sock_of connect ctx q"
  by (simp add: sock_of_def)

lemma upd_ep_twice: "upd_ep e f (upd_ep e h ctx) = upd_ep e (\<lambda>p. f (h p)) ctx"
  by (cases "e < length (eps ctx)") (simp_all add: upd_ep_def not_less list_update_beyond)

lemma upd_ep_const: "e < length (eps ctx) \<Longrightarrow> upd_ep e f ctx = upd_ep e (\<lambda>_. f (eps ctx ! e)) ctx"
  by (simp add: upd_ep_def)

lemma ep_address_fields [simp]: "ep_open (ep_address p) = ep_open p" "ep_sock (ep_address p) = ep_sock p"
  by (simp_all add: ep_address_def)

lemma ep_socket_sock:
  assumes p: "p < length (eps ctx)"
  shows "sock_of connect (snd (ep_socket b connect p ctx)) q = sock_of connect ctx q"
    "fst (ep_socket b connect p ctx) = Some fd \<Longrightarrow> fd = sock_of connect ctx p"
proof -
  let ?p = "eps ctx ! p" and ?c = "upd_ep p ep_address ctx"
  have a: "sock_of connect ?c q = sock_of connect ctx q" for q by (rule sock_upd) simp_all
  have c: "eps ?c ! p = ep_address ?p" "p < length (eps ?c)" using p by simp_all
  let ?n = "connect (take 511 (ep_name ?p))"
  consider (opened) "ep_open ?p" | (noport) "\<not> ep_open ?p" "CHR '':'' \<notin> set (ep_name ?p)"
    | (refused) "\<not> ep_open ?p" "CHR '':'' \<in> set (ep_name ?p)" "?n < 0" | (connected) "\<not> ep_open ?p" "CHR '':'' \<in> set (ep_name ?p)" "0 \<le> ?n" by linarith
  then have "sock_of connect (snd (ep_socket b connect p ctx)) q = sock_of connect ctx q \<and>
      (fst (ep_socket b connect p ctx) = Some fd \<longrightarrow> fd = sock_of connect ctx p)"
  proof cases
    case opened
    then show ?thesis by (auto simp: ep_socket_def sock_of_def)
  next
    case noport
    then have "ep_socket b connect p ctx = (None, upd_ep p (\<lambda>p. p\<lparr>ep_notify := False\<rparr>) ?c)"
      using c by (simp add: ep_socket_def uta_link2_def Let_def)
    moreover have "sock_of connect (upd_ep p (\<lambda>p. p\<lparr>ep_notify := False\<rparr>) ?c) q = sock_of connect ?c q" by (rule sock_upd) simp_all
    ultimately show ?thesis using a by simp
  next
    case refused
    then have "ep_socket b connect p ctx = (None, upd_ep p (\<lambda>p. p\<lparr>ep_sock := ?n, ep_notify := False\<rparr>) ?c)"
      using c by (simp add: ep_socket_def uta_link2_def Let_def)
    moreover have "sock_of connect (upd_ep p (\<lambda>p. p\<lparr>ep_sock := ?n, ep_notify := False\<rparr>) ?c) q = sock_of connect ?c q"
      by (rule sock_upd) (use refused(1) c in simp_all)
    ultimately show ?thesis using a by simp
  next
    case connected
    let ?f = "\<lambda>p. p\<lparr>ep_sock := ?n, ep_open := True, ep_notify := True\<rparr>" and ?o = "\<lambda>p. p\<lparr>ep_open := True\<rparr>"
    let ?c2 = "upd_ep p ?o (fd2ep_add ?n p (upd_ep p ?f ?c))"
    have e: "eps ?c2 = eps (upd_ep p ?o (upd_ep p ?f ?c))" by (simp add: upd_ep_def)
    have s: "ep_sock (eps ?c2 ! p) = ?n" unfolding e using c(2) by simp
    have "sock_of connect (upd_ep p (\<lambda>p. ?o (?f p)) ?c) q = sock_of connect ?c q"
      unfolding upd_ep_const [OF c(2), of "\<lambda>p. ?o (?f p)"] by (rule sock_opened) (use connected(1) c in simp_all)
    moreover have "upd_ep p ?o (upd_ep p ?f ?c) = upd_ep p (\<lambda>p. ?o (?f p)) ?c" by (rule upd_ep_twice)
    ultimately have o: "sock_of connect ?c2 q = sock_of connect ctx q" using a unfolding sock_cong [OF e] by metis
    have "ep_socket b connect p ctx = (Some ?n, if b then fd2ep_add ?n p ?c2 else ?c2)"
      using connected c s by (simp add: ep_socket_def uta_link2_def Let_def)
    moreover have "sock_of connect (fd2ep_add ?n p ?c2) q = sock_of connect ?c2 q" by (rule sock_cong) simp
    moreover have "?n = sock_of connect ctx p" using connected(1) by (simp add: sock_of_def)
    ultimately show ?thesis using o by (cases b) simp_all
  qed
  then show "sock_of connect (snd (ep_socket b connect p ctx)) q = sock_of connect ctx q"
    "fst (ep_socket b connect p ctx) = Some fd \<Longrightarrow> fd = sock_of connect ctx p" by blast+
qed

lemma groups_good_next:
  assumes "groups_good N e k" "rrgroups e ! g = Some r" "g < k"
  shows "groups_good N (e\<lparr>rrgroups := (rrgroups e)[g := Some (rr_next r)]\<rparr>) k"
  using assms by (auto simp: groups_good_def nth_list_update rr_next_def)

lemma links_next:
  assumes "rrgroups e ! g = Some r" "g < length (rrgroups e)"
  shows "links nms (e\<lparr>rrgroups := (rrgroups e)[g := Some (rr_next r)]\<rparr>) = links nms e"
proof -
  let ?e' = "e\<lparr>rrgroups := (rrgroups e)[g := Some (rr_next r)]\<rparr>"
  have "map (map_option epts) (rrgroups ?e') = map (map_option epts) (rrgroups e)"
    using assms by (simp add: map_update rr_next_def) (metis list_update_id nth_map option.map(2))
  then have "map_option epts ` set (rrgroups ?e') = map_option epts ` set (rrgroups e)" by (metis list.set_map)
  moreover have im: "Some q \<in> map_option epts ` S \<longleftrightarrow> (\<exists>r. Some r \<in> S \<and> epts r = q)" for q S
    unfolding image_iff by (metis map_option_eq_Some)
  have "links nms z = (\<forall>q p. Some q \<in> map_option epts ` set (rrgroups z) \<and> Some p \<in> set q \<longrightarrow> p < length nms \<and> CHR '':'' \<in> set (nms ! p))" for z
    unfolding links_def im by blast
  ultimately show ?thesis by simp
qed

lemma rr_any:
  assumes e: "the_rte ctx i = Some e" and k: "groups_good (length (eps ctx)) e k" and g: "g < k"
  obtains s p c r where "rrgroups e ! g = Some r" "rr_choice r = Some p" "uta_epsock_rr connect i (int g) ctx = Some ((g + 1 < k, s, Some p), c)"
    "the_rte c i = Some (e\<lparr>rrgroups := (rrgroups e)[g := Some (rr_next r)]\<rparr>)" "tabs c = tabs ctx" "map ep_name (eps c) = map ep_name (eps ctx)"
    "\<forall>q. sock_of connect c q = sock_of connect ctx q" "\<forall>x. s = Some x \<longrightarrow> snd x = sock_of connect ctx p"
    "links (map ep_name (eps ctx)) e \<and> (\<forall>n. 0 \<le> connect n) \<longrightarrow> s \<noteq> None"
proof -
  obtain r where r: "rrgroups e ! g = Some r" "epts r \<noteq> []" "\<forall>x\<in>set (epts r). \<exists>p<length (eps ctx). x = Some p" "g < length (rrgroups e)"
    using k g by (auto simp: groups_good_def)
  define idx where "idx = (if length (epts r) = 1 then 0 else unat (ep_idx r) mod length (epts r))"
  have il: "idx < length (epts r)" using r(2) by (simp add: idx_def)
  then obtain p where p: "epts r ! idx = Some p" "p < length (eps ctx)" using r(3) nth_mem by blast
  have ch: "rr_choice r = Some p" using p(1) by (simp add: rr_choice_def idx_def)
  let ?e' = "e\<lparr>rrgroups := (rrgroups e)[g := Some (rr_next r)]\<rparr>"
  let ?c = "ctx\<lparr>rtes := (rtes ctx)[i := Some ?e']\<rparr>"
  obtain s c where sk: "ep_socket True connect p ?c = (s, c)" by fastforce
  have m: "(int g < int (length (rrgroups e)) - 1 \<and> rrgroups e ! (g + 1) \<noteq> None) = (g + 1 < k)"
    using k g unfolding groups_good_def by (cases "g + 1 < k") (auto simp: less_Suc_eq not_less_eq dest: spec [of _ "g + 1"] intro: less_antisym)
  have rr: "uta_epsock_rr connect i (int g) ctx = Some ((g + 1 < k, map_option (\<lambda>s. (idx + 1, s)) s, Some p), c)"
    using e r p sk m [symmetric] by (simp add: uta_epsock_rr_def Let_def idx_def rr_next_def split: if_splits)
  have il2: "i < length (rtes ctx)" using e by (simp add: the_rte_def split: if_splits)
  have en: "the_rte c i = Some ?e'" using ep_socket_rtes(1) [of True connect p ?c] sk il2 by (simp add: the_rte_def)
  have tb: "tabs c = tabs ctx" using ep_socket_rtes(2) [of True connect p ?c] sk by simp
  have nm: "map ep_name (eps c) = map ep_name (eps ctx)" using ep_socket_names [of True connect p ?c] sk by simp
  have ec: "eps ?c = eps ctx" by simp
  have pc: "p < length (eps ?c)" using p(2) by simp
  have so: "sock_of connect c q = sock_of connect ctx q" for q
    using ep_socket_sock(1) [OF pc, of connect True q] sk by (simp add: sock_cong [OF ec])
  have fd: "snd x = sock_of connect ctx p" if "map_option (\<lambda>s. (idx + 1, s)) s = Some x" for x
    using ep_socket_sock(2) [OF pc, of True connect "snd x"] sk that by (auto simp: sock_cong [OF ec])
  have so2: "map_option (\<lambda>s. (idx + 1, s)) s \<noteq> None" if l: "links (map ep_name (eps ctx)) e" "\<And>n. 0 \<le> connect n"
  proof -
    have "Some r \<in> set (rrgroups e)" "Some p \<in> set (epts r)" using r(1,4) p(1) il by (metis nth_mem)+
    with l(1) have q: "p < length (eps ctx)" "CHR '':'' \<in> set (map ep_name (eps ctx) ! p)" unfolding links_def by (simp, blast)
    from ep_socket_links [of p ?c connect True] q l(2) sk show ?thesis by auto
  qed
  show thesis by (rule that [OF r(1) ch rr en tb nm]) (use so fd so2 in blast)+
qed

subsection \<open>The loop over the groups\<close>

text \<open>What went out is a copy of the message: the frame of a message with this content.\<close>

definition copy_of :: "int \<times> int \<times> bytes \<times> bytes \<times> bytes \<Rightarrow> wire \<Rightarrow> bool" where
  "copy_of x w = (\<exists>m b (ctx :: uta_ctx). sendable m b \<and> content m = x \<and> snd w = wire_frame ctx m b)"

lemma copy_ofI: "sendable m b \<Longrightarrow> copy_of (content m) (fd, wire_frame (ctx :: uta_ctx) m b)"
  unfolding copy_of_def snd_conv by blast

lemma send_msg_returns:
  assumes s: "sendable m b"
  obtains mo e w where "send_msg si mem junk ctx m fd retries = Return (mo, e, ctx, w)" "w = [] \<or> w = [(fd, wire_frame ctx m b)]"
    "fst (si 0) = SI_OK \<longrightarrow> w \<noteq> []"
proof -
  note f = sendable_facts [OF s]
  have li: "length (insert_mlen x (send_header ctx m 50 b)) = length b" for x using f(1) send_header_spec(1) [OF f(1), of ctx m] by simp
  have le: "\<not> int (length b) < int (PAYLOAD_ADDR 50 b) + mb_len m" using f(6,8) by linarith
  have "snd (alloc_zcmsg mem junk ctx (Some m') sz st tr) = ctx" for m' sz st tr by (simp add: alloc_zcmsg_def Let_def)
  moreover obtain n st mst e where "(if retries = 0 then send_loop si 0 100 1 else send_loop si 0 1000 retries) = (n, st, mst, e)" by (rule prod_cases4)
  ultimately have "\<exists>mo e w. send_msg si mem junk ctx m fd retries = Return (mo, e, ctx, w)"
    using f(5) [of ctx] le li f(8) unfolding send_msg_def f(3) by (simp add: Let_def case_prod_beta)
  then obtain mo e w where "send_msg si mem junk ctx m fd retries = Return (mo, e, ctx, w)" by blast
  from that [OF this] send_msg_frame [OF s this] show thesis by auto
qed

lemma fan_ok_fields [simp]:
  "fan_ok (m\<lparr>mb_flags := x\<rparr>) b = fan_ok m b" "fan_ok (m\<lparr>mb_state := st\<rparr>) b = fan_ok m b"
  by (simp_all add: fan_ok_def sendable_def mbuf_wf_def split: option.splits)

lemma content_fields [simp]: "content (m\<lparr>mb_flags := x\<rparr>) = content m" "content (m\<lparr>mb_state := st\<rparr>) = content m"
  by (simp_all add: content_def)

lemma incr_ep_counts_frame:
  "rtes (incr_ep_counts st ep ctx) = rtes ctx" "tabs (incr_ep_counts st ep ctx) = tabs ctx"
  "map ep_name (eps (incr_ep_counts st ep ctx)) = map ep_name (eps ctx)"
  by (simp_all add: incr_ep_counts_def upd_ep_names split: option.split) (simp_all add: upd_ep_def)

lemma incr_ep_counts_sock: "sock_of connect (incr_ep_counts st ep ctx) q = sock_of connect ctx q"
  by (auto simp: incr_ep_counts_def split: option.split if_splits intro!: sock_upd)

lemma eps_length: "map ep_name (eps c) = map ep_name (eps ctx) \<Longrightarrow> length (eps c) = length (eps ctx)"
  by (metis length_map)

text \<open>
  What a part of the loop did: the groups that got a copy, in order, with what went out for each; and the state.
\<close>

definition fanned :: "(string \<Rightarrow> int) \<Rightarrow> nat \<Rightarrow> uta_ctx \<Rightarrow> rte \<Rightarrow> nat \<Rightarrow> nat \<Rightarrow> int \<times> int \<times> bytes \<times> bytes \<times> bytes \<Rightarrow> nat list \<Rightarrow> wire list \<Rightarrow> uta_ctx \<Rightarrow> bool" where
  "fanned connect i ctx e g k x gs ws c = (sorted_wrt (<) gs \<and> set gs \<subseteq> {g..<k} \<and> list_all2 (sent_to connect ctx e) gs ws \<and>
     (\<forall>w\<in>set ws. copy_of x w) \<and> tabs c = tabs ctx \<and> the_rte c i = Some (rr_turn g k e))"

lemma sent_to_next:
  assumes "list_all2 (sent_to connect c (e\<lparr>rrgroups := (rrgroups e)[g := z]\<rparr>)) gs ws" "set gs \<subseteq> {g + 1..<k}"
    "\<And>q. sock_of connect c q = sock_of connect ctx q"
  shows "list_all2 (sent_to connect ctx e) gs ws"
  using assms(1) by (rule list.rel_mono_strong) (use assms(2,3) in \<open>auto simp: sent_to_def\<close>)

text \<open>The turn of group \<open>g\<close>, with what went out for it, before the rest of the loop.\<close>

lemma fanned_step:
  assumes r: "rrgroups e ! g = Some r" "rr_choice r = Some p" "g + 1 < k" "k \<le> length (rrgroups e)"
    and c: "tabs c = tabs ctx" "\<And>q. sock_of connect c q = sock_of connect ctx q"
    and w: "w = [] \<and> hs = [] \<or> w = [(sock_of connect ctx p, d)] \<and> hs = [g] \<and> copy_of x (sock_of connect ctx p, d)"
    and rest: "fanned connect i c (e\<lparr>rrgroups := (rrgroups e)[g := Some (rr_next r)]\<rparr>) (g + 1) k x gs ws c'"
  shows "fanned connect i ctx e g k x (hs @ gs) (w @ ws) c'"
proof -
  let ?e = "e\<lparr>rrgroups := (rrgroups e)[g := Some (rr_next r)]\<rparr>"
  have f: "sorted_wrt (<) gs" "set gs \<subseteq> {g + 1..<k}" "list_all2 (sent_to connect c ?e) gs ws" "\<forall>w\<in>set ws. copy_of x w" "tabs c' = tabs c"
    "the_rte c' i = Some (rr_turn (g + 1) k ?e)" using rest by (simp_all add: fanned_def)
  have "list_all2 (sent_to connect ctx e) gs ws" by (rule sent_to_next [OF f(3,2) c(2)])
  moreover have "list_all2 (sent_to connect ctx e) hs w" using w r(1,2) by (auto simp: sent_to_def)
  ultimately have "list_all2 (sent_to connect ctx e) (hs @ gs) (w @ ws)" by (simp add: list_all2_appendI)
  moreover have "sorted_wrt (<) (hs @ gs)" "set (hs @ gs) \<subseteq> {g..<k}" using f(1,2) w r(3) by (fastforce simp: sorted_wrt_append)+
  moreover have "\<forall>w\<in>set (w @ ws). copy_of x w" using f(4) w by auto
  moreover have "rr_turn (g + 1) k ?e = rr_turn g k e" by (rule rr_turn_step(1)) (use r in simp_all)
  ultimately show ?thesis using f(5,6) c(1) by (simp add: fanned_def)
qed

lemma fanned_last:
  assumes r: "rrgroups e ! g = Some r" "rr_choice r = Some p" "g + 1 = k" "k \<le> length (rrgroups e)"
    and c: "tabs c = tabs ctx" "the_rte c i = Some (e\<lparr>rrgroups := (rrgroups e)[g := Some (rr_next r)]\<rparr>)"
    and w: "w = [] \<and> hs = [] \<or> w = [(sock_of connect ctx p, d)] \<and> hs = [g] \<and> copy_of x (sock_of connect ctx p, d)"
  shows "fanned connect i ctx e g k x hs w c"
proof -
  have "e\<lparr>rrgroups := (rrgroups e)[g := Some (rr_next r)]\<rparr> = rr_turn g k e" by (rule rr_turn_step(2)) (use r in simp_all)
  then show ?thesis using assms by (auto simp: fanned_def sent_to_def)
qed

lemma mtosend_loop_spec:
  assumes "the_rte ctx i = Some e" "groups_good (length (eps ctx)) e k" "g < k" "k - g \<le> fuel" "fan_ok m b"
  shows "\<exists>mo ok er c gs ws'. mtosend_loop fuel si connect mem junk t i max_to g m oks ctx ws = Return (mo, ok, er, c, ws @ ws') \<and>
    fanned connect i ctx e g k (content m) gs ws' c \<and>
    (links (map ep_name (eps ctx)) e \<and> (\<forall>n. 0 \<le> connect n) \<and> (\<forall>g fd. fst (si g fd 0) = SI_OK) \<longrightarrow> gs = [g..<k])"
  using assms
proof (induction fuel arbitrary: ctx e g m b oks ws)
  case (Suc fuel)
  obtain s p c r where rr: "rrgroups e ! g = Some r" "rr_choice r = Some p" "uta_epsock_rr connect i (int g) ctx = Some ((g + 1 < k, s, Some p), c)"
    "the_rte c i = Some (e\<lparr>rrgroups := (rrgroups e)[g := Some (rr_next r)]\<rparr>)" "tabs c = tabs ctx" "map ep_name (eps c) = map ep_name (eps ctx)"
    "\<forall>q. sock_of connect c q = sock_of connect ctx q" "\<forall>x. s = Some x \<longrightarrow> snd x = sock_of connect ctx p"
    "links (map ep_name (eps ctx)) e \<and> (\<forall>n. 0 \<le> connect n) \<longrightarrow> s \<noteq> None"
    by (rule rr_any [OF Suc.prems(1-3), of connect])
  let ?e = "e\<lparr>rrgroups := (rrgroups e)[g := Some (rr_next r)]\<rparr>" and ?fd = "sock_of connect ctx p"
  have k: "k \<le> length (rrgroups e)" "g < length (rrgroups e)" using Suc.prems(2,3) by (auto simp: groups_good_def)
  have "rrgroups e \<noteq> []" using k(2) by auto
  then have sel: "select_ep connect t i g m ctx = Some (g + 1 < k, map_option snd s, Some p, c)" using Suc.prems(1) rr(3) by (simp add: select_ep_def)
  have gg: "groups_good (length (eps c)) ?e k" using groups_good_next [OF Suc.prems(2) rr(1) Suc.prems(3)] eps_length [OF rr(6)] by simp
  have ln: "links nms ?e = links nms e" for nms by (rule links_next [OF rr(1) k(2)])
  have sm: "sendable m b" using Suc.prems(5) by (simp add: fan_ok_def)
  let ?Q = "links (map ep_name (eps ctx)) e \<and> (\<forall>n. 0 \<le> connect n) \<and> (\<forall>g fd. fst (si g fd 0) = SI_OK)"
  have fuel: "k - (g + 1) \<le> fuel" using Suc.prems(4) by simp
  show ?case
  proof (cases s)
    case None
    then have nq: "\<not> ?Q" using rr(9) by blast
    show ?thesis
    proof (cases "g + 1 < k")
      case True
      from Suc.IH [OF rr(4) gg True fuel, of "m\<lparr>mb_state := RMR_ERR_NOENDPT\<rparr>" b oks ws, unfolded content_fields fan_ok_fields, OF Suc.prems(5)] obtain mo ok er c' gs ws' where
        ih: "mtosend_loop fuel si connect mem junk t i max_to (g + 1) (m\<lparr>mb_state := RMR_ERR_NOENDPT\<rparr>) oks c ws = Return (mo, ok, er, c', ws @ ws')"
        "fanned connect i c ?e (g + 1) k (content m) gs ws' c'" by blast
      have "fanned connect i ctx e g k (content m) ([] @ gs) ([] @ ws') c'"
        by (rule fanned_step [OF rr(1,2) True k(1) rr(5) spec [OF rr(7)] _ ih(2)]) simp
      then show ?thesis using sel None True ih(1) nq by (simp del: upt_Suc) blast
    next
      case False
      have "fanned connect i ctx e g k (content m) [] [] c" by (rule fanned_last [OF rr(1,2) _ k(1) rr(5,4)]) (use False Suc.prems(3) in simp_all)
      then show ?thesis using sel None False nq by (simp del: upt_Suc) blast
    qed
  next
    case (Some sx)
    have fd: "snd sx = ?fd" using rr(8) Some by blast
    show ?thesis
    proof (cases "g + 1 < k")
      case True
      obtain cl b' where cl: "clone_msg junk m = Some cl" "fan_ok cl b'" "content cl = content m" by (rule clone_ok [OF Suc.prems(5)])
      have s1: "sendable (m\<lparr>mb_flags := mb_flags m OR MFL_NOALLOC\<rparr>) b" using Suc.prems(5) by (metis fan_ok_def fan_ok_fields(1))
      let ?d = "wire_frame c (m\<lparr>mb_flags := mb_flags m OR MFL_NOALLOC\<rparr>) b"
      obtain mo er w where sd: "send_msg (si g ?fd) mem junk c (m\<lparr>mb_flags := mb_flags m OR MFL_NOALLOC\<rparr>) ?fd max_to = Return (mo, er, c, w)"
        "w = [] \<or> w = [(?fd, ?d)]" "fst (si g ?fd 0) = SI_OK \<longrightarrow> w \<noteq> []"
        by (rule send_msg_returns [OF s1, where si = "si g ?fd" and mem = mem and junk = junk and ctx = c and fd = ?fd and retries = max_to])
      define m2 where "m2 = (case mo of Some _ \<Rightarrow> cl | None \<Rightarrow> cl\<lparr>mb_state := RMR_OK\<rparr>)"
      define ok1 where "ok1 = (case mo of Some _ \<Rightarrow> oks | None \<Rightarrow> oks + 1)"
      define hs where "hs = (if w = [] then [] else [g])"
      let ?c = "incr_ep_counts (mb_state m2) (Some p) c"
      have m2: "fan_ok m2 b'" "content m2 = content m" using cl(2,3) by (auto simp: m2_def split: option.split)
      have c2: "the_rte ?c i = Some ?e" using rr(4) rtes_cong [of ?c c] by (simp add: incr_ep_counts_frame(1))
      have nm: "map ep_name (eps ?c) = map ep_name (eps ctx)" using rr(6) by (simp add: incr_ep_counts_frame(3))
      have gg2: "groups_good (length (eps ?c)) ?e k" using gg eps_length [OF nm] eps_length [OF rr(6)] by simp
      from Suc.IH [OF c2 gg2 True fuel m2(1), of ok1 "ws @ w", unfolded m2(2) append_assoc] obtain mo' ok er' c' gs ws' where ih:
        "mtosend_loop fuel si connect mem junk t i max_to (g + 1) m2 ok1 ?c (ws @ w) = Return (mo', ok, er', c', ws @ w @ ws')"
        "fanned connect i ?c ?e (g + 1) k (content m) gs ws' c'" "links (map ep_name (eps ?c)) ?e \<and> (\<forall>n. 0 \<le> connect n) \<and> (\<forall>g fd. fst (si g fd 0) = SI_OK) \<longrightarrow> gs = [g + 1..<k]" by blast
      have "mtosend_loop (Suc fuel) si connect mem junk t i max_to g m oks ctx ws = mtosend_loop fuel si connect mem junk t i max_to (g + 1) m2 ok1 ?c (ws @ w)"
        using sel Some True cl(1) sd(1) fd by (cases mo) (simp_all add: m2_def ok1_def)
      then have run: "mtosend_loop (Suc fuel) si connect mem junk t i max_to g m oks ctx ws = Return (mo', ok, er', c', ws @ (w @ ws'))" using ih(1) by simp
      have "fanned connect i ctx e g k (content m) (hs @ gs) (w @ ws') c'"
        by (rule fanned_step [OF rr(1,2) True k(1) _ _ _ ih(2), where d = ?d])
          (use sd(2) rr(5,7) copy_ofI [OF s1, of ?fd c] in \<open>auto simp: hs_def incr_ep_counts_frame(2) incr_ep_counts_sock\<close>)
      moreover have "hs @ gs = [g..<k]" if ?Q
        using ih(3) sd(3) that True ln nm by (simp add: hs_def upt_conv_Cons)
      ultimately show ?thesis using run by blast
    next
      case False
      let ?d = "wire_frame c m b"
      obtain mo er w where sd: "send_msg (si g ?fd) mem junk c m ?fd max_to = Return (mo, er, c, w)"
        "w = [] \<or> w = [(?fd, ?d)]" "fst (si g ?fd 0) = SI_OK \<longrightarrow> w \<noteq> []"
        by (rule send_msg_returns [OF sm, where si = "si g ?fd" and mem = mem and junk = junk and ctx = c and fd = ?fd and retries = max_to])
      define hs where "hs = (if w = [] then [] else [g])"
      let ?c = "case mo of None \<Rightarrow> c | Some m1 \<Rightarrow> incr_ep_counts (mb_state m1) (Some p) c"
      have run: "mtosend_loop (Suc fuel) si connect mem junk t i max_to g m oks ctx ws = Return (mo, oks, er, ?c, ws @ w)"
        using sel Some False sd(1) fd by (cases mo) simp_all
      have c2: "the_rte ?c i = Some ?e" "tabs ?c = tabs ctx"
        using rr(4,5) rtes_cong [of ?c c] by (simp_all add: incr_ep_counts_frame split: option.split_asm option.split)
      have kg: "g + 1 = k" using False Suc.prems(3) by simp
      have "fanned connect i ctx e g k (content m) hs w ?c"
        by (rule fanned_last [OF rr(1,2) kg k(1) c2(2,1), where d = ?d]) (use sd(2) copy_ofI [OF sm, of ?fd c] in \<open>auto simp: hs_def\<close>)
      moreover have "hs = [g..<k]" if ?Q using that sd(3) by (simp add: hs_def kg [symmetric])
      ultimately show ?thesis using run by blast
    qed
  qed
qed simp

subsection \<open>A routed send\<close>

text \<open>The entry of a message: that of its subscription and type, else that of its type.\<close>

definition route_of :: "uta_ctx \<Rightarrow> nat \<Rightarrow> mbuf \<Rightarrow> rt_val option" where
  "route_of ctx t m = (case tlook ctx t (NumKey (build_rt_key (mb_sub_id m) (mb_mtype m))) of
      Some v \<Rightarrow> Some v
    | None \<Rightarrow> if mb_sub_id m = UNSET_SUBID then None else tlook ctx t (NumKey (build_rt_key UNSET_SUBID (mb_mtype m))))"

lemma release_back:
  assumes "the_rt ctx t = Some (rt\<lparr>rt_count := rt_count rt + 1, rt_hash := h\<rparr>)" "0 \<le> rt_count rt"
  shows "the_rt (release_rt (Some t) ctx) t = Some (rt\<lparr>rt_hash := h\<rparr>)"
  using assms by (simp add: release_rt_def the_rt_set)

lemma mtosend_msg_ready:
  assumes rt: "the_rt ctx t = Some rt" "rtable ctx = Some t" and h: "hash_ok (rt_hash rt)" and k: "build_rt_key (mb_sub_id m) (mb_mtype m) \<noteq> 0"
  obtains c h' where "get_rt ctx = (Some t, set_rt t (Some (rt\<lparr>rt_count := rt_count rt + 1\<rparr>)) ctx)"
    "uta_get_rte (Some t) (mb_sub_id m) (mb_mtype m) True (set_rt t (Some (rt\<lparr>rt_count := rt_count rt + 1\<rparr>)) ctx) = (route_of ctx t m, c)"
    "the_rt c t = Some (rt\<lparr>rt_count := rt_count rt + 1, rt_hash := h'\<rparr>)" "sym_lookup h' = sym_lookup (rt_hash rt)" "the_rte c = the_rte ctx" "eps c = eps ctx"
proof -
  let ?rt1 = "rt\<lparr>rt_count := rt_count rt + 1\<rparr>" and ?c1 = "set_rt t (Some (rt\<lparr>rt_count := rt_count rt + 1\<rparr>)) ctx"
  have g: "get_rt ctx = (Some t, ?c1)" using rt by (simp add: get_rt_def)
  have r1: "the_rt ?c1 t = Some ?rt1" using rt(1) by (simp add: the_rt_set)
  have h1: "hash_ok (rt_hash ?rt1)" using h by simp
  obtain h' where u: "uta_get_rte (Some t) (mb_sub_id m) (mb_mtype m) True ?c1 =
      ((case sym_lookup (rt_hash ?rt1) (NumKey (build_rt_key (mb_sub_id m) (mb_mtype m))) of
          Some v \<Rightarrow> Some v
        | None \<Rightarrow> if True \<and> mb_sub_id m \<noteq> UNSET_SUBID then sym_lookup (rt_hash ?rt1) (NumKey (build_rt_key UNSET_SUBID (mb_mtype m))) else None),
       set_rt t (Some (?rt1\<lparr>rt_hash := h'\<rparr>)) ?c1)" "sym_lookup h' = sym_lookup (rt_hash ?rt1)"
    by (rule uta_get_rte_ok [OF r1 h1 k, of True]) blast
  have v: "(case sym_lookup (rt_hash ?rt1) (NumKey (build_rt_key (mb_sub_id m) (mb_mtype m))) of
          Some v \<Rightarrow> Some v
        | None \<Rightarrow> if True \<and> mb_sub_id m \<noteq> UNSET_SUBID then sym_lookup (rt_hash ?rt1) (NumKey (build_rt_key UNSET_SUBID (mb_mtype m))) else None) = route_of ctx t m"
    using rt(1) by (simp add: route_of_def tlook_def split: option.split)
  let ?c = "set_rt t (Some (?rt1\<lparr>rt_hash := h'\<rparr>)) ?c1"
  have "the_rt ?c t = Some (?rt1\<lparr>rt_hash := h'\<rparr>)" using rt(1) by (simp add: the_rt_set)
  moreover have "rtes ?c = rtes ctx" "eps ?c = eps ctx" by simp_all
  ultimately show thesis using that [OF g u(1) [unfolded v]] u(2) rtes_cong(2) [of ?c ctx] by simp
qed

lemma route_entry:
  assumes "rt_inv ctx" "the_rt ctx t = Some rt" "route_of ctx t m = Some v"
  obtains i e where "v = RteRef i" "the_rte ctx i = Some e"
proof -
  obtain key where s: "sym_lookup (rt_hash rt) (NumKey key) = Some v"
    using assms(2,3) by (auto simp: route_of_def tlook_def split: option.splits if_splits)
  obtain i where "v = RteRef i" using hash_okD(2) [OF rt_invD(1) [OF assms(1,2)] s] by auto
  with rt_invD(3) [OF assms(1,2), of key i] s that show thesis by auto
qed

text \<open>
  C3: a routed send gives every group of the entry one copy of the message, by the endpoint whose turn it is. Without an entry for it, the message comes
  back with \<^verbatim>\<open>RMR_ERR_NOENDPT\<close> and nothing is sent. With an entry whose first \<open>n\<close> groups are in use and have endpoints
  that exist (records make such entries), the send comes to an end whatever the
  transport and the connections do. What goes out belongs, in the order of the groups, to groups of the entry, no two to the same one; the copy for a group goes to the
  socket of the endpoint the group chooses: its only one, or the one its index points to, on the socket the endpoint has or gets when it is connected. All copies have the
  type, subscription, payload, transaction id and element of the message sent. When
  the endpoints can be connected and the transport takes the messages, no group is left out. Each of the groups has moved on by one,
  and no other part of the entry changed. The table is released in both cases: its count of
  readers is what it was, and it answers lookups as before. The message has to be one that can be copied: its buffer has room for a second copy of its trace and
  data areas, and fewer than 2 GiB (\<open>fan_ok\<close>); subscription 0 with type 0 is left out.
\<close>

theorem routed_send:
  assumes inv: "tabs_inv ctx" "rtable ctx = Some t" "the_rt ctx t = Some rt"
    and k: "build_rt_key (mb_sub_id m) (mb_mtype m) \<noteq> 0" and m: "fan_ok m b"
  shows "case route_of ctx t m of
      None \<Rightarrow> \<exists>c h. mtosend_msg si connect mem junk ctx m max_to = Return (Some (m\<lparr>mb_state := RMR_ERR_NOENDPT, mb_tp_state := ENXIO\<rparr>), c, []) \<and>
        the_rt c t = Some (rt\<lparr>rt_hash := h\<rparr>) \<and> sym_lookup h = sym_lookup (rt_hash rt)
    | Some v \<Rightarrow> \<exists>i e. v = RteRef i \<and> the_rte ctx i = Some e \<and>
        (\<forall>n. groups_good (length (eps ctx)) e n \<longrightarrow> (\<exists>mo c ws gs h. mtosend_msg si connect mem junk ctx m max_to = Return (mo, c, ws) \<and>
          sorted_wrt (<) gs \<and> set gs \<subseteq> {0..<n} \<and> list_all2 (sent_to connect ctx e) gs ws \<and> (\<forall>w\<in>set ws. copy_of (content m) w) \<and>
          (links (map ep_name (eps ctx)) e \<and> (\<forall>a. 0 \<le> connect a) \<and> (\<forall>g fd. fst (si g fd 0) = SI_OK) \<longrightarrow> gs = [0..<n]) \<and>
          the_rte c i = Some (rr_turn 0 n e) \<and> the_rt c t = Some (rt\<lparr>rt_hash := h\<rparr>) \<and> sym_lookup h = sym_lookup (rt_hash rt)))"
proof -
  note ri = tabs_invD(1) [OF inv(1)]
  have ct: "0 \<le> rt_count rt" using tabs_invD(5) [OF inv(1,3)] by blast
  have hok: "hash_ok (rt_hash rt)" by (rule rt_invD(1) [OF ri inv(3)])
  obtain c h where c: "get_rt ctx = (Some t, set_rt t (Some (rt\<lparr>rt_count := rt_count rt + 1\<rparr>)) ctx)"
    "uta_get_rte (Some t) (mb_sub_id m) (mb_mtype m) True (set_rt t (Some (rt\<lparr>rt_count := rt_count rt + 1\<rparr>)) ctx) = (route_of ctx t m, c)"
    "the_rt c t = Some (rt\<lparr>rt_count := rt_count rt + 1, rt_hash := h\<rparr>)" "sym_lookup h = sym_lookup (rt_hash rt)" "the_rte c = the_rte ctx" "eps c = eps ctx"
    by (rule mtosend_msg_ready [OF inv(3,2) hok k])
  have hd: "mb_header m = Some 50" using m by (auto simp: fan_ok_def sendable_def mbuf_wf_def)
  show ?thesis
  proof (cases "route_of ctx t m")
    case None
    then show ?thesis using hd c release_back [OF c(3) ct] by (auto simp: mtosend_msg_def)
  next
    case (Some v)
    obtain i e where v: "v = RteRef i" "the_rte ctx i = Some e" by (rule route_entry [OF ri inv(3) Some])
    have st: "sent_to connect c e = sent_to connect ctx e" by (simp add: fun_eq_iff sent_to_def sock_cong [OF c(6)])
    have "\<exists>mo c' ws gs h. mtosend_msg si connect mem junk ctx m max_to = Return (mo, c', ws) \<and>
        sorted_wrt (<) gs \<and> set gs \<subseteq> {0..<n} \<and> list_all2 (sent_to connect ctx e) gs ws \<and> (\<forall>w\<in>set ws. copy_of (content m) w) \<and>
        (links (map ep_name (eps ctx)) e \<and> (\<forall>a. 0 \<le> connect a) \<and> (\<forall>g fd. fst (si g fd 0) = SI_OK) \<longrightarrow> gs = [0..<n]) \<and>
        the_rte c' i = Some (rr_turn 0 n e) \<and> the_rt c' t = Some (rt\<lparr>rt_hash := h\<rparr>) \<and> sym_lookup h = sym_lookup (rt_hash rt)"
      if n: "groups_good (length (eps ctx)) e n" for n
    proof -
      have e: "the_rte c i = Some e" using v(2) c(5) by simp
      have gg: "groups_good (length (eps c)) e n" using n c(6) by simp
      have "0 < n" "n - 0 \<le> length (rrgroups e) + 1" using n by (auto simp: groups_good_def)
      from mtosend_loop_spec [OF e gg this m, of si connect mem junk t "if max_to < 0 then send_retries ctx else max_to" 0 "[]"]
      obtain mo ok er c3 gs ws where l: "mtosend_loop (length (rrgroups e) + 1) si connect mem junk t i (if max_to < 0 then send_retries ctx else max_to) 0 m 0 c [] = Return (mo, ok, er, c3, ws)"
        "fanned connect i c e 0 n (content m) gs ws c3"
        "links (map ep_name (eps ctx)) e \<and> (\<forall>n. 0 \<le> connect n) \<and> (\<forall>g fd. fst (si g fd 0) = SI_OK) \<longrightarrow> gs = [0..<n]"
        unfolding c(6) append_Nil by blast
      have f: "sorted_wrt (<) gs" "set gs \<subseteq> {0..<n}" "list_all2 (sent_to connect ctx e) gs ws" "\<forall>w\<in>set ws. copy_of (content m) w"
        "tabs c3 = tabs c" "the_rte c3 i = Some (rr_turn 0 n e)" using l(2) by (simp_all add: fanned_def st)
      have "the_rt c3 t = Some (rt\<lparr>rt_count := rt_count rt + 1, rt_hash := h\<rparr>)" using tabs_cong [OF f(5)] c(3) by simp
      note rb = release_back [OF this ct]
      have "rtes (release_rt (Some t) c3) = rtes c3" by (simp add: release_rt_def split: option.split)
      then have "the_rte (release_rt (Some t) c3) i = Some (rr_turn 0 n e)" using f(6) rtes_cong(2) by metis
      moreover have "\<exists>mo'. mtosend_msg si connect mem junk ctx m max_to = Return (mo', release_rt (Some t) c3, ws)"
        using hd Some v(1) c(1,2) e l(1) by (simp add: mtosend_msg_def Let_def del: mtosend_loop.simps)
      ultimately show ?thesis using f(1-4) l(3) rb c(4) by blast
    qed
    then show ?thesis using Some v by auto
  qed
qed

lemma demo_fan_msg:
  obtains m b where "fan_ok m b" "mb_sub_id m = UNSET_SUBID"
proof -
  let ?b = "fresh_bytes (\<lambda>_. 170) demo_mb_ctx 442"
  obtain m where m: "mb_alloc_len m = 442" "mb_sub_id m = -1" "int (PAYLOAD_ADDR 50 ?b) = 330 + trace_data_len demo_mb_ctx + d1_len demo_mb_ctx"
    "sendable m ?b"
    by (rule fresh_sendable [OF demo_mb_ctx_ok demo_lens, of "\<lambda>_. 170"])
  have "PAYLOAD_ADDR 50 ?b = 342" using m(3) by (simp add: demo_mb_ctx_def)
  then have "fan_ok m ?b" using m(1,4) fresh_bytes_spec(3-5) [of 442 "\<lambda>_. 170" demo_mb_ctx]
    by (simp add: fan_ok_def RMR_TR_LEN_def RMR_D1_LEN_def RMR_D2_LEN_def demo_mb_ctx_def)
  then show thesis using that m(2) by simp
qed

text \<open>A context with an entry of two groups, of the same two endpoints; the turns of the groups differ.\<close>

definition demo_entry :: "u64 \<Rightarrow> rte" where
  "demo_entry key = \<lparr>rte_key = key, rte_refs = 1, rte_mtype = 0,
     rrgroups = [Some \<lparr>ep_idx = 0, epts = [Some 0, Some 1]\<rparr>, Some \<lparr>ep_idx = 1, epts = [Some 0, Some 1]\<rparr>]\<rparr>"

definition demo_connect :: "string \<Rightarrow> int" where
  "demo_connect n = (if n = ''a:1'' then 5 else 6)"

lemma demo_routes:
  assumes "key \<noteq> 0"
  obtains ctx :: uta_ctx and rt where "tabs_inv ctx" "rtable ctx = Some 0" "the_rt ctx 0 = Some rt" "sym_lookup (rt_hash rt) (NumKey key) = Some (RteRef 0)"
    "the_rte ctx 0 = Some (demo_entry key)" "eps ctx = map (new_endpoint (\<lambda>_. None)) [''a:1'', ''b:2'']"
proof -
  obtain c0 :: uta_ctx and bd th where i: "init demo_env [] None 0 0 = Return (Inr (c0, bd, th))" by (rule demo_init)
  have f: "tabs c0 = [Some empty_rt]" "rtes c0 = []" "rtable c0 = Some 0" "old_rtable c0 = None" "new_rtable c0 = None" by (rule init_ctx [OF i], blast)+
  have rt: "the_rt c0 0 = Some empty_rt" using f(1) by (simp add: the_rt_def)
  note inv = init_sys_inv(1) [OF i]
  let ?e = "\<lparr>rte_key = key, rte_refs = 1, rte_mtype = 0, rrgroups = replicate (nat (if (2 :: int) < 0 then 10 else 2)) None\<rparr>"
  obtain h r where h: "rt_inv (set_rt 0 (Some (empty_rt\<lparr>rt_hash := h\<rparr>)) (c0\<lparr>rtes := r @ [Some ?e]\<rparr>))" "length r = length (rtes c0)"
    "sym_lookup h = (sym_lookup (rt_hash empty_rt))(NumKey key \<mapsto> RteRef (length (rtes c0)))"
    by (rule uta_add_rte_ok [OF tabs_invD(1) [OF inv] rt assms, of 2]) (rule that, assumption+)
  let ?c1 = "set_rt 0 (Some (empty_rt\<lparr>rt_hash := h\<rparr>)) (c0\<lparr>rtes := r @ [Some ?e]\<rparr>)"
  define E where "E = map (new_endpoint (\<lambda>_. None)) [''a:1'', ''b:2'']"
  define R where "R = empty_rt\<lparr>rt_hash := h\<rparr>"
  let ?c = "set_rt 0 (Some R) (c0\<lparr>rtes := [Some (demo_entry key)], eps := E\<rparr>)"
  have r: "r = []" using h(2) f(2) by simp
  have t: "tabs ?c = [Some R]" "tabs ?c1 = tabs ?c" using f(1) by (simp_all add: set_rt_def R_def)
  have "kr ?c = kr ?c1" by (simp add: fun_eq_iff kr_def r demo_entry_def)
  moreover have "the_rt ?c = the_rt ?c1" "tmap ?c = tmap ?c1" using tabs_cong [OF t(2)] by simp_all
  ultimately have ri: "rt_inv ?c" using h(1) by (simp add: rt_inv_def)
  have tr: "the_rt ?c u = (if u = 0 then Some R else None)" for u using t(1) by (simp add: the_rt_def)
  have "\<not> rt_error R" "rt_count R = 0" by (simp_all add: R_def empty_rt_def)
  then have "tabs_inv ?c" using ri f(3-5) by (simp add: tabs_inv_def tr)
  moreover have "the_rte ?c 0 = Some (demo_entry key)" by (simp add: the_rte_def)
  ultimately show thesis using that [of ?c R] f(2,3) h(3) tr [of 0] by (simp add: E_def R_def)
qed

theorem routed_send_witness:
  "\<exists>m b ctx mo c ws. fan_ok m b \<and> mtosend_msg (\<lambda>_ _ _. (SI_OK, E0)) demo_connect True (\<lambda>_. 0) ctx m 0 = Return (mo, c, ws) \<and>
    map fst ws = [5, 6] \<and> (\<forall>w\<in>set ws. copy_of (content m) w)"
proof -
  obtain m b where m: "fan_ok m b" "mb_sub_id m = UNSET_SUBID" by (rule demo_fan_msg)
  let ?key = "build_rt_key (mb_sub_id m) (mb_mtype m)"
  have k: "?key \<noteq> 0" unfolding m(2) by (rule alt_key_nonzero)
  obtain ctx :: uta_ctx and rt where ctx: "tabs_inv ctx" "rtable ctx = Some 0" "the_rt ctx 0 = Some rt" "sym_lookup (rt_hash rt) (NumKey ?key) = Some (RteRef 0)"
    "the_rte ctx 0 = Some (demo_entry ?key)" "eps ctx = map (new_endpoint (\<lambda>_. None)) [''a:1'', ''b:2'']"
    by (rule demo_routes [OF k])
  have ro: "route_of ctx 0 m = Some (RteRef 0)" using ctx(3,4) by (simp add: route_of_def tlook_def)
  have g: "groups_good (length (eps ctx)) (demo_entry ?key) 2" by (auto simp: groups_good_def demo_entry_def ctx(6) less_Suc_eq numeral_2_eq_2)
  have l: "links (map ep_name (eps ctx)) (demo_entry ?key)" by (auto simp: links_def demo_entry_def ctx(6) new_endpoint_def)
  have "\<forall>a. 0 \<le> demo_connect a" by (simp add: demo_connect_def)
  with routed_send [OF ctx(1-3) k m(1), of "\<lambda>_ _ _. (SI_OK, E0)" demo_connect True "\<lambda>_. 0" 0] ro g l ctx(5) obtain mo c ws where
    s: "mtosend_msg (\<lambda>_ _ _. (SI_OK, E0)) demo_connect True (\<lambda>_. 0) ctx m 0 = Return (mo, c, ws)"
    "list_all2 (sent_to demo_connect ctx (demo_entry ?key)) [0..<2] ws" "\<forall>w\<in>set ws. copy_of (content m) w" by fastforce
  obtain w1 w2 where ws: "ws = [w1, w2]" "sent_to demo_connect ctx (demo_entry ?key) 0 w1" "sent_to demo_connect ctx (demo_entry ?key) 1 w2"
    using s(2) by (auto simp: upt_rec numeral_2_eq_2 list_all2_Cons1)
  have "fst w1 = 5" "fst w2 = 6"
    using ws(2,3) by (auto simp: sent_to_def demo_entry_def rr_choice_def sock_of_def ctx(6) new_endpoint_def demo_connect_def)
  then show ?thesis using m(1) s(1,3) ws(1) by fastforce
qed

end
