(* ===== verification/Wormhole.thy ===== *)
theory Wormhole
  imports MtCall
begin

text \<open>
  Wormholes (\<^verbatim>\<open>common/src/wormholes.c\<close>): direct connections that bypass the route table. The context
  holds a list of slots, each with the endpoint of an open wormhole or nothing; a wormhole id is an
  index into it.
\<close>

definition wh_init :: "uta_ctx \<Rightarrow> uta_ctx" where
  "wh_init ctx = (case wormholes ctx of
      Some _ \<Rightarrow> ctx
    | None \<Rightarrow> ctx\<lparr>wormholes := Some (replicate 16 None)\<rparr>)"

definition wh_extend :: "nat option list \<Rightarrow> nat option list" where
  "wh_extend whm = whm @ replicate 16 None"

definition wh_nuke :: "uta_ctx \<Rightarrow> uta_ctx" where
  "wh_nuke ctx = ctx\<lparr>wormholes := None\<rparr>"

text \<open>
  The scan of the slots: it stops at the slot of the endpoint, telling whether it is open; otherwise
  the first free slot, or the number of slots.
\<close>

fun wh_scan :: "(nat \<Rightarrow> bool) \<Rightarrow> nat \<Rightarrow> nat \<Rightarrow> nat \<Rightarrow> nat option list \<Rightarrow> nat \<Rightarrow> nat \<times> bool" where
  "wh_scan is_open ep nalloc i [] whid = (whid, False)"
| "wh_scan is_open ep nalloc i (x # xs) whid =
     (let whid1 = (if whid = nalloc \<and> x = None then i else whid) in
      if x = Some ep then (i, is_open ep) else wh_scan is_open ep nalloc (i + 1) xs whid1)"

text \<open>\<open>rt_ensure_ep\<close> needs an active route table.\<close>

definition rmr_wh_open ::
    "(string \<Rightarrow> u32 option) \<Rightarrow> (string \<Rightarrow> int) \<Rightarrow> string option \<Rightarrow> uta_ctx \<Rightarrow> (errno + nat) \<times> uta_ctx" where
  "rmr_wh_open resolve connect target ctx =
     (if target = None \<or> target = Some [] then (Inl EINVAL, ctx)
      else let ctx1 = wh_init ctx;
               (rt, ctx2) = get_rt ctx1;
               (eo, ctx3) = (case rt of None \<Rightarrow> (None, ctx2) | Some _ \<Rightarrow> rt_ensure_ep resolve target ctx2);
               ctx4 = release_rt rt ctx3
           in case eo of
                None \<Rightarrow> (Inl EINVAL, ctx4)
              | Some ep \<Rightarrow>
                 (let whm = the (wormholes ctx4);
                      (whid, opened) = wh_scan (\<lambda>e. ep_open (eps ctx4 ! e)) ep (length whm) 0 whm (length whm)
                  in if opened then (Inr whid, ctx4)
                     else let whm1 = (if whid \<ge> length whm then wh_extend whm else whm);
                              (ok, ctx5) = rt_link2_ep connect (Some ep) (ctx4\<lparr>wormholes := Some whm1\<rparr>)
                          in if ok then (Inr whid, ctx5\<lparr>wormholes := Some (whm1[whid := Some ep])\<rparr>)
                             else (Inl ECONNREFUSED, ctx5)))"

text \<open>The slot behind a wormhole id, or the state a message gets.\<close>

definition wh_slot :: "uta_ctx \<Rightarrow> int \<Rightarrow> int + nat" where
  "wh_slot ctx whid = (case wormholes ctx of
      None \<Rightarrow> Inl RMR_ERR_NOWHOPEN
    | Some whm \<Rightarrow> if whid < 0 \<or> whid \<ge> int (length whm) then Inl RMR_ERR_WHID
                  else case whm ! nat whid of None \<Rightarrow> Inl RMR_ERR_WHID | Some ep \<Rightarrow> Inr ep)"

text \<open>Blotting out the call id of a message.\<close>

definition no_call_id :: "mbuf \<Rightarrow> mbuf option" where
  "no_call_id m = (case mb_hdr m of
      None \<Rightarrow> None
    | Some (h, b) \<Rightarrow> let at = DATA1_ADDR h b in
        if at \<ge> length b then None else Some (m\<lparr>mb_tp_buf := Some (b[at := 0])\<rparr>))"

definition wh_reopen :: "(string \<Rightarrow> u32 option) \<Rightarrow> (string \<Rightarrow> int) \<Rightarrow> nat \<Rightarrow> uta_ctx \<Rightarrow> uta_ctx" where
  "wh_reopen resolve connect ep ctx =
     (if ep_open (eps ctx ! ep) then ctx
      else snd (rmr_wh_open resolve connect (Some (ep_name (eps ctx ! ep))) ctx))"

definition rmr_wh_send_msg ::
    "(nat \<Rightarrow> int \<times> errno) \<Rightarrow> (string \<Rightarrow> u32 option) \<Rightarrow> (string \<Rightarrow> int) \<Rightarrow> bool \<Rightarrow> (nat \<Rightarrow> u8) \<Rightarrow> uta_ctx \<Rightarrow> int
      \<Rightarrow> mbuf option \<Rightarrow> (mbuf option \<times> uta_ctx \<times> wire list) outcome" where
  "rmr_wh_send_msg si resolve connect mem junk ctx whid msg = (case msg of
      None \<Rightarrow> Return (None, ctx, [])
    | Some m \<Rightarrow> (case wh_slot ctx whid of
        Inl st \<Rightarrow> Return (Some (m\<lparr>mb_state := st\<rparr>), ctx, [])
      | Inr ep \<Rightarrow>
         if mb_header m = None then Return (Some (m\<lparr>mb_state := RMR_ERR_NOHDR\<rparr>), ctx, [])
         else (case no_call_id (m\<lparr>mb_state := RMR_OK\<rparr>) of
             None \<Rightarrow> Undef
           | Some m1 \<Rightarrow>
              (case send2ep si mem junk (wh_reopen resolve connect ep ctx) ep m1 of
                 Undef \<Rightarrow> Undef
               | NoFuel \<Rightarrow> NoFuel
               | Return (mo, e, c, w) \<Rightarrow> Return (mo, c, w)))))"

definition rmr_wh_call ::
    "(nat \<Rightarrow> int \<Rightarrow> nat \<Rightarrow> int \<times> errno) \<Rightarrow> (string \<Rightarrow> u32 option) \<Rightarrow> (string \<Rightarrow> int) \<Rightarrow> bool \<Rightarrow> (nat \<Rightarrow> u8) \<Rightarrow> call_ev list
      \<Rightarrow> uta_ctx \<Rightarrow> int \<Rightarrow> mbuf option \<Rightarrow> int \<Rightarrow> (mbuf option \<times> uta_ctx \<times> wire list) outcome" where
  "rmr_wh_call si resolve connect mem junk evs ctx whid msg call_id = (case msg of
      None \<Rightarrow> Return (None, ctx, [])
    | Some m \<Rightarrow> (case wh_slot ctx whid of
        Inl st \<Rightarrow> Return (Some (m\<lparr>mb_state := st\<rparr>), ctx, [])
      | Inr ep \<Rightarrow>
         if mb_header m = None then Return (Some (m\<lparr>mb_state := RMR_ERR_NOHDR\<rparr>), ctx, [])
         else mt_call si connect mem junk evs (wh_reopen resolve connect ep ctx) (m\<lparr>mb_state := RMR_OK\<rparr>) call_id (Some ep)))"

definition rmr_wh_close :: "uta_ctx \<Rightarrow> int \<Rightarrow> uta_ctx" where
  "rmr_wh_close ctx whid = (case wormholes ctx of
      None \<Rightarrow> ctx
    | Some whm \<Rightarrow> if whid \<ge> int (length whm) \<or> whid < 0 then ctx
                  else ctx\<lparr>wormholes := Some (whm[nat whid := None])\<rparr>)"

definition rmr_wh_state :: "uta_ctx option \<Rightarrow> int \<Rightarrow> int" where
  "rmr_wh_state ctx whid = (case ctx of
      None \<Rightarrow> RMR_ERR_BADARG
    | Some c \<Rightarrow> (case wh_slot c whid of
        Inl st \<Rightarrow> st
      | Inr ep \<Rightarrow> if ep_open (eps c ! ep) then RMR_OK else RMR_ERR_NOENDPT))"

end
