(* ===== verification/Collector.thy ===== *)
theory Collector
  imports RtParser Wormhole
begin

text \<open>
  The route table collector (\<^verbatim>\<open>common/src/rtc_static.c\<close>), the seed file, the requests to the route
  manager and the drop alarm (\<^verbatim>\<open>common/src/alarm.c\<close> and the alarm part of
  \<^verbatim>\<open>common/src/rt_generic_static.c\<close>).

  The environment variables, the contents of files, the clock and the received messages are arguments.
\<close>

subsection \<open>The seed file\<close>

text \<open>
  \<open>uta_fib\<close>: whether the file opens, its size if it can be told, and what reading that many bytes
  gives. The buffer is cut at the number of bytes read.
\<close>

definition uta_fib :: "bool \<Rightarrow> int option \<Rightarrow> (int \<Rightarrow> int \<times> string) \<Rightarrow> errno + string" where
  "uta_fib opened stat_size rd =
     (if \<not> opened \<or> (case stat_size of Some n \<Rightarrow> n \<le> 0 | None \<Rightarrow> False) then Inr []
      else let fsize = (case stat_size of Some n \<Rightarrow> n | None \<Rightarrow> 8192);
               (nread, txt) = rd fsize
           in if nread < 0 \<or> nread > fsize then Inl EFBIG else Inr (take (nat nread) txt))"

text \<open>The records of a text: the pieces between newlines, the last one included.\<close>

function split_nl :: "string \<Rightarrow> string list" where
  "split_nl s =
     (if CHR 0x0A \<in> set s
      then takeWhile (\<lambda>c. c \<noteq> CHR 0x0A) s # split_nl (tl (dropWhile (\<lambda>c. c \<noteq> CHR 0x0A) s))
      else [s])"
  by pat_completeness auto
termination
proof (relation "measure length")
  fix s :: string
  assume "CHR 0x0A \<in> set s"
  then have "dropWhile (\<lambda>c. c \<noteq> CHR 0x0A) s \<noteq> []" by (metis (full_types) dropWhile_eq_Nil_conv)
  moreover have "length (dropWhile (\<lambda>c. c \<noteq> CHR 0x0A) s) \<le> length s" by (rule length_dropWhile_le)
  ultimately show "(tl (dropWhile (\<lambda>c. c \<noteq> CHR 0x0A) s), s) \<in> measure length"
    by (cases "dropWhile (\<lambda>c. c \<noteq> CHR 0x0A) s") auto
qed simp

declare split_nl.simps [simp del]

text \<open>
  The loop over the seed file: up to the end of the text, one record at a time; a record without a
  newline ends it.
\<close>

function static_loop ::
    "(string \<Rightarrow> u32 option) \<Rightarrow> string \<Rightarrow> string \<Rightarrow> rtc_state \<Rightarrow> rtc_state option" where
  "static_loop resolve junk r s =
     (if r = [] then Some s
      else if CHR 0x0A \<in> set r
      then Option.bind (parse_rt_rec resolve (\<lambda>_. RMR_OK) junk (takeWhile (\<lambda>c. c \<noteq> CHR 0x0A) r) s)
             (static_loop resolve junk (tl (dropWhile (\<lambda>c. c \<noteq> CHR 0x0A) r)))
      else Some s)"
  by pat_completeness auto
termination
proof (relation "measure (\<lambda>(_, _, r, _). length r)")
  fix resolve :: "string \<Rightarrow> u32 option" and junk r :: string and s x :: rtc_state
  assume "CHR 0x0A \<in> set r"
  then have "dropWhile (\<lambda>c. c \<noteq> CHR 0x0A) r \<noteq> []" by (metis (full_types) dropWhile_eq_Nil_conv)
  moreover have "length (dropWhile (\<lambda>c. c \<noteq> CHR 0x0A) r) \<le> length r" by (rule length_dropWhile_le)
  ultimately show "((resolve, junk, tl (dropWhile (\<lambda>c. c \<noteq> CHR 0x0A) r), x), resolve, junk, r, s)
      \<in> measure (\<lambda>(_, _, r, _). length r)"
    by (cases "dropWhile (\<lambda>c. c \<noteq> CHR 0x0A) r") auto
qed simp

declare static_loop.simps [simp del]

definition seed_text :: "string option \<Rightarrow> string" where
  "seed_text buf = map (\<lambda>c. if c = CHR 0x0D then CHR 0x0A else c) (ensure_nlterm buf)"

text \<open>\<open>fib\<close> is the contents \<open>uta_fib\<close> returns for a file name, nil on a failure.\<close>

definition read_static_rt ::
    "(string \<Rightarrow> u32 option) \<Rightarrow> string \<Rightarrow> (string \<Rightarrow> string option) \<Rightarrow> string option \<Rightarrow> uta_ctx \<Rightarrow> uta_ctx option" where
  "read_static_rt resolve junk fib env_seed ctx =
     (case (case seed_rt_fname ctx of Some f \<Rightarrow> Some f | None \<Rightarrow> env_seed) of
        None \<Rightarrow> Some ctx
      | Some f \<Rightarrow> map_option u_ctx (static_loop resolve junk (seed_text (fib f))
                    \<lparr>u_ctx = ctx\<lparr>seed_rt_fname := Some f\<rparr>, p_ctx = None, acks = []\<rparr>))"

text \<open>One round of the thread that only reads the file: the time it sleeps afterwards.\<close>

definition rtc_file_round ::
    "(string \<Rightarrow> u32 option) \<Rightarrow> string \<Rightarrow> (string \<Rightarrow> string option) \<Rightarrow> string option \<Rightarrow> uta_ctx \<Rightarrow> (int \<times> uta_ctx) option" where
  "rtc_file_round resolve junk fib env_seed ctx =
     map_option (\<lambda>c. (if rtable_ready c then 60 else 1, c))
       (read_static_rt resolve junk fib env_seed (ctx\<lparr>c_flags := c_flags ctx OR CFL_NO_RTACK\<rparr>))"

text \<open>The seed does not count as a table from the route manager.\<close>

definition rtc_seed ::
    "(string \<Rightarrow> u32 option) \<Rightarrow> string \<Rightarrow> (string \<Rightarrow> string option) \<Rightarrow> string option \<Rightarrow> uta_ctx \<Rightarrow> uta_ctx option" where
  "rtc_seed resolve junk fib env_seed ctx =
     map_option (\<lambda>c. c\<lparr>c_flags := c_flags c AND NOT CFL_NO_RTACK AND NOT CFL_FULLRT\<rparr>)
       (read_static_rt resolve junk fib env_seed (ctx\<lparr>c_flags := c_flags ctx OR CFL_NO_RTACK\<rparr>))"

subsection \<open>Configuration\<close>

abbreviation (input) DEF_RTREQ_FREQ :: int where "DEF_RTREQ_FREQ \<equiv> 5"

definition rt_req_freq :: "string option \<Rightarrow> int" where
  "rt_req_freq env = (case env of
      None \<Rightarrow> DEF_RTREQ_FREQ
    | Some t \<Rightarrow> if atoi t < 1 \<or> atoi t > 300 then DEF_RTREQ_FREQ else atoi t)"

text \<open>
  The port to listen on, the address of the route manager and whether requests are switched off, from
  the two environment variables.
\<close>

definition rtc_config :: "string option \<Rightarrow> string option \<Rightarrow> string \<times> string \<times> bool" where
  "rtc_config ctl_port rtg_env =
     (let unset = (\<lambda>v. v = None \<or> v = Some []);
          (my_port, daddr) = (if unset ctl_port then (''4561'', ''4561'') else (the ctl_port, ''routemgr:4561''));
          rtg_addr = (if unset rtg_env then daddr else the rtg_env);
          tokens = uta_tokenise (Some rtg_addr) 120 (CHR '':'')
      in case tokens of
           [] \<Rightarrow> (my_port, rtg_addr, False)
         | [p] \<Rightarrow> (p, rtg_addr, True)
         | h # p # _ \<Rightarrow> if h = ''tcp'' then (p, rtg_addr, True) else (my_port, rtg_addr, False))"

subsection \<open>Requests\<close>

definition send_update_req :: "(string \<Rightarrow> int) \<Rightarrow> int \<Rightarrow> uta_ctx \<Rightarrow> int \<times> uta_ctx" where
  "send_update_req deliver now ctx =
     (if rtg_whid ctx < 0 then (0, ctx)
      else let state = deliver (take 1023 (bytes_str (cstr (my_name ctx)) @ '' ts='' @ int_str now @ [CHR 0x0A]))
           in (state, if state \<noteq> RMR_OK then (rmr_wh_close ctx (rtg_whid ctx))\<lparr>rtg_whid := -1\<rparr> else ctx))"

subsection \<open>The drop alarm\<close>

record alarm_state =
  alarm_raised :: bool
  ok2clear :: int
  lastd :: int
  prob_id :: int

datatype alarm_act = AlarmRaise int | AlarmClear int

definition alarm_if_drops :: "int \<Rightarrow> int \<Rightarrow> alarm_state \<Rightarrow> alarm_state \<times> alarm_act option" where
  "alarm_if_drops now drops a =
     (if \<not> alarm_raised a
      then if drops - lastd a = 0 then (a, None)
           else (a\<lparr>alarm_raised := True\<rparr>, Some (AlarmRaise (prob_id a)))
      else if drops - lastd a \<noteq> 0 then (a\<lparr>lastd := drops, ok2clear := 0\<rparr>, None)
      else if ok2clear a = 0 then (a\<lparr>ok2clear := now + 60\<rparr>, None)
      else if now > ok2clear a
      then (a\<lparr>alarm_raised := False, prob_id := prob_id a + 1\<rparr>, Some (AlarmClear (prob_id a)))
      else (a, None))"

definition uta_alarm_endpt :: "string option \<Rightarrow> string option \<Rightarrow> string" where
  "uta_alarm_endpt nm port =
     take 298 ((case nm of None \<Rightarrow> ''service-ricplt-alarmmanager-rmr'' | Some n \<Rightarrow> n) @ '':'' @
               (case port of None \<Rightarrow> ''4560'' | Some p \<Rightarrow> p))"

text \<open>The payload of an alarm; \<open>q\<close> quotes.\<close>

definition uta_alarm :: "string \<Rightarrow> int \<Rightarrow> bool \<Rightarrow> int \<Rightarrow> string option \<Rightarrow> string" where
  "uta_alarm progname mstime raise prob info =
     (let q = (\<lambda>s. CHR 0x22 # s @ [CHR 0x22]) in
      take 2046 (''{  '' @ q ''managedObjectId'' @ '': null, '' @
        q ''applicationId'' @ '': '' @ q progname @ '', '' @
        q ''specificProblem'' @ '': '' @ int_str prob @ '', '' @
        q ''perceivedSeverity'' @ '': '' @ q ''WARNING'' @ '', '' @
        q ''identifyingInfo'' @ '': '' @ q (case info of None \<Rightarrow> ''unspecific RMR issue'' | Some i \<Rightarrow> i) @ '', '' @
        q ''additionalInfo'' @ '': null, '' @
        q ''AlarmAction'' @ '': '' @ q (if raise then ''RAISE'' else ''CLEAR'') @ '', '' @
        q ''AlarmTime'' @ '': '' @ int_str mstime @ '' }''))"

subsection \<open>The collector thread\<close>

abbreviation (input) RMRRM_TABLE_DATA :: int where "RMRRM_TABLE_DATA \<equiv> 20"

text \<open>The size of the static work buffer after it was made large enough.\<close>

definition pbuf_grow :: "int \<Rightarrow> int \<Rightarrow> int" where
  "pbuf_grow sz mlen = (if sz \<le> mlen then if mlen < 512 then 1024 else to_int32 (mlen * 2) else sz)"

definition msg_text :: "mbuf \<Rightarrow> string" where
  "msg_text m = (case (mb_payload m, mb_tp_buf m) of
      (Some p, Some b) \<Rightarrow> bytes_str (cstr (bget p (nat (mb_len m)) b)) | _ \<Rightarrow> [])"

text \<open>The message, whether an update was seen, the size of the work buffer, and the parser's state.\<close>

definition rtc_parse_msg ::
    "(string \<Rightarrow> u32 option) \<Rightarrow> (string \<Rightarrow> int) \<Rightarrow> string \<Rightarrow> mbuf \<Rightarrow> bool \<Rightarrow> int \<Rightarrow> rtc_state
      \<Rightarrow> (mbuf \<times> bool \<times> int \<times> rtc_state) option" where
  "rtc_parse_msg resolve deliver junk msg have_update pbuf_size s =
     (if mb_mtype msg = RMRRM_TABLE_DATA
      then map_option (\<lambda>s1. (msg\<lparr>mb_len := 0\<rparr>, True, pbuf_grow pbuf_size (mb_len msg), s1))
             (parse_recs resolve deliver junk (split_nl (msg_text msg)) s)
      else Some (msg, have_update, pbuf_size, s))"

record rtc_loop =
  rl_state :: rtc_state
  rl_msg :: "mbuf option"
  rl_have :: bool
  rl_pbuf :: int
  rl_nxt :: int
  rl_alarm :: alarm_state
  rl_sent :: "alarm_act list"

text \<open>
  What the environment provides in a round: the time, the wormhole id that opening one on the private
  context gives, how requests are delivered, and the message received (from the buffer handed in).
\<close>

record rtc_env =
  e_now :: int
  e_open :: int
  e_deliver :: "string \<Rightarrow> int"
  e_recv :: "mbuf option \<Rightarrow> mbuf option"

text \<open>
  One pass of the loop of \<open>rtc\<close>: with a message that has a length it is parsed; otherwise a table is
  requested when one is due, the next message is received and the alarm is looked after. (Printing
  statistics and shutting down are left out.)
\<close>

definition rtc_idle :: "int \<Rightarrow> rtc_env \<Rightarrow> rtc_loop \<Rightarrow> rtc_loop" where
  "rtc_idle freq e l =
     (let ask = (\<not> rl_have l \<and> e_now e \<ge> rl_nxt l);
          ctx = u_ctx (rl_state l);
          ctx1 = (if ask then snd (send_update_req (e_deliver e) (e_now e)
                                 (if rtg_whid ctx < 0 then ctx\<lparr>rtg_whid := e_open e\<rparr> else ctx)) else ctx);
          (a, act) = alarm_if_drops (e_now e) (dcount ctx1) (rl_alarm l)
      in l\<lparr>rl_state := (rl_state l)\<lparr>u_ctx := ctx1\<rparr>, rl_nxt := (if ask then e_now e + freq else rl_nxt l),
           rl_msg := e_recv e (rl_msg l), rl_alarm := a,
           rl_sent := rl_sent l @ (case act of None \<Rightarrow> [] | Some x \<Rightarrow> [x])\<rparr>)"

definition rtc_round ::
    "(string \<Rightarrow> u32 option) \<Rightarrow> string \<Rightarrow> int \<Rightarrow> rtc_env \<Rightarrow> rtc_loop \<Rightarrow> rtc_loop option" where
  "rtc_round resolve junk freq e l =
     (case rl_msg l of
        Some m \<Rightarrow> if mb_len m > 0
          then map_option (\<lambda>(m1, h, pb, s). l\<lparr>rl_msg := Some m1, rl_have := h, rl_pbuf := pb, rl_state := s\<rparr>)
                 (rtc_parse_msg resolve (e_deliver e) junk m (rl_have l) (rl_pbuf l) (rl_state l))
          else Some (rtc_idle freq e l)
      | None \<Rightarrow> Some (rtc_idle freq e l))"

end
