(* ===== verification/CollProps.thy ===== *)
theory CollProps
  imports Collector RouteProps
begin

text \<open>
  The collector: a table with missing records is refused, the seed file is parsed as a message with the same text would be, a
  message with table data is worked off in one round and any other message blocks the thread; and the drop alarm.
\<close>

subsection \<open>Tables with missing records\<close>

text \<open>
  C22: a table is not used when records of it are missing. When the count of the end record is not the number of
  entries received, the route manager gets a negative acknowledgement with both numbers, the table under construction is
  gone, and the active table, every other table and the readiness of the context are as before.
\<close>

theorem table_refused:
  assumes "tabs_inv (u_ctx s)" "new_rtable (u_ctx s) = Some t" "the_rt (u_ctx s) t = Some rt" "rt_updates rt \<noteq> atoi cnt"
    "p_ctx s = Some p" "0 \<le> p_whid p" "p_flags p AND CFL_NO_RTACK = 0"
  shows "\<exists>s'. rec_newrt deliver [''newrt'', ''end'', cnt] s = Some s' \<and>
    acks s' = acks s @ [ack_text (table_id (u_ctx s)) False (Some (missing_reason cnt rt))] \<and>
    new_rtable (u_ctx s') = None \<and> the_rt (u_ctx s') t = None \<and> rtable (u_ctx s') = rtable (u_ctx s) \<and>
    (\<forall>u. u \<noteq> t \<longrightarrow> the_rt (u_ctx s') u = the_rt (u_ctx s) u) \<and> rtable_ready (u_ctx s') = rtable_ready (u_ctx s) \<and> tabs_inv (u_ctx s')"
proof -
  obtain s' where s': "rt_discard deliver (missing_reason cnt rt) s = Some s'" "tabs_inv (u_ctx s')" "new_rtable (u_ctx s') = None"
    "rtable (u_ctx s') = rtable (u_ctx s)" "old_rtable (u_ctx s') = None" "\<And>u. u \<noteq> t \<Longrightarrow> the_rt (u_ctx s') u = the_rt (u_ctx s) u"
    "rtable_ready (u_ctx s') = rtable_ready (u_ctx s)" "acks s' = acks (send_rt_ack deliver (table_id (u_ctx s)) False (Some (missing_reason cnt rt)) s)"
    by (rule rt_discard_ok [OF assms(1,2), of deliver "missing_reason cnt rt"]) (rule that, blast+)
  have "rec_newrt deliver [''newrt'', ''end'', cnt] s = Some s'"
    using assms(2-4) s'(1) by (simp add: rec_newrt_def nth_tok_def demo_words rt_finish_def)
  moreover have "acks s' = acks s @ [ack_text (table_id (u_ctx s)) False (Some (missing_reason cnt rt))]"
    using assms(5-7) s'(8) by (simp add: send_rt_ack_def Let_def)
  moreover have "the_rt (u_ctx s') t = None"
    using tabs_invD(2) [OF s'(2), of t] tabs_invD(3) [OF assms(1), of t] assms(2) s'(3-5) by auto
  ultimately show ?thesis using s' by blast
qed

theorem table_refused_witness:
  "\<exists>ctx b th s1 s2. init demo_env [] None 0 0 = Return (Inr (ctx, b, th)) \<and>
    rec_newrt (\<lambda>_. 0) [''newrt'', ''start'', ''t1''] (sys (start_system (Some \<lparr>p_whid = 0, p_flags = 0\<rparr>) ctx)) = Some s1 \<and>
    rec_newrt (\<lambda>_. 0) [''newrt'', ''end'', ''2''] s1 = Some s2 \<and> acks s2 \<noteq> acks s1 \<and> new_rtable (u_ctx s2) = None"
proof -
  let ?p = "\<lparr>p_whid = 0, p_flags = 0\<rparr> :: rtc_pctx"
  obtain ctx b th where i: "init demo_env [] None 0 0 = Return (Inr (ctx, b, th))" by (rule demo_init)
  have t: "old_rtable ctx = None" "new_rtable ctx = None" by (rule init_ctx [OF i], blast)+
  let ?s = "sys (start_system (Some ?p) ctx)"
  have u: "u_ctx ?s = ctx" "p_ctx ?s = Some ?p" by (simp_all add: start_system_def)
  have nd: "\<not> undrained (u_ctx ?s)" using t(1) by (simp add: u undrained_def)
  have inv: "tabs_inv (u_ctx ?s)" using init_sys_inv(1) [OF i] by (simp add: u)
  obtain s1 t1 rt where s1: "rt_start (\<lambda>_. 0) False (\<lambda>_. Some (clip ''t1'')) (\<lambda>rt. rt\<lparr>rt_updates := 0\<rparr>) ?s = Some s1"
    "rec_step (u_ctx ?s) (u_ctx s1)" "new_rtable (u_ctx s1) = Some t1" "the_rt (u_ctx s1) t1 = Some (rt\<lparr>rt_updates := 0\<rparr>)"
    by (rule rt_start_ok [OF inv nd, of "\<lambda>rt. rt\<lparr>rt_updates := 0\<rparr>" "\<lambda>_. 0" False "\<lambda>_. Some (clip ''t1'')"]) auto
  have r1: "rec_newrt (\<lambda>_. 0) [''newrt'', ''start'', ''t1''] ?s = Some s1" using s1(1) by (simp add: rec_newrt_def nth_tok_def demo_words)
  have p1: "p_ctx s1 = Some ?p" using s1(1) t(2) by (auto simp: rt_start_def u Let_def Option.bind_eq_Some_conv start_system_def)
  have a: "atoi ''2'' = 2" by code_simp
  obtain s2 where "rec_newrt (\<lambda>_. 0) [''newrt'', ''end'', ''2''] s1 = Some s2" "acks s2 = acks s1 @ [ack_text (table_id (u_ctx s1)) False (Some (missing_reason ''2'' (rt\<lparr>rt_updates := 0\<rparr>)))]"
    "new_rtable (u_ctx s2) = None"
    using table_refused [of s1 t1 "rt\<lparr>rt_updates := 0\<rparr>" "''2''" ?p "\<lambda>_. 0"] s1(2-4) p1 a by (auto simp: rec_step_def)
  then show ?thesis using i r1 by (intro exI [of _ ctx] exI [of _ b] exI [of _ th] exI [of _ s1] exI [of _ s2]) simp
qed

subsection \<open>The seed file\<close>

lemma static_loop_recs:
  "static_loop resolve junk r s = parse_recs resolve (\<lambda>_. RMR_OK) junk (butlast (split_nl r)) s"
proof (induction resolve junk r s rule: static_loop.induct)
  case (1 resolve junk r s)
  show ?case
  proof (cases "CHR 0x0A \<in> set r")
    case True
    let ?tl = "tl (dropWhile (\<lambda>c. c \<noteq> CHR 0x0A) r)"
    have ne: "r \<noteq> []" "split_nl ?tl \<noteq> []" using True by (auto simp: split_nl.simps [of ?tl])
    have "split_nl r = takeWhile (\<lambda>c. c \<noteq> CHR 0x0A) r # split_nl ?tl" using True by (simp add: split_nl.simps [of r])
    then show ?thesis using 1 [OF ne(1) True] ne True
      by (cases "parse_rt_rec resolve (\<lambda>_. RMR_OK) junk (takeWhile (\<lambda>c. c \<noteq> CHR 0x0A) r) s") (simp_all add: static_loop.simps [of resolve junk r])
  next
    case False
    then show ?thesis by (simp add: static_loop.simps [of resolve junk r] split_nl.simps [of r])
  qed
qed

lemma split_nl_terminated:
  assumes "r \<noteq> []" "last r = CHR 0x0A"
  shows "last (split_nl r) = [] \<and> split_nl r \<noteq> []"
  using assms
proof (induction r rule: split_nl.induct)
  case (1 r)
  have nl: "CHR 0x0A \<in> set r" using 1 by (metis last_in_set)
  let ?d = "dropWhile (\<lambda>c. c \<noteq> CHR 0x0A) r"
  have d: "?d \<noteq> []" using nl by (metis (full_types) dropWhile_eq_Nil_conv)
  have e: "split_nl r = takeWhile (\<lambda>c. c \<noteq> CHR 0x0A) r # split_nl (tl ?d)" using nl by (simp add: split_nl.simps [of r])
  show ?case
  proof (cases "tl ?d = []")
    case True
    then show ?thesis by (simp add: e split_nl.simps [of "[]"])
  next
    case False
    have "last r = last ?d" using d by (metis last_appendR takeWhile_dropWhile_id)
    then have "last (tl ?d) = CHR 0x0A" using "1.prems"(2) False d by (simp add: last_tl)
    then show ?thesis using "1.IH" [OF nl False] e by simp
  qed
qed

lemma parse_empty [simp]: "parse_rt_rec resolve deliver junk [] s = Some s"
proof -
  have "trim [] = []" "clip [] = []" by code_simp+
  moreover have "uta_tokenise (Some []) 128 (CHR ''|'') = []" by code_simp
  ultimately show ?thesis by (simp add: parse_rt_rec_def Let_def)
qed

lemma parse_recs_append: "parse_recs resolve deliver junk (xs @ ys) s = Option.bind (parse_recs resolve deliver junk xs s) (parse_recs resolve deliver junk ys)"
proof (induction xs arbitrary: s)
  case (Cons x xs)
  then show ?case by (cases "parse_rt_rec resolve deliver junk x s") simp_all
qed simp

text \<open>
  C23: the seed file is read as if the route manager had sent it. Whatever the file holds, with or without a newline at its
  end, with carriage returns or without, reading it has the effect of the records its lines are, in order, none of them
  left out, as a data message with the same text has; only the acknowledgements do not matter.
\<close>

theorem seed_as_message:
  "static_loop resolve junk (seed_text buf) s = parse_recs resolve (\<lambda>_. RMR_OK) junk (split_nl (seed_text buf)) s"
proof -
  let ?r = "seed_text buf"
  have r: "?r \<noteq> []" "last ?r = CHR 0x0A" by (auto simp: seed_text_def ensure_nlterm_def last_map split: option.split)
  note l = split_nl_terminated [OF r]
  have "split_nl ?r = butlast (split_nl ?r) @ [[]]" using l by (metis append_butlast_last_id)
  moreover have "parse_recs resolve (\<lambda>_. RMR_OK) junk [[]] = Some" by (rule ext) simp
  ultimately have "parse_recs resolve (\<lambda>_. RMR_OK) junk (split_nl ?r) s = Option.bind (parse_recs resolve (\<lambda>_. RMR_OK) junk (butlast (split_nl ?r)) s) Some"
    using parse_recs_append [of resolve "\<lambda>_. RMR_OK" junk "butlast (split_nl ?r)" "[[]]" s] by (simp add: Option.bind_runit)
  then show ?thesis by (simp add: static_loop_recs)
qed

subsection \<open>The rounds of the thread\<close>

fun rtc_rounds :: "(string \<Rightarrow> u32 option) \<Rightarrow> string \<Rightarrow> int \<Rightarrow> rtc_env list \<Rightarrow> rtc_loop \<Rightarrow> rtc_loop option" where
  "rtc_rounds resolve junk freq [] l = Some l"
| "rtc_rounds resolve junk freq (e # es) l = Option.bind (rtc_round resolve junk freq e l) (rtc_rounds resolve junk freq es)"

text \<open>
  A message with table data is worked off. When its records are complete and need not wait, one round parses all of them, keeps the
  invariant of the tables, ends the requests to the route manager, and leaves the message without a length,
  so that the next round listens again.
\<close>

theorem table_data_consumed:
  assumes "rl_msg l = Some m" "0 < mb_len m" "mb_mtype m = RMRRM_TABLE_DATA" "tabs_inv (u_ctx (rl_state l))"
    "safe_run (parse_rt_rec resolve (e_deliver e) junk) (\<lambda>buf s. rec_safe buf (u_ctx s)) (split_nl (msg_text m)) (rl_state l)"
  shows "\<exists>l'. rtc_round resolve junk freq e l = Some l' \<and> tabs_inv (u_ctx (rl_state l')) \<and>
    parse_recs resolve (e_deliver e) junk (split_nl (msg_text m)) (rl_state l) = Some (rl_state l') \<and> rl_have l' \<and>
    rtc_round resolve junk freq e' l' = Some (rtc_idle freq e' l') \<and>
    u_ctx (rl_state (rtc_idle freq e' l')) = u_ctx (rl_state l') \<and> rl_msg (rtc_idle freq e' l') = e_recv e' (Some (m\<lparr>mb_len := 0\<rparr>))"
proof -
  obtain s where s: "parse_recs resolve (e_deliver e) junk (split_nl (msg_text m)) (rl_state l) = Some s" "tabs_inv (u_ctx s)"
    using recs.run_ok [OF assms(4,5)] by (auto simp: parse_recs_run)
  let ?l = "l\<lparr>rl_msg := Some (m\<lparr>mb_len := 0\<rparr>), rl_have := True, rl_pbuf := pbuf_grow (rl_pbuf l) (mb_len m), rl_state := s\<rparr>"
  have "rtc_round resolve junk freq e l = Some ?l"
    using assms(1-3) s(1) by (simp add: rtc_round_def rtc_parse_msg_def)
  then show ?thesis using s by (intro exI [of _ ?l]) (simp add: rtc_round_def rtc_idle_def Let_def split: prod.split)
qed

lemma demo_table_text: "split_nl (msg_text (mbuf_zero\<lparr>mb_mtype := 20, mb_len := 14, mb_payload := Some 0,
    mb_tp_buf := Some (str_bytes ''newrt|start|t1'')\<rparr>)) = [''newrt|start|t1'']"
  by code_simp

theorem table_data_consumed_witness:
  "\<exists>l l'. rl_have l' \<and> \<not> rl_have l \<and> rtc_round (\<lambda>_. None) [] 5 \<lparr>e_now = 7, e_open = 0, e_deliver = \<lambda>_. 0, e_recv = id\<rparr> l = Some l' \<and>
    tabs_inv (u_ctx (rl_state l'))"
proof -
  obtain ctx b th where i: "init demo_env [] None 0 0 = Return (Inr (ctx, b, th))" by (rule demo_init)
  let ?m = "mbuf_zero\<lparr>mb_mtype := 20, mb_len := 14, mb_payload := Some 0, mb_tp_buf := Some (str_bytes ''newrt|start|t1'')\<rparr>"
  let ?s = "sys (start_system None ctx)"
  let ?l = "\<lparr>rl_state = ?s, rl_msg = Some ?m, rl_have = False, rl_pbuf = 0, rl_nxt = 0,
    rl_alarm = \<lparr>alarm_raised = False, ok2clear = 0, lastd = 0, prob_id = 0\<rparr>, rl_sent = []\<rparr>"
  let ?e = "\<lparr>e_now = 7, e_open = 0, e_deliver = \<lambda>_. 0, e_recv = id\<rparr>"
  have "old_rtable ctx = None" by (rule init_ctx [OF i])
  then have "safe_run (parse_rt_rec (\<lambda>_. None) (e_deliver ?e) []) (\<lambda>buf s. rec_safe buf (u_ctx s)) (split_nl (msg_text ?m)) (rl_state ?l)"
    by (simp add: demo_table_text demo_start_safe start_system_def split: option.split)
  moreover have "tabs_inv (u_ctx (rl_state ?l))" using init_sys_inv(1) [OF i] by (simp add: start_system_def)
  moreover have "mb_mtype ?m = 20" "0 < mb_len ?m" "rl_msg ?l = Some ?m" "\<not> rl_have ?l" by simp_all
  ultimately show ?thesis using table_data_consumed [of ?l ?m "\<lambda>_. None" ?e "[]" 5 ?e] by blast
qed

text \<open>
  C40: any other message stops the collector. A message with a length and another type than table data is neither dropped
  nor worked off: however often the loop goes around and whatever arrives meanwhile, nothing changes any more, no
  message is received, no table is requested and no alarm is raised or cleared.
\<close>

theorem other_type_blocks:
  assumes "rl_msg l = Some m" "0 < mb_len m" "mb_mtype m \<noteq> RMRRM_TABLE_DATA"
  shows "rtc_rounds resolve junk freq es l = Some l"
proof (induction es)
  case (Cons e es)
  have "rtc_round resolve junk freq e l = Some l" using assms by (simp add: rtc_round_def rtc_parse_msg_def)
  then show ?case using Cons by simp
qed simp

theorem other_type_blocks_witness:
  "\<exists>l. mb_mtype (the (rl_msg l)) = 21 \<and> (\<forall>es. rtc_rounds (\<lambda>_. None) [] 5 es l = Some l)"
proof -
  obtain ctx b th where "init demo_env [] None 0 0 = Return (Inr (ctx, b, th))" by (rule demo_init)
  let ?m = "mbuf_zero\<lparr>mb_mtype := 21, mb_len := 14\<rparr>"
  let ?l = "\<lparr>rl_state = \<lparr>u_ctx = ctx, p_ctx = None, acks = []\<rparr>, rl_msg = Some ?m, rl_have = False, rl_pbuf = 0, rl_nxt = 0,
    rl_alarm = \<lparr>alarm_raised = False, ok2clear = 0, lastd = 0, prob_id = 0\<rparr>, rl_sent = []\<rparr>"
  have "rtc_rounds (\<lambda>_. None) [] 5 es ?l = Some ?l" for es by (rule other_type_blocks [of ?l ?m]) simp_all
  then show ?thesis by (intro exI [of _ ?l]) simp
qed

subsection \<open>The alarm\<close>

text \<open>What the alarm does over a sequence of checks, each at a time and with the count of drops then.\<close>

fun alarm_run :: "(int \<times> int) list \<Rightarrow> alarm_state \<Rightarrow> alarm_act list" where
  "alarm_run [] a = []"
| "alarm_run ((now, drops) # es) a = (case alarm_if_drops now drops a of (b, act) \<Rightarrow>
     (case act of None \<Rightarrow> [] | Some x \<Rightarrow> [x]) @ alarm_run es b)"

text \<open>The alarms from a problem number on: each is raised and then cleared, under its own number.\<close>

fun alternates :: "bool \<Rightarrow> int \<Rightarrow> alarm_act list \<Rightarrow> bool" where
  "alternates up p [] = True"
| "alternates up p (AlarmRaise q # as) = (\<not> up \<and> q = p \<and> alternates True p as)"
| "alternates up p (AlarmClear q # as) = (up \<and> q = p \<and> alternates False (p + 1) as)"

text \<open>
  Whatever the clock and the count of dropped messages do, alarms are raised and cleared in turn, and each clear carries
  the number of the raise before it; every problem has a number of its own.
\<close>

lemma alarm_alternates: "alternates (alarm_raised a) (prob_id a) (alarm_run es a)"
proof (induction es a rule: alarm_run.induct)
  case (2 now drops es a)
  then show ?case by (auto simp: alarm_if_drops_def split: if_splits)
qed simp

text \<open>A clear needs a check that saw no new drops and set the time to clear, and that this time is over.\<close>

lemma alarm_clear_iff:
  "snd (alarm_if_drops now drops a) = Some (AlarmClear p) \<longleftrightarrow>
     alarm_raised a \<and> drops = lastd a \<and> ok2clear a \<noteq> 0 \<and> ok2clear a < now \<and> p = prob_id a"
  by (auto simp: alarm_if_drops_def)

end
