(* ===== verification/WhProps.thy ===== *)
theory WhProps
  imports EpProps Wormhole
begin

text \<open>
  Wormholes: opening one gives a slot with the endpoint that was named, slots in use are not disturbed, opening
  the same target again gives the same slot, and a closed slot is refused.
\<close>

subsection \<open>The scan\<close>

text \<open>With the endpoint among the slots, the scan stops at its first slot; otherwise it gives the first free one, if any.\<close>

lemma wh_scan_found:
  assumes "Some ep \<in> set xs"
  obtains j where "wh_scan op ep n i xs w = (i + j, op ep)" "j < length xs" "xs ! j = Some ep" "\<forall>k<j. xs ! k \<noteq> Some ep"
  using assms
proof (induction xs arbitrary: i w thesis)
  case (Cons x xs)
  show ?case
  proof (cases "x = Some ep")
    case True
    then show ?thesis using Cons.prems(1) [of 0] by (simp add: Let_def)
  next
    case False
    let ?w = "if w = n \<and> x = None then i else w"
    obtain j where j: "wh_scan op ep n (i + 1) xs ?w = (i + 1 + j, op ep)" "j < length xs" "xs ! j = Some ep" "\<forall>k<j. xs ! k \<noteq> Some ep"
      by (rule Cons.IH [of "i + 1" ?w]) (use False Cons.prems(2) in auto)
    then have "\<forall>k<Suc j. (x # xs) ! k \<noteq> Some ep" using False by (auto simp: less_Suc_eq_0_disj)
    then show ?thesis using Cons.prems(1) [of "Suc j"] j False by (simp add: Let_def)
  qed
qed simp

lemma wh_scan_free:
  assumes "Some ep \<notin> set xs" "n = i + length xs" "w \<noteq> n \<longrightarrow> P w" "\<And>j. j < length xs \<Longrightarrow> xs ! j = None \<Longrightarrow> P (i + j)" "P n"
  shows "\<exists>w'. wh_scan op ep n i xs w = (w', False) \<and> P w'"
  using assms
proof (induction xs arbitrary: i w)
  case (Cons x xs)
  let ?w = "if w = n \<and> x = None then i else w"
  have p: "?w \<noteq> n \<longrightarrow> P ?w" using Cons.prems(3) Cons.prems(4) [of 0] by simp
  have "\<exists>w'. wh_scan op ep n (i + 1) xs ?w = (w', False) \<and> P w'"
    by (rule Cons.IH) (use Cons.prems(1,2,5) Cons.prems(4) [of "Suc _"] p in auto)
  then show ?case using Cons.prems(1) by (auto simp: Let_def)
qed auto

subsection \<open>What an open keeps\<close>

lemma get_rt_keeps: "eps (snd (get_rt ctx)) = eps ctx" "ephash (snd (get_rt ctx)) = ephash ctx" "wormholes (snd (get_rt ctx)) = wormholes ctx"
  by (auto simp: get_rt_def set_rt_def split: option.split)

lemma release_rt_keeps: "eps (release_rt t ctx) = eps ctx" "ephash (release_rt t ctx) = ephash ctx" "wormholes (release_rt t ctx) = wormholes ctx"
  by (auto simp: release_rt_def set_rt_def split: option.split)

lemma wh_init_keeps: "eps (wh_init ctx) = eps ctx" "ephash (wh_init ctx) = ephash ctx" "rtable (wh_init ctx) = rtable ctx" "the_rt (wh_init ctx) t = the_rt ctx t"
  by (auto simp: wh_init_def the_rt_def split: option.split)

lemma rt_ensure_ep_wormholes: "wormholes (snd (rt_ensure_ep resolve nm ctx)) = wormholes ctx"
  by (auto simp: rt_ensure_ep_def uta_get_ep_def Let_def split: option.split prod.split)

definition same_tabs :: "uta_ctx \<Rightarrow> uta_ctx \<Rightarrow> bool" where
  "same_tabs ctx c = (rtable c = rtable ctx \<and> (\<forall>t. (the_rt c t = None) = (the_rt ctx t = None)))"

lemma the_rt_wormholes [simp]: "the_rt (ctx\<lparr>wormholes := x\<rparr>) t = the_rt ctx t"
  by (simp add: the_rt_def)

lemma same_tabs_ops:
  "same_tabs ctx (snd (get_rt ctx))" "same_tabs ctx (release_rt u ctx)" "same_tabs ctx (snd (rt_ensure_ep resolve nm ctx))"
  "same_tabs ctx (snd (rt_link2_ep connect ep ctx))" "same_tabs ctx (wh_init ctx)" "same_tabs ctx (ctx\<lparr>wormholes := x\<rparr>)"
  by (auto simp: same_tabs_def get_rt_def release_rt_def set_rt_def the_rt_def rt_ensure_ep_def uta_get_ep_def rt_link2_ep_def uta_link2_def
    fd2ep_add_def upd_ep_def wh_init_def Let_def nth_list_update split: option.splits prod.splits if_splits Option.bind_splits)

lemma ep_inv_same:
  assumes "ephash c = ephash ctx" "length (eps c) = length (eps ctx)" "\<And>e. e < length (eps ctx) \<Longrightarrow> ep_name (eps c ! e) = ep_name (eps ctx ! e)"
  shows "ep_inv c = ep_inv ctx"
  using assms by (simp add: ep_inv_def) metis

text \<open>Connecting an endpoint: it is open exactly when the connection was made, and every name stays.\<close>

lemma rt_link2_ep_ok:
  assumes "e < length (eps ctx)" "rt_link2_ep connect (Some e) ctx = (ok, c)"
  shows "ok = ep_open (eps c ! e)" "wormholes c = wormholes ctx" "ephash c = ephash ctx" "length (eps c) = length (eps ctx)"
    "ep_name (eps c ! x) = ep_name (eps ctx ! x)"
  using assms by (auto simp: rt_link2_ep_def uta_link2_def fd2ep_add_def upd_ep_def Let_def nth_list_update split: if_splits prod.splits)

subsection \<open>Opening\<close>

definition wh_slots :: "uta_ctx \<Rightarrow> nat option list" where
  "wh_slots ctx = (case wormholes ctx of None \<Rightarrow> replicate 16 None | Some w \<Rightarrow> w)"

text \<open>The part of the open that finds the endpoint: it has the name of the target, and the slots are as before.\<close>

lemma wh_open_endpoint:
  assumes inv: "ep_inv ctx" and rt: "rtable ctx = Some t" "the_rt ctx t = Some rt" and n: "n \<noteq> []"
  obtains ep c where "ep_inv c" "ep < length (eps c)" "ep_name (eps c ! ep) = n" "wormholes c = Some (wh_slots ctx)"
    "take (length (eps ctx)) (eps c) = eps ctx" "same_tabs ctx c"
    "rmr_wh_open resolve connect (Some n) ctx =
       (let whm = wh_slots ctx; (whid, opened) = wh_scan (\<lambda>e. ep_open (eps c ! e)) ep (length whm) 0 whm (length whm)
        in if opened then (Inr whid, c)
           else let whm1 = (if whid \<ge> length whm then wh_extend whm else whm);
                    (ok, c5) = rt_link2_ep connect (Some ep) (c\<lparr>wormholes := Some whm1\<rparr>)
                in if ok then (Inr whid, c5\<lparr>wormholes := Some (whm1[whid := Some ep])\<rparr>) else (Inl ECONNREFUSED, c5))"
proof -
  let ?c1 = "wh_init ctx"
  obtain c2 where g: "get_rt ?c1 = (Some t, c2)" using rt by (simp add: get_rt_def wh_init_keeps)
  have c2: "eps c2 = eps ctx" "ephash c2 = ephash ctx" "wormholes c2 = wormholes ?c1"
    using get_rt_keeps [of ?c1] g by (simp_all add: wh_init_keeps)
  have "ep_inv c2" using inv ep_inv_same [of c2 ctx] c2 by simp
  from this n obtain e c3 where e: "rt_ensure_ep resolve (Some n) c2 = (Some e, c3)" "ep_grows c2 c3" "e < length (eps c3)" "ep_name (eps c3 ! e) = n"
    by (rule rt_ensure_ep_ok [of c2 n resolve]) (rule that, blast+)
  let ?c = "release_rt (Some t) c3"
  have w: "wormholes ?c = Some (wh_slots ctx)"
    using rt_ensure_ep_wormholes [of resolve "Some n" c2] e(1) c2(3) by (auto simp: release_rt_keeps wh_init_def wh_slots_def split: option.splits)
  have "ep_inv ?c" using e(2) ep_inv_same [of ?c c3] by (simp add: release_rt_keeps ep_grows_def)
  moreover have "take (length (eps ctx)) (eps ?c) = eps ctx" using e(2) c2(1) by (auto simp: release_rt_keeps ep_grows_def)
  moreover have "rmr_wh_open resolve connect (Some n) ctx =
       (let whm = wh_slots ctx; (whid, opened) = wh_scan (\<lambda>e. ep_open (eps ?c ! e)) e (length whm) 0 whm (length whm)
        in if opened then (Inr whid, ?c)
           else let whm1 = (if whid \<ge> length whm then wh_extend whm else whm);
                    (ok, c5) = rt_link2_ep connect (Some e) (?c\<lparr>wormholes := Some whm1\<rparr>)
                in if ok then (Inr whid, c5\<lparr>wormholes := Some (whm1[whid := Some e])\<rparr>) else (Inl ECONNREFUSED, c5))"
    using n by (simp add: rmr_wh_open_def g e(1) w Let_def case_prod_beta)
  moreover have "same_tabs ctx ?c"
    using same_tabs_ops(5) [of ctx] same_tabs_ops(1) [of ?c1] same_tabs_ops(3) [of c2 resolve "Some n"] same_tabs_ops(2) [of c3 "Some t"] g e(1)
    by (simp add: same_tabs_def)
  ultimately show ?thesis using that [of ?c e] e(3,4) w by (simp add: release_rt_keeps)
qed

text \<open>The slot an open uses: it is free or holds the endpoint already, and no slot before it holds the endpoint.\<close>

definition wh_fits :: "nat option list \<Rightarrow> nat \<Rightarrow> nat \<Rightarrow> bool" where
  "wh_fits whm ep w = (if Some ep \<in> set whm then w < length whm \<and> whm ! w = Some ep \<and> (\<forall>k<w. whm ! k \<noteq> Some ep)
     else w \<le> length whm \<and> (w < length whm \<longrightarrow> whm ! w = None))"

lemma wh_scan_fits:
  obtains w where "wh_scan op ep (length whm) 0 whm (length whm) = (w, Some ep \<in> set whm \<and> op ep)" "wh_fits whm ep w"
proof (cases "Some ep \<in> set whm")
  case True
  then obtain j where "wh_scan op ep (length whm) 0 whm (length whm) = (0 + j, op ep)" "j < length whm" "whm ! j = Some ep" "\<forall>k<j. whm ! k \<noteq> Some ep"
    by (rule wh_scan_found)
  then show ?thesis using that [of j] True by (simp add: wh_fits_def)
next
  case False
  then obtain w where "wh_scan op ep (length whm) 0 whm (length whm) = (w, False)" "w \<le> length whm \<and> (w < length whm \<longrightarrow> whm ! w = None)"
    using wh_scan_free [of ep whm "length whm" 0 "length whm" "\<lambda>w. w \<le> length whm \<and> (w < length whm \<longrightarrow> whm ! w = None)" op] by auto
  then show ?thesis using that [of w] False by (simp add: wh_fits_def)
qed

lemma link_connects:
  assumes "e < length (eps ctx)" "CHR '':'' \<in> set (ep_name (eps ctx ! e))" "0 \<le> connect (take 511 (ep_name (eps ctx ! e)))"
  shows "fst (rt_link2_ep connect (Some e) ctx)"
  using assms by (auto simp: rt_link2_ep_def uta_link2_def fd2ep_add_def upd_ep_def Let_def)

lemma wh_open_cases:
  assumes inv: "ep_inv ctx" and rt: "rtable ctx = Some t" "the_rt ctx t = Some rt" and n: "n \<noteq> []"
    and r: "rmr_wh_open resolve connect (Some n) ctx = (r, c)"
  obtains (opened) w ep W where "r = Inr w" "ep_inv c" "ep < length (eps c)" "ep_name (eps c ! ep) = n" "same_tabs ctx c"
      "ep_open (eps c ! ep)" "wh_fits (wh_slots ctx) ep w" "W = wh_slots ctx \<or> w = length (wh_slots ctx) \<and> W = wh_extend (wh_slots ctx)" "w < length W"
      "wormholes c = Some (W[w := Some ep])"
    | (refused) ep W where "r = Inl ECONNREFUSED" "ep_inv c" "ep < length (eps c)" "ep_name (eps c ! ep) = n" "\<not> ep_open (eps c ! ep)"
      "W = wh_slots ctx \<or> W = wh_extend (wh_slots ctx)" "wormholes c = Some W" "\<not> (CHR '':'' \<in> set n \<and> 0 \<le> connect (take 511 n))"
proof -
  obtain ep d where d: "ep_inv d" "ep < length (eps d)" "ep_name (eps d ! ep) = n" "wormholes d = Some (wh_slots ctx)" "same_tabs ctx d"
    "rmr_wh_open resolve connect (Some n) ctx =
       (let whm = wh_slots ctx; (whid, opened) = wh_scan (\<lambda>e. ep_open (eps d ! e)) ep (length whm) 0 whm (length whm)
        in if opened then (Inr whid, d)
           else let whm1 = (if whid \<ge> length whm then wh_extend whm else whm);
                    (ok, c5) = rt_link2_ep connect (Some ep) (d\<lparr>wormholes := Some whm1\<rparr>)
                in if ok then (Inr whid, c5\<lparr>wormholes := Some (whm1[whid := Some ep])\<rparr>) else (Inl ECONNREFUSED, c5))"
    by (rule wh_open_endpoint [OF inv rt n, of resolve connect]) (rule that, blast+)
  let ?W = "wh_slots ctx"
  obtain w where w: "wh_scan (\<lambda>e. ep_open (eps d ! e)) ep (length ?W) 0 ?W (length ?W) = (w, Some ep \<in> set ?W \<and> ep_open (eps d ! ep))" "wh_fits ?W ep w"
    by (rule wh_scan_fits)
  show ?thesis
  proof (cases "Some ep \<in> set ?W \<and> ep_open (eps d ! ep)")
    case True
    then have "r = Inr w" "c = d" "w < length ?W" "?W[w := Some ep] = ?W"
      using r d(6) w by (auto simp: Let_def wh_fits_def list_update_same_conv)
    then show ?thesis using opened [of w ep ?W] True d w(2) by simp
  next
    case False
    define W where "W = (if w \<ge> length ?W then wh_extend ?W else ?W)"
    obtain ok c5 where l: "rt_link2_ep connect (Some ep) (d\<lparr>wormholes := Some W\<rparr>) = (ok, c5)" by fastforce
    have rc: "(r, c) = (if ok then (Inr w, c5\<lparr>wormholes := Some (W[w := Some ep])\<rparr>) else (Inl ECONNREFUSED, c5))"
      using r d(6) w(1) False l by (auto simp: Let_def W_def)
    note k = rt_link2_ep_ok [OF _ l, simplified, OF d(2)]
    have i: "ep_inv c5" using d(1) ep_inv_same [of c5 d] k(3-5) by simp
    have i2: "ep_inv (c5\<lparr>wormholes := x\<rparr>)" for x using i by (simp add: ep_inv_def)
    have st: "same_tabs ctx (c5\<lparr>wormholes := x\<rparr>)" for x
      using d(5) same_tabs_ops(4) [of "d\<lparr>wormholes := Some W\<rparr>" connect "Some ep"] l by (simp add: same_tabs_def)
    have W: "W = ?W \<or> w = length ?W \<and> W = wh_extend ?W" "w < length W" using w(2) by (auto simp: W_def wh_fits_def wh_extend_def split: if_splits)
    show ?thesis
    proof (cases ok)
      case True
      then show ?thesis using opened [of w ep W] rc k W d(2,3) w(2) i2 st by simp
    next
      case False
      then have "\<not> (CHR '':'' \<in> set n \<and> 0 \<le> connect (take 511 n))"
        using link_connects [of ep "d\<lparr>wormholes := Some W\<rparr>" connect] l d(2,3) by auto
      then show ?thesis using refused [of ep W] False rc k W d(2,3) i by auto
    qed
  qed
qed

lemma wh_slot_Inr: "wh_slot ctx v = Inr e \<longleftrightarrow> wormholes ctx \<noteq> None \<and> 0 \<le> v \<and> nat v < length (wh_slots ctx) \<and> wh_slots ctx ! nat v = Some e"
  by (auto simp: wh_slot_def wh_slots_def split: option.splits if_splits)

lemma slots_kept:
  assumes "W = wh_slots ctx \<or> W = wh_extend (wh_slots ctx)" "wormholes c = Some (W[w := Some ep])" "wh_fits (wh_slots ctx) ep w" "wh_slot ctx v = Inr e"
  shows "wh_slot c v = Inr e"
proof -
  have v: "0 \<le> v" "nat v < length (wh_slots ctx)" "wh_slots ctx ! nat v = Some e" using assms(4) by (simp_all add: wh_slot_Inr)
  have W: "nat v < length W" "W ! nat v = Some e" using assms(1) v by (auto simp: wh_extend_def nth_append)
  have "w = nat v \<Longrightarrow> e = ep" using v assms(3) by (auto simp: wh_fits_def split: if_splits)
  then have "W[w := Some ep] ! nat v = Some e" using W by (cases "w = nat v") auto
  then show ?thesis using W v(1) assms(2) by (simp add: wh_slot_Inr wh_slots_def)
qed

text \<open>Names are unique, so opening the target again finds the same endpoint, and the scan its slot.\<close>

lemma wh_open_again:
  assumes inv: "ep_inv c" and rt: "rtable c = Some t" "the_rt c t = Some rt" and n: "n \<noteq> []" and ep: "ep < length (eps c)" "ep_name (eps c ! ep) = n"
    and o: "ep_open (eps c ! ep)" and w: "wh_fits (wh_slots c) ep w" "Some ep \<in> set (wh_slots c)"
  shows "fst (rmr_wh_open resolve connect (Some n) c) = Inr w"
proof -
  obtain ep' d where d: "ep_inv d" "ep' < length (eps d)" "ep_name (eps d ! ep') = n" "take (length (eps c)) (eps d) = eps c"
    "rmr_wh_open resolve connect (Some n) c =
       (let whm = wh_slots c; (whid, opened) = wh_scan (\<lambda>e. ep_open (eps d ! e)) ep' (length whm) 0 whm (length whm)
        in if opened then (Inr whid, d)
           else let whm1 = (if whid \<ge> length whm then wh_extend whm else whm);
                    (ok, c5) = rt_link2_ep connect (Some ep') (d\<lparr>wormholes := Some whm1\<rparr>)
                in if ok then (Inr whid, c5\<lparr>wormholes := Some (whm1[whid := Some ep'])\<rparr>) else (Inl ECONNREFUSED, c5))"
    by (rule wh_open_endpoint [OF inv rt n, of resolve connect]) (rule that, blast+)
  have e: "eps d ! ep = eps c ! ep" "ep < length (eps d)" using d(4) ep(1) by (metis nth_take, metis length_take less_le_trans min.cobounded1)
  then have "ep' = ep" using ep_invD(2) [OF d(1)] d(2,3) ep(2) by (metis option.inject)
  moreover obtain w' where w': "wh_scan (\<lambda>e. ep_open (eps d ! e)) ep (length (wh_slots c)) 0 (wh_slots c) (length (wh_slots c)) = (w', Some ep \<in> set (wh_slots c) \<and> ep_open (eps d ! ep))"
    "wh_fits (wh_slots c) ep w'" by (rule wh_scan_fits)
  moreover have "w' = w" using w w'(2) by (metis (no_types, lifting) wh_fits_def linorder_neqE_nat)
  ultimately show ?thesis using d(5) o e(1) w(2) by (simp add: Let_def)
qed

lemma fits_again:
  assumes "W = wh_slots ctx \<or> w = length (wh_slots ctx) \<and> W = wh_extend (wh_slots ctx)" "w < length W" "wh_fits (wh_slots ctx) ep w"
  shows "wh_fits (W[w := Some ep]) ep w"
proof -
  have "Some ep \<in> set (W[w := Some ep])" using assms(2) by (rule set_update_memI)
  moreover have "W ! k \<noteq> Some ep" if "k < w" for k
    using assms that by (auto simp: wh_fits_def wh_extend_def nth_append in_set_conv_nth split: if_splits)
  ultimately show ?thesis using assms(2) by (simp add: wh_fits_def)
qed

text \<open>
  C14: a wormhole leads to the target it was opened for until it is closed. With a route table in place, opening a
  target that can be connected succeeds. The id of a successful open leads to an open endpoint with the
  name of the target; opening the target again, however connections then go, gives the same id. When it is closed, a message sent on it comes back
  marked and nothing is put on the wire, and every other id is as before. An open that succeeds or fails leaves the ids in use as they were.
\<close>

theorem wormhole_lifecycle:
  assumes "ep_inv ctx" "rtable ctx = Some t" "the_rt ctx t = Some rt" "n \<noteq> []" "rmr_wh_open resolve connect (Some n) ctx = (r, c)"
  shows "(CHR '':'' \<in> set n \<and> 0 \<le> connect (take 511 n) \<longrightarrow> (\<exists>w. r = Inr w)) \<and> (\<forall>v e. wh_slot ctx v = Inr e \<longrightarrow> wh_slot c v = Inr e) \<and> ep_inv c \<and>
    (case r of Inl e \<Rightarrow> e = ECONNREFUSED
     | Inr w \<Rightarrow> (\<exists>ep < length (eps c). wh_slot c (int w) = Inr ep \<and> ep_name (eps c ! ep) = n) \<and> rmr_wh_state (Some c) (int w) = RMR_OK \<and>
         fst (rmr_wh_open resolve' connect' (Some n) c) = Inr w \<and>
         rmr_wh_send_msg si resolve' connect' mem junk (rmr_wh_close c (int w)) (int w) (Some m) =
           Return (Some (m\<lparr>mb_state := RMR_ERR_WHID\<rparr>), rmr_wh_close c (int w), []) \<and>
         (\<forall>v. v \<noteq> int w \<longrightarrow> wh_slot (rmr_wh_close c (int w)) v = wh_slot c v))"
proof (rule wh_open_cases [OF assms], goal_cases opened refused)
  case (opened w ep W)
  have k: "\<forall>v e. wh_slot ctx v = Inr e \<longrightarrow> wh_slot c v = Inr e" using slots_kept [of W ctx c w ep] opened by blast
  have s: "wh_slots c = W[w := Some ep]" using opened(10) by (simp add: wh_slots_def)
  have f: "wh_fits (wh_slots c) ep w" unfolding s using opened by (intro fits_again) auto
  have m: "Some ep \<in> set (wh_slots c)" unfolding s using opened(9) by (rule set_update_memI)
  have sl: "wh_slot c (int w) = Inr ep" using opened(9,10) by (simp add: wh_slot_def)
  have cl: "wh_slot (rmr_wh_close c (int w)) v = (if v = int w then Inl RMR_ERR_WHID else wh_slot c v)" for v
    using opened(9,10) by (auto simp: rmr_wh_close_def wh_slot_def)
  have "the_rt c t \<noteq> None" using opened(5) assms(3) by (simp add: same_tabs_def)
  then obtain rt' where "rtable c = Some t" "the_rt c t = Some rt'" using opened(5) assms(2) by (auto simp: same_tabs_def)
  from wh_open_again [OF opened(2) this assms(4) opened(3,4,6) f m] k sl cl opened show ?case
    by (auto simp: rmr_wh_state_def rmr_wh_send_msg_def)
next
  case (refused ep W)
  then have "\<forall>v e. wh_slot ctx v = Inr e \<longrightarrow> wh_slot c v = Inr e"
    by (auto simp: wh_slot_Inr wh_slots_def wh_extend_def nth_append)
  then show ?case using refused by simp
qed

theorem wormhole_lifecycle_witness:
  "\<exists>ctx c w. rmr_wh_open (\<lambda>_. None) (\<lambda>_. 9) (Some ''svc:4560'') ctx = (Inr w, c) \<and>
    (\<exists>ep. wh_slot c (int w) = Inr ep \<and> ep_name (eps c ! ep) = ''svc:4560'') \<and> rmr_wh_state (Some c) (int w) = RMR_OK"
proof -
  obtain ctx b th where i: "init demo_env [] None 0 0 = Return (Inr (ctx, b, th))" by (rule demo_init)
  obtain t: "tabs ctx = [Some empty_rt]" "rtable ctx = Some 0" by (rule init_ctx [OF i]) blast
  let ?c = "ctx\<lparr>eps := [], ephash := the (rmr_sym_alloc True 129)\<rparr>"
  have inv: "ep_inv ?c" by (simp add: ep_inv_def rmr_sym_alloc_wf hash_ok_empty(2) sym_lookup_absent sym_present_alloc)
  have rt: "rtable ?c = Some 0" "the_rt ?c 0 = Some empty_rt" by (simp_all add: the_rt_def t)
  obtain r d where r: "rmr_wh_open (\<lambda>_. None) (\<lambda>_. 9) (Some ''svc:4560'') ?c = (r, d)" by fastforce
  have s: "''svc:4560'' \<noteq> []" "CHR '':'' \<in> set ''svc:4560''" "(0 :: int) \<le> 9" by simp_all
  note l = wormhole_lifecycle [OF inv rt s(1) r, of "\<lambda>_. None" "\<lambda>_. 9" "\<lambda>_ . (0, EAGAIN)" True "\<lambda>_. 0" undefined]
  then obtain w where w: "r = Inr w" using s by blast
  then have "(\<exists>ep. wh_slot d (int w) = Inr ep \<and> ep_name (eps d ! ep) = ''svc:4560'') \<and> rmr_wh_state (Some d) (int w) = RMR_OK"
    using l by auto
  then show ?thesis using r w by blast
qed

end
