(* ===== verification/Si95.thy ===== *)
theory Si95
  imports RtParser
begin

text \<open>
  The transport (\<^verbatim>\<open>si/src/si95\<close>): sessions over TCP sockets, each with a transport block. The blocks form
  a doubly linked list that starts at \<open>gi_tplist\<close>, and \<open>tp_map\<close> leads from a descriptor to its block.

  A block is an address in the store \<open>gi_blks\<close>; a freed block is \<open>None\<close> there. A function that would use a freed block, or a
  descriptor outside of the range of a descriptor set, gives \<open>None\<close>. Loops over the list have the size of the store as
  fuel and give \<open>None\<close> when it does not suffice.

  The kernel is an argument: what a call returns is given, and \<open>si_log\<close> records the calls that close a descriptor or set an
  option of one.
\<close>

abbreviation (input) GIF_SHUTDOWN :: u32 where "GIF_SHUTDOWN \<equiv> 0x01"
abbreviation (input) TPF_LISTENFD :: u32 where "TPF_LISTENFD \<equiv> 0x01"
abbreviation (input) TPF_SESSION :: u32 where "TPF_SESSION \<equiv> 0x02"
abbreviation (input) TPF_UNBIND :: u32 where "TPF_UNBIND \<equiv> 0x04"
abbreviation (input) TPF_DRAIN :: u32 where "TPF_DRAIN \<equiv> 0x08"
abbreviation (input) TPF_DELETE :: u32 where "TPF_DELETE \<equiv> 0x10"
abbreviation (input) TPF_SAFEC :: u32 where "TPF_SAFEC \<equiv> 0x20"
abbreviation (input) TPF_ABORT :: u32 where "TPF_ABORT \<equiv> 0x40"
abbreviation (input) SI_TF_NODELAY :: u32 where "SI_TF_NODELAY \<equiv> 0x01"
abbreviation (input) SI_TF_FASTACK :: u32 where "SI_TF_FASTACK \<equiv> 0x02"
abbreviation (input) SI_TF_QUICK :: u32 where "SI_TF_QUICK \<equiv> 0x04"
abbreviation (input) MAX_CBS :: nat where "MAX_CBS \<equiv> 8"
abbreviation (input) MAX_FDS :: int where "MAX_FDS \<equiv> 2048"
abbreviation (input) FD_SETSIZE :: int where "FD_SETSIZE \<equiv> 1024"
abbreviation (input) MAGICNUM :: int where "MAGICNUM \<equiv> 219"
abbreviation (input) SOCK_STREAM :: int where "SOCK_STREAM \<equiv> 1"
abbreviation (input) SOCK_DGRAM :: int where "SOCK_DGRAM \<equiv> 2"
abbreviation (input) IPPROTO_TCP :: int where "IPPROTO_TCP \<equiv> 6"
abbreviation (input) IPPROTO_UDP :: int where "IPPROTO_UDP \<equiv> 17"
abbreviation (input) TCP_DEVICE :: int where "TCP_DEVICE \<equiv> 0"
abbreviation (input) UDP_DEVICE :: int where "UDP_DEVICE \<equiv> 1"
abbreviation (input) TCP_LISTEN_PORT :: int where "TCP_LISTEN_PORT \<equiv> -1"
abbreviation (input) SI_ERROR :: int where "SI_ERROR \<equiv> -1"
abbreviation (input) SI_RET_OK :: int where "SI_RET_OK \<equiv> 0"
abbreviation (input) SI_RET_ERROR :: int where "SI_RET_ERROR \<equiv> -1"
abbreviation (input) SI_RET_UNREG :: int where "SI_RET_UNREG \<equiv> 1"
abbreviation (input) SI_RET_QUIT :: int where "SI_RET_QUIT \<equiv> 2"
abbreviation (input) SI_CB_CDATA :: nat where "SI_CB_CDATA \<equiv> 2"
abbreviation (input) SI_CB_SECURITY :: nat where "SI_CB_SECURITY \<equiv> 4"
abbreviation (input) SI_CB_CONN :: nat where "SI_CB_CONN \<equiv> 5"
abbreviation (input) SI_CB_DISC :: nat where "SI_CB_DISC \<equiv> 6"

subsection \<open>State\<close>

text \<open>An address: the four or sixteen bytes of it, and the port.\<close>

datatype sockaddr = Inet "u8 list" u16 | Inet6 "u8 list" u16

fun sa_family :: "sockaddr \<Rightarrow> int" where
  "sa_family (Inet _ _) = 2"
| "sa_family (Inet6 _ _) = 10"

fun sa_len :: "sockaddr \<Rightarrow> int" where
  "sa_len (Inet _ _) = 16"
| "sa_len (Inet6 _ _) = 28"

datatype sock_opt = SO_LINGER | SO_REUSEPORT | SO_KEEPALIVE | TCP_NODELAY | TCP_QUICKACK
  | TCP_KEEPIDLE | TCP_KEEPINTVL | TCP_KEEPCNT | TCP_SYNCNT

datatype sys_act = SysClose int | SysOpt int sock_opt int

text \<open>The queue of a block holds the data of its elements; \<open>sqtail\<close> is its last element.\<close>

record tp_blk =
  tp_next :: "nat option"
  tp_prev :: "nat option"
  tp_fd :: int
  tp_flags :: u32
  tp_type :: int
  tp_family :: int
  tp_addr :: "sockaddr option"
  tp_paddr :: "sockaddr option"
  tp_palen :: int
  tp_squeue :: "bytes list"
  tp_qcount :: int
  tp_sent :: int
  tp_rcvd :: int

text \<open>\<open>cbtab\<close> tells which callbacks are registered.\<close>

record ginfo =
  gi_magic :: int
  gi_tplist :: "nat option"
  gi_blks :: "tp_blk option list"
  readfds :: "int set"
  writefds :: "int set"
  execpfds :: "int set"
  cbtab :: "bool list"
  fdcount :: int
  gi_flags :: u32
  tcp_flags :: u32
  tp_map :: "nat option list"
  si_log :: "sys_act list"

text \<open>The callbacks, over a state of the user; each gives a status.\<close>

record 's si_cbs =
  cb_cdata :: "int \<Rightarrow> bytes \<Rightarrow> 's \<Rightarrow> (int \<times> 's) option"
  cb_security :: "string \<Rightarrow> 's \<Rightarrow> (int \<times> 's) option"
  cb_conn :: "int \<Rightarrow> string \<Rightarrow> 's \<Rightarrow> (int \<times> 's) option"
  cb_disc :: "int \<Rightarrow> 's \<Rightarrow> (int \<times> 's) option"

definition blk :: "ginfo \<Rightarrow> nat \<Rightarrow> tp_blk option" where
  "blk g p = (if p < length (gi_blks g) then gi_blks g ! p else None)"

definition set_blk :: "nat \<Rightarrow> tp_blk option \<Rightarrow> ginfo \<Rightarrow> ginfo" where
  "set_blk p b g = g\<lparr>gi_blks := (gi_blks g)[p := b]\<rparr>"

definition upd_blk :: "nat \<Rightarrow> (tp_blk \<Rightarrow> tp_blk) \<Rightarrow> ginfo \<Rightarrow> ginfo option" where
  "upd_blk p f g = map_option (\<lambda>b. set_blk p (Some (f b)) g) (blk g p)"

definition si_act :: "sys_act list \<Rightarrow> ginfo \<Rightarrow> ginfo" where
  "si_act as g = g\<lparr>si_log := si_log g @ as\<rparr>"

subsection \<open>Blocks\<close>

text \<open>\<open>SInew\<close>, for a transport block and for the context.\<close>

definition tp_zero :: tp_blk where
  "tp_zero = \<lparr>tp_next = None, tp_prev = None, tp_fd = -1, tp_flags = TPF_UNBIND, tp_type = -1, tp_family = 0, tp_addr = None,
     tp_paddr = None, tp_palen = 0, tp_squeue = [], tp_qcount = 0, tp_sent = 0, tp_rcvd = 0\<rparr>"

definition SInew_tp :: "ginfo \<Rightarrow> nat \<times> ginfo" where
  "SInew_tp g = (length (gi_blks g), g\<lparr>gi_blks := gi_blks g @ [Some tp_zero]\<rparr>)"

definition SInew_gi :: ginfo where
  "SInew_gi = \<lparr>gi_magic = MAGICNUM, gi_tplist = None, gi_blks = [], readfds = {}, writefds = {}, execpfds = {}, cbtab = [],
     fdcount = 0, gi_flags = 0, tcp_flags = 0, tp_map = [], si_log = []\<rparr>"

definition SIinitialise :: "bool \<Rightarrow> bool \<Rightarrow> bool \<Rightarrow> ginfo option" where
  "SIinitialise mem_gi mem_map mem_cbs =
     (if mem_gi \<and> mem_map \<and> mem_cbs
      then Some (SInew_gi\<lparr>tp_map := replicate (nat MAX_FDS) None, cbtab := replicate MAX_CBS False\<rparr>) else None)"

definition SIset_tflags :: "ginfo \<Rightarrow> u32 \<Rightarrow> ginfo" where
  "SIset_tflags g m = g\<lparr>tcp_flags := tcp_flags g OR m\<rparr>"

definition SIclr_tflags :: "ginfo \<Rightarrow> u32 \<Rightarrow> ginfo" where
  "SIclr_tflags g m = g\<lparr>tcp_flags := tcp_flags g AND NOT m\<rparr>"

text \<open>The head of the list: what connecting, accepting and listening do to put a block there.\<close>

definition tp_link :: "nat \<Rightarrow> ginfo \<Rightarrow> ginfo option" where
  "tp_link p g =
     Option.bind (upd_blk p (\<lambda>b. b\<lparr>tp_next := gi_tplist g\<rparr>) g) (\<lambda>g1.
     Option.bind (case gi_tplist g of None \<Rightarrow> Some g1 | Some q \<Rightarrow> upd_blk q (\<lambda>b. b\<lparr>tp_prev := Some p\<rparr>) g1) (\<lambda>g2.
     Some (g2\<lparr>gi_tplist := Some p\<rparr>)))"

definition SImap_fd :: "int \<Rightarrow> nat \<Rightarrow> ginfo \<Rightarrow> ginfo option" where
  "SImap_fd fd p g =
     (if fd < 0 then None
      else Some (if fd < MAX_FDS then g\<lparr>tp_map := (tp_map g)[nat fd := Some p]\<rparr> else g))"

definition siabort_conn :: "int \<Rightarrow> ginfo \<Rightarrow> ginfo" where
  "siabort_conn fd g = si_act [SysOpt fd SO_LINGER 0, SysClose fd] g"

definition SIterm :: "nat \<Rightarrow> ginfo \<Rightarrow> ginfo option" where
  "SIterm p g = Option.bind (blk g p) (\<lambda>b.
     let g1 = (if tp_fd b \<ge> 0
               then let g0 = (if tp_flags b AND TPF_ABORT \<noteq> 0 then siabort_conn (tp_fd b) g else si_act [SysClose (tp_fd b)] g)
                    in if tp_fd b < MAX_FDS then g0\<lparr>tp_map := (tp_map g0)[nat (tp_fd b) := None]\<rparr> else g0
               else g)
     in Some (set_blk p (Some (b\<lparr>tp_fd := -1, tp_flags := tp_flags b OR TPF_DELETE\<rparr>)) g1))"

definition SIrm_tpb :: "nat \<Rightarrow> ginfo \<Rightarrow> ginfo option" where
  "SIrm_tpb p g = Option.bind (blk g p) (\<lambda>b.
     Option.bind
       (if tp_prev b \<noteq> None \<or> tp_next b \<noteq> None
        then Option.bind (case tp_prev b of
                 Some q \<Rightarrow> upd_blk q (\<lambda>x. x\<lparr>tp_next := tp_next b\<rparr>) g
               | None \<Rightarrow> Some (g\<lparr>gi_tplist := tp_next b\<rparr>))
             (\<lambda>g1. case tp_next b of
                 Some q \<Rightarrow> upd_blk q (\<lambda>x. x\<lparr>tp_prev := tp_prev b\<rparr>) g1
               | None \<Rightarrow> Some g1)
        else Some g)
       (\<lambda>g2. Some (set_blk p None g2)))"

text \<open>\<open>SItrash\<close> of a transport block, which is not in the list.\<close>

definition SItrash_tp :: "nat \<Rightarrow> ginfo \<Rightarrow> ginfo option" where
  "SItrash_tp p g = Option.bind (blk g p) (\<lambda>b.
     Some (set_blk p None (if tp_fd b \<ge> 0 then si_act [SysClose (tp_fd b)] g else g)))"

text \<open>The loops that look for a block.\<close>

fun tp_search :: "nat \<Rightarrow> (tp_blk \<Rightarrow> bool) \<Rightarrow> nat option \<Rightarrow> ginfo \<Rightarrow> nat option option" where
  "tp_search fuel P None g = Some None"
| "tp_search 0 P (Some p) g = None"
| "tp_search (Suc fuel) P (Some p) g =
     Option.bind (blk g p) (\<lambda>b. if P b then Some (Some p) else tp_search fuel P (tp_next b) g)"

definition tp_of_fd :: "int \<Rightarrow> ginfo \<Rightarrow> nat option option" where
  "tp_of_fd fd g =
     (if fd < MAX_FDS then Some (tp_map g ! nat fd)
      else tp_search (length (gi_blks g)) (\<lambda>b. tp_fd b = fd) (gi_tplist g) g)"

subsection \<open>Addresses\<close>

text \<open>
  The part of \<open>SIgenaddr\<close> before the resolver is asked: host, port if there is one, and whether the address is to
  be bound. A bracket that is not closed is an error.
\<close>

definition genaddr_parse :: "string \<Rightarrow> (string \<times> string option \<times> bool) option" where
  "genaddr_parse target =
     (let d = dropWhile is_space target in
      if d \<noteq> [] \<and> hd d = CHR '':'' then Some ([], Some (tl d), True)
      else if d \<noteq> [] \<and> hd d = CHR ''['' then
        (let h = tl d; r = tl (dropWhile (\<lambda>c. c \<noteq> CHR '']'') h) in
         if CHR '']'' \<notin> set h then None
         else Some (takeWhile (\<lambda>c. c \<noteq> CHR '']'') h,
                if r \<noteq> [] \<and> hd r = CHR '':'' then Some (tl r) else None, False))
      else Some (takeWhile (\<lambda>c. c \<noteq> CHR '':'') d,
             if CHR '':'' \<in> set d then Some (tl (dropWhile (\<lambda>c. c \<noteq> CHR '':'') d)) else None, False))"

text \<open>\<open>gai host port passive family type protocol\<close> is the first address the resolver gives.\<close>

type_synonym resolver = "string \<Rightarrow> string option \<Rightarrow> bool \<Rightarrow> int \<Rightarrow> int \<Rightarrow> int \<Rightarrow> sockaddr option"

definition SIgenaddr :: "resolver \<Rightarrow> string \<Rightarrow> int \<Rightarrow> int \<Rightarrow> int \<Rightarrow> int \<times> sockaddr option" where
  "SIgenaddr gai target proto family socktype = (case genaddr_parse target of
      None \<Rightarrow> (-1, None)
    | Some (host, port, passive) \<Rightarrow> (case gai host port passive family socktype proto of
        None \<Rightarrow> (0, None)
      | Some a \<Rightarrow> (sa_len a, Some a)))"

text \<open>\<open>SIaddress\<close> with \<^verbatim>\<open>AC_TODOT\<close>; of an IPv6 address the first six bytes are printed, in decimal.\<close>

fun SIaddress_dot :: "sockaddr \<Rightarrow> string" where
  "SIaddress_dot (Inet ad port) =
     dec_str (unat (ad ! 0)) @ ''.'' @ dec_str (unat (ad ! 1)) @ ''.'' @ dec_str (unat (ad ! 2)) @ ''.'' @
     dec_str (unat (ad ! 3)) @ '':'' @ dec_str (unat port)"
| "SIaddress_dot (Inet6 ad port) =
     ''['' @ dec_str (unat (ad ! 0)) @ '':'' @ dec_str (unat (ad ! 1)) @ '':'' @ dec_str (unat (ad ! 2)) @ '':'' @
     dec_str (unat (ad ! 3)) @ '':'' @ dec_str (unat (ad ! 4)) @ '':'' @ dec_str (unat (ad ! 5)) @ '']:'' @
     dec_str (unat port)"

text \<open>\<open>SIgetname\<close>, given the local address the kernel has for the socket. There is no room for that of an IPv6 socket.\<close>

definition SIgetname :: "(int \<Rightarrow> sockaddr option) \<Rightarrow> int \<Rightarrow> string option" where
  "SIgetname sockname sid =
     (if sid < 0 then None
      else case sockname sid of
        None \<Rightarrow> None
      | Some a \<Rightarrow> if sa_len a \<noteq> 16 then None else Some (SIaddress_dot a))"

text \<open>\<open>need_smartc\<close>: whether a connection to the address could reach the socket that connects.\<close>

definition need_smartc :: "string \<Rightarrow> bool" where
  "need_smartc abuf =
     (if CHR '':'' \<in> set abuf
      then let v = atoi (tl (dropWhile (\<lambda>c. c \<noteq> CHR '':'') abuf)) in \<not> (v < 32767 \<or> v mod 2 \<noteq> 0)
      else True)"

subsection \<open>Connecting and listening\<close>

text \<open>What the kernel and the resolver do in a connect: \<open>ce_sockname\<close> is the local address, when there is one.\<close>

record conn_env =
  ce_gai :: resolver
  ce_socket :: int
  ce_syncnt :: int
  ce_connect :: int
  ce_sockname :: "sockaddr option"

definition tcp_opts :: "int \<Rightarrow> u32 \<Rightarrow> sys_act list" where
  "tcp_opts fd fl =
     [SysOpt fd TCP_NODELAY (if fl AND SI_TF_NODELAY \<noteq> 0 then 1 else 0),
      SysOpt fd TCP_QUICKACK (if fl AND SI_TF_FASTACK \<noteq> 0 then 1 else 0)] @
     (if fl AND SI_TF_QUICK \<noteq> 0
      then [SysOpt fd SO_KEEPALIVE 1, SysOpt fd TCP_KEEPIDLE 1, SysOpt fd TCP_KEEPINTVL 1, SysOpt fd TCP_KEEPCNT 5] else [])"

definition SIconn_prep :: "conn_env \<Rightarrow> int \<Rightarrow> string \<Rightarrow> int \<Rightarrow> ginfo \<Rightarrow> (nat option \<times> ginfo) option" where
  "SIconn_prep e type abuf family g =
     (let (p, g1) = SInew_tp g;
          (ty, protocol) = (if type = UDP_DEVICE then (SOCK_DGRAM, IPPROTO_UDP) else (SOCK_STREAM, IPPROTO_TCP));
          (alen, addr) = SIgenaddr (ce_gai e) abuf protocol family ty;
          fd = ce_socket e
      in if alen \<le> 0 then Some (None, set_blk p None g1)
         else Option.bind addr (\<lambda>a.
           Option.bind (upd_blk p (\<lambda>b. b\<lparr>tp_type := ty, tp_family := sa_family a, tp_palen := alen, tp_fd := fd\<rparr>) g1) (\<lambda>g2.
             if fd \<ge> 0
             then map_option (\<lambda>g3. (Some p, si_act (tcp_opts fd (tcp_flags g)) g3))
                    (upd_blk p (\<lambda>b. b\<lparr>tp_paddr := Some a,
                        tp_flags := if need_smartc abuf then tp_flags b OR TPF_SAFEC else tp_flags b\<rparr>) g2)
             else map_option (\<lambda>g3. (None, g3)) (SItrash_tp p g2))))"

text \<open>
  \<open>safe_connect\<close>: a connection whose local address is the one connected to is aborted, as is one whose local
  address cannot be told.
\<close>

definition safe_connect :: "conn_env \<Rightarrow> int \<Rightarrow> sockaddr \<Rightarrow> ginfo \<Rightarrow> int \<times> ginfo" where
  "safe_connect e fd addr g =
     (if ce_connect e \<noteq> 0 then (ce_connect e, g)
      else if ce_sockname e \<noteq> None \<and> ce_sockname e \<noteq> Some addr then (0, g)
      else (-1, siabort_conn fd g))"

definition SIconnect :: "conn_env \<Rightarrow> string \<Rightarrow> ginfo \<Rightarrow> (int \<times> ginfo) option" where
  "SIconnect e abuf g =
     Option.bind (SIconn_prep e TCP_DEVICE abuf 0 g) (\<lambda>(tpptr, g1). case tpptr of
        None \<Rightarrow> Some (SI_ERROR, g1)
      | Some p \<Rightarrow>
         Option.bind (blk g1 p) (\<lambda>b. Option.bind (tp_paddr b) (\<lambda>taddr.
         let quick = (tcp_flags g1 AND SI_TF_QUICK \<noteq> 0);
             g2 = (if quick then si_act [SysOpt (tp_fd b) TCP_SYNCNT 2] g1 else g1);
             (fd, g3) = (if tp_flags b AND TPF_SAFEC \<noteq> 0
                         then let (st, g) = safe_connect e (tp_fd b) taddr g2 in (if st \<noteq> 0 then -1 else tp_fd b, g)
                         else if ce_connect e \<noteq> 0 then (-1, si_act [SysClose (tp_fd b)] g2) else (tp_fd b, g2))
         in Option.bind (upd_blk p (\<lambda>b. b\<lparr>tp_fd := fd\<rparr>) g3) (\<lambda>g4.
            if fd \<ge> 0
            then let g5 = (if quick then si_act [SysOpt fd TCP_SYNCNT (ce_syncnt e)] g4 else g4) in
                 Option.bind (upd_blk p (\<lambda>b. b\<lparr>tp_flags := tp_flags b OR TPF_SESSION\<rparr>) g5) (\<lambda>g6.
                 Option.bind (tp_link p g6) (\<lambda>g7.
                 map_option (\<lambda>g8. (fd, g8)) (SImap_fd fd p g7)))
            else map_option (\<lambda>g5. (SI_ERROR, g5)) (SItrash_tp p g4)))))"

record listen_env =
  le_gai :: resolver
  le_socket :: int
  le_bind :: int
  le_listen :: int

definition SIlisten_prep :: "listen_env \<Rightarrow> int \<Rightarrow> string \<Rightarrow> int \<Rightarrow> ginfo \<Rightarrow> (nat option \<times> ginfo) option" where
  "SIlisten_prep e type abuf family g =
     (let (p, g1) = SInew_tp g;
          (ty, protocol) = (if type = UDP_DEVICE then (SOCK_DGRAM, IPPROTO_UDP) else (SOCK_STREAM, IPPROTO_TCP));
          (alen, addr) = SIgenaddr (le_gai e) abuf protocol family ty;
          fd = le_socket e
      in if alen \<le> 0 then Some (None, set_blk p None g1)
         else Option.bind addr (\<lambda>a.
           Option.bind (upd_blk p (\<lambda>b. b\<lparr>tp_type := ty, tp_family := sa_family a, tp_fd := fd\<rparr>) g1) (\<lambda>g2.
             if fd \<ge> 0 \<and> le_bind e = 0
             then map_option (\<lambda>g3. (Some p, g3)) (upd_blk p (\<lambda>b. b\<lparr>tp_addr := Some a\<rparr>) (si_act [SysOpt fd SO_REUSEPORT 1] g2))
             else map_option (\<lambda>g3. (None, g3))
                    (SItrash_tp p (if fd \<ge> 0 then si_act [SysOpt fd SO_REUSEPORT 1, SysClose fd] g2 else g2)))))"

definition SIlistener :: "listen_env \<Rightarrow> int \<Rightarrow> string \<Rightarrow> ginfo \<Rightarrow> (int \<times> ginfo) option" where
  "SIlistener e type abuf g =
     Option.bind (SIlisten_prep e type abuf 0 g) (\<lambda>(tpptr, g1). case tpptr of
        None \<Rightarrow> Some (SI_ERROR, g1)
      | Some p \<Rightarrow>
         if type = TCP_DEVICE \<and> le_listen e < 0 then Some (SI_ERROR, g1)
         else Option.bind (if type = TCP_DEVICE then upd_blk p (\<lambda>b. b\<lparr>tp_flags := tp_flags b OR TPF_LISTENFD\<rparr>) g1 else Some g1) (\<lambda>g2.
              Option.bind (tp_link p g2) (\<lambda>g3.
              map_option (\<lambda>b. (tp_fd b, g3)) (blk g3 p))))"

text \<open>\<open>SIgetaddr\<close>: the address of the first listener; the text is cut at the size of the caller's buffer.\<close>

definition SIgetaddr :: "ginfo \<Rightarrow> (int \<times> string) option" where
  "SIgetaddr g =
     Option.bind (tp_search (length (gi_blks g)) (\<lambda>b. tp_flags b AND TPF_LISTENFD \<noteq> 0) (gi_tplist g) g) (\<lambda>r. case r of
        None \<Rightarrow> Some (SI_ERROR, [])
      | Some p \<Rightarrow> Option.bind (blk g p) (\<lambda>b. map_option (\<lambda>a. (0, take 256 (SIaddress_dot a))) (tp_addr b)))"

subsection \<open>Sending\<close>

text \<open>
  The loop that gives the bytes to the kernel, with the answers of the kernel to \<^verbatim>\<open>send\<close> and the bytes it took so far. The test
  for an interrupted call is the one of the code.
\<close>

fun sendt_loop :: "(int \<times> errno) list \<Rightarrow> bytes \<Rightarrow> int \<Rightarrow> bytes \<Rightarrow> (int \<times> errno \<times> bytes) option" where
  "sendt_loop ans [] status acc = Some (status, E0, acc)"
| "sendt_loop [] (x # xs) status acc = None"
| "sendt_loop ((n, e) # ans) (x # xs) status acc =
     (if n \<ge> 0 then sendt_loop ans (drop (nat n) (x # xs)) 0 (acc @ take (nat n) (x # xs))
      else if e \<noteq> EINTR \<or> e \<noteq> EAGAIN then Some (SI_ERROR, e, acc)
      else sendt_loop ans (x # xs) n acc)"

text \<open>
  \<open>SIsendt\<close>: \<open>sel\<close> is the result of the \<^verbatim>\<open>select\<close> and whether it reports an exception. The result has the status,
  \<^verbatim>\<open>errno\<close> and the bytes the kernel took.
\<close>

definition SIsendt :: "int \<times> bool \<Rightarrow> (int \<times> errno) list \<Rightarrow> int \<Rightarrow> bytes \<Rightarrow> ginfo \<Rightarrow> (int \<times> errno \<times> bytes \<times> ginfo) option" where
  "SIsendt sel ans fd ubuf g =
     (if fd < 0 then Some (SI_ERROR, EBADFD, [], g)
      else Option.bind (tp_of_fd fd g) (\<lambda>t. case t of
          None \<Rightarrow> Some (SI_ERROR, EBADFD, [], g)
        | Some p \<Rightarrow> Option.bind (blk g p) (\<lambda>b.
            if tp_fd b < 0 \<or> tp_fd b \<ge> FD_SETSIZE then Some (SI_ERROR, EBADFD, [], g)
            else let g1 = set_blk p (Some (b\<lparr>tp_sent := tp_sent b + 1\<rparr>)) g in
              if fst sel > 0
              then if snd sel then map_option (\<lambda>g2. (SI_ERROR, EBADFD, [], g2)) (SIterm p g1)
                   else map_option (\<lambda>(status, e, out). (status, e, out, g1)) (sendt_loop ans ubuf SI_ERROR [])
              else Some (18, EBUSY, [], g1))))"

text \<open>\<open>SIsend\<close>: the first buffer of the queue, sent or not; a session that drains is closed after the last one.\<close>

definition SIsend :: "nat \<Rightarrow> ginfo \<Rightarrow> ginfo option" where
  "SIsend p g = Option.bind (blk g p) (\<lambda>b.
     if tp_squeue b = [] then Some g
     else let g1 = set_blk p (Some (b\<lparr>tp_squeue := tl (tp_squeue b)\<rparr>)) g in
          if tp_flags b AND TPF_DRAIN \<noteq> 0 \<and> tl (tp_squeue b) = [] then SIterm p g1 else Some g1)"

subsection \<open>Closing\<close>

text \<open>
  \<open>SIclose\<close>: a negative descriptor asks for the first listener, or the first UDP block. The test for a listener is a logical
  conjunction, which holds for any flags but 0.
\<close>

definition SIclose :: "int \<Rightarrow> ginfo \<Rightarrow> (int \<times> ginfo) option" where
  "SIclose fd g =
     Option.bind
       (if fd \<ge> 0 then tp_of_fd fd g
        else tp_search (length (gi_blks g)) (\<lambda>b. if fd = TCP_LISTEN_PORT then tp_flags b \<noteq> 0 else tp_type b = SOCK_DGRAM) (gi_tplist g) g)
       (\<lambda>t. case t of
          None \<Rightarrow> Some (SI_ERROR, g)
        | Some p \<Rightarrow> Option.bind (blk g p) (\<lambda>b.
            if tp_squeue b = []
            then map_option (\<lambda>g2. (0, g2))
                   (SIterm p (si_act [SysOpt (tp_fd b) SO_LINGER 1]
                     (set_blk p (Some (b\<lparr>tp_flags := tp_flags b OR TPF_UNBIND OR TPF_DELETE\<rparr>)) g)))
            else Some (0, set_blk p (Some (b\<lparr>tp_flags := tp_flags b OR TPF_DRAIN\<rparr>)) g)))"

fun shutdown_loop :: "nat \<Rightarrow> u32 \<Rightarrow> nat option \<Rightarrow> ginfo \<Rightarrow> ginfo option" where
  "shutdown_loop fuel fl None g = Some g"
| "shutdown_loop 0 fl (Some p) g = None"
| "shutdown_loop (Suc fuel) fl (Some p) g =
     Option.bind (upd_blk p (\<lambda>b. b\<lparr>tp_flags := tp_flags b OR (TPF_UNBIND OR fl)\<rparr>) g) (\<lambda>g1.
     Option.bind (SIterm p g1) (\<lambda>g2.
     Option.bind (blk g2 p) (\<lambda>b. shutdown_loop fuel fl (tp_next b) g2)))"

definition sishutdown :: "u32 \<Rightarrow> ginfo \<Rightarrow> ginfo option" where
  "sishutdown fl g =
     (if gi_magic g = MAGICNUM
      then shutdown_loop (length (gi_blks g)) fl (gi_tplist g) (g\<lparr>gi_flags := gi_flags g OR GIF_SHUTDOWN\<rparr>) else Some g)"

definition SIshutdown :: "ginfo \<Rightarrow> ginfo option" where
  "SIshutdown g = sishutdown 0 g"

definition SIabort :: "ginfo \<Rightarrow> ginfo option" where
  "SIabort g = sishutdown TPF_ABORT g"

subsection \<open>Callbacks\<close>

definition SIcbreg :: "int \<Rightarrow> bool \<Rightarrow> ginfo \<Rightarrow> ginfo" where
  "SIcbreg type fptr g =
     (if gi_magic g = MAGICNUM \<and> type \<ge> 0 \<and> type < int MAX_CBS then g\<lparr>cbtab := (cbtab g)[nat type := fptr]\<rparr> else g)"

definition SIcbstat :: "int \<Rightarrow> nat \<Rightarrow> ginfo \<Rightarrow> ginfo" where
  "SIcbstat status type g =
     (if status = SI_RET_UNREG then g\<lparr>cbtab := (cbtab g)[type := False]\<rparr>
      else if status = SI_RET_QUIT then g\<lparr>gi_flags := gi_flags g OR GIF_SHUTDOWN\<rparr> else g)"

text \<open>A callback, when it is registered: its status if it was called, and what becomes of the states.\<close>

definition si_callback ::
    "nat \<Rightarrow> ('s \<Rightarrow> (int \<times> 's) option) \<Rightarrow> ginfo \<Rightarrow> 's \<Rightarrow> (int option \<times> ginfo \<times> 's) option" where
  "si_callback type f g s =
     (if cbtab g ! type then map_option (\<lambda>(st, s1). (Some st, SIcbstat st type g, s1)) (f s) else Some (None, g, s))"

subsection \<open>Waiting\<close>

text \<open>
  What the kernel does in a round: the result of \<^verbatim>\<open>select\<close>, whether it was interrupted, the descriptors it leaves in the sets, the
  bytes a receive gives (\<open>None\<close>: an error; no bytes: the end of the stream), and the sessions it accepts.
\<close>

record wait_env =
  we_pstat :: int
  we_intr :: bool
  we_rd :: "int set"
  we_wr :: "int set"
  we_ex :: "int set"
  we_recv :: "int \<Rightarrow> bytes option"
  we_accept :: "int \<Rightarrow> int \<times> sockaddr"
  we_mem :: bool

fun bldpoll_loop :: "nat \<Rightarrow> nat option \<Rightarrow> ginfo \<Rightarrow> ginfo option" where
  "bldpoll_loop fuel None g = Some g"
| "bldpoll_loop 0 (Some p) g = None"
| "bldpoll_loop (Suc fuel) (Some p) g = Option.bind (blk g p) (\<lambda>b.
     if tp_flags b AND TPF_DELETE \<noteq> 0
     then Option.bind (if tp_fd b \<ge> 0 then SIterm p g else Some g) (\<lambda>g1.
          Option.bind (SIrm_tpb p g1) (\<lambda>g2. bldpoll_loop fuel (tp_next b) g2))
     else if tp_fd b \<ge> FD_SETSIZE then None
     else bldpoll_loop fuel (tp_next b)
       (if tp_fd b \<ge> 0
        then g\<lparr>fdcount := if tp_fd b \<ge> fdcount g then tp_fd b + 1 else fdcount g, execpfds := insert (tp_fd b) (execpfds g),
               readfds := if tp_flags b AND TPF_DRAIN = 0 then insert (tp_fd b) (readfds g) else readfds g,
               writefds := if tp_squeue b \<noteq> [] then insert (tp_fd b) (writefds g) else writefds g\<rparr>
        else g))"

definition SIbldpoll :: "ginfo \<Rightarrow> ginfo option" where
  "SIbldpoll g = bldpoll_loop (length (gi_blks g)) (gi_tplist g) (g\<lparr>fdcount := -1, readfds := {}, writefds := {}, execpfds := {}\<rparr>)"

text \<open>\<open>SInewsession\<close> on the block of a listener: the status, and the states.\<close>

definition SInewsession :: "'s si_cbs \<Rightarrow> wait_env \<Rightarrow> nat \<Rightarrow> ginfo \<Rightarrow> 's \<Rightarrow> (int \<times> ginfo \<times> 's) option" where
  "SInewsession cbs e p g s = Option.bind (blk g p) (\<lambda>b.
     let (fd, addr) = we_accept e (tp_fd b) in
     if fd < 0 then Some (SI_ERROR, g, s)
     else if \<not> we_mem e then Some (SI_ERROR, si_act [SysClose fd] g, s)
     else let (n, g1) = SInew_tp g; buf = SIaddress_dot addr in
       Option.bind (tp_link n g1) (\<lambda>g2.
       Option.bind (upd_blk n (\<lambda>b. b\<lparr>tp_paddr := Some addr, tp_fd := fd\<rparr>) g2) (\<lambda>g3.
       let g4 = si_act (tcp_opts (tp_fd b) (tcp_flags g3)) g3 in
       Option.bind (si_callback SI_CB_SECURITY (cb_security cbs buf) g4 s) (\<lambda>(st, g5, s1).
         if st = Some SI_RET_ERROR then map_option (\<lambda>g6. (SI_ERROR, g6, s1)) (SIterm n g5)
         else Option.bind (upd_blk n (\<lambda>b. b\<lparr>tp_flags := tp_flags b OR TPF_SESSION\<rparr>) g5) (\<lambda>g6.
              Option.bind (si_callback SI_CB_CONN (cb_conn cbs fd buf) g6 s1) (\<lambda>(_, g7, s2).
              map_option (\<lambda>g8. (0, g8, s2)) (SImap_fd fd n g7)))))))"

text \<open>A descriptor that is ready to be read: a listener accepts, a session receives. The result has the last value of \<open>status\<close>.\<close>

definition read_event :: "'s si_cbs \<Rightarrow> wait_env \<Rightarrow> nat \<Rightarrow> tp_blk \<Rightarrow> ginfo \<Rightarrow> 's \<Rightarrow> (int \<times> ginfo \<times> 's) option" where
  "read_event cbs e p b g s =
     (let fd = tp_fd b in
      if tp_flags b AND TPF_LISTENFD \<noteq> 0 then SInewsession cbs e p g s
      else let st = (case we_recv e fd of None \<Rightarrow> -1 | Some d \<Rightarrow> int (length d)) in
        if st > 0 \<and> tp_flags b AND TPF_DRAIN = 0
        then map_option (\<lambda>(r, g2, s2). (case r of None \<Rightarrow> st | Some x \<Rightarrow> x, g2, s2))
               (si_callback SI_CB_CDATA (cb_cdata cbs fd (the (we_recv e fd))) g s)
        else Option.bind (si_callback SI_CB_DISC (cb_disc cbs fd) g s) (\<lambda>(r, g2, s2).
               map_option (\<lambda>g3. (case r of None \<Rightarrow> st | Some x \<Rightarrow> x, g3, s2)) (SIterm p g2)))"

definition wait_read :: "'s si_cbs \<Rightarrow> wait_env \<Rightarrow> nat \<Rightarrow> tp_blk \<Rightarrow> ginfo \<Rightarrow> 's \<Rightarrow> (int \<times> ginfo \<times> 's) option" where
  "wait_read cbs e p b g s = read_event cbs e p b (set_blk p (Some (b\<lparr>tp_rcvd := tp_rcvd b + 1\<rparr>)) g) s"

text \<open>One block of the list in a round of \<open>SIwait\<close>; \<open>status\<close> is the variable of that name.\<close>

definition wait_visit :: "'s si_cbs \<Rightarrow> wait_env \<Rightarrow> nat \<Rightarrow> int \<Rightarrow> ginfo \<Rightarrow> 's \<Rightarrow> (int \<times> ginfo \<times> 's) option" where
  "wait_visit cbs e p status g s = Option.bind (blk g p) (\<lambda>b.
     if tp_fd b < 0 then Some (status, g, s)
     else Option.bind (if tp_squeue b \<noteq> [] \<and> tp_fd b \<in> writefds g then SIsend p g else Some g) (\<lambda>g1.
       Option.bind (blk g1 p) (\<lambda>b1.
         if tp_fd b1 < 0 \<or> tp_fd b1 \<ge> FD_SETSIZE then None
         else if tp_fd b1 \<in> execpfds g1 \<or> tp_fd b1 \<notin> readfds g1 then Some (status, g1, s)
         else wait_read cbs e p b1 g1 s)))"

fun wait_loop :: "nat \<Rightarrow> 's si_cbs \<Rightarrow> wait_env \<Rightarrow> nat option \<Rightarrow> int \<Rightarrow> ginfo \<Rightarrow> 's \<Rightarrow> (int \<times> ginfo \<times> 's) option" where
  "wait_loop fuel cbs e None status g s = Some (status, g, s)"
| "wait_loop 0 cbs e (Some p) status g s = None"
| "wait_loop (Suc fuel) cbs e (Some p) status g s = Option.bind (blk g p) (\<lambda>b.
     Option.bind (wait_visit cbs e p status g s) (\<lambda>(st, g1, s1). wait_loop fuel cbs e (tp_next b) st g1 s1))"

text \<open>
  A round of the wait. The result of \<^verbatim>\<open>select\<close> is the kernel's, except that a negative number of descriptors is refused
  (\<^verbatim>\<open>EINVAL\<close>): this is what \<open>SIbldpoll\<close> leaves when it finds no open descriptor.
\<close>

definition select_count :: "wait_env \<Rightarrow> ginfo \<Rightarrow> int" where
  "select_count e g = (if fdcount g < 0 then -1 else we_pstat e)"

definition select_error :: "wait_env \<Rightarrow> ginfo \<Rightarrow> bool" where
  "select_error e g = (fdcount g < 0 \<or> we_pstat e < 0 \<and> \<not> we_intr e)"

definition wait_round :: "'s si_cbs \<Rightarrow> wait_env \<Rightarrow> int \<Rightarrow> ginfo \<Rightarrow> 's \<Rightarrow> (int \<times> ginfo \<times> 's) option" where
  "wait_round cbs e status g s = Option.bind (SIbldpoll g) (\<lambda>g1.
     let g2 = g1\<lparr>readfds := we_rd e, writefds := we_wr e, execpfds := we_ex e\<rparr>;
         g3 = (if select_error e g1 then g2\<lparr>fdcount := 0, gi_flags := gi_flags g2 OR GIF_SHUTDOWN\<rparr> else g2)
     in if select_count e g1 > 0 \<and> gi_flags g3 AND GIF_SHUTDOWN = 0
        then wait_loop (length (gi_blks g3)) cbs e (gi_tplist g3) status g3 s
        else Some (status, g3, s))"

text \<open>
  The loop of \<open>SIwait\<close> over the rounds the kernel provides, and what comes after it: the test for the end of all sessions governs
  the whole statement that follows it.
\<close>

fun wait_rounds :: "'s si_cbs \<Rightarrow> wait_env list \<Rightarrow> int \<Rightarrow> ginfo \<Rightarrow> 's \<Rightarrow> (int \<times> ginfo \<times> 's) option" where
  "wait_rounds cbs [] status g s = None"
| "wait_rounds cbs (e # es) status g s = Option.bind (wait_round cbs e status g s) (\<lambda>(st, g1, s1).
     if gi_tplist g1 \<noteq> None \<and> gi_flags g1 AND GIF_SHUTDOWN = 0 then wait_rounds cbs es st g1 s1 else Some (st, g1, s1))"

definition SIwait :: "'s si_cbs \<Rightarrow> wait_env list \<Rightarrow> ginfo \<Rightarrow> 's \<Rightarrow> (int \<times> ginfo \<times> 's) option" where
  "SIwait cbs es g s =
     (if gi_magic g \<noteq> MAGICNUM \<or> gi_flags g AND GIF_SHUTDOWN \<noteq> 0 then Some (SI_ERROR, g, s)
      else Option.bind (wait_rounds cbs es 0 g s) (\<lambda>(st, g1, s1).
        if gi_tplist g1 = None
        then if gi_flags g1 AND GIF_SHUTDOWN \<noteq> 0 then map_option (\<lambda>g2. (SI_ERROR, g2, s1)) (SIshutdown g1)
             else Some (0, g1, s1)
        else Some (st, g1, s1)))"

subsection \<open>Polling\<close>

text \<open>
  \<open>SIpoll\<close>: one round, with the keyboard and datagram sockets. \<open>kdata\<close> and \<open>rdata\<close> are the callbacks for these, \<open>keyb\<close> is the line
  read from the keyboard, and \<open>from\<close> is what the address of the sender of a datagram is found to be.
\<close>

abbreviation (input) SI_CB_RDATA :: nat where "SI_CB_RDATA \<equiv> 1"
abbreviation (input) SI_CB_KDATA :: nat where "SI_CB_KDATA \<equiv> 3"

type_synonym 's raw_cb = "bytes \<Rightarrow> string \<Rightarrow> 's \<Rightarrow> (int \<times> 's) option"

definition poll_read :: "'s si_cbs \<Rightarrow> 's raw_cb \<Rightarrow> (int \<Rightarrow> sockaddr) \<Rightarrow> wait_env \<Rightarrow> nat \<Rightarrow> tp_blk \<Rightarrow> ginfo \<Rightarrow> 's \<Rightarrow> (ginfo \<times> 's) option" where
  "poll_read cbs rdata from e p b g s =
     (if tp_flags b AND TPF_LISTENFD = 0 \<and> tp_type b = SOCK_DGRAM
      then (case we_recv e (tp_fd b) of
              Some d \<Rightarrow> if tp_flags b AND TPF_DRAIN = 0
                        then map_option snd (si_callback SI_CB_RDATA (rdata d (SIaddress_dot (from (tp_fd b)))) g s) else Some (g, s)
            | None \<Rightarrow> Some (g, s))
      else map_option snd (read_event cbs e p b g s))"

definition poll_visit :: "'s si_cbs \<Rightarrow> 's raw_cb \<Rightarrow> (int \<Rightarrow> sockaddr) \<Rightarrow> wait_env \<Rightarrow> nat \<Rightarrow> ginfo \<Rightarrow> 's \<Rightarrow> (ginfo \<times> 's) option" where
  "poll_visit cbs rdata from e p g s = Option.bind (blk g p) (\<lambda>b.
     if tp_fd b < 0 \<or> tp_fd b \<ge> FD_SETSIZE then None
     else Option.bind (if tp_squeue b \<noteq> [] \<and> tp_fd b \<in> writefds g then SIsend p g else Some g) (\<lambda>g1.
       Option.bind (blk g1 p) (\<lambda>b1.
         if tp_fd b1 < 0 \<or> tp_fd b1 \<ge> FD_SETSIZE then None
         else if tp_fd b1 \<in> execpfds g1 \<or> tp_fd b1 \<notin> readfds g1 then Some (g1, s)
         else poll_read cbs rdata from e p b1 g1 s)))"

fun poll_loop :: "nat \<Rightarrow> 's si_cbs \<Rightarrow> 's raw_cb \<Rightarrow> (int \<Rightarrow> sockaddr) \<Rightarrow> wait_env \<Rightarrow> nat option \<Rightarrow> ginfo \<Rightarrow> 's \<Rightarrow> (ginfo \<times> 's) option" where
  "poll_loop fuel cbs rdata from e None g s = Some (g, s)"
| "poll_loop 0 cbs rdata from e (Some p) g s = None"
| "poll_loop (Suc fuel) cbs rdata from e (Some p) g s = Option.bind (blk g p) (\<lambda>b.
     Option.bind (poll_visit cbs rdata from e p g s) (\<lambda>(g1, s1). poll_loop fuel cbs rdata from e (tp_next b) g1 s1))"

definition SIpoll ::
    "'s si_cbs \<Rightarrow> (string \<Rightarrow> 's \<Rightarrow> (int \<times> 's) option) \<Rightarrow> 's raw_cb \<Rightarrow> string \<Rightarrow> (int \<Rightarrow> sockaddr) \<Rightarrow> wait_env \<Rightarrow> ginfo \<Rightarrow> 's
      \<Rightarrow> (int \<times> ginfo \<times> 's) option" where
  "SIpoll cbs kdata rdata keyb from e g s =
     (if gi_flags g AND GIF_SHUTDOWN \<noteq> 0 \<or> gi_magic g \<noteq> MAGICNUM then Some (SI_ERROR, g, s)
      else Option.bind (SIbldpoll g) (\<lambda>g1.
        let called = (fdcount g1 > 0);
            pstat = (if called then we_pstat e else 0);
            g2 = (if called then g1\<lparr>readfds := we_rd e, writefds := we_wr e, execpfds := we_ex e\<rparr> else g1);
            g3 = (if pstat < 0 \<and> \<not> we_intr e then g2\<lparr>fdcount := 0, gi_flags := gi_flags g2 OR GIF_SHUTDOWN\<rparr> else g2)
        in Option.bind
             (if pstat > 0 \<and> gi_flags g3 AND GIF_SHUTDOWN = 0
              then Option.bind (if 0 \<in> readfds g3 then map_option snd (si_callback SI_CB_KDATA (kdata (take 1023 keyb)) g3 s) else Some (g3, s))
                     (\<lambda>(g4, s4). poll_loop (length (gi_blks g4)) cbs rdata from e (gi_tplist g4) g4 s4)
              else Some (g3, s))
             (\<lambda>(g5, s5). if gi_flags g5 AND GIF_SHUTDOWN \<noteq> 0 then map_option (\<lambda>g6. (SI_ERROR, g6, s5)) (SIshutdown g5)
                         else Some (0, g5, s5))))"

text \<open>
  \<open>SIrcv\<close>: what the kernel does for it is the result of the \<^verbatim>\<open>select\<close>, the sets it leaves the descriptor in, the bytes of the receive
  and the sender of a datagram. The result has the status, the bytes put into the caller's buffer, and the address put there.
\<close>

record rcv_env =
  re_select :: int
  re_ex :: bool
  re_rd :: bool
  re_recv :: "bytes option"
  re_from :: sockaddr

definition rcv_ready :: "rcv_env \<Rightarrow> nat \<Rightarrow> tp_blk \<Rightarrow> ginfo \<Rightarrow> (int \<times> bytes \<times> string \<times> ginfo) option" where
  "rcv_ready e p b g =
     (let a = (if tp_type b = SOCK_DGRAM then take 64 (SIaddress_dot (re_from e)) else []) in
      case re_recv e of
        Some d \<Rightarrow> Some (int (length d), d, a, g)
      | None \<Rightarrow> map_option (\<lambda>g1. (-1, [], a, g1)) (SIterm p g))"

definition SIrcv :: "rcv_env \<Rightarrow> int \<Rightarrow> ginfo \<Rightarrow> (int \<times> bytes \<times> string \<times> ginfo) option" where
  "SIrcv e sid g =
     (if gi_magic g \<noteq> MAGICNUM then Some (SI_ERROR, [], [], g)
      else Option.bind (tp_search (length (gi_blks g)) (\<lambda>b. tp_fd b = sid) (gi_tplist g) g) (\<lambda>t. case t of
          None \<Rightarrow> Some (SI_ERROR, [], [], g)
        | Some p \<Rightarrow> Option.bind (blk g p) (\<lambda>b.
            Option.bind
              (if gi_flags g AND GIF_SHUTDOWN \<noteq> 0 then Some (SI_ERROR, [], [], g)
               else if tp_fd b < 0 \<or> tp_fd b \<ge> FD_SETSIZE then None
               else if re_select e < 0 then Some (SI_ERROR, [], [], g\<lparr>gi_flags := gi_flags g OR GIF_SHUTDOWN\<rparr>)
               else if re_ex e then map_option (\<lambda>g1. (SI_ERROR, [], [], g1)) (SIterm p g)
               else if re_rd e then rcv_ready e p b g
               else Some (0, [], [], g))
              (\<lambda>(st, d, a, g1). if gi_flags g1 AND GIF_SHUTDOWN \<noteq> 0 \<and> gi_tplist g1 \<noteq> None
                 then map_option (\<lambda>g2. (SI_ERROR, d, a, g2)) (SIshutdown g1) else Some (st, d, a, g1)))))"

end
