(* ===== verification/Si95Inv.thy ===== *)
theory Si95Inv
  imports Si95
begin

text \<open>
  The invariant of the transport: the blocks form a doubly linked list, the map leads from a descriptor to the block that
  has it, descriptors are used once, and a block is marked for deletion exactly when its descriptor is closed.
\<close>


subsection \<open>Doubly linked lists\<close>

definition hdopt :: "'a list \<Rightarrow> 'a option" where
  "hdopt xs = (case xs of [] \<Rightarrow> None | x # _ \<Rightarrow> Some x)"

definition lastopt :: "'a option \<Rightarrow> 'a list \<Rightarrow> 'a option" where
  "lastopt d xs = (if xs = [] then d else Some (last xs))"

lemma hdopt_simps [simp]: "hdopt [] = None" "hdopt (x # xs) = Some x"
  by (simp_all add: hdopt_def)

lemma hdopt_append: "hdopt (xs @ ys) = (if xs = [] then hdopt ys else hdopt xs)"
  by (cases xs) simp_all

lemma lastopt_simps [simp]: "lastopt d [] = d" "lastopt d (xs @ [x]) = Some x" "lastopt d [x] = Some x"
  by (simp_all add: lastopt_def)

lemma lastopt_Cons [simp]: "lastopt d (x # xs) = lastopt (Some x) xs"
  by (simp add: lastopt_def)

text \<open>The nodes \<open>ps\<close>, one after the other, with \<open>pr\<close> before the first and \<open>nx\<close> behind the last.\<close>

fun dseg :: "(nat \<Rightarrow> tp_blk option) \<Rightarrow> nat option \<Rightarrow> nat list \<Rightarrow> nat option \<Rightarrow> bool" where
  "dseg h pr [] nx = True"
| "dseg h pr (p # ps) nx = (\<exists>b. h p = Some b \<and> tp_prev b = pr \<and> tp_next b = (if ps = [] then nx else hdopt ps) \<and> dseg h (Some p) ps nx)"

lemma dseg_append: "dseg h pr (as @ bs) nx \<longleftrightarrow> dseg h pr as (if bs = [] then nx else hdopt bs) \<and> dseg h (lastopt pr as) bs nx"
proof (induction as arbitrary: pr)
  case (Cons a as)
  then show ?case by (cases "as = []"; cases "bs = []") (auto simp: hdopt_append)
qed simp

lemma dseg_cong:
  assumes "\<And>p. p \<in> set ps \<Longrightarrow> map_option (\<lambda>b. (tp_prev b, tp_next b)) (h p) = map_option (\<lambda>b. (tp_prev b, tp_next b)) (h' p)"
  shows "dseg h pr ps nx = dseg h' pr ps nx"
  using assms
proof (induction ps arbitrary: pr)
  case (Cons p ps)
  have "dseg h (Some p) ps nx = dseg h' (Some p) ps nx" using Cons by simp
  moreover have "map_option (\<lambda>b. (tp_prev b, tp_next b)) (h p) = map_option (\<lambda>b. (tp_prev b, tp_next b)) (h' p)" using Cons.prems by simp
  ultimately show ?case by (cases "h p"; cases "h' p") auto
qed simp

lemma dseg_live: "dseg h pr ps nx \<Longrightarrow> p \<in> set ps \<Longrightarrow> h p \<noteq> None"
  by (induction ps arbitrary: pr) auto

lemma dseg_next:
  assumes "dseg h pr (as @ p # bs) nx" "h p = Some b"
  shows "tp_prev b = lastopt pr as" "tp_next b = (if bs = [] then nx else hdopt bs)"
  using assms by (auto simp: dseg_append)

text \<open>The first and the last node pointed elsewhere.\<close>

lemma dseg_set_prev:
  assumes "dseg h pr (p # ps) nx" "distinct (p # ps)" "h p = Some b"
  shows "dseg (h(p \<mapsto> b\<lparr>tp_prev := pr'\<rparr>)) pr' (p # ps) nx"
proof -
  have "dseg (h(p \<mapsto> b\<lparr>tp_prev := pr'\<rparr>)) (Some p) ps nx = dseg h (Some p) ps nx"
    by (rule dseg_cong) (use assms(2) in auto)
  then show ?thesis using assms by auto
qed

lemma dseg_set_next:
  assumes "dseg h pr (ps @ [p]) nx" "distinct (ps @ [p])" "h p = Some b"
  shows "dseg (h(p \<mapsto> b\<lparr>tp_next := nx'\<rparr>)) pr (ps @ [p]) nx'"
proof -
  have "dseg (h(p \<mapsto> b\<lparr>tp_next := nx'\<rparr>)) pr ps (Some p) = dseg h pr ps (Some p)"
    by (rule dseg_cong) (use assms(2) in auto)
  then show ?thesis using assms by (auto simp: dseg_append)
qed

subsection \<open>The store of blocks\<close>

lemma blk_set [simp]: "p < length (gi_blks g) \<Longrightarrow> blk (set_blk p b g) q = (if q = p then b else blk g q)"
  by (simp add: blk_def set_blk_def)

lemma blk_Some_less: "blk g p = Some b \<Longrightarrow> p < length (gi_blks g)"
  by (simp add: blk_def split: if_splits)

lemma blk_fields [simp]:
  "blk (g\<lparr>gi_tplist := x\<rparr>) = blk g" "blk (g\<lparr>readfds := a\<rparr>) = blk g" "blk (g\<lparr>writefds := a\<rparr>) = blk g"
  "blk (g\<lparr>execpfds := a\<rparr>) = blk g" "blk (g\<lparr>cbtab := c\<rparr>) = blk g" "blk (g\<lparr>fdcount := n\<rparr>) = blk g" "blk (g\<lparr>gi_flags := f\<rparr>) = blk g"
  "blk (g\<lparr>tcp_flags := f\<rparr>) = blk g" "blk (g\<lparr>tp_map := m\<rparr>) = blk g" "blk (g\<lparr>si_log := l\<rparr>) = blk g" "blk (si_act as g) = blk g"
  by (simp_all add: fun_eq_iff blk_def si_act_def)

lemma set_blk_fields [simp]:
  "gi_tplist (set_blk p b g) = gi_tplist g" "tp_map (set_blk p b g) = tp_map g" "cbtab (set_blk p b g) = cbtab g"
  "gi_flags (set_blk p b g) = gi_flags g" "tcp_flags (set_blk p b g) = tcp_flags g" "si_log (set_blk p b g) = si_log g"
  "gi_magic (set_blk p b g) = gi_magic g" "readfds (set_blk p b g) = readfds g" "writefds (set_blk p b g) = writefds g"
  "execpfds (set_blk p b g) = execpfds g" "length (gi_blks (set_blk p b g)) = length (gi_blks g)"
  by (simp_all add: set_blk_def)

lemma si_act_fields [simp]:
  "gi_tplist (si_act as g) = gi_tplist g" "tp_map (si_act as g) = tp_map g" "cbtab (si_act as g) = cbtab g"
  "gi_flags (si_act as g) = gi_flags g" "tcp_flags (si_act as g) = tcp_flags g" "si_log (si_act as g) = si_log g @ as"
  "gi_magic (si_act as g) = gi_magic g" "readfds (si_act as g) = readfds g" "writefds (si_act as g) = writefds g"
  "execpfds (si_act as g) = execpfds g" "gi_blks (si_act as g) = gi_blks g"
  by (simp_all add: si_act_def)

lemma upd_blk_Some: "blk g p = Some b \<Longrightarrow> upd_blk p f g = Some (set_blk p (Some (f b)) g)"
  by (simp add: upd_blk_def)

text \<open>A block without its links.\<close>

definition core :: "tp_blk \<Rightarrow> tp_blk" where
  "core b = b\<lparr>tp_next := None, tp_prev := None\<rparr>"

lemma core_links [simp]: "core (b\<lparr>tp_next := x\<rparr>) = core b" "core (b\<lparr>tp_prev := x\<rparr>) = core b"
  by (simp_all add: core_def)

lemma core_eq:
  assumes "core b = core c"
  shows "tp_fd b = tp_fd c" "tp_flags b = tp_flags c" "tp_squeue b = tp_squeue c" "tp_type b = tp_type c"
  using assms by (cases b; cases c; simp add: core_def)+

subsection \<open>The invariant\<close>

definition si_list :: "ginfo \<Rightarrow> nat list \<Rightarrow> bool" where
  "si_list g ps = (gi_tplist g = hdopt ps \<and> distinct ps \<and> dseg (blk g) None ps None)"

definition blk_ok :: "nat option list \<Rightarrow> nat \<Rightarrow> tp_blk \<Rightarrow> bool" where
  "blk_ok M p b = (tp_squeue b = [] \<and> (tp_flags b AND TPF_DELETE \<noteq> 0 \<longleftrightarrow> tp_fd b < 0) \<and> tp_flags b AND TPF_DRAIN = 0 \<and>
     tp_fd b < FD_SETSIZE \<and> (0 \<le> tp_fd b \<and> tp_flags b AND TPF_LISTENFD = 0 \<longrightarrow> M ! nat (tp_fd b) = Some p))"

definition sess_ok :: "nat option list \<Rightarrow> (nat \<Rightarrow> tp_blk option) \<Rightarrow> nat set \<Rightarrow> bool" where
  "sess_ok M h P = (length M = 2048 \<and> (\<forall>p\<in>P. \<forall>b. h p = Some b \<longrightarrow> blk_ok M p b) \<and>
     (\<forall>n<2048. \<forall>p. M ! n = Some p \<longrightarrow> p \<in> P \<and> (\<exists>b. h p = Some b \<and> tp_fd b = int n \<and> tp_flags b AND TPF_LISTENFD = 0)) \<and>
     (\<forall>p\<in>P. \<forall>q\<in>P. \<forall>b c. h p = Some b \<and> h q = Some c \<and> tp_fd b = tp_fd c \<and> 0 \<le> tp_fd b \<longrightarrow> p = q))"

definition si_inv :: "ginfo \<Rightarrow> nat list \<Rightarrow> bool" where
  "si_inv g ps = (si_list g ps \<and> sess_ok (tp_map g) (blk g) (set ps) \<and> gi_magic g = MAGICNUM \<and> length (cbtab g) = MAX_CBS)"

lemma sess_okD:
  assumes "sess_ok M h P"
  shows "length M = 2048" "p \<in> P \<Longrightarrow> h p = Some b \<Longrightarrow> blk_ok M p b"
    "n < 2048 \<Longrightarrow> M ! n = Some p \<Longrightarrow> p \<in> P \<and> (\<exists>b. h p = Some b \<and> tp_fd b = int n \<and> tp_flags b AND TPF_LISTENFD = 0)"
    "p \<in> P \<Longrightarrow> q \<in> P \<Longrightarrow> h p = Some b \<Longrightarrow> h q = Some c \<Longrightarrow> tp_fd b = tp_fd c \<Longrightarrow> 0 \<le> tp_fd b \<Longrightarrow> p = q"
  using assms by (auto simp: sess_ok_def)

lemma sess_ok_cong:
  assumes "\<And>p. p \<in> P \<Longrightarrow> map_option core (h p) = map_option core (h' p)"
  shows "sess_ok M h P = sess_ok M h' P"
proof -
  have one: "sess_ok M f P" if c: "\<And>p. p \<in> P \<Longrightarrow> map_option core (h p) = map_option core (f p)" and s: "sess_ok M h P" for h f
  proof -
    have f: "\<exists>c. h p = Some c \<and> tp_fd b = tp_fd c \<and> tp_flags b = tp_flags c \<and> tp_squeue b = tp_squeue c" if t: "p \<in> P" "f p = Some b" for p b
    proof -
      obtain x where "h p = Some x" "core b = core x" using c [OF t(1)] t(2) by (cases "h p") auto
      then show ?thesis using core_eq [of b x] by blast
    qed
    have g: "\<exists>c. f p = Some c \<and> tp_fd b = tp_fd c \<and> tp_flags b = tp_flags c" if t: "p \<in> P" "h p = Some b" for p b
    proof -
      obtain x where "f p = Some x" "core b = core x" using c [OF t(1)] t(2) by (cases "f p") auto
      then show ?thesis using core_eq [of b x] by blast
    qed
    show ?thesis unfolding sess_ok_def
    proof (intro conjI ballI allI impI)
      fix p b assume t: "p \<in> P" "f p = Some b"
      obtain x where x: "h p = Some x" "tp_fd b = tp_fd x" "tp_flags b = tp_flags x" "tp_squeue b = tp_squeue x" using f [OF t] by blast
      show "blk_ok M p b" using sess_okD(2) [OF s t(1) x(1)] unfolding blk_ok_def x(2-4) .
    next
      fix n p assume t: "n < (2048 :: nat)" "M ! n = Some p"
      obtain x where x: "p \<in> P" "h p = Some x" "tp_fd x = int n" "tp_flags x AND TPF_LISTENFD = 0" using sess_okD(3) [OF s t] by blast
      obtain y where "f p = Some y" "tp_fd x = tp_fd y" "tp_flags x = tp_flags y" using g [OF x(1,2)] by blast
      then show "p \<in> P" "\<exists>b. f p = Some b \<and> tp_fd b = int n \<and> tp_flags b AND TPF_LISTENFD = 0" using x by simp_all
    next
      fix p q b c assume t: "p \<in> P" "q \<in> P" "f p = Some b \<and> f q = Some c \<and> tp_fd b = tp_fd c \<and> 0 \<le> tp_fd b"
      obtain x y where "h p = Some x" "tp_fd b = tp_fd x" "h q = Some y" "tp_fd c = tp_fd y" using f [OF t(1)] f [OF t(2)] t(3) by blast
      then show "p = q" using sess_okD(4) [OF s t(1,2), of x y] t(3) by simp
    qed (rule sess_okD(1) [OF s])
  qed
  show ?thesis
  proof
    show "sess_ok M h P \<Longrightarrow> sess_ok M h' P" by (rule one) (rule assms)
    show "sess_ok M h' P \<Longrightarrow> sess_ok M h P" by (rule one) (rule assms [symmetric])
  qed
qed

lemma si_listD:
  assumes "si_list g ps"
  shows "gi_tplist g = hdopt ps" "distinct ps" "dseg (blk g) None ps None" "p \<in> set ps \<Longrightarrow> \<exists>b. blk g p = Some b"
    "length ps \<le> length (gi_blks g)"
proof -
  show 1: "gi_tplist g = hdopt ps" "distinct ps" "dseg (blk g) None ps None" using assms by (simp_all add: si_list_def)
  show l: "p \<in> set ps \<Longrightarrow> \<exists>b. blk g p = Some b" for p using dseg_live [OF 1(3), of p] by auto
  have "set ps \<subseteq> {..<length (gi_blks g)}" using l blk_Some_less by blast
  then have "card (set ps) \<le> length (gi_blks g)" using card_mono [of "{..<length (gi_blks g)}"] by simp
  then show "length ps \<le> length (gi_blks g)" using 1(2) distinct_card by fastforce
qed

lemma si_list_cong:
  assumes "gi_tplist g' = gi_tplist g"
    "\<And>p. p \<in> set ps \<Longrightarrow> map_option (\<lambda>b. (tp_prev b, tp_next b)) (blk g' p) = map_option (\<lambda>b. (tp_prev b, tp_next b)) (blk g p)"
  shows "si_list g' ps = si_list g ps"
  using assms(1) dseg_cong [of ps "blk g'" "blk g" None None] assms(2) by (simp add: si_list_def)

subsection \<open>Linking and unlinking\<close>

lemma blk_upd [simp]: "p < length (gi_blks g) \<Longrightarrow> blk (g\<lparr>gi_blks := (gi_blks g)[p := b]\<rparr>) = (blk g)(p := b)"
  by (auto simp: fun_eq_iff blk_def)

lemma blk_set_fun: "p < length (gi_blks g) \<Longrightarrow> blk (set_blk p b g) = (blk g)(p := b)"
  by (simp add: set_blk_def)

text \<open>What linking leaves alone: everything but the head of the list and the links of the blocks.\<close>

definition relinked :: "ginfo \<Rightarrow> ginfo \<Rightarrow> bool" where
  "relinked g g' = (\<exists>t B. g' = g\<lparr>gi_tplist := t, gi_blks := B\<rparr> \<and> length B = length (gi_blks g))"

lemma relinked_fields:
  assumes "relinked g g'"
  shows "tp_map g' = tp_map g" "cbtab g' = cbtab g" "gi_flags g' = gi_flags g" "tcp_flags g' = tcp_flags g" "si_log g' = si_log g"
    "gi_magic g' = gi_magic g" "readfds g' = readfds g" "writefds g' = writefds g" "execpfds g' = execpfds g"
    "length (gi_blks g') = length (gi_blks g)"
  using assms by (auto simp: relinked_def)

lemma relinked_ops: "relinked g (set_blk p b g)" "relinked g (g\<lparr>gi_tplist := t\<rparr>)" "relinked g g"
proof -
  have "set_blk p b g = g\<lparr>gi_tplist := gi_tplist g, gi_blks := (gi_blks g)[p := b]\<rparr>" by (simp add: set_blk_def)
  then show "relinked g (set_blk p b g)" unfolding relinked_def by (intro exI [of _ "gi_tplist g"] exI [of _ "(gi_blks g)[p := b]"]) simp
  have "g\<lparr>gi_tplist := t\<rparr> = g\<lparr>gi_tplist := t, gi_blks := gi_blks g\<rparr>" by simp
  then show "relinked g (g\<lparr>gi_tplist := t\<rparr>)" unfolding relinked_def by (intro exI [of _ t] exI [of _ "gi_blks g"]) simp
  have "g = g\<lparr>gi_tplist := gi_tplist g, gi_blks := gi_blks g\<rparr>" by simp
  then show "relinked g g" unfolding relinked_def by (intro exI [of _ "gi_tplist g"] exI [of _ "gi_blks g"]) simp
qed

lemma relinked_trans:
  assumes "relinked a b" "relinked b c"
  shows "relinked a c"
proof -
  obtain t B u C where "b = a\<lparr>gi_tplist := t, gi_blks := B\<rparr>" "length B = length (gi_blks a)" "c = b\<lparr>gi_tplist := u, gi_blks := C\<rparr>" "length C = length (gi_blks b)"
    using assms unfolding relinked_def by blast
  then have "c = a\<lparr>gi_tplist := u, gi_blks := C\<rparr>" "length C = length (gi_blks a)" by simp_all
  then show ?thesis unfolding relinked_def by blast
qed

text \<open>A new block at the head.\<close>

lemma tp_link_ok:
  assumes l: "si_list g ps" and b: "blk g p = Some b" "p \<notin> set ps" "tp_prev b = None"
  obtains g' where "tp_link p g = Some g'" "si_list g' (p # ps)" "relinked g g'" "\<And>q. map_option core (blk g' q) = map_option core (blk g q)"
proof (cases ps)
  case Nil
  let ?g = "(set_blk p (Some (b\<lparr>tp_next := None\<rparr>)) g)\<lparr>gi_tplist := Some p\<rparr>"
  have t: "gi_tplist g = None" using si_listD(1) [OF l] Nil by simp
  have "tp_link p g = Some ?g" using b(1) by (simp add: tp_link_def t upd_blk_Some)
  moreover have "si_list ?g [p]" using b by (simp add: si_list_def blk_Some_less)
  moreover have "map_option core (blk ?g q) = map_option core (blk g q)" for q using b(1) by (simp add: blk_Some_less)
  ultimately show ?thesis using that Nil relinked_trans [OF relinked_ops(1) relinked_ops(2)] by blast
next
  case (Cons q qs)
  have t: "gi_tplist g = Some q" "distinct ps" using si_listD(1,2) [OF l] Cons by simp_all
  obtain c where c: "blk g q = Some c" using si_listD(4) [OF l, of q] Cons by auto
  have pq: "p \<noteq> q" using b(2) Cons by auto
  let ?b = "b\<lparr>tp_next := Some q\<rparr>" and ?c = "c\<lparr>tp_prev := Some p\<rparr>"
  let ?g1 = "set_blk p (Some ?b) g"
  let ?g = "(set_blk q (Some ?c) ?g1)\<lparr>gi_tplist := Some p\<rparr>"
  have h: "blk ?g = (blk g)(p \<mapsto> ?b, q \<mapsto> ?c)" using b(1) c pq by (simp add: blk_Some_less blk_set_fun)
  have "tp_link p g = Some ?g" using b(1) c pq by (simp add: tp_link_def t upd_blk_Some blk_Some_less)
  moreover have "si_list ?g (p # ps)"
  proof -
    have "dseg ((blk g)(q \<mapsto> ?c)) (Some p) (q # qs) None"
      using dseg_set_prev [of "blk g" None q qs None c] si_listD(3) [OF l] t(2) c Cons by simp
    moreover have "dseg ((blk g)(q \<mapsto> ?c)) (Some p) (q # qs) None = dseg (blk ?g) (Some p) (q # qs) None"
      unfolding h by (rule dseg_cong) (use b(2) Cons in auto)
    moreover have "blk ?g p = Some ?b" "tp_prev ?b = None" "tp_next ?b = Some q" unfolding h using b(3) pq by simp_all
    ultimately have "dseg (blk ?g) None (p # q # qs) None" by (subst dseg.simps) auto
    then show ?thesis using t(2) b(2) Cons by (simp add: si_list_def)
  qed
  moreover have "map_option core (blk ?g x) = map_option core (blk g x)" for x unfolding h using b(1) c by simp
  moreover have "relinked g ?g" using relinked_trans relinked_ops by blast
  ultimately show ?thesis using that by blast
qed

text \<open>A block taken out of the list, which has another one.\<close>

lemma SIrm_tpb_ok:
  assumes l: "si_list g (as @ p # bs)" and ne: "as @ bs \<noteq> []"
  obtains g' where "SIrm_tpb p g = Some g'" "si_list g' (as @ bs)" "relinked g g'" "blk g' p = None"
    "\<And>q. q \<noteq> p \<Longrightarrow> map_option core (blk g' q) = map_option core (blk g q)" "\<And>q. q \<notin> set (as @ p # bs) \<Longrightarrow> blk g' q = blk g q"
proof -
  note d = si_listD(2,3) [OF l]
  obtain b where b: "blk g p = Some b" using si_listD(4) [OF l, of p] by auto
  have ln: "tp_prev b = lastopt None as" "tp_next b = hdopt bs" using dseg_next [OF d(2) b] by (auto split: if_splits)
  have seg: "dseg (blk g) None as (Some p)" "dseg (blk g) (Some p) bs None" using d(2) by (auto simp: dseg_append)
  define g1 where "g1 = (if as = [] then g\<lparr>gi_tplist := hdopt bs\<rparr> else set_blk (last as) (Some ((the (blk g (last as)))\<lparr>tp_next := hdopt bs\<rparr>)) g)"
  define g2 where "g2 = (if bs = [] then g1 else set_blk (hd bs) (Some ((the (blk g (hd bs)))\<lparr>tp_prev := lastopt None as\<rparr>)) g1)"
  have dis: "distinct as" "distinct bs" "set as \<inter> set bs = {}" "p \<notin> set as" "p \<notin> set bs" using d(1) by auto
  have la: "as \<noteq> [] \<Longrightarrow> \<exists>a. blk g (last as) = Some a" and hb: "bs \<noteq> [] \<Longrightarrow> \<exists>c. blk g (hd bs) = Some c"
    using si_listD(4) [OF l, of "last as"] si_listD(4) [OF l, of "hd bs"] last_in_set [of as] hd_in_set [of bs] by auto
  have hn: "as \<noteq> [] \<Longrightarrow> bs \<noteq> [] \<Longrightarrow> last as \<noteq> hd bs" using dis(3) last_in_set [of as] hd_in_set [of bs] by (metis IntI empty_iff)
  have h1: "blk g1 = (if as = [] then blk g else (blk g)(last as \<mapsto> (the (blk g (last as)))\<lparr>tp_next := hdopt bs\<rparr>))"
    using la by (auto simp: g1_def blk_set_fun blk_Some_less)
  have len1: "length (gi_blks g1) = length (gi_blks g)" by (simp add: g1_def)
  have h2: "blk g2 = (if bs = [] then blk g1 else (blk g1)(hd bs \<mapsto> (the (blk g (hd bs)))\<lparr>tp_prev := lastopt None as\<rparr>))"
    using hb by (auto simp: g2_def blk_set_fun blk_Some_less len1)
  have nb: "as \<noteq> [] \<Longrightarrow> last as \<notin> set bs" "bs \<noteq> [] \<Longrightarrow> hd bs \<notin> set as" using dis(3) last_in_set hd_in_set by (metis IntI empty_iff)+
  have np: "as \<noteq> [] \<Longrightarrow> p \<noteq> last as" "bs \<noteq> [] \<Longrightarrow> p \<noteq> hd bs" using dis(4,5) last_in_set hd_in_set by metis+
  have p2: "blk g2 p = Some b" using b np by (simp add: h2 h1)
  have c1: "map_option core (blk g1 q) = map_option core (blk g q)" for q
  proof (cases "as \<noteq> [] \<and> q = last as")
    case True
    then show ?thesis using la by (auto simp: h1)
  qed (auto simp: h1)
  have c2: "map_option core (blk g2 q) = map_option core (blk g q)" for q
  proof (cases "bs \<noteq> [] \<and> q = hd bs")
    case True
    then show ?thesis using hb by (auto simp: h2)
  next
    case False
    then have "blk g2 q = blk g1 q" by (auto simp: h2)
    then show ?thesis using c1 by simp
  qed
  have run: "SIrm_tpb p g = Some (set_blk p None g2)"
  proof -
    have 1: "(case tp_prev b of Some q \<Rightarrow> upd_blk q (\<lambda>x. x\<lparr>tp_next := tp_next b\<rparr>) g | None \<Rightarrow> Some (g\<lparr>gi_tplist := tp_next b\<rparr>)) = Some g1"
      using la by (auto simp: ln lastopt_def g1_def upd_blk_def)
    have 2: "(case tp_next b of Some q \<Rightarrow> upd_blk q (\<lambda>x. x\<lparr>tp_prev := tp_prev b\<rparr>) g1 | None \<Rightarrow> Some g1) = Some g2"
      using hb hn by (cases bs) (auto simp: ln g2_def upd_blk_def h1)
    have 3: "tp_prev b \<noteq> None \<or> tp_next b \<noteq> None" using ne by (cases bs) (auto simp: ln lastopt_def)
    show ?thesis using 1 2 3 by (simp add: SIrm_tpb_def b)
  qed
  have fin: "blk (set_blk p None g2) = (blk g2)(p := None)" using blk_Some_less [OF p2] by (rule blk_set_fun)
  have A: "dseg (blk g2) None as (hdopt bs)"
  proof (cases as rule: rev_exhaust)
    case (snoc as' a)
    obtain x where x: "blk g a = Some x" using la snoc by auto
    have "dseg ((blk g)(a \<mapsto> x\<lparr>tp_next := hdopt bs\<rparr>)) None (as' @ [a]) (hdopt bs)" using dseg_set_next [of "blk g" None as' a] seg(1) dis(1) x snoc by simp
    moreover have "dseg (blk g2) None (as' @ [a]) (hdopt bs) = dseg ((blk g)(a \<mapsto> x\<lparr>tp_next := hdopt bs\<rparr>)) None (as' @ [a]) (hdopt bs)"
      by (rule dseg_cong) (use snoc x nb(2) in \<open>auto simp: h2 h1\<close>)
    ultimately show ?thesis using snoc by simp
  qed simp
  have B: "dseg (blk g2) (lastopt None as) bs None"
  proof (cases bs)
    case (Cons c cs)
    obtain x where x: "blk g c = Some x" using hb Cons by auto
    have "dseg ((blk g)(c \<mapsto> x\<lparr>tp_prev := lastopt None as\<rparr>)) (lastopt None as) (c # cs) None" using dseg_set_prev [of "blk g" "Some p" c cs None x] seg(2) dis(2) x Cons by simp
    moreover have "dseg (blk g2) (lastopt None as) (c # cs) None = dseg ((blk g)(c \<mapsto> x\<lparr>tp_prev := lastopt None as\<rparr>)) (lastopt None as) (c # cs) None"
      by (rule dseg_cong) (use Cons x nb(1) in \<open>auto simp: h2 h1\<close>)
    ultimately show ?thesis using Cons by simp
  qed simp
  have "dseg (blk g2) None (as @ bs) None" using A B by (auto simp: dseg_append)
  moreover have "dseg (blk (set_blk p None g2)) None (as @ bs) None = dseg (blk g2) None (as @ bs) None"
    unfolding fin by (rule dseg_cong) (use dis(4,5) in auto)
  moreover have "gi_tplist (set_blk p None g2) = hdopt (as @ bs)" using si_listD(1) [OF l] by (simp add: g2_def g1_def hdopt_append)
  ultimately have "si_list (set_blk p None g2) (as @ bs)" using d(1) by (simp add: si_list_def)
  moreover have "relinked g g1" "relinked g1 g2" "relinked g2 (set_blk p None g2)" by (simp_all add: g1_def g2_def relinked_ops)
  then have "relinked g (set_blk p None g2)" using relinked_trans by blast
  moreover have "blk (set_blk p None g2) q = blk g q" if "q \<notin> set (as @ p # bs)" for q
  proof -
    have "q \<noteq> p" "as \<noteq> [] \<Longrightarrow> q \<noteq> last as" "bs \<noteq> [] \<Longrightarrow> q \<noteq> hd bs" using that last_in_set [of as] hd_in_set [of bs] by (metis Un_iff list.set_intros set_append)+
    then show ?thesis by (simp add: fin h2 h1)
  qed
  ultimately show ?thesis using that [OF run] c2 by (simp add: fin)
qed

subsection \<open>Sessions that come and go\<close>

lemma flag_simps [simp]:
  fixes x :: u32
  shows "(x OR TPF_DELETE) AND TPF_DELETE = TPF_DELETE" "(x OR TPF_DELETE) AND TPF_DRAIN = x AND TPF_DRAIN"
    "(x OR TPF_DELETE) AND TPF_LISTENFD = x AND TPF_LISTENFD" "(x OR TPF_SESSION) AND TPF_DELETE = x AND TPF_DELETE"
    "(x OR TPF_SESSION) AND TPF_DRAIN = x AND TPF_DRAIN" "(x OR TPF_SESSION) AND TPF_LISTENFD = x AND TPF_LISTENFD"
    "(x OR TPF_SAFEC) AND TPF_DELETE = x AND TPF_DELETE" "(x OR TPF_SAFEC) AND TPF_DRAIN = x AND TPF_DRAIN"
    "(x OR TPF_SAFEC) AND TPF_LISTENFD = x AND TPF_LISTENFD" "(x OR TPF_LISTENFD) AND TPF_DELETE = x AND TPF_DELETE"
    "(x OR TPF_LISTENFD) AND TPF_DRAIN = x AND TPF_DRAIN" "(x OR TPF_LISTENFD) AND TPF_LISTENFD = TPF_LISTENFD"
    "(x OR TPF_UNBIND) AND TPF_DELETE = x AND TPF_DELETE" "(x OR TPF_UNBIND) AND TPF_DRAIN = x AND TPF_DRAIN"
    "(x OR TPF_UNBIND) AND TPF_LISTENFD = x AND TPF_LISTENFD" "(x OR TPF_ABORT) AND TPF_DELETE = x AND TPF_DELETE"
    "(x OR TPF_ABORT) AND TPF_DRAIN = x AND TPF_DRAIN" "(x OR TPF_ABORT) AND TPF_LISTENFD = x AND TPF_LISTENFD"
  by (auto simp: bit.conj_disj_distrib2 intro!: bit_word_eqI simp: bit_simps)

lemma sess_ok_drop:
  assumes s: "sess_ok M h (insert p P)" and b: "h p = Some b" "tp_fd b < 0"
  shows "sess_ok M h P"
proof -
  have "M ! n \<noteq> Some p" if "n < 2048" for n using sess_okD(3) [OF s that, of p] b by auto
  then show ?thesis using s unfolding sess_ok_def by blast
qed

lemma sess_ok_term:
  assumes s: "sess_ok M h P" and b: "p \<in> P" "h p = Some b"
  shows "sess_ok (if 0 \<le> tp_fd b then M[nat (tp_fd b) := None] else M) (h(p \<mapsto> b\<lparr>tp_fd := -1, tp_flags := tp_flags b OR TPF_DELETE\<rparr>)) P"
    (is "sess_ok ?M ?h P")
proof -
  have B: "blk_ok M p b" by (rule sess_okD(2) [OF s b])
  have one: "M ! n \<noteq> Some p" if "n < 2048" "n \<noteq> nat (tp_fd b)" for n using sess_okD(3) [OF s that(1), of p] that(2) b(2) by auto
  have other: "0 \<le> tp_fd b \<Longrightarrow> q \<in> P \<Longrightarrow> q \<noteq> p \<Longrightarrow> h q = Some c \<Longrightarrow> tp_fd c \<noteq> tp_fd b" for q c
    using sess_okD(4) [OF s, of q p c b] b by auto
  have len: "length M = 2048" by (rule sess_okD(1) [OF s])
  show ?thesis unfolding sess_ok_def
  proof (intro conjI ballI allI impI)
    show "length ?M = 2048" using len by simp
  next
    fix q c assume q: "q \<in> P" "?h q = Some c"
    show "blk_ok ?M q c"
    proof (cases "q = p")
      case True
      then show ?thesis using q(2) B by (auto simp: blk_ok_def)
    next
      case False
      then have c: "h q = Some c" using q(2) by simp
      have k: "blk_ok M q c" by (rule sess_okD(2) [OF s q(1) c])
      have "0 \<le> tp_fd b \<Longrightarrow> 0 \<le> tp_fd c \<Longrightarrow> nat (tp_fd c) \<noteq> nat (tp_fd b)" using other [OF _ q(1) False c] by (simp add: nat_eq_iff)
      then show ?thesis using k by (auto simp: blk_ok_def)
    qed
  next
    fix n q assume n: "n < (2048 :: nat)" "?M ! n = Some q"
    have m: "M ! n = Some q" using n len by (cases "n = nat (tp_fd b)") (auto split: if_splits)
    have "q \<noteq> p"
    proof
      assume "q = p"
      then have "n = nat (tp_fd b)" "0 \<le> tp_fd b" using one [OF n(1)] m sess_okD(3) [OF s n(1) m] b(2) by auto
      then show False using n len by simp
    qed
    then show "q \<in> P" "\<exists>b. ?h q = Some b \<and> tp_fd b = int n \<and> tp_flags b AND TPF_LISTENFD = 0" using sess_okD(3) [OF s n(1) m] by auto
  next
    fix q r c d assume qr: "q \<in> P" "r \<in> P" "?h q = Some c \<and> ?h r = Some d \<and> tp_fd c = tp_fd d \<and> 0 \<le> tp_fd c"
    then show "q = r" using sess_okD(4) [OF s qr(1,2), of c d] by (auto split: if_splits)
  qed
qed

text \<open>A block with a descriptor no other block has: a session, which the map leads to, or a listener.\<close>

lemma sess_ok_add:
  assumes s: "sess_ok M h P" and b: "h p = Some b" "p \<notin> P" "0 \<le> tp_fd b" "tp_fd b < 1024" "tp_squeue b = []"
      "tp_flags b AND TPF_DELETE = 0" "tp_flags b AND TPF_DRAIN = 0"
    and fresh: "\<forall>q\<in>P. \<forall>c. h q = Some c \<longrightarrow> tp_fd c \<noteq> tp_fd b"
  shows "sess_ok (if tp_flags b AND TPF_LISTENFD = 0 then M[nat (tp_fd b) := Some p] else M) h (insert p P)" (is "sess_ok ?M h _")
  unfolding sess_ok_def
proof (intro conjI ballI allI impI)
  have len: "length M = 2048" by (rule sess_okD(1) [OF s])
  show "length ?M = 2048" using len by simp
  fix n q assume n: "n < (2048 :: nat)" "?M ! n = Some q"
  have "q = p \<and> tp_flags b AND TPF_LISTENFD = 0 \<and> int n = tp_fd b \<or> M ! n = Some q"
    using n len b(3) by (cases "n = nat (tp_fd b)") (auto split: if_splits)
  then show "q \<in> insert p P" "\<exists>b. h q = Some b \<and> tp_fd b = int n \<and> tp_flags b AND TPF_LISTENFD = 0"
    using sess_okD(3) [OF s n(1), of q] b(1) by auto
next
  have len: "length M = 2048" by (rule sess_okD(1) [OF s])
  fix q c assume q: "q \<in> insert p P" "h q = Some c"
  show "blk_ok ?M q c"
  proof (cases "q = p")
    case True
    then show ?thesis using q b len by (auto simp: blk_ok_def nth_list_update)
  next
    case False
    then have k: "blk_ok M q c" "tp_fd c \<noteq> tp_fd b" using q sess_okD(2) [OF s] fresh by auto
    then have "0 \<le> tp_fd c \<Longrightarrow> nat (tp_fd c) \<noteq> nat (tp_fd b)" using b(3) by (simp add: nat_eq_iff)
    then show ?thesis using k by (auto simp: blk_ok_def)
  qed
next
  fix q r c d assume t: "q \<in> insert p P" "r \<in> insert p P" "h q = Some c \<and> h r = Some d \<and> tp_fd c = tp_fd d \<and> 0 \<le> tp_fd c"
  show "q = r" using t fresh sess_okD(4) [OF s, of q r c d] b(1) by auto
qed

subsection \<open>What the operations keep\<close>

lemma si_invD:
  assumes "si_inv g ps"
  shows "si_list g ps" "sess_ok (tp_map g) (blk g) (set ps)" "gi_magic g = MAGICNUM" "length (cbtab g) = MAX_CBS"
    "p \<in> set ps \<Longrightarrow> blk g p = Some b \<Longrightarrow> blk_ok (tp_map g) p b"
  using assms sess_okD(2) by (auto simp: si_inv_def)

lemma SIterm_ok:
  assumes inv: "si_inv g ps" and p: "p \<in> set ps" "blk g p = Some b"
  obtains g' where "SIterm p g = Some g'" "si_inv g' ps" "blk g' = (blk g)(p \<mapsto> b\<lparr>tp_fd := -1, tp_flags := tp_flags b OR TPF_DELETE\<rparr>)"
    "tp_map g' = (if 0 \<le> tp_fd b then (tp_map g)[nat (tp_fd b) := None] else tp_map g)"
    "si_log g' = si_log g @ (if tp_fd b < 0 then [] else if tp_flags b AND TPF_ABORT = 0 then [SysClose (tp_fd b)] else [SysOpt (tp_fd b) SO_LINGER 0, SysClose (tp_fd b)])"
    "gi_flags g' = gi_flags g" "cbtab g' = cbtab g" "readfds g' = readfds g" "writefds g' = writefds g" "execpfds g' = execpfds g" "tcp_flags g' = tcp_flags g" "length (gi_blks g') = length (gi_blks g)"
proof -
  let ?b = "b\<lparr>tp_fd := -1, tp_flags := tp_flags b OR TPF_DELETE\<rparr>"
  define g1 where "g1 = (if tp_fd b \<ge> 0
               then let g0 = (if tp_flags b AND TPF_ABORT \<noteq> 0 then siabort_conn (tp_fd b) g else si_act [SysClose (tp_fd b)] g)
                    in if tp_fd b < MAX_FDS then g0\<lparr>tp_map := (tp_map g0)[nat (tp_fd b) := None]\<rparr> else g0
               else g)"
  have r: "SIterm p g = Some (set_blk p (Some ?b) g1)" by (simp add: SIterm_def p(2) g1_def Let_def)
  have k: "tp_fd b < 1024" using si_invD(5) [OF inv p] by (simp add: blk_ok_def)
  have g1: "blk g1 = blk g" "gi_tplist g1 = gi_tplist g" "length (gi_blks g1) = length (gi_blks g)" "gi_magic g1 = gi_magic g" "cbtab g1 = cbtab g"
    by (simp_all add: g1_def Let_def siabort_conn_def)
  have bl: "blk (set_blk p (Some ?b) g1) = (blk g)(p \<mapsto> ?b)" using blk_Some_less [OF p(2)] by (simp add: blk_set_fun g1)
  have m: "tp_map g1 = (if 0 \<le> tp_fd b then (tp_map g)[nat (tp_fd b) := None] else tp_map g)" using k by (simp add: g1_def Let_def siabort_conn_def)
  have "si_list (set_blk p (Some ?b) g1) ps"
    using si_invD(1) [OF inv] p(2) si_list_cong [of "set_blk p (Some ?b) g1" g ps] by (simp add: bl g1)
  moreover have "sess_ok (tp_map g1) ((blk g)(p \<mapsto> ?b)) (set ps)" unfolding m by (rule sess_ok_term [OF si_invD(2) [OF inv] p])
  ultimately have "si_inv (set_blk p (Some ?b) g1) ps" using si_invD(3,4) [OF inv] by (simp add: si_inv_def bl g1)
  then show ?thesis using that [OF r] bl m g1 by (simp add: g1_def Let_def siabort_conn_def)
qed

subsection \<open>The poll list\<close>

definition fds_of :: "ginfo \<Rightarrow> nat list \<Rightarrow> int set" where
  "fds_of g ps = {fd. \<exists>p b. p \<in> set ps \<and> blk g p = Some b \<and> tp_fd b = fd \<and> 0 \<le> fd}"

definition live :: "ginfo \<Rightarrow> nat \<Rightarrow> bool" where
  "live g p = (case blk g p of None \<Rightarrow> False | Some b \<Rightarrow> tp_flags b AND TPF_DELETE = 0)"

lemma core_blk:
  assumes "map_option core x = map_option core y" "y = Some b"
  obtains c where "x = Some c" "tp_fd c = tp_fd b" "tp_flags c = tp_flags b" "tp_squeue c = tp_squeue b"
proof -
  obtain c where "x = Some c" "core c = core b" using assms by (cases x) auto
  then show ?thesis using that core_eq [of c b] by blast
qed

lemma core_cong:
  assumes "\<And>p. p \<in> set ps \<Longrightarrow> map_option core (blk g' p) = map_option core (blk g p)"
  shows "fds_of g' ps = fds_of g ps" "p \<in> set ps \<Longrightarrow> live g' p = live g p"
proof -
  have sub: "fds_of x ps \<subseteq> fds_of y ps" if c: "\<And>p. p \<in> set ps \<Longrightarrow> map_option core (blk y p) = map_option core (blk x p)" for x y
  proof
    fix fd assume "fd \<in> fds_of x ps"
    then obtain p b where p: "p \<in> set ps" "blk x p = Some b" "tp_fd b = fd" "0 \<le> fd" by (auto simp: fds_of_def)
    obtain d where "blk y p = Some d" "tp_fd d = tp_fd b" using core_blk [OF c [OF p(1)] p(2)] by blast
    then show "fd \<in> fds_of y ps" using p by (auto simp: fds_of_def)
  qed
  show "fds_of g' ps = fds_of g ps" using sub [of g g'] sub [of g' g] assms by (metis subset_antisym)
  show "live g' p = live g p" if "p \<in> set ps"
    using assms [OF that] by (cases "blk g p"; cases "blk g' p") (auto simp: live_def dest: core_eq(2))
qed

lemma blk_only:
  assumes "blk g' = blk g"
  shows "live g' = live g" "fds_of g' = fds_of g" "gi_tplist g' = gi_tplist g \<Longrightarrow> si_list g' = si_list g"
  unfolding live_def [abs_def] fds_of_def [abs_def] si_list_def [abs_def] assms by simp_all

text \<open>
  The blocks marked for deletion are taken out and freed, the descriptors of the others make up the sets. There has to be a block
  that stays.
\<close>

lemma bldpoll_loop_ok:
  assumes "si_list g (as @ bs)" "sess_ok (tp_map g) (blk g) (set (as @ bs))" "as \<noteq> [] \<or> (\<exists>p\<in>set bs. live g p)" "length bs \<le> fuel"
  shows "\<exists>g'. bldpoll_loop fuel (hdopt bs) g = Some g' \<and> si_list g' (as @ filter (live g) bs) \<and>
    sess_ok (tp_map g) (blk g') (set (as @ filter (live g) bs)) \<and> (\<forall>p\<in>set as \<union> set (filter (live g) bs). map_option core (blk g' p) = map_option core (blk g p)) \<and>
    tp_map g' = tp_map g \<and> si_log g' = si_log g \<and> gi_flags g' = gi_flags g \<and> cbtab g' = cbtab g \<and> gi_magic g' = gi_magic g \<and>
    tcp_flags g' = tcp_flags g \<and> length (gi_blks g') = length (gi_blks g) \<and> writefds g' = writefds g \<and>
    readfds g' = readfds g \<union> fds_of g bs \<and> execpfds g' = execpfds g \<union> fds_of g bs \<and> (\<forall>p\<in>set bs. \<not> live g p \<longrightarrow> blk g' p = None) \<and>
    (\<forall>q. q \<notin> set (as @ bs) \<longrightarrow> blk g' q = blk g q)"
  using assms
proof (induction bs arbitrary: g as fuel)
  case Nil
  then show ?case by (simp add: fds_of_def)
next
  case (Cons p bs)
  obtain fuel' where fuel: "fuel = Suc fuel'" "length bs \<le> fuel'" using Cons.prems(4) by (cases fuel) auto
  obtain b where b: "blk g p = Some b" using si_listD(4) [OF Cons.prems(1), of p] by auto
  have d: "distinct (as @ p # bs)" by (rule si_listD(2) [OF Cons.prems(1)])
  have ok: "blk_ok (tp_map g) p b" using sess_okD(2) [OF Cons.prems(2)] b by simp
  have nx: "tp_next b = hdopt bs" using dseg_next(2) [OF si_listD(3) [OF Cons.prems(1)] b] by (auto split: if_splits)
  show ?case
  proof (cases "live g p")
    case False
    then have del: "tp_flags b AND TPF_DELETE \<noteq> 0" "tp_fd b < 0" using b ok by (auto simp: live_def blk_ok_def)
    have ne: "as @ bs \<noteq> []" using Cons.prems(3) False by auto
    obtain g1 where g1: "SIrm_tpb p g = Some g1" "si_list g1 (as @ bs)" "relinked g g1" "blk g1 p = None"
      "\<And>q. q \<noteq> p \<Longrightarrow> map_option core (blk g1 q) = map_option core (blk g q)" "\<And>q. q \<notin> set (as @ p # bs) \<Longrightarrow> blk g1 q = blk g q"
      by (rule SIrm_tpb_ok [OF Cons.prems(1) ne]) (rule that, blast+)
    note f = relinked_fields [OF g1(3)]
    have c: "map_option core (blk g1 q) = map_option core (blk g q)" if "q \<in> set (as @ bs)" for q
      by (rule g1(5)) (use that d in auto)
    have cb: "\<And>q. q \<in> set bs \<Longrightarrow> map_option core (blk g1 q) = map_option core (blk g q)" using c by simp
    have "sess_ok (tp_map g) (blk g) (set (as @ bs))" using sess_ok_drop [of "tp_map g" "blk g" p "set (as @ bs)" b] b del(2) Cons.prems(2) by simp
    then have s1: "sess_ok (tp_map g1) (blk g1) (set (as @ bs))" unfolding f(1) using sess_ok_cong [of "set (as @ bs)" "blk g1" "blk g"] c by blast
    have lv: "filter (live g1) bs = filter (live g) bs" "\<forall>q\<in>set bs. live g1 q = live g q"
      using core_cong(2) [of bs g1 g] cb by (auto intro: filter_cong)
    have "as \<noteq> [] \<or> (\<exists>p\<in>set bs. live g1 p)" using Cons.prems(3) False lv(2) by auto
    note IH = Cons.IH [OF g1(2) s1 this fuel(2)]
    have run: "bldpoll_loop fuel (hdopt (p # bs)) g = bldpoll_loop fuel' (hdopt bs) g1" using del g1(1) b nx by (simp add: fuel)
    have "fds_of g1 bs = fds_of g bs" by (rule core_cong(1)) (rule cb)
    moreover have "fds_of g (p # bs) = fds_of g bs" using b del(2) by (auto simp: fds_of_def)
    ultimately have fd: "fds_of g (p # bs) = fds_of g1 bs" by simp
    have kp: "filter (live g) (p # bs) = filter (live g) bs" using False by simp
    from IH obtain g' where g': "bldpoll_loop fuel' (hdopt bs) g1 = Some g'" "si_list g' (as @ filter (live g) bs)" "sess_ok (tp_map g) (blk g') (set (as @ filter (live g) bs))"
      "\<forall>q\<in>set as \<union> set (filter (live g) bs). map_option core (blk g' q) = map_option core (blk g1 q)"
      "tp_map g' = tp_map g" "si_log g' = si_log g" "gi_flags g' = gi_flags g" "cbtab g' = cbtab g" "gi_magic g' = gi_magic g" "tcp_flags g' = tcp_flags g"
      "length (gi_blks g') = length (gi_blks g)" "writefds g' = writefds g" "readfds g' = readfds g \<union> fds_of g1 bs" "execpfds g' = execpfds g \<union> fds_of g1 bs"
      "\<forall>q\<in>set bs. \<not> live g1 q \<longrightarrow> blk g' q = None" "\<forall>q. q \<notin> set (as @ bs) \<longrightarrow> blk g' q = blk g1 q"
      unfolding lv(1) f by blast
    have p': "blk g' p = None" using g'(16) g1(4) d by auto
    have c': "\<forall>q\<in>set as \<union> set (filter (live g) bs). map_option core (blk g' q) = map_option core (blk g q)" using g'(4) c by auto
    have n': "\<forall>q\<in>set (p # bs). \<not> live g q \<longrightarrow> blk g' q = None" using g'(15) lv(2) p' by auto
    have o': "\<forall>q. q \<notin> set (as @ p # bs) \<longrightarrow> blk g' q = blk g q" using g'(16) g1(6) by auto
    show ?thesis unfolding run kp fd using g' c' n' o' by blast
  next
    case True
    then have lv: "tp_flags b AND TPF_DELETE = 0" "0 \<le> tp_fd b" "tp_fd b < 1024" "tp_flags b AND TPF_DRAIN = 0" "tp_squeue b = []"
      using b ok by (auto simp: live_def blk_ok_def)
    define g1 where "g1 = g\<lparr>fdcount := if tp_fd b \<ge> fdcount g then tp_fd b + 1 else fdcount g, execpfds := insert (tp_fd b) (execpfds g),
               readfds := insert (tp_fd b) (readfds g), writefds := writefds g\<rparr>"
    have run: "bldpoll_loop fuel (hdopt (p # bs)) g = bldpoll_loop fuel' (hdopt bs) g1" using lv b nx by (simp add: fuel g1_def)
    have bl: "blk g1 = blk g" "gi_tplist g1 = gi_tplist g" by (simp_all add: g1_def)
    have same: "tp_map g1 = tp_map g" "si_log g1 = si_log g" "gi_flags g1 = gi_flags g"
      "cbtab g1 = cbtab g" "gi_magic g1 = gi_magic g" "tcp_flags g1 = tcp_flags g" "gi_blks g1 = gi_blks g" "writefds g1 = writefds g"
      "readfds g1 = insert (tp_fd b) (readfds g)" "execpfds g1 = insert (tp_fd b) (execpfds g)"
      by (simp_all add: g1_def)
    note same = same bl(1) blk_only(1,2) [OF bl(1)] blk_only(3) [OF bl]
    have "si_list g1 ((as @ [p]) @ bs)" "sess_ok (tp_map g1) (blk g1) (set ((as @ [p]) @ bs))" "as @ [p] \<noteq> [] \<or> (\<exists>q\<in>set bs. live g1 q)"
      using Cons.prems(1,2) by (simp_all add: same)
    note IH = Cons.IH [OF this fuel(2), unfolded same]
    have fd: "fds_of g (p # bs) = insert (tp_fd b) (fds_of g bs)" using b lv(2) by (auto simp: fds_of_def)
    have kp: "as @ filter (live g) (p # bs) = (as @ [p]) @ filter (live g) bs" "set as \<union> set (filter (live g) (p # bs)) = set (as @ [p]) \<union> set (filter (live g) bs)"
      "set (as @ p # bs) = set ((as @ [p]) @ bs)" using True by auto
    show ?thesis unfolding run fd kp using IH True by simp
  qed
qed

lemma SIbldpoll_ok:
  assumes inv: "si_inv g ps" and lv: "ps = [] \<or> (\<exists>p\<in>set ps. live g p)"
  obtains g' where "SIbldpoll g = Some g'" "si_inv g' (filter (live g) ps)" "\<And>p. p \<in> set (filter (live g) ps) \<Longrightarrow> map_option core (blk g' p) = map_option core (blk g p)"
    "tp_map g' = tp_map g" "si_log g' = si_log g" "gi_flags g' = gi_flags g" "cbtab g' = cbtab g" "tcp_flags g' = tcp_flags g" "length (gi_blks g') = length (gi_blks g)"
    "writefds g' = {}" "readfds g' = fds_of g ps" "execpfds g' = fds_of g ps" "\<And>p. p \<in> set ps \<Longrightarrow> \<not> live g p \<Longrightarrow> blk g' p = None"
proof -
  let ?g = "g\<lparr>fdcount := -1, readfds := {}, writefds := {}, execpfds := {}\<rparr>"
  have bl: "blk ?g = blk g" "gi_tplist ?g = gi_tplist g" by simp_all
  note e = blk_only(1,2) [OF bl(1)] blk_only(3) [OF bl] bl(1)
  note l = si_invD(1) [OF inv]
  show thesis
  proof (cases "ps = []")
    case True
    then have "SIbldpoll g = Some ?g" using si_listD(1) [OF l] by (simp add: SIbldpoll_def)
    moreover have "si_inv ?g []" using inv True unfolding si_inv_def e by simp
    ultimately show ?thesis using that [of ?g] True by (simp add: fds_of_def)
  next
    case False
    have "si_list ?g ([] @ ps)" "sess_ok (tp_map ?g) (blk ?g) (set ([] @ ps))" "[] \<noteq> ([] :: nat list) \<or> (\<exists>p\<in>set ps. live ?g p)"
      using l si_invD(2) [OF inv] lv False unfolding e by simp_all
    note r = bldpoll_loop_ok [OF this si_listD(5) [OF l], unfolded e]
    have t: "gi_tplist g = hdopt ps" by (rule si_listD(1) [OF l])
    from r obtain g' where g': "SIbldpoll g = Some g'" "si_list g' (filter (live g) ps)" "sess_ok (tp_map g) (blk g') (set (filter (live g) ps))"
      "\<forall>p\<in>set (filter (live g) ps). map_option core (blk g' p) = map_option core (blk g p)"
      "tp_map g' = tp_map g" "si_log g' = si_log g" "gi_flags g' = gi_flags g" "cbtab g' = cbtab g" "gi_magic g' = gi_magic g" "tcp_flags g' = tcp_flags g"
      "length (gi_blks g') = length (gi_blks g)" "writefds g' = {}" "readfds g' = fds_of g ps" "execpfds g' = fds_of g ps" "\<forall>p\<in>set ps. \<not> live g p \<longrightarrow> blk g' p = None"
      unfolding SIbldpoll_def t by auto
    moreover have "si_inv g' (filter (live g) ps)" using g'(2,3,5,8,9) si_invD(3,4) [OF inv] by (simp add: si_inv_def)
    ultimately show ?thesis using that by blast
  qed
qed

subsection \<open>New sessions\<close>

text \<open>Blocks that are not in the list do not matter.\<close>

lemma si_inv_frame:
  assumes "si_inv g ps" "\<And>q. q \<in> set ps \<Longrightarrow> blk g' q = blk g q" "gi_tplist g' = gi_tplist g" "tp_map g' = tp_map g" "gi_magic g' = gi_magic g" "length (cbtab g') = length (cbtab g)"
  shows "si_inv g' ps"
  using assms si_list_cong [of g' g ps] sess_ok_cong [of "set ps" "blk g'" "blk g"] by (simp add: si_inv_def)

lemma SInew_tp_ok:
  assumes "SInew_tp g = (p, g1)"
  shows "blk g1 = (blk g)(p \<mapsto> tp_zero)" "p < length (gi_blks g1)" "si_list g ps \<Longrightarrow> p \<notin> set ps" "g1 = g\<lparr>gi_blks := gi_blks g @ [Some tp_zero]\<rparr>"
proof -
  show e: "g1 = g\<lparr>gi_blks := gi_blks g @ [Some tp_zero]\<rparr>" and "blk g1 = (blk g)(p \<mapsto> tp_zero)" "p < length (gi_blks g1)"
    using assms by (auto simp: SInew_tp_def blk_def fun_eq_iff nth_append)
  show "si_list g ps \<Longrightarrow> p \<notin> set ps" using assms si_listD(4) [of g ps p] blk_Some_less [of g p] by (fastforce simp: SInew_tp_def)
qed

text \<open>A block that is complete but for its place in the list is put there, and into the map when it is a session.\<close>

lemma join_session:
  assumes inv: "si_inv g ps" and b: "blk g p = Some b" "p \<notin> set ps" "tp_prev b = None" "0 \<le> tp_fd b" "tp_fd b < 1024" "tp_squeue b = []"
      "tp_flags b AND TPF_DELETE = 0" "tp_flags b AND TPF_DRAIN = 0" "tp_fd b \<notin> fds_of g ps"
  obtains g1 g2 c where "tp_link p g = Some g1" "SImap_fd (tp_fd b) p g1 = Some g2" "relinked g g1" "blk g2 = blk g1" "tp_map g2 = (tp_map g)[nat (tp_fd b) := Some p]"
    "blk g1 p = Some c" "core c = core b" "\<And>q. map_option core (blk g1 q) = map_option core (blk g q)"
    "tp_flags b AND TPF_LISTENFD = 0 \<Longrightarrow> si_inv g2 (p # ps)" "tp_flags b AND TPF_LISTENFD \<noteq> 0 \<Longrightarrow> si_inv g1 (p # ps)"
    "si_log g2 = si_log g" "gi_flags g2 = gi_flags g" "cbtab g2 = cbtab g"
proof -
  obtain g1 where g1: "tp_link p g = Some g1" "si_list g1 (p # ps)" "relinked g g1" "\<And>q. map_option core (blk g1 q) = map_option core (blk g q)"
    by (rule tp_link_ok [OF si_invD(1) [OF inv] b(1-3)]) (rule that, blast+)
  note f = relinked_fields [OF g1(3)]
  let ?g2 = "g1\<lparr>tp_map := (tp_map g1)[nat (tp_fd b) := Some p]\<rparr>"
  have m: "SImap_fd (tp_fd b) p g1 = Some ?g2" using b(4,5) by (simp add: SImap_fd_def)
  obtain c where c: "blk g1 p = Some c" "core c = core b" using g1(4) [of p] b(1) by (cases "blk g1 p") auto
  note ce = core_eq [OF c(2)]
  have s: "sess_ok (tp_map g) (blk g1) (set ps)" using si_invD(2) [OF inv] sess_ok_cong [of "set ps" "blk g1" "blk g"] g1(4) by blast
  have "fds_of g1 ps = fds_of g ps" by (rule core_cong(1)) (rule g1(4))
  then have "tp_fd b \<notin> fds_of g1 ps" using b(9) by simp
  then have fr: "\<forall>q\<in>set ps. \<forall>x. blk g1 q = Some x \<longrightarrow> tp_fd x \<noteq> tp_fd c" using b(4) ce(1) by (auto simp: fds_of_def)
  note ad = sess_ok_add [OF s c(1) b(2), unfolded ce, OF b(4-8) fr [unfolded ce]]
  have l2: "si_list ?g2 (p # ps)" using g1(2) by (simp add: si_list_def)
  show thesis
  proof (rule that [OF g1(1) m g1(3) _ _ c g1(4)])
    show "si_inv ?g2 (p # ps)" if "tp_flags b AND TPF_LISTENFD = 0" using ad l2 that si_invD(3,4) [OF inv] by (simp add: si_inv_def f)
    show "si_inv g1 (p # ps)" if "tp_flags b AND TPF_LISTENFD \<noteq> 0" using ad g1(2) that si_invD(3,4) [OF inv] by (simp add: si_inv_def f)
  qed (simp_all add: f)
qed

lemma sa_len_pos [simp]: "0 < sa_len a" "\<not> sa_len a \<le> 0"
  by (cases a; simp)+

lemma SIgenaddr_cases:
  obtains (bad) "fst (SIgenaddr gai t pr fam st) \<le> 0" | (good) a where "SIgenaddr gai t pr fam st = (sa_len a, Some a)" "0 < sa_len a"
proof (cases "genaddr_parse t")
  case None
  then show ?thesis using bad by (simp add: SIgenaddr_def)
next
  case (Some x)
  obtain h p v where x: "x = (h, p, v)" by (cases x)
  show ?thesis
  proof (cases "gai h p v fam st pr")
    case None
    then show ?thesis using bad Some x by (simp add: SIgenaddr_def)
  next
    case (Some a)
    then show ?thesis using good \<open>genaddr_parse t = Some x\<close> x by (simp add: SIgenaddr_def)
  qed
qed

text \<open>The block \<open>SIconn_prep\<close> makes, and how the connect goes.\<close>

definition conn_blk :: "conn_env \<Rightarrow> string \<Rightarrow> sockaddr \<Rightarrow> tp_blk" where
  "conn_blk e abuf a = tp_zero\<lparr>tp_type := SOCK_STREAM, tp_family := sa_family a, tp_palen := sa_len a, tp_fd := ce_socket e,
     tp_paddr := Some a, tp_flags := if need_smartc abuf then TPF_UNBIND OR TPF_SAFEC else TPF_UNBIND\<rparr>"

definition conn_works :: "conn_env \<Rightarrow> string \<Rightarrow> sockaddr \<Rightarrow> bool" where
  "conn_works e abuf a = (0 \<le> ce_socket e \<and> ce_connect e = 0 \<and> (need_smartc abuf \<longrightarrow> ce_sockname e \<noteq> None \<and> ce_sockname e \<noteq> Some a))"

lemma SIconn_prep_ok:
  assumes inv: "si_inv g ps"
  shows "(\<exists>g'. SIconn_prep e TCP_DEVICE abuf 0 g = Some (None, g') \<and> si_inv g' ps \<and> (\<forall>q\<in>set ps. blk g' q = blk g q) \<and> si_log g' = si_log g \<and>
       (\<forall>a. SIgenaddr (ce_gai e) abuf IPPROTO_TCP 0 SOCK_STREAM = (sa_len a, Some a) \<longrightarrow> ce_socket e < 0) \<and> gi_flags g' = gi_flags g \<and> cbtab g' = cbtab g) \<or>
    (\<exists>p g' a. SIconn_prep e TCP_DEVICE abuf 0 g = Some (Some p, g') \<and> si_inv g' ps \<and> p \<notin> set ps \<and> blk g' = (blk g)(p \<mapsto> conn_blk e abuf a) \<and>
       SIgenaddr (ce_gai e) abuf IPPROTO_TCP 0 SOCK_STREAM = (sa_len a, Some a) \<and> 0 \<le> ce_socket e \<and> tcp_flags g' = tcp_flags g \<and>
       gi_flags g' = gi_flags g \<and> cbtab g' = cbtab g \<and> si_log g' = si_log g @ tcp_opts (ce_socket e) (tcp_flags g))"
proof -
  obtain p g1 where n: "SInew_tp g = (p, g1)" by fastforce
  note nt = SInew_tp_ok [OF n]
  have pn: "p \<notin> set ps" by (rule nt(3) [OF si_invD(1) [OF inv]])
  have i1: "si_inv g1 ps" by (rule si_inv_frame [OF inv]) (use pn in \<open>auto simp: nt(1)\<close>, simp_all add: nt(4))
  have out: "si_inv (set_blk p None g1) ps" "\<forall>q\<in>set ps. blk (set_blk p None g1) q = blk g q"
    using pn nt(2) by (auto intro!: si_inv_frame [OF i1] simp: nt(1))
  show ?thesis
  proof (cases rule: SIgenaddr_cases [of "ce_gai e" abuf IPPROTO_TCP 0 SOCK_STREAM])
    case bad
    obtain y z where yz: "SIgenaddr (ce_gai e) abuf IPPROTO_TCP 0 SOCK_STREAM = (y, z)" by fastforce
    have "SIconn_prep e TCP_DEVICE abuf 0 g = Some (None, set_blk p None g1)" using bad yz by (simp add: SIconn_prep_def n)
    moreover have "y \<le> 0" using bad yz by simp
    ultimately show ?thesis using out yz by (intro disjI1 exI [of _ "set_blk p None g1"]) (auto simp: nt(4))
  next
    case (good a)
    have c: "blk g1 p = Some tp_zero" by (simp add: nt(1))
    show ?thesis
    proof (cases "0 \<le> ce_socket e")
      case True
      let ?g = "si_act (tcp_opts (ce_socket e) (tcp_flags g)) (set_blk p (Some (conn_blk e abuf a)) g1)"
      have ss: "set_blk p x (set_blk p y g1) = set_blk p x g1" for x y by (simp add: set_blk_def)
      have "SIconn_prep e TCP_DEVICE abuf 0 g = Some (Some p, ?g)"
        using good True c nt(2) by (simp add: SIconn_prep_def n upd_blk_def ss conn_blk_def tp_zero_def Let_def)
      moreover have "blk ?g = (blk g)(p \<mapsto> conn_blk e abuf a)" using nt(2) by (simp add: blk_set_fun nt(1))
      moreover have "si_inv ?g ps" by (rule si_inv_frame [OF i1]) (use pn nt(2) in auto)
      ultimately show ?thesis using good True pn by (intro disjI2 exI [of _ p] exI [of _ ?g] exI [of _ a]) (simp add: nt(4))
    next
      case False
      have ss: "set_blk p x (set_blk p y g1) = set_blk p x g1" for x y by (simp add: set_blk_def)
      have "SIconn_prep e TCP_DEVICE abuf 0 g = Some (None, set_blk p None g1)"
        using good False c nt(2) by (simp add: SIconn_prep_def n upd_blk_def SItrash_tp_def ss Let_def)
      then show ?thesis using out False by (intro disjI1 exI [of _ "set_blk p None g1"]) (simp add: nt(4))
    qed
  qed
qed

lemma conn_blk_facts:
  "tp_fd (conn_blk e abuf a) = ce_socket e" "tp_prev (conn_blk e abuf a) = None" "tp_squeue (conn_blk e abuf a) = []"
  "tp_paddr (conn_blk e abuf a) = Some a" "tp_flags (conn_blk e abuf a) AND TPF_SAFEC \<noteq> 0 \<longleftrightarrow> need_smartc abuf"
  "tp_flags (conn_blk e abuf a) AND TPF_DELETE = 0" "tp_flags (conn_blk e abuf a) AND TPF_DRAIN = 0" "tp_flags (conn_blk e abuf a) AND TPF_LISTENFD = 0"
  by (simp_all add: conn_blk_def tp_zero_def)

text \<open>What happens to the socket of a connect that does not work: it is closed, or not.\<close>

definition conn_failed_acts :: "conn_env \<Rightarrow> string \<Rightarrow> sys_act list" where
  "conn_failed_acts e abuf =
     (if need_smartc abuf then if ce_connect e \<noteq> 0 then [] else [SysOpt (ce_socket e) SO_LINGER 0, SysClose (ce_socket e)]
      else [SysClose (ce_socket e)])"

lemma SIconnect_step:
  assumes pr: "SIconn_prep e TCP_DEVICE abuf 0 g = Some (Some p, g1)" and b: "blk g1 p = Some (conn_blk e abuf a)" and fd: "0 \<le> ce_socket e"
  obtains g3 where "blk g3 = blk g1" "gi_tplist g3 = gi_tplist g1" "tp_map g3 = tp_map g1" "gi_magic g3 = gi_magic g1" "cbtab g3 = cbtab g1" "gi_flags g3 = gi_flags g1"
    "length (gi_blks g3) = length (gi_blks g1)" "si_log g3 = si_log g1 @ (if tcp_flags g1 AND SI_TF_QUICK \<noteq> 0 then [SysOpt (ce_socket e) TCP_SYNCNT 2] else []) @
       (if conn_works e abuf a then [] else conn_failed_acts e abuf)"
    "SIconnect e abuf g =
       (if conn_works e abuf a
        then Option.bind (upd_blk p (\<lambda>b. b\<lparr>tp_flags := tp_flags b OR TPF_SESSION\<rparr>)
               (if tcp_flags g1 AND SI_TF_QUICK \<noteq> 0 then si_act [SysOpt (ce_socket e) TCP_SYNCNT (ce_syncnt e)] g3 else g3))
               (\<lambda>g6. Option.bind (tp_link p g6) (\<lambda>g7. map_option (\<lambda>g8. (ce_socket e, g8)) (SImap_fd (ce_socket e) p g7)))
        else Some (SI_ERROR, set_blk p None g3))"
proof -
  let ?g2 = "if tcp_flags g1 AND SI_TF_QUICK \<noteq> 0 then si_act [SysOpt (ce_socket e) TCP_SYNCNT 2] g1 else g1"
  let ?g3 = "if conn_works e abuf a then ?g2 else si_act (conn_failed_acts e abuf) ?g2"
  have pl: "p < length (gi_blks g1)" by (rule blk_Some_less [OF b])
  have same: "set_blk p (Some (conn_blk e abuf a)) x = x" if "gi_blks x = gi_blks g1" for x
    using b that pl by (cases x) (auto simp: set_blk_def blk_def list_update_same_conv)
  have cb: "(conn_blk e abuf a)\<lparr>tp_fd := ce_socket e\<rparr> = conn_blk e abuf a" by (simp add: conn_blk_def)
  have run: "SIconnect e abuf g =
       (if conn_works e abuf a
        then Option.bind (upd_blk p (\<lambda>b. b\<lparr>tp_flags := tp_flags b OR TPF_SESSION\<rparr>)
               (if tcp_flags g1 AND SI_TF_QUICK \<noteq> 0 then si_act [SysOpt (ce_socket e) TCP_SYNCNT (ce_syncnt e)] ?g3 else ?g3))
               (\<lambda>g6. Option.bind (tp_link p g6) (\<lambda>g7. map_option (\<lambda>g8. (ce_socket e, g8)) (SImap_fd (ce_socket e) p g7)))
        else Some (SI_ERROR, set_blk p None ?g3))"
  proof (cases "conn_works e abuf a")
    case True
    then show ?thesis using fd b
      by (simp add: SIconnect_def pr conn_blk_facts safe_connect_def conn_works_def upd_blk_def Let_def cb same)
  next
    case False
    have dd: "set_blk p None (set_blk p x y) = set_blk p None y" for x y by (simp add: set_blk_def)
    have aa: "si_act [] x = x" for x by (simp add: si_act_def)
    show ?thesis using False fd b pl
      by (auto simp: SIconnect_def pr conn_blk_facts safe_connect_def conn_works_def upd_blk_def Let_def SItrash_tp_def dd conn_failed_acts_def siabort_conn_def aa)
  qed
  show ?thesis by (rule that [OF _ _ _ _ _ _ _ _ run]) (simp_all add: si_act_def)
qed

lemma SIconnect_ok:
  assumes inv: "si_inv g ps" and fresh: "ce_socket e \<notin> fds_of g ps" "ce_socket e < 1024"
  shows "(\<exists>g'. SIconnect e abuf g = Some (SI_ERROR, g') \<and> si_inv g' ps \<and> (\<forall>q\<in>set ps. blk g' q = blk g q) \<and> gi_flags g' = gi_flags g \<and> cbtab g' = cbtab g) \<or>
    (\<exists>p g' c a. SIconnect e abuf g = Some (ce_socket e, g') \<and> 0 \<le> ce_socket e \<and> conn_works e abuf a \<and> si_inv g' (p # ps) \<and> p \<notin> set ps \<and>
       blk g' p = Some c \<and> tp_fd c = ce_socket e \<and> tp_flags c AND TPF_LISTENFD = 0 \<and> tp_flags c AND TPF_DELETE = 0 \<and>
       (\<forall>q\<in>set ps. map_option core (blk g' q) = map_option core (blk g q)) \<and> gi_flags g' = gi_flags g \<and> cbtab g' = cbtab g)"
  using SIconn_prep_ok [OF inv, of e abuf]
proof (elim disjE exE conjE)
  fix g' assume "SIconn_prep e TCP_DEVICE abuf 0 g = Some (None, g')" "si_inv g' ps" "\<forall>q\<in>set ps. blk g' q = blk g q" "gi_flags g' = gi_flags g" "cbtab g' = cbtab g"
  then show ?thesis by (intro disjI1) (simp add: SIconnect_def)
next
  fix p g1 a
  assume pr: "SIconn_prep e TCP_DEVICE abuf 0 g = Some (Some p, g1)" and i1: "si_inv g1 ps" and pn: "p \<notin> set ps" and bl: "blk g1 = (blk g)(p \<mapsto> conn_blk e abuf a)"
    and fd: "0 \<le> ce_socket e" and fl: "gi_flags g1 = gi_flags g" "cbtab g1 = cbtab g"
  have b: "blk g1 p = Some (conn_blk e abuf a)" by (simp add: bl)
  obtain g3 where g3: "blk g3 = blk g1" "gi_tplist g3 = gi_tplist g1" "tp_map g3 = tp_map g1" "gi_magic g3 = gi_magic g1" "cbtab g3 = cbtab g1" "gi_flags g3 = gi_flags g1"
    "length (gi_blks g3) = length (gi_blks g1)"
    "SIconnect e abuf g =
       (if conn_works e abuf a
        then Option.bind (upd_blk p (\<lambda>b. b\<lparr>tp_flags := tp_flags b OR TPF_SESSION\<rparr>)
               (if tcp_flags g1 AND SI_TF_QUICK \<noteq> 0 then si_act [SysOpt (ce_socket e) TCP_SYNCNT (ce_syncnt e)] g3 else g3))
               (\<lambda>g6. Option.bind (tp_link p g6) (\<lambda>g7. map_option (\<lambda>g8. (ce_socket e, g8)) (SImap_fd (ce_socket e) p g7)))
        else Some (SI_ERROR, set_blk p None g3))"
    by (rule SIconnect_step [OF pr b fd]) (rule that, blast+)
  have pl: "p < length (gi_blks g3)" using blk_Some_less [OF b] g3(7) by simp
  have others: "q \<in> set ps \<Longrightarrow> blk g1 q = blk g q" for q using pn by (auto simp: bl)
  show ?thesis
  proof (cases "conn_works e abuf a")
    case False
    have "si_inv (set_blk p None g3) ps" by (rule si_inv_frame [OF i1]) (use pn pl in \<open>auto simp: g3\<close>)
    moreover have "\<forall>q\<in>set ps. blk (set_blk p None g3) q = blk g q" using pn pl others by (auto simp: g3)
    ultimately show ?thesis using False g3(8) fl by (intro disjI1) (simp add: g3)
  next
    case True
    let ?x = "if tcp_flags g1 AND SI_TF_QUICK \<noteq> 0 then si_act [SysOpt (ce_socket e) TCP_SYNCNT (ce_syncnt e)] g3 else g3"
    let ?b = "(conn_blk e abuf a)\<lparr>tp_flags := tp_flags (conn_blk e abuf a) OR TPF_SESSION\<rparr>"
    let ?g6 = "set_blk p (Some ?b) ?x"
    have px: "p < length (gi_blks ?x)" using pl by simp
    have u: "upd_blk p (\<lambda>b. b\<lparr>tp_flags := tp_flags b OR TPF_SESSION\<rparr>) ?x = Some ?g6" using b by (simp add: upd_blk_def g3)
    have b6: "blk ?g6 = (blk g)(p \<mapsto> ?b)" using px by (simp add: blk_set_fun g3 bl)
    have i6: "si_inv ?g6 ps" by (rule si_inv_frame [OF i1]) (use pn in \<open>auto simp: b6 bl g3\<close>)
    have "fds_of ?g6 ps = fds_of g ps" by (rule core_cong(1)) (use pn in \<open>auto simp: b6\<close>)
    then have fr: "tp_fd ?b \<notin> fds_of ?g6 ps" using fresh(1) by (simp add: conn_blk_facts)
    obtain g7 g8 c where j: "tp_link p ?g6 = Some g7" "SImap_fd (tp_fd ?b) p g7 = Some g8" "blk g8 = blk g7" "blk g7 p = Some c" "core c = core ?b"
      "\<And>q. map_option core (blk g7 q) = map_option core (blk ?g6 q)" "tp_flags ?b AND TPF_LISTENFD = 0 \<Longrightarrow> si_inv g8 (p # ps)" "gi_flags g8 = gi_flags ?g6" "cbtab g8 = cbtab ?g6"
      by (rule join_session [OF i6, of p ?b]) (use b6 pn fd fresh(2) fr in \<open>simp_all add: conn_blk_facts\<close>)
    have "SIconnect e abuf g = Some (ce_socket e, g8)" using True g3(8) u j(1,2) by (simp add: conn_blk_facts)
    moreover have "si_inv g8 (p # ps)" using j(7) by (simp add: conn_blk_facts)
    moreover have "\<forall>q\<in>set ps. map_option core (blk g8 q) = map_option core (blk g q)" using j(3,6) b6 pn by auto
    moreover have "tp_fd c = ce_socket e" "tp_flags c AND TPF_LISTENFD = 0" "tp_flags c AND TPF_DELETE = 0" using core_eq [OF j(5)] by (simp_all add: conn_blk_facts)
    ultimately show ?thesis using True fd pn j(3,4,8,9) fl g3(5,6) by (intro disjI2 exI [of _ p] exI [of _ g8] exI [of _ c] exI [of _ a]) simp
  qed
qed

end
