(* ===== verification/Si95Run.thy ===== *)
theory Si95Run
  imports Si95Inv
begin

text \<open>
  The calls of the transport keep its invariant: finding a block by its descriptor, sending, listening, closing and shutting down.
\<close>

subsection \<open>Finding a block\<close>

lemma tp_search_ok:
  assumes "si_list g (as @ bs)" "length bs \<le> fuel"
  shows "tp_search fuel P (hdopt bs) g = Some (find (\<lambda>p. P (the (blk g p))) bs)"
  using assms
proof (induction bs arbitrary: as fuel)
  case (Cons p bs)
  obtain n where n: "fuel = Suc n" "length bs \<le> n" using Cons.prems(2) by (cases fuel) auto
  obtain b where b: "blk g p = Some b" using si_listD(4) [OF Cons.prems(1), of p] by auto
  have "tp_next b = hdopt bs" using dseg_next(2) [OF si_listD(3) [OF Cons.prems(1)] b] by (auto split: if_splits)
  moreover have "tp_search n P (hdopt bs) g = Some (find (\<lambda>p. P (the (blk g p))) bs)" using Cons.IH [of "as @ [p]" n] Cons.prems(1) n(2) by simp
  ultimately show ?case by (simp add: n b)
qed simp

definition is_session :: "ginfo \<Rightarrow> nat list \<Rightarrow> int \<Rightarrow> nat \<Rightarrow> tp_blk \<Rightarrow> bool" where
  "is_session g ps fd p b = (p \<in> set ps \<and> blk g p = Some b \<and> tp_fd b = fd \<and> 0 \<le> fd \<and> tp_flags b AND TPF_LISTENFD = 0)"

lemma tp_of_fd_ok:
  assumes inv: "si_inv g ps" and fd: "0 \<le> fd"
  shows "is_session g ps fd p b \<Longrightarrow> tp_of_fd fd g = Some (Some p)" "\<nexists>p b. is_session g ps fd p b \<Longrightarrow> tp_of_fd fd g = Some None"
proof -
  assume s: "is_session g ps fd p b"
  then have "blk_ok (tp_map g) p b" using si_invD(5) [OF inv] by (auto simp: is_session_def)
  then show "tp_of_fd fd g = Some (Some p)" using s by (auto simp: is_session_def blk_ok_def tp_of_fd_def)
next
  assume n: "\<nexists>p b. is_session g ps fd p b"
  show "tp_of_fd fd g = Some None"
  proof (cases "fd < MAX_FDS")
    case True
    have "tp_map g ! nat fd \<noteq> Some p" for p
    proof
      assume "tp_map g ! nat fd = Some p"
      then have "\<exists>b. is_session g ps fd p b" using sess_okD(3) [OF si_invD(2) [OF inv], of "nat fd" p] True fd by (auto simp: is_session_def)
      then show False using n by blast
    qed
    then show ?thesis using True by (cases "tp_map g ! nat fd") (auto simp: tp_of_fd_def)
  next
    case False
    have "tp_fd b \<noteq> fd" if "p \<in> set ps" "blk g p = Some b" for p b using si_invD(5) [OF inv that] False by (auto simp: blk_ok_def)
    then have "find (\<lambda>p. tp_fd (the (blk g p)) = fd) ps = None" using si_listD(4) [OF si_invD(1) [OF inv]] by (fastforce simp: find_None_iff)
    then show ?thesis using False tp_search_ok [of g "[]" ps "length (gi_blks g)" "\<lambda>b. tp_fd b = fd"] si_invD(1) [OF inv] si_listD(1,5) [OF si_invD(1) [OF inv]]
      by (simp add: tp_of_fd_def)
  qed
qed

text \<open>A change of a block of the list: its links and descriptor stay, and what its flags say of it.\<close>

lemma si_inv_upd:
  assumes inv: "si_inv g ps" and b: "blk g p = Some b" "tp_prev c = tp_prev b" "tp_next c = tp_next b" "tp_fd c = tp_fd b" "tp_squeue c = tp_squeue b"
    and f: "tp_flags c AND TPF_DELETE = tp_flags b AND TPF_DELETE" "tp_flags c AND TPF_DRAIN = tp_flags b AND TPF_DRAIN"
      "tp_flags c AND TPF_LISTENFD = tp_flags b AND TPF_LISTENFD"
  shows "si_inv (set_blk p (Some c) g) ps"
proof -
  let ?g = "set_blk p (Some c) g"
  have h: "blk ?g = (blk g)(p \<mapsto> c)" using blk_Some_less [OF b(1)] by (rule blk_set_fun)
  note s = si_invD(2) [OF inv]
  have "sess_ok (tp_map g) ((blk g)(p \<mapsto> c)) (set ps)"
    unfolding sess_ok_def
  proof (intro conjI ballI allI impI)
    show "length (tp_map g) = 2048" by (rule sess_okD(1) [OF s])
    show "blk_ok (tp_map g) q d" if "q \<in> set ps" "((blk g)(p \<mapsto> c)) q = Some d" for q d
      using that b f sess_okD(2) [OF s that(1)] by (auto simp: blk_ok_def split: if_splits)
    show "q \<in> set ps" "\<exists>d. ((blk g)(p \<mapsto> c)) q = Some d \<and> tp_fd d = int n \<and> tp_flags d AND TPF_LISTENFD = 0" if "n < 2048" "tp_map g ! n = Some q" for n q
      using sess_okD(3) [OF s that] b f by auto
    show "q = r" if "q \<in> set ps" "r \<in> set ps" "((blk g)(p \<mapsto> c)) q = Some d \<and> ((blk g)(p \<mapsto> c)) r = Some x \<and> tp_fd d = tp_fd x \<and> 0 \<le> tp_fd d" for q r d x
      using that b sess_okD(4) [OF s that(1,2), of "if q = p then b else d" "if r = p then b else x"] by (auto split: if_splits)
  qed
  moreover have "si_list ?g ps" using si_invD(1) [OF inv] si_list_cong [of ?g g ps] b by (simp add: h)
  ultimately show ?thesis using si_invD(3,4) [OF inv] by (simp add: si_inv_def h)
qed

subsection \<open>Sending\<close>

lemma SIsendt_ok:
  assumes inv: "si_inv g ps" and s: "is_session g ps fd p b"
  obtains g1 where "si_inv g1 ps" "blk g1 = (blk g)(p \<mapsto> b\<lparr>tp_sent := tp_sent b + 1\<rparr>)" "si_log g1 = si_log g" "gi_flags g1 = gi_flags g" "tp_map g1 = tp_map g" "cbtab g1 = cbtab g"
    "SIsendt sel ans fd ubuf g =
       (if fst sel > 0
        then if snd sel then map_option (\<lambda>g2. (SI_ERROR, EBADFD, [], g2)) (SIterm p g1)
             else map_option (\<lambda>(status, e, out). (status, e, out, g1)) (sendt_loop ans ubuf SI_ERROR [])
        else Some (18, EBUSY, [], g1))"
proof -
  let ?c = "b\<lparr>tp_sent := tp_sent b + 1\<rparr>"
  have b: "blk g p = Some b" "tp_fd b = fd" "0 \<le> fd" "p \<in> set ps" using s by (simp_all add: is_session_def)
  have "fd < 1024" using si_invD(5) [OF inv b(4,1)] b(2) by (simp add: blk_ok_def)
  then have run: "SIsendt sel ans fd ubuf g =
       (if fst sel > 0
        then if snd sel then map_option (\<lambda>g2. (SI_ERROR, EBADFD, [], g2)) (SIterm p (set_blk p (Some ?c) g))
             else map_option (\<lambda>(status, e, out). (status, e, out, set_blk p (Some ?c) g)) (sendt_loop ans ubuf SI_ERROR [])
        else Some (18, EBUSY, [], set_blk p (Some ?c) g))"
    using b tp_of_fd_ok(1) [OF inv b(3) s] by (simp add: SIsendt_def Let_def)
  have "si_inv (set_blk p (Some ?c) g) ps" by (rule si_inv_upd [OF inv b(1)]) simp_all
  then show ?thesis using that [OF _ _ _ _ _ _ run] blk_set_fun [OF blk_Some_less [OF b(1)]] by simp
qed

lemma SIsendt_bad:
  assumes "si_inv g ps" "fd < 0 \<or> (\<nexists>p b. is_session g ps fd p b)"
  shows "SIsendt sel ans fd ubuf g = Some (SI_ERROR, EBADFD, [], g)"
  using assms tp_of_fd_ok(2) [OF assms(1), of fd] by (cases "fd < 0") (auto simp: SIsendt_def)

text \<open>The number of bytes a sequence of answers takes.\<close>

definition taken :: "(int \<times> errno) list \<Rightarrow> nat" where
  "taken ans = sum_list (map (\<lambda>a. nat (fst a)) ans)"

lemma taken_simps [simp]: "taken [] = 0" "taken (a # as) = nat (fst a) + taken as"
  by (simp_all add: taken_def)

text \<open>The kernel takes a message in pieces; with an answer below 0 the rest is lost.\<close>

lemma sendt_loop_pieces:
  "\<forall>a\<in>set ans. 0 \<le> fst a \<Longrightarrow> length xs \<le> taken ans \<Longrightarrow> sendt_loop ans xs st acc = Some (if xs = [] then st else 0, E0, acc @ xs)"
proof (induction ans xs st acc rule: sendt_loop.induct)
  case (3 n e ans x xs status acc)
  have "length (drop (nat n) (x # xs)) \<le> taken ans" using 3(4) by auto
  then have "sendt_loop ans (drop (nat n) (x # xs)) 0 (acc @ take (nat n) (x # xs)) = Some (0, E0, (acc @ take (nat n) (x # xs)) @ drop (nat n) (x # xs))"
    using 3(1,3) by auto
  then show ?case using 3(3) append_take_drop_id [of "nat n" "x # xs"] by (simp del: append_take_drop_id)
qed simp_all

lemma sendt_loop_fails:
  assumes "\<forall>a\<in>set as. 0 \<le> fst a" "n < 0" "taken as < length xs"
  shows "sendt_loop (as @ (n, e) # ans) xs st acc = Some (SI_ERROR, e, acc @ take (taken as) xs)"
  using assms
proof (induction as arbitrary: xs st acc)
  case Nil
  then obtain x xs' where "xs = x # xs'" by (cases xs) auto
  then show ?case using Nil by simp
next
  case (Cons a as)
  obtain k e' where a: "a = (k, e')" by (cases a)
  obtain x xs' where x: "xs = x # xs'" using Cons.prems(3) by (cases xs) auto
  have "taken as < length (drop (nat k) xs)" using Cons.prems(3) a by simp
  then have "sendt_loop (as @ (n, e) # ans) (drop (nat k) xs) 0 (acc @ take (nat k) xs) =
      Some (SI_ERROR, e, (acc @ take (nat k) xs) @ take (taken as) (drop (nat k) xs))"
    using Cons.IH Cons.prems(1,2) by simp
  then show ?case using Cons.prems(1) a x by (simp add: take_add)
qed

subsection \<open>Listening, closing and shutting down\<close>

lemma SIlistener_ok:
  assumes inv: "si_inv g ps" and fresh: "le_socket e \<notin> fds_of g ps" "le_socket e < 1024"
  shows "(\<exists>g'. SIlistener e TCP_DEVICE abuf g = Some (SI_ERROR, g') \<and> si_inv g' ps \<and> (\<forall>q\<in>set ps. blk g' q = blk g q) \<and>
       gi_flags g' = gi_flags g \<and> cbtab g' = cbtab g) \<or>
    (\<exists>p g' c. SIlistener e TCP_DEVICE abuf g = Some (le_socket e, g') \<and> si_inv g' (p # ps) \<and> blk g' p = Some c \<and> tp_fd c = le_socket e \<and>
       tp_flags c AND TPF_LISTENFD \<noteq> 0 \<and> tp_flags c AND TPF_DELETE = 0 \<and> 0 \<le> le_socket e \<and>
       (\<forall>q\<in>set ps. map_option core (blk g' q) = map_option core (blk g q)) \<and> gi_flags g' = gi_flags g \<and> cbtab g' = cbtab g)"
proof -
  obtain p g1 where n: "SInew_tp g = (p, g1)" by fastforce
  note nt = SInew_tp_ok [OF n]
  have pn: "p \<notin> set ps" by (rule nt(3) [OF si_invD(1) [OF inv]])
  have i1: "si_inv g1 ps" by (rule si_inv_frame [OF inv]) (use pn in \<open>auto simp: nt(1)\<close>, simp_all add: nt(4))
  have out: "si_inv x ps" "\<forall>q\<in>set ps. blk x q = blk g q" if "blk x = (blk g1)(p := y)" "gi_tplist x = gi_tplist g1" "tp_map x = tp_map g1" "gi_magic x = gi_magic g1" "cbtab x = cbtab g1" for x y
    using pn that by (auto intro!: si_inv_frame [OF i1] simp: nt(1))
  have c: "blk g1 p = Some tp_zero" by (simp add: nt(1))
  have ss: "set_blk p x (set_blk p y h) = set_blk p x h" "set_blk p x (si_act as h) = si_act as (set_blk p x h)" for x y as h by (simp_all add: set_blk_def si_act_def)
  note pl = nt(2)
  show ?thesis
  proof (cases rule: SIgenaddr_cases [of "le_gai e" abuf IPPROTO_TCP 0 SOCK_STREAM])
    case bad
    obtain y z where yz: "SIgenaddr (le_gai e) abuf IPPROTO_TCP 0 SOCK_STREAM = (y, z)" by fastforce
    have "SIlistener e TCP_DEVICE abuf g = Some (SI_ERROR, set_blk p None g1)" using bad yz by (simp add: SIlistener_def SIlisten_prep_def n)
    then show ?thesis using out [of "set_blk p None g1" None] pl by (auto simp: blk_set_fun nt(4))
  next
    case (good a)
    let ?b = "tp_zero\<lparr>tp_type := SOCK_STREAM, tp_family := sa_family a, tp_fd := le_socket e, tp_addr := Some a\<rparr>"
    show ?thesis
    proof (cases "0 \<le> le_socket e \<and> le_bind e = 0")
      case False
      obtain L where L: "SIlistener e TCP_DEVICE abuf g = Some (SI_ERROR, set_blk p None (si_act L g1))"
      proof (cases "0 \<le> le_socket e")
        case True
        then show thesis using that [of "[SysOpt (le_socket e) SO_REUSEPORT 1, SysClose (le_socket e), SysClose (le_socket e)]"] False good c pl
          by (simp add: SIlistener_def SIlisten_prep_def n upd_blk_def SItrash_tp_def ss Let_def) (simp add: si_act_def set_blk_def)
      next
        case neg: False
        then show thesis using that [of "[]"] False good c pl
          by (simp add: SIlistener_def SIlisten_prep_def n upd_blk_def SItrash_tp_def ss Let_def) (simp add: si_act_def set_blk_def)
      qed
      then show ?thesis using out [of "set_blk p None (si_act L g1)" None] pl by (auto simp: blk_set_fun nt(4))
    next
      case True
      let ?g2 = "si_act [SysOpt (le_socket e) SO_REUSEPORT 1] (set_blk p (Some ?b) g1)"
      have prep: "SIlisten_prep e TCP_DEVICE abuf 0 g = Some (Some p, ?g2)"
        using True good c pl by (simp add: SIlisten_prep_def n upd_blk_def ss Let_def)
      have b2: "blk ?g2 = (blk g1)(p \<mapsto> ?b)" using pl by (simp add: blk_set_fun)
      show ?thesis
      proof (cases "le_listen e < 0")
        case l: True
        then have "SIlistener e TCP_DEVICE abuf g = Some (SI_ERROR, ?g2)" by (simp add: SIlistener_def prep)
        then show ?thesis using out [OF b2] by (auto simp: nt(4))
      next
        case l: False
        let ?c = "?b\<lparr>tp_flags := tp_flags ?b OR TPF_LISTENFD\<rparr>"
        let ?g3 = "set_blk p (Some ?c) ?g2"
        have b3: "blk ?g3 = (blk g1)(p \<mapsto> ?c)" using pl by (simp add: blk_set_fun)
        have i3: "si_inv ?g3 ps" by (rule out(1) [OF b3]) simp_all
        have o3: "\<forall>q\<in>set ps. blk ?g3 q = blk g q" by (rule out(2) [OF b3]) simp_all
        have "fds_of ?g3 ps = fds_of g ps" by (rule core_cong(1)) (use o3 in auto)
        then have fr: "tp_fd ?c \<notin> fds_of ?g3 ps" using fresh(1) by (simp add: tp_zero_def)
        obtain g4 g5 d where j: "tp_link p ?g3 = Some g4" "blk g4 p = Some d" "core d = core ?c"
          "\<And>q. map_option core (blk g4 q) = map_option core (blk ?g3 q)" "tp_flags ?c AND TPF_LISTENFD \<noteq> 0 \<Longrightarrow> si_inv g4 (p # ps)" "relinked ?g3 g4"
          by (rule join_session [OF i3, of p ?c]) (use b3 pn True fresh(2) fr in \<open>simp_all add: tp_zero_def\<close>)
        have "SIlistener e TCP_DEVICE abuf g = Some (le_socket e, g4)"
          using l j(1,2) core_eq(1) [OF j(3)] pl by (simp add: SIlistener_def prep upd_blk_def)
        moreover have "\<forall>q\<in>set ps. map_option core (blk g4 q) = map_option core (blk g q)" using j(4) o3 by simp
        moreover have "tp_fd d = le_socket e" "tp_flags d AND TPF_LISTENFD \<noteq> 0" "tp_flags d AND TPF_DELETE = 0" using core_eq [OF j(3)] by (simp_all add: tp_zero_def)
        moreover have "gi_flags g4 = gi_flags g" "cbtab g4 = cbtab g" using relinked_fields [OF j(6)] by (simp_all add: nt(4))
        moreover have "si_inv g4 (p # ps)" using j(5) by simp
        ultimately show ?thesis using j(2) True by blast
      qed
    qed
  qed
qed

text \<open>Marking a block before it is terminated, with or without the mark termination makes itself.\<close>

lemma SIterm_marked:
  assumes inv: "si_inv g ps" and p: "p \<in> set ps" "blk g p = Some b"
    and f: "f AND TPF_DELETE = tp_flags b AND TPF_DELETE" "f AND TPF_DRAIN = tp_flags b AND TPF_DRAIN" "f AND TPF_LISTENFD = tp_flags b AND TPF_LISTENFD"
  obtains g' where "SIterm p (set_blk p (Some (b\<lparr>tp_flags := f\<rparr>)) g) = Some g'" "si_inv g' ps"
    "blk g' = (blk g)(p \<mapsto> b\<lparr>tp_fd := -1, tp_flags := f OR TPF_DELETE\<rparr>)" "gi_flags g' = gi_flags g" "length (gi_blks g') = length (gi_blks g)" "cbtab g' = cbtab g"
proof -
  let ?g = "set_blk p (Some (b\<lparr>tp_flags := f\<rparr>)) g"
  have i: "si_inv ?g ps" by (rule si_inv_upd [OF inv p(2)]) (use f in simp_all)
  have h: "blk ?g = (blk g)(p \<mapsto> b\<lparr>tp_flags := f\<rparr>)" using blk_Some_less [OF p(2)] by (rule blk_set_fun)
  obtain g' where "SIterm p ?g = Some g'" "si_inv g' ps" "blk g' = (blk ?g)(p \<mapsto> (b\<lparr>tp_flags := f\<rparr>)\<lparr>tp_fd := -1, tp_flags := tp_flags (b\<lparr>tp_flags := f\<rparr>) OR TPF_DELETE\<rparr>)"
    "gi_flags g' = gi_flags ?g" "length (gi_blks g') = length (gi_blks ?g)" "cbtab g' = cbtab ?g"
    by (rule SIterm_ok [OF i p(1), of "b\<lparr>tp_flags := f\<rparr>"]) (use h in auto)
  then show ?thesis using that h by simp
qed

lemma SIterm_delete:
  assumes "blk g p = Some b"
  shows "SIterm p (si_act L (set_blk p (Some (b\<lparr>tp_flags := f OR TPF_DELETE\<rparr>)) g)) = SIterm p (set_blk p (Some (b\<lparr>tp_flags := f\<rparr>)) (si_act L g))"
proof -
  have a: "(f OR TPF_DELETE) AND TPF_ABORT = f AND TPF_ABORT" by (simp add: bit.conj_disj_distrib2)
  have ss: "set_blk p x (set_blk p y h) = set_blk p x h" "set_blk p x (si_act as h) = si_act as (set_blk p x h)" "(set_blk p x h)\<lparr>tp_map := m\<rparr> = set_blk p x (h\<lparr>tp_map := m\<rparr>)"
    for x y as h m by (simp_all add: set_blk_def si_act_def)
  show ?thesis using blk_Some_less [OF assms] by (simp add: SIterm_def Let_def a siabort_conn_def ss or.assoc)
    (simp add: set_blk_def si_act_def)
qed

lemma si_inv_log: "si_inv (si_act L g) ps = si_inv g ps"
proof -
  have "si_list (si_act L g) ps = si_list g ps" by (simp add: si_list_def)
  then show ?thesis by (simp add: si_inv_def)
qed

lemma SIclose_ok:
  assumes inv: "si_inv g ps"
  shows "(SIclose fd g = Some (SI_ERROR, g) \<and> (0 \<le> fd \<longrightarrow> (\<nexists>p b. is_session g ps fd p b))) \<or>
    (\<exists>g' p b. SIclose fd g = Some (0, g') \<and> si_inv g' ps \<and> p \<in> set ps \<and> blk g p = Some b \<and> (0 \<le> fd \<longrightarrow> is_session g ps fd p b) \<and>
       blk g' = (blk g)(p \<mapsto> b\<lparr>tp_fd := -1, tp_flags := (tp_flags b OR TPF_UNBIND) OR TPF_DELETE\<rparr>) \<and> gi_flags g' = gi_flags g \<and> cbtab g' = cbtab g)"
proof -
  let ?t = "if fd \<ge> 0 then tp_of_fd fd g
        else tp_search (length (gi_blks g)) (\<lambda>b. if fd = TCP_LISTEN_PORT then tp_flags b \<noteq> 0 else tp_type b = SOCK_DGRAM) (gi_tplist g) g"
  note l = si_invD(1) [OF inv]
  have t: "\<exists>r. ?t = Some r \<and> (0 \<le> fd \<and> r = None \<longrightarrow> (\<nexists>p b. is_session g ps fd p b)) \<and> (\<forall>p. r = Some p \<longrightarrow> p \<in> set ps \<and> (0 \<le> fd \<longrightarrow> (\<exists>b. is_session g ps fd p b)))"
  proof (cases "0 \<le> fd")
    case True
    then show ?thesis using tp_of_fd_ok [OF inv True] by (cases "\<exists>p b. is_session g ps fd p b") (auto simp: is_session_def)
  next
    case False
    then show ?thesis using tp_search_ok [of g "[]" ps "length (gi_blks g)"] l si_listD(1,5) [OF l] by (auto simp: find_Some_iff)
  qed
  then obtain r where r: "?t = Some r" "0 \<le> fd \<and> r = None \<longrightarrow> (\<nexists>p b. is_session g ps fd p b)"
    "\<forall>p. r = Some p \<longrightarrow> p \<in> set ps \<and> (0 \<le> fd \<longrightarrow> (\<exists>b. is_session g ps fd p b))" by blast
  show ?thesis
  proof (cases r)
    case None
    then show ?thesis using r(1,2) by (intro disjI1) (simp add: SIclose_def split del: if_split)
  next
    case (Some p)
    then obtain b where b: "p \<in> set ps" "blk g p = Some b" "0 \<le> fd \<longrightarrow> is_session g ps fd p b" using r(3) si_listD(4) [OF l, of p] by (auto simp: is_session_def)
    have q: "tp_squeue b = []" using si_invD(5) [OF inv b(1,2)] by (simp add: blk_ok_def)
    have i: "si_inv (si_act [SysOpt (tp_fd b) SO_LINGER 1] g) ps" using inv by (simp add: si_inv_log)
    obtain g' where g': "SIterm p (set_blk p (Some (b\<lparr>tp_flags := tp_flags b OR TPF_UNBIND\<rparr>)) (si_act [SysOpt (tp_fd b) SO_LINGER 1] g)) = Some g'" "si_inv g' ps"
      "blk g' = (blk g)(p \<mapsto> b\<lparr>tp_fd := -1, tp_flags := (tp_flags b OR TPF_UNBIND) OR TPF_DELETE\<rparr>)" "gi_flags g' = gi_flags g" "cbtab g' = cbtab g"
      by (rule SIterm_marked [OF i b(1), of b "tp_flags b OR TPF_UNBIND"]) (use b(2) in auto)
    have "SIclose fd g = Some (0, g')"
      using r(1) Some b(2) q g'(1) SIterm_delete [OF b(2), of "[SysOpt (tp_fd b) SO_LINGER 1]" "tp_flags b OR TPF_UNBIND"]
      by (simp add: SIclose_def or.assoc split del: if_split)
    then show ?thesis using g' b by blast
  qed
qed

text \<open>After a shutdown every block is marked.\<close>

lemma shutdown_loop_ok:
  assumes "si_inv g (as @ bs)" "length bs \<le> fuel" "fl = 0 \<or> fl = TPF_ABORT"
  shows "\<exists>g'. shutdown_loop fuel fl (hdopt bs) g = Some g' \<and> si_inv g' (as @ bs) \<and> (\<forall>p\<in>set bs. \<not> live g' p) \<and> gi_flags g' = gi_flags g \<and> (\<forall>q. q \<notin> set bs \<longrightarrow> blk g' q = blk g q)"
  using assms
proof (induction bs arbitrary: as fuel g)
  case (Cons p bs)
  obtain n where n: "fuel = Suc n" "length bs \<le> n" using Cons.prems(2) by (cases fuel) auto
  note l = si_invD(1) [OF Cons.prems(1)]
  obtain b where b: "blk g p = Some b" using si_listD(4) [OF l, of p] by auto
  have d: "distinct (as @ p # bs)" by (rule si_listD(2) [OF l])
  let ?f = "tp_flags b OR (TPF_UNBIND OR fl)"
  have f: "?f AND TPF_DELETE = tp_flags b AND TPF_DELETE" "?f AND TPF_DRAIN = tp_flags b AND TPF_DRAIN" "?f AND TPF_LISTENFD = tp_flags b AND TPF_LISTENFD"
    using Cons.prems(3) by (auto simp: bit.conj_disj_distrib2)
  obtain g1 where g1: "SIterm p (set_blk p (Some (b\<lparr>tp_flags := ?f\<rparr>)) g) = Some g1" "si_inv g1 (as @ p # bs)" "blk g1 = (blk g)(p \<mapsto> b\<lparr>tp_fd := -1, tp_flags := ?f OR TPF_DELETE\<rparr>)"
    "gi_flags g1 = gi_flags g" by (rule SIterm_marked [OF Cons.prems(1) _ b f]) auto
  have nx: "tp_next b = hdopt bs" using dseg_next(2) [OF si_listD(3) [OF l] b] by (auto split: if_splits)
  have run: "shutdown_loop fuel fl (hdopt (p # bs)) g = shutdown_loop n fl (hdopt bs) g1" using b g1(1,3) nx by (simp add: n upd_blk_def)
  have "si_inv g1 ((as @ [p]) @ bs)" using g1(2) by simp
  from Cons.IH [OF this n(2) Cons.prems(3)] obtain g' where g': "shutdown_loop n fl (hdopt bs) g1 = Some g'" "si_inv g' ((as @ [p]) @ bs)" "\<forall>p\<in>set bs. \<not> live g' p"
    "gi_flags g' = gi_flags g1" "\<forall>q. q \<notin> set bs \<longrightarrow> blk g' q = blk g1 q" by blast
  have "\<not> live g' p" using g'(5) g1(3) d by (auto simp: live_def)
  then show ?case using g' g1(3,4) unfolding run by auto
qed simp

lemma sishutdown_ok:
  assumes inv: "si_inv g ps" and fl: "fl = 0 \<or> fl = TPF_ABORT"
  obtains g' where "sishutdown fl g = Some g'" "si_inv g' ps" "\<And>p. p \<in> set ps \<Longrightarrow> \<not> live g' p" "gi_flags g' = gi_flags g OR GIF_SHUTDOWN"
proof -
  let ?g = "g\<lparr>gi_flags := gi_flags g OR GIF_SHUTDOWN\<rparr>"
  have "si_list ?g ps = si_list g ps" by (simp add: si_list_def)
  then have "si_inv ?g ([] @ ps)" using inv by (simp add: si_inv_def)
  from shutdown_loop_ok [OF this si_listD(5) [OF si_invD(1) [OF inv]] fl] show ?thesis
    using that si_invD(3) [OF inv] si_listD(1) [OF si_invD(1) [OF inv]] by (auto simp: sishutdown_def)
qed

end
