(* ===== verification/Si95Wait.thy ===== *)
theory Si95Wait
  imports Si95Run
begin

text \<open>
  A round of \<^verbatim>\<open>SIwait\<close> against its specification: for each open descriptor that is ready, in the order of the list, a session is
  accepted, or the data callback gets exactly the bytes received, or the session is reported as lost and closed.
\<close>

subsection \<open>The specification\<close>

text \<open>
  The open descriptors, with a mark on those that listen. \<open>serve\<close> goes over the second list; the first holds those it
  is done with, new ones in front. It says nothing (\<open>None\<close>) when a callback asks for something, or when the kernel gives a descriptor that
  is open or out of range.
\<close>

type_synonym fd_list = "(int \<times> bool) list"

fun serve :: "'s si_cbs \<Rightarrow> wait_env \<Rightarrow> fd_list \<Rightarrow> fd_list \<Rightarrow> 's \<Rightarrow> (fd_list \<times> 's) option" where
  "serve cbs e A [] s = Some (A, s)"
| "serve cbs e A ((fd, l) # B) s =
     (if fd \<notin> we_rd e \<or> fd \<in> we_ex e then serve cbs e (A @ [(fd, l)]) B s
      else if l
      then (let n = fst (we_accept e fd) in
            if n < 0 \<or> \<not> we_mem e then serve cbs e (A @ [(fd, l)]) B s
            else if n \<in> fst ` set (A @ (fd, l) # B) \<or> n \<ge> FD_SETSIZE then None
            else serve cbs e ((n, False) # A @ [(fd, l)]) B s)
      else (case we_recv e fd of
              Some (x # xs) \<Rightarrow> Option.bind (cb_cdata cbs fd (x # xs) s) (\<lambda>(st, s1).
                if st = SI_RET_OK then serve cbs e (A @ [(fd, l)]) B s1 else None)
            | _ \<Rightarrow> Option.bind (cb_disc cbs fd s) (\<lambda>(st, s1). if st = SI_RET_OK then serve cbs e A B s1 else None)))"

definition fd_view :: "ginfo \<Rightarrow> nat list \<Rightarrow> fd_list" where
  "fd_view g ps = map (\<lambda>p. (tp_fd (the (blk g p)), tp_flags (the (blk g p)) AND TPF_LISTENFD \<noteq> 0)) (filter (live g) ps)"

text \<open>The callbacks the receive thread registers.\<close>

definition mt_receive_cbs :: "ginfo \<Rightarrow> ginfo" where
  "mt_receive_cbs g = SIcbreg (int SI_CB_DISC) True (SIcbreg (int SI_CB_CDATA) True g)"

definition cbs_ok :: "ginfo \<Rightarrow> bool" where
  "cbs_ok g = (cbtab g ! SI_CB_CDATA \<and> cbtab g ! SI_CB_DISC \<and> \<not> cbtab g ! SI_CB_SECURITY \<and> \<not> cbtab g ! SI_CB_CONN)"

definition polling :: "wait_env \<Rightarrow> ginfo \<Rightarrow> bool" where
  "polling e g = (readfds g = we_rd e \<and> execpfds g = we_ex e \<and> cbs_ok g)"

subsection \<open>Views\<close>

lemma fd_view_append [simp]: "fd_view g (as @ bs) = fd_view g as @ fd_view g bs"
  by (simp add: fd_view_def)

lemma fd_view_Nil [simp]: "fd_view g [] = []"
  by (simp add: fd_view_def)

lemma fd_view_Cons: "blk g p = Some b \<Longrightarrow> fd_view g (p # ps) = (if live g p then [(tp_fd b, tp_flags b AND TPF_LISTENFD \<noteq> 0)] else []) @ fd_view g ps"
  by (simp add: fd_view_def)

lemma fd_view_cong:
  assumes "\<And>p. p \<in> set ps \<Longrightarrow> map_option core (blk g' p) = map_option core (blk g p)"
  shows "fd_view g' ps = fd_view g ps"
proof -
  have lv: "live g' p = live g p" if "p \<in> set ps" for p by (rule core_cong(2) [of ps]) (use assms that in auto)
  have "tp_fd (the (blk g' p)) = tp_fd (the (blk g p))" "tp_flags (the (blk g' p)) = tp_flags (the (blk g p))" if t: "p \<in> set ps" "live g p" for p
  proof -
    obtain b where b: "blk g p = Some b" using t(2) by (auto simp: live_def split: option.splits)
    obtain c where "blk g' p = Some c" "tp_fd c = tp_fd b" "tp_flags c = tp_flags b" by (rule core_blk [OF assms [OF t(1)] b])
    then show "tp_fd (the (blk g' p)) = tp_fd (the (blk g p))" "tp_flags (the (blk g' p)) = tp_flags (the (blk g p))" using b by simp_all
  qed
  moreover have "filter (live g') ps = filter (live g) ps" using lv by (auto intro: filter_cong)
  ultimately show ?thesis by (simp add: fd_view_def)
qed

lemma live_iff: "si_inv g ps \<Longrightarrow> p \<in> set ps \<Longrightarrow> blk g p = Some b \<Longrightarrow> live g p \<longleftrightarrow> 0 \<le> tp_fd b"
  using si_invD(5) [of g ps p b] by (auto simp: live_def blk_ok_def)

lemma fst_fd_view:
  assumes "si_inv g ps" "set qs \<subseteq> set ps"
  shows "fst ` set (fd_view g qs) = fds_of g qs"
proof -
  have "fd \<in> fds_of g qs \<longleftrightarrow> (\<exists>p\<in>set qs. live g p \<and> tp_fd (the (blk g p)) = fd)" for fd
  proof
    assume "fd \<in> fds_of g qs"
    then obtain p b where "p \<in> set qs" "blk g p = Some b" "tp_fd b = fd" "0 \<le> fd" by (auto simp: fds_of_def)
    then show "\<exists>p\<in>set qs. live g p \<and> tp_fd (the (blk g p)) = fd" using live_iff [OF assms(1), of p b] assms(2) by (intro bexI [of _ p]) auto
  next
    assume "\<exists>p\<in>set qs. live g p \<and> tp_fd (the (blk g p)) = fd"
    then obtain p b where "p \<in> set qs" "live g p" "blk g p = Some b" "tp_fd b = fd" by (auto simp: live_def split: option.splits)
    then show "fd \<in> fds_of g qs" using live_iff [OF assms(1), of p b] assms(2) by (auto simp: fds_of_def)
  qed
  then show ?thesis by (auto simp: fd_view_def image_iff)
qed

subsection \<open>A new session\<close>

lemma SInewsession_ok:
  fixes s :: 's
  assumes inv: "si_inv g ps" and p: "p \<in> set ps" "blk g p = Some b" and cb: "cbs_ok g" and acc: "we_accept e (tp_fd b) = (n, ad)"
    and n: "0 \<le> n" "we_mem e" "n < 1024" "n \<notin> fds_of g ps"
  obtains g' m c where "SInewsession cbs e p g s = Some (0, g', s)" "si_inv g' (m # ps)" "m \<notin> set ps" "blk g' m = Some c" "tp_fd c = n"
    "tp_flags c AND TPF_LISTENFD = 0" "tp_flags c AND TPF_DELETE = 0" "\<And>q. q \<in> set ps \<Longrightarrow> map_option core (blk g' q) = map_option core (blk g q)"
    "readfds g' = readfds g" "execpfds g' = execpfds g" "cbtab g' = cbtab g" "gi_flags g' = gi_flags g"
    "si_log g' = si_log g @ tcp_opts (tp_fd b) (tcp_flags g)"
proof -
  obtain m g1 where nw: "SInew_tp g = (m, g1)" by fastforce
  note nt = SInew_tp_ok [OF nw]
  have mn: "m \<notin> set ps" by (rule nt(3) [OF si_invD(1) [OF inv]])
  have i1: "si_inv g1 ps" by (rule si_inv_frame [OF inv]) (use mn in \<open>auto simp: nt(1)\<close>, simp_all add: nt(4))
  have z: "blk g1 m = Some tp_zero" by (simp add: nt(1))
  obtain g2 where g2: "tp_link m g1 = Some g2" "si_list g2 (m # ps)" "relinked g1 g2" "\<And>q. map_option core (blk g2 q) = map_option core (blk g1 q)"
    by (rule tp_link_ok [OF si_invD(1) [OF i1] z mn]) (simp add: tp_zero_def, rule that, blast+)
  note f = relinked_fields [OF g2(3)]
  obtain c2 where c2: "blk g2 m = Some c2" "core c2 = core tp_zero" using g2(4) [of m] z by (cases "blk g2 m") auto
  note ce = core_eq [OF c2(2)]
  have ml: "m < length (gi_blks g2)" by (rule blk_Some_less [OF c2(1)])
  let ?c = "c2\<lparr>tp_paddr := Some ad, tp_fd := n, tp_flags := tp_flags c2 OR TPF_SESSION\<rparr>"
  let ?g6 = "set_blk m (Some ?c) (si_act (tcp_opts (tp_fd b) (tcp_flags g2)) g2)"
  let ?g8 = "?g6\<lparr>tp_map := (tp_map g2)[nat n := Some m]\<rparr>"
  have cbt: "cbtab g2 = cbtab g" using f(2) by (simp add: nt(4))
  have run: "SInewsession cbs e p g s = Some (0, ?g8, s)"
  proof -
    have ss: "set_blk m x (si_act as (set_blk m y h)) = set_blk m x (si_act as h)" for x y as h by (simp add: set_blk_def si_act_def)
    have c: "\<not> cbtab g2 ! SI_CB_SECURITY" "\<not> cbtab g2 ! SI_CB_CONN" using cb cbt by (simp_all add: cbs_ok_def)
    show ?thesis using n acc p(2) g2(1) c2(1) c ml by (simp add: SInewsession_def nw upd_blk_def si_callback_def SImap_fd_def ss Let_def)
  qed
  have h: "blk ?g8 = (blk g2)(m \<mapsto> ?c)" using ml by (simp add: blk_set_fun)
  have other: "map_option core (blk ?g8 q) = map_option core (blk g q)" if "q \<in> set ps" for q
    unfolding h using g2(4) [of q] that mn by (auto simp: nt(1))
  have s0: "sess_ok (tp_map g) (blk ?g8) (set ps)" using si_invD(2) [OF inv] sess_ok_cong [of "set ps" "blk ?g8" "blk g"] other by blast
  have "fds_of ?g8 ps = fds_of g ps" by (rule core_cong(1)) (rule other)
  then have "n \<notin> fds_of ?g8 ps" using n(4) by simp
  then have fr: "\<forall>q\<in>set ps. \<forall>x. blk ?g8 q = Some x \<longrightarrow> tp_fd x \<noteq> tp_fd ?c" using n(1) by (auto simp: fds_of_def)
  have fl: "tp_flags ?c AND TPF_LISTENFD = 0" "tp_flags ?c AND TPF_DELETE = 0" "tp_flags ?c AND TPF_DRAIN = 0" "tp_squeue ?c = []" by (simp_all add: ce tp_zero_def)
  have bm: "blk ?g8 m = Some ?c" unfolding h by simp
  have "sess_ok ((tp_map g)[nat n := Some m]) (blk ?g8) (insert m (set ps))"
    using sess_ok_add [OF s0 bm mn _ _ fl(4,2,3) fr] n(1,3) fl(1) by simp
  moreover have "tp_map ?g8 = (tp_map g)[nat n := Some m]" using f(1) by (simp add: nt(4))
  moreover have "si_list ?g8 (m # ps) = si_list g2 (m # ps)" by (rule si_list_cong, simp, unfold h) (simp add: c2(1))
  then have "si_list ?g8 (m # ps)" using g2(2) by simp
  moreover have "gi_magic ?g8 = MAGICNUM" "length (cbtab ?g8) = MAX_CBS" using si_invD(3,4) [OF inv] f(2,6) by (simp_all add: nt(4))
  ultimately have "si_inv ?g8 (m # ps)" by (simp add: si_inv_def)
  from that [OF run this mn bm _ fl(1,2) other] show thesis using f by (simp add: nt(4))
qed

lemma SInewsession_refused:
  assumes "blk g p = Some b" "we_accept e (tp_fd b) = (n, ad)" "n < 0 \<or> \<not> we_mem e"
  shows "SInewsession cbs e p g s = Some (SI_ERROR, g, s) \<or> SInewsession cbs e p g s = Some (SI_ERROR, si_act [SysClose n] g, s)"
proof (cases "n < 0")
  case True
  then show ?thesis using assms(1,2) by (simp add: SInewsession_def)
next
  case False
  then show ?thesis using assms by (simp add: SInewsession_def)
qed

subsection \<open>A visit\<close>

text \<open>The states before and after a visit: what is done with, and what is left, which only the links of change.\<close>

definition visited :: "'s si_cbs \<Rightarrow> wait_env \<Rightarrow> nat list \<Rightarrow> fd_list \<times> 's \<Rightarrow> ginfo \<Rightarrow> ginfo \<times> nat list \<times> 's \<Rightarrow> bool" where
  "visited cbs e td r g = (\<lambda>(g', qs', s'). si_inv g' (qs' @ td) \<and> polling e g' \<and> (\<forall>q\<in>set td. map_option core (blk g' q) = map_option core (blk g q)) \<and>
     gi_flags g' = gi_flags g \<and> serve cbs e (fd_view g' qs') (fd_view g td) s' = Some r)"

lemma si_inv_listen: "si_inv g ps \<Longrightarrow> p \<in> set ps \<Longrightarrow> blk g p = Some b \<Longrightarrow> 0 \<le> tp_fd b \<Longrightarrow> tp_fd b < 1024 \<and> tp_squeue b = [] \<and> tp_flags b AND TPF_DRAIN = 0"
  using si_invD(5) [of g ps p b] by (simp add: blk_ok_def)

text \<open>A ready block that was counted, or not: \<open>g'\<close> is the state after it.\<close>

lemma touched:
  assumes inv: "si_inv g (qs @ p # td)" and b: "blk g p = Some b" "0 \<le> tp_fd b" and po: "polling e g"
    and g': "g' = set_blk p (Some (b\<lparr>tp_rcvd := k\<rparr>)) g"
  shows "si_inv g' (qs @ p # td)" "blk g' = (blk g)(p \<mapsto> b\<lparr>tp_rcvd := k\<rparr>)" "polling e g'" "gi_flags g' = gi_flags g"
    "fd_view g' qs = fd_view g qs" "fd_view g' td = fd_view g td" "fd_view g' [p] = [(tp_fd b, tp_flags b AND TPF_LISTENFD \<noteq> 0)]"
    "\<forall>q\<in>set td. map_option core (blk g' q) = map_option core (blk g q)" "p \<notin> set qs" "p \<notin> set td"
proof -
  show "si_inv g' (qs @ p # td)" unfolding g' by (rule si_inv_upd [OF inv b(1)]) simp_all
  show h: "blk g' = (blk g)(p \<mapsto> b\<lparr>tp_rcvd := k\<rparr>)" unfolding g' using blk_Some_less [OF b(1)] by (rule blk_set_fun)
  show d: "p \<notin> set qs" "p \<notin> set td" using si_listD(2) [OF si_invD(1) [OF inv]] by auto
  have cc: "map_option core (blk g' q) = map_option core (blk g q)" if "q \<noteq> p" for q using that by (simp add: h)
  show "fd_view g' qs = fd_view g qs" "fd_view g' td = fd_view g td" by (rule fd_view_cong, rule cc, use d in auto)+
  show "\<forall>q\<in>set td. map_option core (blk g' q) = map_option core (blk g q)" using d(2) by (intro ballI cc) auto
  have "live g p" using live_iff [OF inv _ b(1)] b(2) by simp
  then show "fd_view g' [p] = [(tp_fd b, tp_flags b AND TPF_LISTENFD \<noteq> 0)]" using b(1) by (simp add: fd_view_def live_def h)
  show "polling e g'" "gi_flags g' = gi_flags g" using po by (simp_all add: g' polling_def cbs_ok_def)
qed

text \<open>The block stays: nothing happened to it, whatever was logged.\<close>

lemma visited_stay:
  assumes "si_inv g (qs @ p # td)" "blk g p = Some b" "0 \<le> tp_fd b" "polling e g"
    and sv: "serve cbs e (fd_view g qs @ [(tp_fd b, tp_flags b AND TPF_LISTENFD \<noteq> 0)]) (fd_view g td) s = Some r"
    and x: "x = set_blk p (Some (b\<lparr>tp_rcvd := k\<rparr>)) g \<or> x = si_act L (set_blk p (Some (b\<lparr>tp_rcvd := k\<rparr>)) g)"
  shows "visited cbs e td r g (x, qs @ [p], s)"
proof -
  note t = touched [OF assms(1-4), of "set_blk p (Some (b\<lparr>tp_rcvd := k\<rparr>)) g" k, OF refl]
  let ?g = "set_blk p (Some (b\<lparr>tp_rcvd := k\<rparr>)) g"
  have "blk x = blk ?g" "gi_flags x = gi_flags g" "polling e x" "si_inv x (qs @ p # td)" using x t(1,3) by (auto simp: si_inv_log polling_def cbs_ok_def)
  moreover have "fd_view x = fd_view ?g" unfolding fd_view_def [abs_def] calculation(1) blk_only(1) [OF calculation(1)] ..
  ultimately show ?thesis using sv t(5-8) by (simp add: visited_def)
qed

lemma visit_listener:
  assumes inv: "si_inv g (qs @ p # td)" and b: "blk g p = Some b" "0 \<le> tp_fd b" and po: "polling e g" and rd: "tp_fd b \<in> we_rd e" "tp_fd b \<notin> we_ex e"
    and l: "tp_flags b AND TPF_LISTENFD \<noteq> 0"
    and sv: "serve cbs e (fd_view g qs) ((tp_fd b, True) # fd_view g td) s = Some r"
  shows "\<exists>st g' qs' s'. read_event cbs e p b (set_blk p (Some (b\<lparr>tp_rcvd := k\<rparr>)) g) s = Some (st, g', s') \<and> visited cbs e td r g (g', qs', s')"
proof -
  let ?g = "set_blk p (Some (b\<lparr>tp_rcvd := k\<rparr>)) g"
  note t = touched [OF inv b po, of "set_blk p (Some (b\<lparr>tp_rcvd := k\<rparr>)) g" k, OF refl]
  have bp: "blk ?g p = Some (b\<lparr>tp_rcvd := k\<rparr>)" by (simp only: t(2) fun_upd_same)
  obtain n ad where acc: "we_accept e (tp_fd b) = (n, ad)" by fastforce
  have rw: "read_event cbs e p b (set_blk p (Some (b\<lparr>tp_rcvd := k\<rparr>)) g) s = SInewsession cbs e p ?g s" using l by (simp add: read_event_def Let_def)
  show ?thesis
  proof (cases "n < 0 \<or> \<not> we_mem e")
    case bad: True
    have "SInewsession cbs e p ?g s = Some (SI_ERROR, ?g, s) \<or> SInewsession cbs e p ?g s = Some (SI_ERROR, si_act [SysClose n] ?g, s)"
      by (rule SInewsession_refused [OF bp _ bad]) (simp add: acc)
    moreover have "serve cbs e (fd_view g qs @ [(tp_fd b, tp_flags b AND TPF_LISTENFD \<noteq> 0)]) (fd_view g td) s = Some r"
      using sv bad rd acc l by (auto simp: Let_def)
    ultimately show ?thesis using rw visited_stay [OF inv b po] by metis
  next
    case ok: False
    have all: "fst ` set (fd_view g qs @ (tp_fd b, True) # fd_view g td) = fds_of ?g (qs @ p # td)"
      using fst_fd_view [OF t(1) order_refl] t(5-7) l fd_view_append [of ?g qs "[p] @ td"] fd_view_append [of ?g "[p]" td] by simp
    have n: "0 \<le> n" "we_mem e" "n < 1024" "n \<notin> fds_of ?g (qs @ p # td)" and
      sv1: "serve cbs e ((n, False) # fd_view g qs @ [(tp_fd b, True)]) (fd_view g td) s = Some r"
      using sv ok rd acc unfolding all [symmetric] by (auto simp: Let_def split: if_splits)
    have cb: "cbs_ok ?g" using t(3) by (simp add: polling_def)
    obtain g' m c where g': "SInewsession cbs e p ?g s = Some (0, g', s)" "si_inv g' (m # qs @ p # td)" "m \<notin> set (qs @ p # td)" "blk g' m = Some c" "tp_fd c = n"
      "tp_flags c AND TPF_LISTENFD = 0" "tp_flags c AND TPF_DELETE = 0" "\<And>q. q \<in> set (qs @ p # td) \<Longrightarrow> map_option core (blk g' q) = map_option core (blk ?g q)"
      "readfds g' = readfds ?g" "execpfds g' = execpfds ?g" "cbtab g' = cbtab ?g" "gi_flags g' = gi_flags ?g"
      by (rule SInewsession_ok [OF t(1) _ bp cb _ n, of ad cbs s]) (simp, simp add: acc, rule that, blast+)
    have v: "fd_view g' (qs @ [p]) = fd_view ?g (qs @ [p])" by (rule fd_view_cong) (use g'(8) in auto)
    have "fd_view g' (m # qs @ [p]) = (n, False) # fd_view g qs @ [(tp_fd b, True)]"
      using fd_view_Cons [OF g'(4), of "qs @ [p]"] g'(4-7) v t(5-7) l by (simp add: live_def)
    moreover have "\<forall>q\<in>set td. map_option core (blk g' q) = map_option core (blk g q)" using t(8) by (intro ballI, subst g'(8)) auto
    moreover have "polling e g'" using t(3) g'(9-11) by (simp add: polling_def cbs_ok_def)
    ultimately have "visited cbs e td r g (g', m # qs @ [p], s)" using g'(2,12) sv1 by (simp add: visited_def)
    then show ?thesis using rw g'(1) by metis
  qed
qed

lemma visit_session:
  assumes inv: "si_inv g (qs @ p # td)" and b: "blk g p = Some b" "0 \<le> tp_fd b" and po: "polling e g" and rd: "tp_fd b \<in> we_rd e" "tp_fd b \<notin> we_ex e"
    and l: "tp_flags b AND TPF_LISTENFD = 0"
    and sv: "serve cbs e (fd_view g qs) ((tp_fd b, False) # fd_view g td) s = Some r"
  shows "\<exists>st g' qs' s'. read_event cbs e p b (set_blk p (Some (b\<lparr>tp_rcvd := k\<rparr>)) g) s = Some (st, g', s') \<and> visited cbs e td r g (g', qs', s')"
proof -
  let ?c = "b\<lparr>tp_rcvd := k\<rparr>" let ?g = "set_blk p (Some ?c) g"
  note t = touched [OF inv b po, of "set_blk p (Some (b\<lparr>tp_rcvd := k\<rparr>)) g" k, OF refl]
  have bp: "blk ?g p = Some ?c" by (simp only: t(2) fun_upd_same)
  have pin: "p \<in> set (qs @ p # td)" by simp
  have dr: "tp_flags b AND TPF_DRAIN = 0" using si_inv_listen [OF inv pin b] by simp
  have cb: "cbtab g ! 2" "cbtab g ! 6" using po by (simp_all add: polling_def cbs_ok_def)
  show ?thesis
  proof (cases "\<exists>x xs. we_recv e (tp_fd b) = Some (x # xs)")
    case True
    then obtain x xs where x: "we_recv e (tp_fd b) = Some (x # xs)" by blast
    then obtain s1 where s1: "cb_cdata cbs (tp_fd b) (x # xs) s = Some (0, s1)"
      "serve cbs e (fd_view g qs @ [(tp_fd b, tp_flags b AND TPF_LISTENFD \<noteq> 0)]) (fd_view g td) s1 = Some r"
      using sv l rd by (auto simp: Option.bind_eq_Some_conv split: if_splits)
    have "read_event cbs e p b (set_blk p (Some (b\<lparr>tp_rcvd := k\<rparr>)) g) s = Some (0, ?g, s1)"
      using l x dr s1(1) cb by (simp add: read_event_def Let_def si_callback_def SIcbstat_def)
    then show ?thesis using visited_stay [OF inv b po s1(2)] by blast
  next
    case no: False
    obtain s1 where s1: "cb_disc cbs (tp_fd b) s = Some (0, s1)" "serve cbs e (fd_view g qs) (fd_view g td) s1 = Some r"
      using sv l rd no by (auto simp: Option.bind_eq_Some_conv split: if_splits option.splits list.splits)
    obtain g' where g': "SIterm p ?g = Some g'" "si_inv g' (qs @ p # td)" "blk g' = (blk ?g)(p \<mapsto> ?c\<lparr>tp_fd := -1, tp_flags := tp_flags ?c OR TPF_DELETE\<rparr>)"
      "gi_flags g' = gi_flags ?g" "cbtab g' = cbtab ?g" "readfds g' = readfds ?g" "execpfds g' = execpfds ?g"
      by (rule SIterm_ok [OF t(1) pin bp]) (rule that, blast+)
    have "(case we_recv e (tp_fd b) of None \<Rightarrow> -1 | Some d \<Rightarrow> int (length d)) \<le> 0" using no by (auto split: option.splits) (meson neq_Nil_conv)
    then have "read_event cbs e p b (set_blk p (Some (b\<lparr>tp_rcvd := k\<rparr>)) g) s = Some (0, g', s1)"
      using l g'(1) s1(1) cb by (simp add: read_event_def Let_def si_callback_def SIcbstat_def)
    moreover have "fd_view g' [p] = []" by (simp add: fd_view_def live_def g'(3))
    moreover have "fd_view g' qs = fd_view ?g qs" by (rule fd_view_cong) (use t(9) in \<open>auto simp: g'(3)\<close>)
    moreover have "\<forall>q\<in>set td. map_option core (blk g' q) = map_option core (blk g q)" using t(10) by (auto simp: g'(3) t(2))
    moreover have "polling e g'" using t(3) g'(5-7) by (simp add: polling_def cbs_ok_def)
    ultimately show ?thesis using g'(2,4) s1(2) t(5)
      by (intro exI [of _ 0] exI [of _ g'] exI [of _ "qs @ [p]"] exI [of _ s1]) (simp add: visited_def)
  qed
qed

lemma visit_ready:
  assumes "si_inv g (qs @ p # td)" "blk g p = Some b" "0 \<le> tp_fd b" "polling e g" "tp_fd b \<in> we_rd e" "tp_fd b \<notin> we_ex e"
    "serve cbs e (fd_view g qs) ((tp_fd b, tp_flags b AND TPF_LISTENFD \<noteq> 0) # fd_view g td) s = Some r"
  shows "\<exists>st g' qs' s'. read_event cbs e p b (set_blk p (Some (b\<lparr>tp_rcvd := k\<rparr>)) g) s = Some (st, g', s') \<and> visited cbs e td r g (g', qs', s')"
  using visit_listener [OF assms(1-6), of cbs s r k] visit_session [OF assms(1-6), of cbs s r k] assms(7) by (cases "tp_flags b AND TPF_LISTENFD = 0") simp_all

text \<open>A visit of any block of the list, and the loop over what is left of it.\<close>

lemma visit_ok:
  assumes inv: "si_inv g (qs @ p # td)" and po: "polling e g" and sv: "serve cbs e (fd_view g qs) (fd_view g (p # td)) s = Some r"
  shows "\<exists>st g' qs' s'. wait_visit cbs e p status g s = Some (st, g', s') \<and> visited cbs e td r g (g', qs', s')"
proof -
  have pin: "p \<in> set (qs @ p # td)" by simp
  obtain b where b: "blk g p = Some b" using si_listD(4) [OF si_invD(1) [OF inv] pin] by blast
  note lv = live_iff [OF inv pin b]
  show ?thesis
  proof (cases "0 \<le> tp_fd b \<and> tp_fd b \<in> we_rd e \<and> tp_fd b \<notin> we_ex e")
    case True
    note li = si_inv_listen [OF inv pin b conjunct1 [OF True]]
    have "wait_visit cbs e p status g s = read_event cbs e p b (set_blk p (Some (b\<lparr>tp_rcvd := tp_rcvd b + 1\<rparr>)) g) s"
      using b True li po by (simp add: wait_visit_def wait_read_def polling_def)
    moreover have "serve cbs e (fd_view g qs) ((tp_fd b, tp_flags b AND TPF_LISTENFD \<noteq> 0) # fd_view g td) s = Some r"
      using True sv lv fd_view_Cons [OF b, of td] by simp
    ultimately show ?thesis using visit_ready [OF inv b _ po, of cbs s r "tp_rcvd b + 1"] True by simp
  next
    case False
    have "wait_visit cbs e p status g s = Some (status, g, s)"
      using b False po si_inv_listen [OF inv pin b] by (auto simp: wait_visit_def polling_def)
    moreover have "serve cbs e (fd_view g (qs @ [p])) (fd_view g td) s = Some r"
      using sv lv False fd_view_Cons [OF b, of td] fd_view_Cons [OF b, of "[]"] by (auto split: if_splits)
    ultimately show ?thesis using inv po
      by (intro exI [of _ status] exI [of _ g] exI [of _ "qs @ [p]"] exI [of _ s]) (simp add: visited_def)
  qed
qed

lemma wait_loop_ok:
  assumes "si_inv g (qs @ td)" "polling e g" "serve cbs e (fd_view g qs) (fd_view g td) s = Some r" "length td \<le> fuel"
  shows "\<exists>st g' ps' s'. wait_loop fuel cbs e (hdopt td) status g s = Some (st, g', s') \<and> si_inv g' ps' \<and> r = (fd_view g' ps', s') \<and>
    gi_flags g' = gi_flags g \<and> cbs_ok g'"
  using assms
proof (induction td arbitrary: g qs s fuel status)
  case Nil
  then show ?case by (auto simp: polling_def)
next
  case (Cons p td)
  obtain fuel' where fuel: "fuel = Suc fuel'" "length td \<le> fuel'" using Cons.prems(4) by (cases fuel) auto
  obtain b where b: "blk g p = Some b" using si_listD(4) [OF si_invD(1) [OF Cons.prems(1)], of p] by auto
  have nx: "tp_next b = hdopt td" using dseg_next(2) [OF si_listD(3) [OF si_invD(1) [OF Cons.prems(1)]] b] by (auto split: if_splits)
  obtain st g' qs' s' where v: "wait_visit cbs e p status g s = Some (st, g', s')" "visited cbs e td r g (g', qs', s')"
    using visit_ok [OF Cons.prems(1-3), of status] by blast
  have v': "si_inv g' (qs' @ td)" "polling e g'" "gi_flags g' = gi_flags g" "serve cbs e (fd_view g' qs') (fd_view g td) s' = Some r"
    "\<And>q. q \<in> set td \<Longrightarrow> map_option core (blk g' q) = map_option core (blk g q)" using v(2) by (auto simp: visited_def)
  have "fd_view g' td = fd_view g td" by (rule fd_view_cong) (rule v'(5))
  then have sv: "serve cbs e (fd_view g' qs') (fd_view g' td) s' = Some r" using v'(4) by simp
  have "wait_loop fuel cbs e (hdopt (p # td)) status g s = wait_loop fuel' cbs e (hdopt td) st g' s'" using b nx v(1) by (simp add: fuel)
  then show ?case using Cons.IH [OF v'(1,2) sv fuel(2), of st] v'(3) by simp
qed

lemma fd_view_live: "fd_view g (filter (live g) ps) = fd_view g ps"
  by (simp add: fd_view_def)

text \<open>The number given to the select is above every descriptor of the sets.\<close>

definition same_fds :: "ginfo \<Rightarrow> ginfo \<Rightarrow> bool" where
  "same_fds g' g = (fdcount g' = fdcount g \<and> execpfds g' = execpfds g)"

lemma upd_blk_fds: "upd_blk p f g = Some g' \<Longrightarrow> same_fds g' g"
  by (auto simp: upd_blk_def set_blk_def same_fds_def)

lemma SIterm_fds: "SIterm p g = Some g' \<Longrightarrow> same_fds g' g"
  by (cases "blk g p") (auto simp: SIterm_def Let_def siabort_conn_def si_act_def set_blk_def same_fds_def split: if_splits)

lemma SIrm_tpb_fds:
  assumes "SIrm_tpb p g = Some g'"
  shows "same_fds g' g"
proof -
  obtain b where b: "blk g p = Some b" using assms by (cases "blk g p") (auto simp: SIrm_tpb_def)
  show ?thesis
  proof (cases "tp_prev b = None \<and> tp_next b = None")
    case True
    then show ?thesis using assms b by (simp add: SIrm_tpb_def set_blk_def same_fds_def) auto
  next
    case False
    obtain g1 where g1: "(case tp_prev b of Some q \<Rightarrow> upd_blk q (\<lambda>x. x\<lparr>tp_next := tp_next b\<rparr>) g | None \<Rightarrow> Some (g\<lparr>gi_tplist := tp_next b\<rparr>)) = Some g1"
      using assms b False by (auto simp: SIrm_tpb_def Option.bind_eq_Some_conv)
    obtain g2 where g2: "(case tp_next b of Some q \<Rightarrow> upd_blk q (\<lambda>x. x\<lparr>tp_prev := tp_prev b\<rparr>) g1 | None \<Rightarrow> Some g1) = Some g2" "g' = set_blk p None g2"
      using assms b False g1 by (auto simp: SIrm_tpb_def Option.bind_eq_Some_conv)
    have "same_fds g1 g" using g1 upd_blk_fds by (auto simp: same_fds_def split: option.splits)
    moreover have "same_fds g2 g1" using g2(1) upd_blk_fds by (auto simp: same_fds_def split: option.splits)
    ultimately show ?thesis by (simp add: g2(2) same_fds_def set_blk_def)
  qed
qed

lemma bldpoll_fdcount: "bldpoll_loop fuel t g = Some g' \<Longrightarrow> \<forall>x\<in>execpfds g. x < fdcount g \<Longrightarrow> \<forall>x\<in>execpfds g'. x < fdcount g'"
proof (induction fuel t g arbitrary: g' rule: bldpoll_loop.induct)
  case (3 fuel p g)
  obtain b where b: "blk g p = Some b" using 3(3) by (auto simp: Option.bind_eq_Some_conv)
  show ?case
  proof (cases "tp_flags b AND TPF_DELETE = 0")
    case False
    then obtain g1 g2 where g2: "(if tp_fd b \<ge> 0 then SIterm p g else Some g) = Some g1" "SIrm_tpb p g1 = Some g2" "bldpoll_loop fuel (tp_next b) g2 = Some g'"
      using 3(3) b by (auto simp: Option.bind_eq_Some_conv)
    have "same_fds g1 g" using g2(1) SIterm_fds [of p g g1] by (auto simp: same_fds_def split: if_splits)
    then have "fdcount g2 = fdcount g" "execpfds g2 = execpfds g" using SIrm_tpb_fds [OF g2(2)] by (simp_all add: same_fds_def)
    then show ?thesis using 3(1) [OF b _ g2] 3(4) False by auto
  next
    case True
    let ?g = "if tp_fd b \<ge> 0
        then g\<lparr>fdcount := if tp_fd b \<ge> fdcount g then tp_fd b + 1 else fdcount g, execpfds := insert (tp_fd b) (execpfds g),
               readfds := if tp_flags b AND TPF_DRAIN = 0 then insert (tp_fd b) (readfds g) else readfds g,
               writefds := if tp_squeue b \<noteq> [] then insert (tp_fd b) (writefds g) else writefds g\<rparr>
        else g"
    have f: "\<not> tp_fd b \<ge> FD_SETSIZE" "bldpoll_loop fuel (tp_next b) ?g = Some g'" using 3(3) b True by (auto split: if_splits)
    moreover have "\<forall>x\<in>execpfds ?g. x < fdcount ?g" using 3(4) by (cases "0 \<le> tp_fd b"; cases "fdcount g \<le> tp_fd b") (auto dest!: bspec)
    ultimately show ?thesis using 3(2) [OF b] True by blast
  qed
qed auto

lemma bldpoll_count:
  assumes inv: "si_inv g ps" and p: "p \<in> set ps" "live g p" and g1: "SIbldpoll g = Some g1" "execpfds g1 = fds_of g ps"
  shows "0 < fdcount g1"
proof -
  obtain b where b: "blk g p = Some b" using p(2) by (auto simp: live_def split: option.splits)
  have "0 \<le> tp_fd b" using live_iff [OF inv p(1) b] p(2) by blast
  then have "tp_fd b \<in> execpfds g1" using g1(2) p(1) b by (auto simp: fds_of_def)
  moreover have "\<forall>x\<in>execpfds g1. x < fdcount g1" using bldpoll_fdcount g1(1) by (simp add: SIbldpoll_def)
  ultimately show ?thesis using \<open>0 \<le> tp_fd b\<close> by fastforce
qed

text \<open>What a round starts with: the blocks that are marked are gone, the others are as they were.\<close>

lemma round_start:
  assumes inv: "si_inv g ps" and lv: "\<exists>p\<in>set ps. live g p"
  obtains g1 where "SIbldpoll g = Some g1" "si_inv (g1\<lparr>readfds := r, writefds := w, execpfds := x\<rparr>) (filter (live g) ps)"
    "fd_view (g1\<lparr>readfds := r, writefds := w, execpfds := x\<rparr>) (filter (live g) ps) = fd_view g ps"
    "gi_flags g1 = gi_flags g" "cbtab g1 = cbtab g" "0 < fdcount g1"
proof -
  obtain g1 where g1: "SIbldpoll g = Some g1" "si_inv g1 (filter (live g) ps)" "\<And>p. p \<in> set (filter (live g) ps) \<Longrightarrow> map_option core (blk g1 p) = map_option core (blk g p)"
    "gi_flags g1 = gi_flags g" "cbtab g1 = cbtab g" "execpfds g1 = fds_of g ps"
    by (rule SIbldpoll_ok [OF inv disjI2 [OF lv]]) (rule that, blast+)
  let ?g = "g1\<lparr>readfds := r, writefds := w, execpfds := x\<rparr>"
  have bl: "blk ?g = blk g1" by simp
  have i2: "si_inv ?g (filter (live g) ps)" using si_inv_frame [OF g1(2), of ?g] by simp
  have "fd_view ?g = fd_view g1" unfolding fd_view_def [abs_def] bl blk_only(1) [OF bl] ..
  moreover have "fd_view g1 (filter (live g) ps) = fd_view g (filter (live g) ps)" by (rule fd_view_cong) (rule g1(3))
  ultimately have v: "fd_view ?g (filter (live g) ps) = fd_view g ps" by (simp add: fd_view_live)
  obtain p where "p \<in> set ps" "live g p" using lv by blast
  from bldpoll_count [OF inv this g1(1,6)] show thesis by (rule that [OF g1(1) i2 v g1(4,5)])
qed

lemma wait_round_ok:
  assumes inv: "si_inv g ps" and lv: "\<exists>p\<in>set ps. live g p" and cb: "cbs_ok g" and e: "0 < we_pstat e" "gi_flags g AND GIF_SHUTDOWN = 0"
    and sv: "serve cbs e [] (fd_view g ps) s = Some (A', s')"
  obtains st g' ps' where "wait_round cbs e status g s = Some (st, g', s')" "si_inv g' ps'" "fd_view g' ps' = A'" "gi_flags g' = gi_flags g" "cbs_ok g'"
proof -
  let ?ps = "filter (live g) ps"
  obtain g1 where g1: "SIbldpoll g = Some g1" "si_inv (g1\<lparr>readfds := we_rd e, writefds := we_wr e, execpfds := we_ex e\<rparr>) ?ps"
    "fd_view (g1\<lparr>readfds := we_rd e, writefds := we_wr e, execpfds := we_ex e\<rparr>) ?ps = fd_view g ps" "gi_flags g1 = gi_flags g" "cbtab g1 = cbtab g" "0 < fdcount g1"
    by (rule round_start [OF inv lv, where r = "we_rd e" and w = "we_wr e" and x = "we_ex e"])
  let ?g = "g1\<lparr>readfds := we_rd e, writefds := we_wr e, execpfds := we_ex e\<rparr>"
  have i2: "si_inv ?g ([] @ ?ps)" and sv2: "serve cbs e (fd_view ?g []) (fd_view ?g ?ps) s = Some (A', s')" using g1(2,3) sv by simp_all
  have po: "polling e ?g" using cb g1(5) by (simp add: polling_def cbs_ok_def)
  have "length ?ps \<le> length (gi_blks ?g)" "gi_tplist ?g = hdopt ?ps"
    using si_listD(1,5) [OF si_invD(1) [OF i2]] by simp_all
  then show thesis using wait_loop_ok [OF i2 po sv2, of "length (gi_blks ?g)" status] e g1(1,4,6) that
    by (auto simp: wait_round_def select_count_def select_error_def Let_def)
qed

text \<open>A round in which nothing is ready, or that a signal interrupts, takes out the marked blocks and does nothing else.\<close>

lemma wait_round_idle:
  assumes inv: "si_inv g ps" and lv: "\<exists>p\<in>set ps. live g p" and cb: "cbs_ok g" and e: "we_pstat e = 0 \<or> we_pstat e < 0 \<and> we_intr e"
  obtains g' ps' where "wait_round cbs e status g s = Some (status, g', s)" "si_inv g' ps'" "fd_view g' ps' = fd_view g ps" "gi_flags g' = gi_flags g" "cbs_ok g'"
proof -
  obtain g1 where g1: "SIbldpoll g = Some g1" "si_inv (g1\<lparr>readfds := we_rd e, writefds := we_wr e, execpfds := we_ex e\<rparr>) (filter (live g) ps)"
    "fd_view (g1\<lparr>readfds := we_rd e, writefds := we_wr e, execpfds := we_ex e\<rparr>) (filter (live g) ps) = fd_view g ps" "gi_flags g1 = gi_flags g" "cbtab g1 = cbtab g" "0 < fdcount g1"
    by (rule round_start [OF inv lv, where r = "we_rd e" and w = "we_wr e" and x = "we_ex e"])
  have "wait_round cbs e status g s = Some (status, g1\<lparr>readfds := we_rd e, writefds := we_wr e, execpfds := we_ex e\<rparr>, s)"
    using g1(1,6) e by (auto simp: wait_round_def select_count_def select_error_def Let_def)
  then show thesis by (rule that [OF _ g1(2,3)]) (use g1(4,5) cb in \<open>simp_all add: cbs_ok_def\<close>)
qed

end
