(* ===== verification/Transport.thy ===== *)
theory Transport
  imports Si95Wait FanOut
begin

text \<open>
  The transport as a whole: any history of its calls keeps its invariant and does to the list of open descriptors what the
  specification says. Its sends hand over exactly the bytes of a message, or tell that they did not.
\<close>

subsection \<open>The blocks of a state\<close>

fun tp_chain :: "nat \<Rightarrow> nat option \<Rightarrow> ginfo \<Rightarrow> nat list" where
  "tp_chain fuel None g = []"
| "tp_chain 0 (Some p) g = []"
| "tp_chain (Suc fuel) (Some p) g = p # (case blk g p of None \<Rightarrow> [] | Some b \<Rightarrow> tp_chain fuel (tp_next b) g)"

definition si_blocks :: "ginfo \<Rightarrow> nat list" where
  "si_blocks g = tp_chain (length (gi_blks g)) (gi_tplist g) g"

definition si_view :: "ginfo \<Rightarrow> fd_list" where
  "si_view g = fd_view g (si_blocks g)"

text \<open>The invariant, with the callbacks of the receive thread registered and no shutdown under way.\<close>

definition tr_inv :: "ginfo \<Rightarrow> bool" where
  "tr_inv g = (si_inv g (si_blocks g) \<and> cbs_ok g \<and> gi_flags g AND GIF_SHUTDOWN = 0)"

lemma tp_chain_seg: "dseg (blk g) pr ps None \<Longrightarrow> length ps \<le> fuel \<Longrightarrow> tp_chain fuel (hdopt ps) g = ps"
proof (induction ps arbitrary: pr fuel)
  case (Cons p ps)
  then obtain n b where "fuel = Suc n" "length ps \<le> n" "blk g p = Some b" "tp_next b = hdopt ps" "dseg (blk g) (Some p) ps None"
    by (cases fuel; cases ps) (auto simp: hdopt_def)
  then show ?case using Cons.IH by simp
qed simp

lemma si_blocks_eq: "si_inv g ps \<Longrightarrow> si_blocks g = ps"
  using si_listD(1,3,5) [OF si_invD(1), of g ps] tp_chain_seg by (simp add: si_blocks_def)

lemma tr_invI: "si_inv g ps \<Longrightarrow> cbs_ok g \<Longrightarrow> gi_flags g AND GIF_SHUTDOWN = 0 \<Longrightarrow> tr_inv g \<and> si_view g = fd_view g ps"
  by (simp add: tr_inv_def si_view_def si_blocks_eq)

lemma cbs_ok_cong: "cbtab g' = cbtab g \<Longrightarrow> cbs_ok g' = cbs_ok g"
  by (simp add: cbs_ok_def)

subsection \<open>Views of a changed block\<close>

lemma fd_view_same:
  assumes "blk g' = (blk g)(p \<mapsto> c)" "blk g p = Some b" "tp_fd c = tp_fd b" "tp_flags c = tp_flags b"
  shows "fd_view g' ps = fd_view g ps"
proof -
  have "live g' = live g" using assms by (auto simp: live_def fun_eq_iff)
  then show ?thesis using assms by (simp add: fd_view_def)
qed

lemma fd_view_drop:
  assumes inv: "si_inv g ps" and p: "p \<in> set ps" "blk g p = Some b" "0 \<le> tp_fd b" and g': "blk g' = (blk g)(p \<mapsto> c)" "tp_flags c AND TPF_DELETE \<noteq> 0"
  shows "fd_view g' ps = filter (\<lambda>x. fst x \<noteq> tp_fd b) (fd_view g ps)"
proof -
  have "tp_fd (the (blk g q)) \<noteq> tp_fd b" if q: "q \<in> set ps" "live g q" "q \<noteq> p" for q
  proof -
    obtain d where "blk g q = Some d" using q(2) by (auto simp: live_def split: option.splits)
    then show ?thesis using sess_okD(4) [OF si_invD(2) [OF inv] p(1) q(1) p(2), of d] q(3) p(3) by auto
  qed
  moreover have "live g' q = (live g q \<and> q \<noteq> p)" for q using g' by (simp add: live_def)
  ultimately have k: "live g' q = (live g q \<and> tp_fd (the (blk g q)) \<noteq> tp_fd b)" if "q \<in> set ps" for q using that p(2) by auto
  have "fd_view g' ps = map (\<lambda>q. (tp_fd (the (blk g' q)), tp_flags (the (blk g' q)) AND TPF_LISTENFD \<noteq> 0)) (filter (\<lambda>q. tp_fd (the (blk g q)) \<noteq> tp_fd b) (filter (live g) ps))"
    unfolding fd_view_def filter_filter by (rule arg_cong [where f = "map _"], rule filter_cong) (use k in auto)
  also have "\<dots> = filter (\<lambda>x. fst x \<noteq> tp_fd b) (fd_view g ps)" unfolding fd_view_def filter_map comp_def fst_conv
    by (rule map_cong) (use g'(1) p(2) in auto)
  finally show ?thesis .
qed

lemma fd_view_new:
  assumes "blk g' p = Some c" "tp_flags c AND TPF_DELETE = 0" "\<forall>q\<in>set ps. map_option core (blk g' q) = map_option core (blk g q)"
  shows "fd_view g' (p # ps) = (tp_fd c, tp_flags c AND TPF_LISTENFD \<noteq> 0) # fd_view g ps"
  using fd_view_Cons [OF assms(1), of ps] fd_view_cong [of ps g' g] assms by (simp add: live_def)

lemma is_session_view:
  assumes "si_inv g ps" "is_session g ps fd p b"
  shows "(fd, False) \<in> set (fd_view g ps)"
  using assms live_iff [OF assms(1), of p b] by (force simp: is_session_def fd_view_def)

subsection \<open>Histories\<close>

text \<open>The calls of the threads of a process, each with what the kernel does; a wait is one round of it.\<close>

datatype si_ev = EvConnect conn_env string | EvListen listen_env string | EvClose int | EvSend "int \<times> bool" "(int \<times> errno) list" int bytes | EvWait wait_env

fun si_event :: "'s si_cbs \<Rightarrow> si_ev \<Rightarrow> ginfo \<times> 's \<Rightarrow> (ginfo \<times> 's) option" where
  "si_event cbs (EvConnect e a) (g, s) = map_option (\<lambda>(_, g'). (g', s)) (SIconnect e a g)"
| "si_event cbs (EvListen e a) (g, s) = map_option (\<lambda>(_, g'). (g', s)) (SIlistener e TCP_DEVICE a g)"
| "si_event cbs (EvClose fd) (g, s) = map_option (\<lambda>(_, g'). (g', s)) (SIclose fd g)"
| "si_event cbs (EvSend sel ans fd buf) (g, s) = map_option (\<lambda>(_, _, _, g'). (g', s)) (SIsendt sel ans fd buf g)"
| "si_event cbs (EvWait e) (g, s) = map_option (\<lambda>(_, g', s'). (g', s')) (wait_round cbs e 0 g s)"

text \<open>
  What is asked of the kernel and the callbacks: a new socket has a descriptor that is not open and fits into a descriptor
  set, the answers to a send reach its end, and some descriptor is open when a round starts, whose select does not fail.
\<close>

fun si_ok :: "'s si_cbs \<Rightarrow> si_ev \<Rightarrow> ginfo \<times> 's \<Rightarrow> bool" where
  "si_ok cbs (EvConnect e a) (g, s) = (ce_socket e \<notin> fst ` set (si_view g) \<and> ce_socket e < FD_SETSIZE)"
| "si_ok cbs (EvListen e a) (g, s) = (le_socket e \<notin> fst ` set (si_view g) \<and> le_socket e < FD_SETSIZE)"
| "si_ok cbs (EvClose fd) (g, s) = True"
| "si_ok cbs (EvSend sel ans fd buf) (g, s) = (sendt_loop ans buf SI_ERROR [] \<noteq> None)"
| "si_ok cbs (EvWait e) (g, s) = (si_view g \<noteq> [] \<and> (we_pstat e < 0 \<longrightarrow> we_intr e) \<and>
     (0 < we_pstat e \<longrightarrow> serve cbs e [] (si_view g) s \<noteq> None))"

text \<open>The specification: descriptors are opened, closed, or served.\<close>

inductive fd_step :: "'s si_cbs \<Rightarrow> fd_list \<times> 's \<Rightarrow> fd_list \<times> 's \<Rightarrow> bool" for cbs where
  fd_same: "fd_step cbs (A, s) (A, s)"
| fd_opened: "0 \<le> n \<Longrightarrow> n < FD_SETSIZE \<Longrightarrow> n \<notin> fst ` set A \<Longrightarrow> fd_step cbs (A, s) ((n, l) # A, s)"
| fd_closed: "(fd, l) \<in> set A \<Longrightarrow> fd_step cbs (A, s) (filter (\<lambda>x. fst x \<noteq> fd) A, s)"
| fd_served: "serve cbs e [] A s = Some (A', s') \<Longrightarrow> fd_step cbs (A, s) (A', s')"

inductive_simps fd_step_empty: "fd_step cbs ([], s) (A, s')"

definition fd_change :: "'s si_cbs \<Rightarrow> ginfo \<times> 's \<Rightarrow> ginfo \<times> 's \<Rightarrow> bool" where
  "fd_change cbs x y = fd_step cbs (si_view (fst x), snd x) (si_view (fst y), snd y)"

text \<open>A socket was opened and put into the list, or it was not.\<close>

definition opens :: "int \<Rightarrow> ginfo \<Rightarrow> ginfo \<Rightarrow> bool" where
  "opens n g g' = (gi_flags g' = gi_flags g \<and> cbtab g' = cbtab g \<and>
     (si_inv g' (si_blocks g) \<and> (\<forall>q\<in>set (si_blocks g). blk g' q = blk g q) \<or>
      (\<exists>p c. si_inv g' (p # si_blocks g) \<and> blk g' p = Some c \<and> tp_fd c = n \<and> 0 \<le> n \<and> tp_flags c AND TPF_DELETE = 0 \<and>
         (\<forall>q\<in>set (si_blocks g). map_option core (blk g' q) = map_option core (blk g q)))))"

lemma change_opens:
  assumes inv: "tr_inv g" and o: "opens n g g'" and n: "n < 1024" "n \<notin> fst ` set (si_view g)"
  shows "tr_inv g' \<and> fd_change cbs (g, s) (g', s)"
proof -
  have f: "gi_flags g' AND GIF_SHUTDOWN = 0" "cbs_ok g'" using o inv cbs_ok_cong [of g' g] by (auto simp: opens_def tr_inv_def)
  from o consider (refused) "si_inv g' (si_blocks g)" "\<forall>q\<in>set (si_blocks g). blk g' q = blk g q"
    | (opened) p c where "si_inv g' (p # si_blocks g)" "blk g' p = Some c" "tp_flags c AND TPF_DELETE = 0" "tp_fd c = n" "0 \<le> n"
      "\<forall>q\<in>set (si_blocks g). map_option core (blk g' q) = map_option core (blk g q)" by (auto simp: opens_def)
  then show ?thesis
  proof cases
    case refused
    have "fd_view g' (si_blocks g) = fd_view g (si_blocks g)" by (rule fd_view_cong) (use refused(2) in simp)
    then show ?thesis using tr_invI [OF refused(1) f(2,1)] by (simp add: fd_change_def fd_same si_view_def)
  next
    case opened
    have "tr_inv g'" "si_view g' = (n, tp_flags c AND TPF_LISTENFD \<noteq> 0) # si_view g"
      using tr_invI [OF opened(1) f(2,1)] fd_view_new [OF opened(2,3,6)] opened(4) by (simp_all add: si_view_def)
    then show ?thesis using opened(5) n by (simp add: fd_change_def fd_opened)
  qed
qed

lemma change_marked:
  assumes inv: "tr_inv g" and p: "p \<in> set (si_blocks g)" "blk g p = Some b" and g': "si_inv g' (si_blocks g)" "blk g' = (blk g)(p \<mapsto> c)" "tp_flags c AND TPF_DELETE \<noteq> 0"
    "gi_flags g' = gi_flags g" "cbtab g' = cbtab g"
  shows "tr_inv g'" "fd_change cbs (g, s) (g', s)"
proof -
  have i: "si_inv g (si_blocks g)" using inv by (simp add: tr_inv_def)
  have v: "tr_inv g'" "si_view g' = fd_view g' (si_blocks g)"
    using inv tr_invI [OF g'(1)] cbs_ok_cong [OF g'(5)] g'(4) by (simp_all add: tr_inv_def)
  show "tr_inv g'" by (rule v(1))
  show "fd_change cbs (g, s) (g', s)"
  proof (cases "0 \<le> tp_fd b")
    case True
    have "live g p" using live_iff [OF i p] True by blast
    then have "(tp_fd b, tp_flags b AND TPF_LISTENFD \<noteq> 0) \<in> set (si_view g)" using p by (force simp: si_view_def fd_view_def)
    moreover have "si_view g' = filter (\<lambda>x. fst x \<noteq> tp_fd b) (si_view g)"
      unfolding v(2) unfolding si_view_def by (rule fd_view_drop [OF i p True g'(2,3)])
    ultimately show ?thesis by (auto simp: fd_change_def intro: fd_closed)
  next
    case False
    have "\<not> live g p" using live_iff [OF i p] False by blast
    moreover have "\<not> live g' p" using g'(2,3) by (simp add: live_def)
    moreover have "live g' q = live g q" "blk g' q = blk g q" if "q \<noteq> p" for q using that g'(2) by (simp_all add: live_def)
    ultimately have l: "live g' q = live g q" and b: "live g q \<Longrightarrow> blk g' q = blk g q" for q by (cases "q = p"; simp)+
    have "filter (live g') (si_blocks g) = filter (live g) (si_blocks g)" using l by (intro filter_cong) auto
    then have "si_view g' = si_view g" unfolding v(2) unfolding si_view_def fd_view_def using b by simp
    then show ?thesis by (simp add: fd_change_def fd_same)
  qed
qed

lemma change_closed:
  assumes "tr_inv g" "is_session g (si_blocks g) fd p b" "si_inv g' (si_blocks g)" "blk g' = (blk g)(p \<mapsto> c)" "tp_flags c AND TPF_DELETE \<noteq> 0"
    "gi_flags g' = gi_flags g" "cbtab g' = cbtab g"
  shows "tr_inv g'" "si_view g' = filter (\<lambda>x. fst x \<noteq> fd) (si_view g)" "fd_change cbs (g, s) (g', s)"
proof -
  have i: "si_inv g (si_blocks g)" using assms(1) by (simp add: tr_inv_def)
  have b: "p \<in> set (si_blocks g)" "blk g p = Some b" "tp_fd b = fd" "0 \<le> tp_fd b" using assms(2) by (auto simp: is_session_def)
  have "fd_view g' (si_blocks g) = filter (\<lambda>x. fst x \<noteq> fd) (si_view g)"
    using fd_view_drop [OF i b(1,2,4) assms(4,5)] b(3) by (simp add: si_view_def)
  then show t: "tr_inv g'" "si_view g' = filter (\<lambda>x. fst x \<noteq> fd) (si_view g)"
    using assms(1,6) tr_invI [OF assms(3)] cbs_ok_cong [OF assms(7)] by (simp_all add: tr_inv_def)
  show "fd_change cbs (g, s) (g', s)" unfolding fd_change_def fst_conv snd_conv t(2)
    by (rule fd_closed) (use is_session_view [OF i assms(2)] in \<open>simp add: si_view_def\<close>)
qed

lemma event_open:
  assumes inv: "tr_inv g"
  shows "si_ok cbs (EvConnect e a) (g, s) \<Longrightarrow> \<exists>g'. si_event cbs (EvConnect e a) (g, s) = Some (g', s) \<and> tr_inv g' \<and> fd_change cbs (g, s) (g', s)"
    "si_ok cbs (EvListen l a) (g, s) \<Longrightarrow> \<exists>g'. si_event cbs (EvListen l a) (g, s) = Some (g', s) \<and> tr_inv g' \<and> fd_change cbs (g, s) (g', s)"
proof -
  have i: "si_inv g (si_blocks g)" using inv by (simp add: tr_inv_def)
  have fds: "fst ` set (si_view g) = fds_of g (si_blocks g)" using fst_fd_view [OF i order_refl] by (simp add: si_view_def)
  show "\<exists>g'. si_event cbs (EvConnect e a) (g, s) = Some (g', s) \<and> tr_inv g' \<and> fd_change cbs (g, s) (g', s)" if "si_ok cbs (EvConnect e a) (g, s)"
  proof -
    have fr: "ce_socket e \<notin> fds_of g (si_blocks g)" "ce_socket e < 1024" using that by (simp_all add: fds)
    obtain x g' where "SIconnect e a g = Some (x, g')" "opens (ce_socket e) g g'" using SIconnect_ok [OF i fr, of a] unfolding opens_def by blast
    then show ?thesis using change_opens [OF inv] fr by (simp add: fds)
  qed
  show "\<exists>g'. si_event cbs (EvListen l a) (g, s) = Some (g', s) \<and> tr_inv g' \<and> fd_change cbs (g, s) (g', s)" if "si_ok cbs (EvListen l a) (g, s)"
  proof -
    have fr: "le_socket l \<notin> fds_of g (si_blocks g)" "le_socket l < 1024" using that by (simp_all add: fds)
    obtain x g' where "SIlistener l TCP_DEVICE a g = Some (x, g')" "opens (le_socket l) g g'" using SIlistener_ok [OF i fr, of a] unfolding opens_def by blast
    then show ?thesis using change_opens [OF inv] fr by (simp add: fds)
  qed
qed

lemma event_close:
  assumes inv: "tr_inv g"
  shows "\<exists>g'. si_event cbs (EvClose fd) (g, s) = Some (g', s) \<and> tr_inv g' \<and> fd_change cbs (g, s) (g', s)"
proof -
  have i: "si_inv g (si_blocks g)" using inv by (simp add: tr_inv_def)
  consider (none) "SIclose fd g = Some (SI_ERROR, g)"
    | (closed) g' p b where "SIclose fd g = Some (0, g')" "si_inv g' (si_blocks g)" "p \<in> set (si_blocks g)" "blk g p = Some b"
      "blk g' = (blk g)(p \<mapsto> b\<lparr>tp_fd := -1, tp_flags := (tp_flags b OR TPF_UNBIND) OR TPF_DELETE\<rparr>)" "gi_flags g' = gi_flags g" "cbtab g' = cbtab g"
    using SIclose_ok [OF i, of fd] by blast
  then show ?thesis
  proof cases
    case none
    then show ?thesis using inv by (simp add: fd_change_def fd_same)
  next
    case h: closed
    show ?thesis using change_marked [OF inv h(3,4,2,5) _ h(6,7)] h(1) by simp
  qed
qed

lemma event_send:
  assumes inv: "tr_inv g" and ok: "sendt_loop ans buf SI_ERROR [] \<noteq> None"
  shows "\<exists>g'. si_event cbs (EvSend sel ans fd buf) (g, s) = Some (g', s) \<and> tr_inv g' \<and> fd_change cbs (g, s) (g', s)"
proof (cases "0 \<le> fd \<and> (\<exists>p b. is_session g (si_blocks g) fd p b)")
  case False
  then show ?thesis using inv SIsendt_bad [of g "si_blocks g" fd sel ans buf] by (auto simp: tr_inv_def fd_change_def fd_same)
next
  case True
  have i: "si_inv g (si_blocks g)" using inv by (simp add: tr_inv_def)
  obtain p b where ss: "is_session g (si_blocks g) fd p b" using True by blast
  have b: "blk g p = Some b" "p \<in> set (si_blocks g)" "tp_fd b = fd" using ss by (auto simp: is_session_def)
  let ?c = "b\<lparr>tp_sent := tp_sent b + 1\<rparr>"
  obtain g1 where g1: "si_inv g1 (si_blocks g)" "blk g1 = (blk g)(p \<mapsto> ?c)" "gi_flags g1 = gi_flags g" "cbtab g1 = cbtab g"
    "SIsendt sel ans fd buf g =
       (if fst sel > 0
        then if snd sel then map_option (\<lambda>g2. (SI_ERROR, EBADFD, [], g2)) (SIterm p g1)
             else map_option (\<lambda>(status, e, out). (status, e, out, g1)) (sendt_loop ans buf SI_ERROR [])
        else Some (18, EBUSY, [], g1))"
    by (rule SIsendt_ok [OF i ss]) (rule that, blast+)
  have "fd_view g1 (si_blocks g) = si_view g" using fd_view_same [OF g1(2) b(1)] by (simp add: si_view_def)
  then have t1: "tr_inv g1" "si_view g1 = si_view g" using tr_invI [OF g1(1)] inv g1(3) cbs_ok_cong [OF g1(4)] by (simp_all add: tr_inv_def)
  show ?thesis
  proof (cases "fst sel > 0 \<and> snd sel")
    case True
    obtain g2 where g2: "SIterm p g1 = Some g2" "si_inv g2 (si_blocks g)" "blk g2 = (blk g1)(p \<mapsto> ?c\<lparr>tp_fd := -1, tp_flags := tp_flags ?c OR TPF_DELETE\<rparr>)"
      "gi_flags g2 = gi_flags g1" "cbtab g2 = cbtab g1" by (rule SIterm_ok [OF g1(1) b(2), of ?c]) (use g1(2) in auto)
    have "blk g2 = (blk g)(p \<mapsto> ?c\<lparr>tp_fd := -1, tp_flags := tp_flags ?c OR TPF_DELETE\<rparr>)" by (simp add: g2(3) g1(2))
    then show ?thesis using True g1(3-5) g2(1,4,5) change_closed(1,3) [OF inv ss g2(2), of "?c\<lparr>tp_fd := -1, tp_flags := tp_flags ?c OR TPF_DELETE\<rparr>"] by simp
  next
    case False
    then show ?thesis using g1(5) t1 ok by (auto simp: fd_change_def fd_same)
  qed
qed

lemma view_live: "si_view g \<noteq> [] \<Longrightarrow> \<exists>p\<in>set (si_blocks g). live g p"
  by (auto simp: si_view_def fd_view_def filter_empty_conv)

lemma round_ok:
  assumes inv: "tr_inv g" and e: "0 < we_pstat e" "si_view g \<noteq> []" and sv: "serve cbs e [] (si_view g) s = Some (A', s')"
  obtains st' g' where "wait_round cbs e st g s = Some (st', g', s')" "tr_inv g'" "si_view g' = A'"
proof -
  have i: "si_inv g (si_blocks g)" "cbs_ok g" "gi_flags g AND GIF_SHUTDOWN = 0" using inv by (simp_all add: tr_inv_def)
  obtain st' g' ps' where r: "wait_round cbs e st g s = Some (st', g', s')" "si_inv g' ps'" "fd_view g' ps' = A'" "gi_flags g' = gi_flags g" "cbs_ok g'"
    by (rule wait_round_ok [OF i(1) view_live [OF e(2)] i(2) e(1) i(3) sv [unfolded si_view_def], of st]) (rule that, blast+)
  show thesis by (rule that [OF r(1)]) (use tr_invI [OF r(2,5)] r(3,4) i(3) in simp_all)
qed

lemma round_idle:
  assumes inv: "tr_inv g" and e: "we_pstat e = 0 \<or> we_pstat e < 0 \<and> we_intr e" "si_view g \<noteq> []"
  obtains g' where "wait_round cbs e st g s = Some (st, g', s)" "tr_inv g'" "si_view g' = si_view g"
proof -
  have i: "si_inv g (si_blocks g)" "cbs_ok g" "gi_flags g AND GIF_SHUTDOWN = 0" using inv by (simp_all add: tr_inv_def)
  obtain g' ps' where r: "wait_round cbs e st g s = Some (st, g', s)" "si_inv g' ps'" "fd_view g' ps' = fd_view g (si_blocks g)" "gi_flags g' = gi_flags g" "cbs_ok g'"
    by (rule wait_round_idle [OF i(1) view_live [OF e(2)] i(2) e(1), of cbs st s]) (rule that, assumption+)
  show thesis by (rule that [OF r(1)]) (use tr_invI [OF r(2,5)] r(3,4) i(3) in \<open>simp_all add: si_view_def\<close>)
qed

lemma event_wait:
  assumes inv: "tr_inv g" and ok: "si_ok cbs (EvWait e) (g, s)"
  shows "\<exists>g' s'. si_event cbs (EvWait e) (g, s) = Some (g', s') \<and> tr_inv g' \<and> fd_change cbs (g, s) (g', s')"
proof (cases "0 < we_pstat e")
  case True
  obtain A' s' where sv: "serve cbs e [] (si_view g) s = Some (A', s')" using ok True by auto
  show ?thesis by (rule round_ok [OF inv True _ sv, of 0]) (use ok sv in \<open>auto simp: fd_change_def intro: fd_served\<close>)
next
  case False
  have e: "we_pstat e = 0 \<or> we_pstat e < 0 \<and> we_intr e" "si_view g \<noteq> []" using ok False by auto
  obtain g' where "wait_round cbs e 0 g s = Some (0, g', s)" "tr_inv g'" "si_view g' = si_view g" by (rule round_idle [OF inv e])
  then show ?thesis by (simp add: fd_change_def fd_same)
qed

lemma event_ok:
  assumes "tr_inv g" "si_ok cbs ev (g, s)"
  shows "\<exists>g' s'. si_event cbs ev (g, s) = Some (g', s') \<and> tr_inv g' \<and> fd_change cbs (g, s) (g', s')"
proof (cases ev)
  case (EvWait e)
  then show ?thesis using event_wait [OF assms(1), of cbs e s] assms(2) by blast
next
  case (EvConnect e a)
  then show ?thesis using event_open(1) [OF assms(1), of cbs e a s] assms(2) by blast
next
  case (EvListen e a)
  then show ?thesis using event_open(2) [OF assms(1), of cbs e a s] assms(2) by blast
next
  case (EvClose fd)
  then show ?thesis using event_close [OF assms(1), of cbs fd s] by auto
next
  case (EvSend sel ans fd buf)
  then show ?thesis using event_send [OF assms(1), of ans buf cbs sel fd s] assms(2) by auto
qed

interpretation si: guarded_steps "si_event cbs" "si_ok cbs" "\<lambda>x. tr_inv (fst x)" "fd_change cbs" for cbs :: "'s si_cbs"
proof unfold_locales
  fix ev and x y :: "ginfo \<times> 's"
  assume a: "tr_inv (fst x)" "si_ok cbs ev x"
  then obtain y' where y: "si_event cbs ev x = Some y'" "tr_inv (fst y')" "fd_change cbs x y'" using event_ok [of "fst x" cbs ev "snd x"] by auto
  then show "\<exists>y. si_event cbs ev x = Some y" by blast
  assume "si_event cbs ev x = Some y"
  with y show "tr_inv (fst y)" "fd_change cbs x y" by auto
qed

lemma init_tr_inv:
  assumes "SIinitialise a b c = Some g"
  shows "tr_inv (mt_receive_cbs g)" "si_view (mt_receive_cbs g) = []"
proof -
  have g: "g = SInew_gi\<lparr>tp_map := replicate 2048 None, cbtab := replicate 8 False\<rparr>" using assms by (simp add: SIinitialise_def split: if_splits)
  have e: "cbtab (mt_receive_cbs g) = [False, False, True, False, False, False, True, False]" "gi_flags (mt_receive_cbs g) = 0" "gi_tplist (mt_receive_cbs g) = None"
    "gi_magic (mt_receive_cbs g) = 219" "tp_map (mt_receive_cbs g) = replicate 2048 None"
    by (simp_all add: g mt_receive_cbs_def SIcbreg_def SInew_gi_def numeral_eq_Suc)
  have "si_inv (mt_receive_cbs g) []" by (simp add: si_inv_def si_list_def sess_ok_def e)
  from tr_invI [OF this] show "tr_inv (mt_receive_cbs g)" "si_view (mt_receive_cbs g) = []" by (simp_all add: cbs_ok_def e)
qed

lemma fd_changes: "(fd_change cbs)\<^sup>*\<^sup>* x y \<Longrightarrow> (fd_step cbs)\<^sup>*\<^sup>* (si_view (fst x), snd x) (si_view (fst y), snd y)"
proof (induction rule: rtranclp_induct)
  case (step y z)
  then show ?case by (auto simp: fd_change_def intro: rtranclp.rtrancl_into_rtrancl)
qed simp

lemma si_view_distinct:
  assumes "tr_inv g"
  shows "distinct (map fst (si_view g))"
proof -
  have i: "si_inv g (si_blocks g)" using assms by (simp add: tr_inv_def)
  have "inj_on (\<lambda>p. tp_fd (the (blk g p))) (set (filter (live g) (si_blocks g)))"
  proof (rule inj_onI)
    fix p q assume a: "p \<in> set (filter (live g) (si_blocks g))" "q \<in> set (filter (live g) (si_blocks g))" "tp_fd (the (blk g p)) = tp_fd (the (blk g q))"
    have pq: "p \<in> set (si_blocks g)" "q \<in> set (si_blocks g)" "live g p" using a(1,2) by simp_all
    obtain b c where bc: "blk g p = Some b" "blk g q = Some c" using a(1,2) by (auto simp: live_def split: option.splits)
    have "tp_fd b = tp_fd c" using a(3) bc by simp
    moreover have "0 \<le> tp_fd b" using live_iff [OF i pq(1) bc(1)] pq(3) by blast
    ultimately show "p = q" by (rule sess_okD(4) [OF si_invD(2) [OF i] pq(1,2) bc])
  qed
  then show ?thesis using si_listD(2) [OF si_invD(1) [OF i]] by (simp add: si_view_def fd_view_def distinct_map comp_def)
qed

text \<open>A process that listens, connects, accepts a session, and loses the one it connected.\<close>

definition demo_gai :: resolver where
  "demo_gai h p b f t q = Some (Inet [10, 0, 0, 1] 4560)"

definition demo_cbs :: "nat si_cbs" where
  "demo_cbs = \<lparr>cb_cdata = \<lambda>fd d n. Some (0, n + length d), cb_security = \<lambda>_ _. None, cb_conn = \<lambda>_ _ _. None, cb_disc = \<lambda>fd n. Some (0, n)\<rparr>"

definition demo_wait :: "(int \<times> bytes) list \<Rightarrow> wait_env" where
  "demo_wait rs = \<lparr>we_pstat = 1, we_intr = False, we_rd = set (map fst rs), we_wr = {}, we_ex = {}, we_recv = \<lambda>fd. map_of rs fd, we_accept = \<lambda>_. (9, Inet [10, 0, 0, 2] 33000), we_mem = True\<rparr>"

definition demo_conn :: "int \<Rightarrow> conn_env" where
  "demo_conn n = \<lparr>ce_gai = demo_gai, ce_socket = n, ce_syncnt = 0, ce_connect = 0, ce_sockname = Some (Inet [10, 0, 0, 2] 33001)\<rparr>"

definition demo_listen :: "int \<Rightarrow> listen_env" where
  "demo_listen n = \<lparr>le_gai = demo_gai, le_socket = n, le_bind = 0, le_listen = 0\<rparr>"

definition demo_evs :: "si_ev list" where
  "demo_evs = [EvListen (demo_listen 3) '':4560'', EvConnect (demo_conn 5) ''h:4560'', EvWait (demo_wait [(3, [])]), EvSend (1, False) [(2, E0), (1, E0)] 5 [1, 2, 3],
     EvWait (demo_wait [(5, []), (9, [7, 8])]), EvWait ((demo_wait [])\<lparr>we_pstat := 0\<rparr>), EvWait (demo_wait [(9, [6])]), EvClose (-1)]"

lemma demo_safe: "safe_run (si_event demo_cbs) (si_ok demo_cbs) demo_evs (mt_receive_cbs (the (SIinitialise True True True)), 0)"
  by code_simp

text \<open>
  C6: the transport stays sound and does what its specification says. Start from a transport that was initialised, and let connects,
  listens, sends, closes (of a descriptor, or of the first block that is taken for a listener or a datagram socket) and rounds of the wait follow in any order, as long as
  three things hold. The kernel gives new sockets descriptors that are not open and below the size of a descriptor set.
  Some descriptor is open when a round starts: without one, the round frees a last block without unlinking it and its select is refused.
  The select of a round does not fail (it may find nothing, or be interrupted), and the callbacks it makes do not ask for something else. Then no call uses a block that was freed, each loop over the list
  ends, and after the history the invariant holds: the list is linked in both directions, the map leads from each descriptor of a session to its
  block and from no other, no descriptor is in two blocks. The open descriptors changed only as specified: a new
  one in front, one closed, or a round of service.
\<close>

theorem si_history:
  assumes "SIinitialise a b c = Some g" "safe_run (si_event cbs) (si_ok cbs) evs (mt_receive_cbs g, s)"
  shows "\<exists>g' s'. run_steps (si_event cbs) evs (mt_receive_cbs g, s) = Some (g', s') \<and> si_inv g' (si_blocks g') \<and>
    (fd_step cbs)\<^sup>*\<^sup>* ([], s) (si_view g', s') \<and> distinct (map fst (si_view g'))"
proof -
  let ?x = "(mt_receive_cbs g, s)"
  have i: "tr_inv (fst ?x)" using init_tr_inv(1) [OF assms(1)] by simp
  obtain y where y: "run_steps (si_event cbs) evs ?x = Some y" "tr_inv (fst y)" using si.run_ok [OF i assms(2)] by blast
  have "(fd_step cbs)\<^sup>*\<^sup>* ([], s) (si_view (fst y), snd y)"
    using fd_changes [OF si.run_changes [OF i assms(2) y(1)]] init_tr_inv(2) [OF assms(1)] by simp
  then show ?thesis using y si_view_distinct [OF y(2)] by (intro exI [of _ "fst y"] exI [of _ "snd y"]) (simp add: tr_inv_def)
qed

theorem si_history_witness:
  "\<exists>g' s'. run_steps (si_event demo_cbs) demo_evs (mt_receive_cbs (the (SIinitialise True True True)), 0) = Some (g', s') \<and> si_inv g' (si_blocks g') \<and>
    (fd_step demo_cbs)\<^sup>*\<^sup>* ([], 0) (si_view g', s')"
proof -
  have "SIinitialise True True True = Some (the (SIinitialise True True True))" by (simp add: SIinitialise_def)
  from si_history [OF this demo_safe] show ?thesis by blast
qed

end
