(* ===== verification/TransProps.thy ===== *)
theory TransProps
  imports Transport
begin

text \<open>
  Messages over the transport: the receive thread puts what arrives into the receive queue, a send hands over a message as a whole or reports
  that it did not, and what goes wrong when a send is interrupted, a connect fails, or the last session ends.
\<close>

subsection \<open>The receive thread\<close>

text \<open>The callbacks \<open>mt_receive\<close> registers, and the thread: its wait over the rounds the kernel provides.\<close>

definition rmr_cbs :: "int \<Rightarrow> (nat \<Rightarrow> u8) \<Rightarrow> uta_ctx si_cbs" where
  "rmr_cbs now junk = \<lparr>cb_cdata = \<lambda>fd buf ctx. (case mt_data_cb (length buf) True now junk ctx fd buf of
       Return c \<Rightarrow> Some (SI_RET_OK, c) | _ \<Rightarrow> None),
     cb_security = \<lambda>_ _. None, cb_conn = \<lambda>_ _ _. None, cb_disc = \<lambda>fd ctx. Some (SI_RET_OK, mt_disc_cb fd ctx)\<rparr>"

definition mt_receive :: "int \<Rightarrow> (nat \<Rightarrow> u8) \<Rightarrow> wait_env list \<Rightarrow> ginfo \<Rightarrow> uta_ctx \<Rightarrow> (int \<times> ginfo \<times> uta_ctx) option" where
  "mt_receive now junk es g ctx = SIwait (rmr_cbs now junk) es (mt_receive_cbs g) ctx"

text \<open>A round in which the kernel has these bytes for one descriptor, and one in which the select fails.\<close>

definition delivers :: "int \<Rightarrow> wait_env \<Rightarrow> bytes \<Rightarrow> bool" where
  "delivers fd e c = (0 < we_pstat e \<and> we_rd e = {fd} \<and> fd \<notin> we_ex e \<and> we_recv e fd = Some c)"

definition select_fails :: "wait_env \<Rightarrow> bool" where
  "select_fails e = (we_pstat e < 0 \<and> \<not> we_intr e)"

lemma serve_idle: "fd \<notin> fst ` set B \<Longrightarrow> we_rd e = {fd} \<Longrightarrow> serve cbs e A B s = Some (A @ B, s)"
proof (induction B arbitrary: A)
  case (Cons x B)
  then show ?case by (cases x) auto
qed simp

lemma serve_one:
  assumes "distinct (map fst B)" "(fd, False) \<in> set B" "delivers fd e (x # xs)" "cb_cdata cbs fd (x # xs) s = Some (SI_RET_OK, s')"
  shows "serve cbs e A B s = Some (A @ B, s')"
  using assms
proof (induction B arbitrary: A)
  case (Cons y B)
  obtain n l where y: "y = (n, l)" by (cases y)
  show ?case
  proof (cases "n = fd")
    case True
    then have "\<not> l" "fd \<notin> fst ` set B" using Cons.prems(1,2) y by force+
    then show ?thesis using Cons.prems(3,4) True serve_idle [of fd B e cbs "A @ [y]" s'] y by (simp add: delivers_def)
  next
    case False
    then show ?thesis using Cons y by (auto simp: delivers_def)
  qed
qed simp

lemma view_tplist: "si_view g \<noteq> [] \<Longrightarrow> gi_tplist g \<noteq> None"
  by (cases "gi_tplist g") (simp_all add: si_view_def si_blocks_def)

lemma deliver_rounds:
  assumes "list_all2 (delivers fd) es cs" "tr_inv g" "(fd, False) \<in> set (si_view g)" "[] \<notin> set cs" "rx_chunks now junk fd cs ctx = Return ctx'"
  shows "\<exists>st' g'. wait_rounds (rmr_cbs now junk) (es @ fs) st g ctx = wait_rounds (rmr_cbs now junk) fs st' g' ctx' \<and> tr_inv g' \<and> si_view g' = si_view g"
  using assms
proof (induction es cs arbitrary: st g ctx rule: list_all2_induct)
  case (Cons e es c cs)
  obtain x xs where c: "c = x # xs" using Cons.prems(3) by (cases c) auto
  obtain c1 where c1: "mt_data_cb (length c) True now junk ctx fd c = Return c1" "rx_chunks now junk fd cs c1 = Return ctx'"
    using Cons.prems(4) by (auto split: outcome.splits)
  have v: "si_view g \<noteq> []" using Cons.prems(2) by auto
  have sv: "serve (rmr_cbs now junk) e [] (si_view g) ctx = Some (si_view g, c1)"
    using serve_one [OF si_view_distinct [OF Cons.prems(1)] Cons.prems(2), of e x xs "rmr_cbs now junk" ctx c1 "[]"] Cons.hyps(1) c c1(1)
    by (simp add: rmr_cbs_def)
  have "0 < we_pstat e" using Cons.hyps(1) by (simp add: delivers_def)
  then obtain st1 g1 where r: "wait_round (rmr_cbs now junk) e st g ctx = Some (st1, g1, c1)" "tr_inv g1" "si_view g1 = si_view g"
    by (rule round_ok [OF Cons.prems(1) _ v sv, of st])
  have "gi_tplist g1 \<noteq> None" "gi_flags g1 AND GIF_SHUTDOWN = 0" using view_tplist [of g1] v r(2,3) by (simp_all add: tr_inv_def)
  then have "wait_rounds (rmr_cbs now junk) ((e # es) @ fs) st g ctx = wait_rounds (rmr_cbs now junk) (es @ fs) st1 g1 c1" using r(1) by simp
  then show ?case using Cons.IH [OF r(2) _ _ c1(2), of st1] Cons.prems(2,3) r(3) by simp
qed auto

lemma round_failed:
  assumes inv: "tr_inv g" and v: "si_view g \<noteq> []" and e: "select_fails e"
  obtains g' where "wait_round cbs e st g s = Some (st, g', s)" "gi_flags g' AND GIF_SHUTDOWN \<noteq> 0" "si_view g' = si_view g"
proof -
  have i: "si_inv g (si_blocks g)" using inv by (simp add: tr_inv_def)
  have lv: "si_blocks g = [] \<or> (\<exists>p\<in>set (si_blocks g). live g p)" using view_live [OF v] by blast
  let ?ps = "filter (live g) (si_blocks g)"
  obtain g1 where g1: "SIbldpoll g = Some g1" "si_inv g1 ?ps" "\<And>p. p \<in> set ?ps \<Longrightarrow> map_option core (blk g1 p) = map_option core (blk g p)"
    by (rule SIbldpoll_ok [OF i lv]) (rule that, blast+)
  let ?g = "g1\<lparr>readfds := we_rd e, writefds := we_wr e, execpfds := we_ex e, fdcount := 0, gi_flags := gi_flags g1 OR GIF_SHUTDOWN\<rparr>"
  have bl: "blk ?g = blk g1" by simp
  have i2: "si_inv ?g ?ps" using si_inv_frame [OF g1(2), of ?g] by simp
  have fv: "fd_view ?g = fd_view g1" unfolding fd_view_def [abs_def] bl blk_only(1) [OF bl] ..
  have "fd_view g1 ?ps = fd_view g ?ps" by (rule fd_view_cong) (rule g1(3))
  then have w: "si_view ?g = si_view g" using fv by (simp add: si_view_def si_blocks_eq [OF i2] fd_view_live)
  have "select_error e g1" using e by (simp add: select_error_def select_fails_def)
  then have "wait_round cbs e st g s = Some (st, ?g, s)" using g1(1) by (simp add: wait_round_def Let_def)
  then show thesis by (rule that) (use w in simp_all)
qed

lemma round_fails:
  assumes inv: "tr_inv g" and v: "si_view g \<noteq> []" and e: "select_fails e"
  obtains g' where "wait_rounds cbs [e] st g s = Some (st, g', s)" "gi_tplist g' \<noteq> None" "si_view g' = si_view g"
proof -
  obtain g' where "wait_round cbs e st g s = Some (st, g', s)" "gi_flags g' AND GIF_SHUTDOWN \<noteq> 0" "si_view g' = si_view g"
    by (rule round_failed [OF inv v e])
  then show thesis using that view_tplist [of g'] v by simp
qed

lemma view_fds:
  assumes "tr_inv g" "(fd, l) \<in> set (si_view g)"
  shows "0 \<le> fd" "fd < 1024"
proof -
  have i: "si_inv g (si_blocks g)" using assms(1) by (simp add: tr_inv_def)
  obtain p where p: "p \<in> set (si_blocks g)" "live g p" "tp_fd (the (blk g p)) = fd" using assms(2) by (auto simp: si_view_def fd_view_def)
  then obtain b where "blk g p = Some b" "tp_fd b = fd" by (auto simp: live_def split: option.splits)
  then show "0 \<le> fd" "fd < 1024" using live_iff [OF i p(1)] p(2) si_inv_listen [OF i p(1)] by auto
qed

text \<open>
  C1: what is sent arrives, with the transport in between. Messages that the sender passed to the transport of its side on
  a connection reach the receiver's kernel as a stream of bytes; whatever pieces of it the receive calls of the wait
  return, round after round, until the thread's wait ends, the receive thread puts exactly these messages into
  the receive queue, in their order and with their content. No descriptor of a session is beyond the rivers of
  the context, and the open descriptors are the same afterwards.
\<close>

theorem delivered_by_thread:
  assumes "list_all2 sent_as ms fs" "concat cs = concat fs" "[] \<notin> set cs" "list_all2 (delivers fd) es cs" "select_fails e"
    "tr_inv (mt_receive_cbs g)" "(fd, False) \<in> set (si_view (mt_receive_cbs g))"
    "rv_state (rivers ctx ! nat fd) = RS_NEW" "recv_inv ctx" "length (ring_abs (mring ctx)) + length ms \<le> ring_cap (mring ctx)"
    "ibm_ok (max_ibm ctx)" "nrivers ctx = 1024" "length (rivers ctx) = 1024"
  shows "\<exists>st g' ctx'. mt_receive now junk (es @ [e]) g ctx = Some (st, g', ctx') \<and> recv_inv ctx' \<and>
    queued ctx' = queued ctx @ map content ms \<and> si_view g' = si_view (mt_receive_cbs g)"
proof -
  let ?g = "mt_receive_cbs g" let ?cbs = "rmr_cbs now junk"
  note fd = view_fds [OF assms(6,7)]
  obtain ctx' where ctx': "rx_chunks now junk fd cs ctx = Return ctx'" "recv_inv ctx'" "queued ctx' = queued ctx @ map content ms"
    using end_to_end [OF assms(1-3,8-11) fd(1)] fd(2) assms(12,13) by force
  obtain st1 g1 where r: "wait_rounds ?cbs (es @ [e]) 0 ?g ctx = wait_rounds ?cbs [e] st1 g1 ctx'" "tr_inv g1" "si_view g1 = si_view ?g"
    using deliver_rounds [OF assms(4,6,7,3) ctx'(1), of "[e]" 0] by blast
  have v: "si_view g1 \<noteq> []" using r(3) assms(7) by auto
  obtain g' where g': "wait_rounds ?cbs [e] st1 g1 ctx' = Some (st1, g', ctx')" "gi_tplist g' \<noteq> None" "si_view g' = si_view g1"
    by (rule round_fails [OF r(2) v assms(5)])
  have "gi_magic ?g = 219" "gi_flags ?g AND GIF_SHUTDOWN = 0" using assms(6) si_invD(3) by (auto simp: tr_inv_def)
  then have "mt_receive now junk (es @ [e]) g ctx = Some (st1, g', ctx')" using trans [OF r(1) g'(1)] g'(2) by (auto simp: mt_receive_def SIwait_def)
  then show ?thesis using ctx'(2,3) g'(3) r(3) by simp
qed

text \<open>Registering the callbacks again changes nothing.\<close>

lemma mt_receive_cbs_again: "tr_inv g \<Longrightarrow> mt_receive_cbs g = g"
proof -
  assume i: "tr_inv g"
  then have "cbtab g ! 2 = True" "cbtab g ! 6 = True" "gi_magic g = 219" using si_invD(3) by (auto simp: tr_inv_def cbs_ok_def)
  moreover from this have "(cbtab g)[2 := True] = cbtab g" "(cbtab g)[6 := True] = cbtab g" by (metis list_update_id)+
  ultimately show ?thesis by (simp add: mt_receive_cbs_def SIcbreg_def)
qed

text \<open>A transport with one session, and the context of a process that starts.\<close>

definition demo_session :: ginfo where
  "demo_session = fst (the (si_event demo_cbs (EvConnect (demo_conn 7) ''h:4560'') (mt_receive_cbs (the (SIinitialise True True True)), 0)))"

lemma demo_session_ok: "tr_inv demo_session" "si_view demo_session = [(7, False)]"
proof -
  let ?x = "(mt_receive_cbs (the (SIinitialise True True True)), 0)"
  have "SIinitialise True True True = Some (the (SIinitialise True True True))" by (simp add: SIinitialise_def)
  note i = init_tr_inv [OF this]
  have "si_ok demo_cbs (EvConnect (demo_conn 7) ''h:4560'') ?x" using i(2) by (simp add: demo_conn_def)
  from si.step_runs [OF _ this] si.step_inv [OF _ this] show "tr_inv demo_session" using i(1) by (auto simp: demo_session_def)
  show "si_view demo_session = [(7, False)]" by code_simp
qed

lemma demo_uta_ctx:
  obtains ctx :: uta_ctx where "recv_inv ctx" "ring_abs (mring ctx) = []" "1 \<le> ring_cap (mring ctx)" "ibm_ok (max_ibm ctx)" "nrivers ctx = 1024" "rivers ctx = replicate 1024 river_zero"
proof -
  obtain ctx :: uta_ctx and bd th where i: "init demo_env [] None 0 0 = Return (Inr (ctx, bd, th))" by (rule demo_init)
  have c: "mring ctx = mring (zero_ctx [] 0 0)" "chutes ctx = chutes (zero_ctx [] 0 0)" "nrivers ctx = 1024" "rivers ctx = replicate 1024 river_zero" "max_ibm ctx = to_int32 (max 1024 0 + 398)"
    by (rule init_ctx [OF i], blast)+
  have "1 \<le> ring_cap (mring (zero_ctx [] 0 0))"
    by (simp add: zero_ctx_def Let_def ring_cap_def uta_mk_ring_def uta_ring_config_def init_mtcall_def)
  moreover have "chutes (zero_ctx [] 0 0) \<noteq> []" using zero_ctx_ring(4) [of "[]" 0 0] by auto
  ultimately show thesis using that [of ctx] c zero_ctx_ring [of "[]" 0 0] by (simp add: recv_inv_def ibm_ok_def to_int32_small)
qed

theorem delivered_by_thread_witness:
  "\<exists>m f ctx st g' ctx'. sent_as m f \<and>
     mt_receive 5 (\<lambda>_. 0) [demo_wait [(7, take 100 f)], demo_wait [(7, drop 100 f)], (demo_wait [])\<lparr>we_pstat := -1\<rparr>] demo_session ctx = Some (st, g', ctx') \<and>
     queued ctx' = [content m]"
proof -
  obtain m b where m: "sendable m b" "no_call b" by (rule demo_sendable) blast
  obtain c0 :: uta_ctx and bd th where "init demo_env [] None 0 0 = Return (Inr (c0, bd, th))" by (rule demo_init)
  let ?f = "wire_frame c0 m b"
  obtain mo c1 where "send_msg (\<lambda>_. (SI_OK, E0)) True (\<lambda>_. 0) c0 m 7 0 = Return (mo, E0, c1, [(7, ?f)])"
    using send_msg_first [OF m(1), of "\<lambda>_. (SI_OK, E0)" E0] by blast
  then have s: "sent_as m ?f" unfolding sent_as_def using m by blast
  have l: "330 \<le> length ?f" using wire_frame_spec(1) [OF m(1), of c0] sendable_facts(2) [OF m(1)] by simp
  obtain ctx :: uta_ctx where ctx: "recv_inv ctx" "ring_abs (mring ctx) = []" "1 \<le> ring_cap (mring ctx)" "ibm_ok (max_ibm ctx)" "nrivers ctx = 1024" "rivers ctx = replicate 1024 river_zero"
    by (rule demo_uta_ctx)
  let ?es = "[demo_wait [(7, take 100 ?f)], demo_wait [(7, drop 100 ?f)]]" and ?e = "(demo_wait [])\<lparr>we_pstat := -1\<rparr>"
  note g = mt_receive_cbs_again [OF demo_session_ok(1)]
  have "\<exists>st g' ctx'. mt_receive 5 (\<lambda>_. 0) (?es @ [?e]) demo_session ctx = Some (st, g', ctx') \<and> recv_inv ctx' \<and>
      queued ctx' = queued ctx @ map content [m] \<and> si_view g' = si_view (mt_receive_cbs demo_session)"
  proof (rule delivered_by_thread [where fs = "[?f]" and cs = "[take 100 ?f, drop 100 ?f]" and fd = 7])
    show "[] \<notin> set [take 100 ?f, drop 100 ?f]" using l by auto
    show "list_all2 (delivers 7) ?es [take 100 ?f, drop 100 ?f]" "select_fails ?e" by (simp_all add: delivers_def select_fails_def demo_wait_def)
  qed (use s ctx demo_session_ok g in \<open>simp_all add: river_zero_def\<close>)
  then show ?thesis using s ctx(2) by (fastforce simp: queued_def)
qed

subsection \<open>Sending\<close>

lemma view_session:
  assumes "tr_inv g" "(fd, False) \<in> set (si_view g)"
  obtains p b where "is_session g (si_blocks g) fd p b"
proof -
  obtain p where p: "p \<in> set (si_blocks g)" "live g p" "tp_fd (the (blk g p)) = fd" "tp_flags (the (blk g p)) AND TPF_LISTENFD = 0"
    using assms(2) by (auto simp: si_view_def fd_view_def)
  then obtain b where "blk g p = Some b" by (auto simp: live_def split: option.splits)
  then have "is_session g (si_blocks g) fd p b" using p view_fds(1) [OF assms] by (simp add: is_session_def)
  then show thesis by (rule that)
qed

lemma SIsendt_session:
  assumes inv: "tr_inv g" and fd: "(fd, False) \<in> set (si_view g)"
  obtains g1 where "tr_inv g1" "si_view g1 = si_view g" "si_log g1 = si_log g"
    "\<And>n ans msg. 0 < n \<Longrightarrow> SIsendt (n, False) ans fd msg g = map_option (\<lambda>(status, e, out). (status, e, out, g1)) (sendt_loop ans msg SI_ERROR [])"
    "\<And>n x ans msg. n \<le> 0 \<Longrightarrow> SIsendt (n, x) ans fd msg g = Some (SI_ERR_BLOCKED, EBUSY, [], g1)"
    "\<And>n ans msg. 0 < n \<Longrightarrow> \<exists>g2. SIsendt (n, True) ans fd msg g = Some (SI_ERROR, EBADFD, [], g2) \<and> tr_inv g2 \<and>
       si_view g2 = filter (\<lambda>x. fst x \<noteq> fd) (si_view g)"
proof -
  have i: "si_inv g (si_blocks g)" using inv by (simp add: tr_inv_def)
  obtain p b where ss: "is_session g (si_blocks g) fd p b" by (rule view_session [OF inv fd])
  have b: "blk g p = Some b" "p \<in> set (si_blocks g)" using ss by (simp_all add: is_session_def)
  let ?c = "b\<lparr>tp_sent := tp_sent b + 1\<rparr>"
  let ?g = "set_blk p (Some (b\<lparr>tp_sent := tp_sent b + 1\<rparr>)) g"
  have run: "SIsendt sel ans fd msg g = (if fst sel > 0
        then if snd sel then map_option (\<lambda>g2. (SI_ERROR, EBADFD, [], g2)) (SIterm p ?g)
             else map_option (\<lambda>(status, e, out). (status, e, out, ?g)) (sendt_loop ans msg SI_ERROR [])
        else Some (18, EBUSY, [], ?g))" for sel ans msg
    using tp_of_fd_ok(1) [OF i _ ss] ss view_fds [OF inv fd] by (simp add: SIsendt_def is_session_def Let_def)
  have i1: "si_inv ?g (si_blocks g)" by (rule si_inv_upd [OF i b(1)]) simp_all
  have h: "blk ?g = (blk g)(p \<mapsto> ?c)" by (rule blk_set_fun [OF blk_Some_less [OF b(1)]])
  have "fd_view ?g (si_blocks g) = si_view g" using fd_view_same [OF h b(1)] by (simp add: si_view_def)
  then have k: "tr_inv ?g" "si_view ?g = si_view g" using tr_invI [OF i1] inv by (simp_all add: tr_inv_def cbs_ok_def)
  obtain g2 where g2: "SIterm p ?g = Some g2" "si_inv g2 (si_blocks g)" "blk g2 = (blk ?g)(p \<mapsto> ?c\<lparr>tp_fd := -1, tp_flags := tp_flags ?c OR TPF_DELETE\<rparr>)"
    "gi_flags g2 = gi_flags ?g" "cbtab g2 = cbtab ?g" by (rule SIterm_ok [OF i1 b(2), of ?c]) (use h in auto)
  have "blk g2 = (blk g)(p \<mapsto> ?c\<lparr>tp_fd := -1, tp_flags := tp_flags ?c OR TPF_DELETE\<rparr>)" by (simp add: g2(3) h)
  note c = change_closed(1,2) [OF inv ss g2(2) this _ _ _]
  have t: "tr_inv g2" "si_view g2 = filter (\<lambda>x. fst x \<noteq> fd) (si_view g)" using c g2(4,5) by simp_all
  show thesis by (rule that [OF k]) (use g2(1) t in \<open>simp_all add: run\<close>)
qed

text \<open>
  C24: a send does what it reports, whatever the kernel answers. On an open session that can be written to, a message the kernel takes
  in one or more pieces is handed over exactly, byte by byte, and the send reports success. When the kernel refuses a call before the end,
  exactly the bytes it took until then were handed over, and the send reports an error with the errno of the refused call. An empty message is reported as an
  error. When the session is blocked nothing is handed over and the send reports that. In these cases the open
  descriptors stay as they are. When the session has an exceptional condition nothing is handed over, the send
  reports an error, and this session is closed, and no other. A descriptor that is no open session is refused without any effect.
\<close>

theorem send_contract:
  assumes "tr_inv g"
  shows "((fd, False) \<in> set (si_view g) \<longrightarrow> (\<exists>g1. tr_inv g1 \<and> si_view g1 = si_view g \<and>
      (\<forall>n ans msg. 0 < n \<and> msg \<noteq> [] \<and> (\<forall>a\<in>set ans. 0 \<le> fst a) \<and> length msg \<le> taken ans \<longrightarrow>
         SIsendt (n, False) ans fd msg g = Some (SI_OK, E0, msg, g1)) \<and>
      (\<forall>n as k err ans msg. 0 < n \<and> (\<forall>a\<in>set as. 0 \<le> fst a) \<and> k < 0 \<and> taken as < length msg \<longrightarrow>
         SIsendt (n, False) (as @ (k, err) # ans) fd msg g = Some (SI_ERROR, err, take (taken as) msg, g1)) \<and>
      (\<forall>n ans. 0 < n \<longrightarrow> SIsendt (n, False) ans fd [] g = Some (SI_ERROR, E0, [], g1)) \<and>
      (\<forall>n x ans msg. n \<le> 0 \<longrightarrow> SIsendt (n, x) ans fd msg g = Some (SI_ERR_BLOCKED, EBUSY, [], g1)) \<and>
      (\<forall>n ans msg. 0 < n \<longrightarrow> (\<exists>g2. SIsendt (n, True) ans fd msg g = Some (SI_ERROR, EBADFD, [], g2) \<and> tr_inv g2 \<and>
         si_view g2 = filter (\<lambda>x. fst x \<noteq> fd) (si_view g))))) \<and>
    ((fd, False) \<notin> set (si_view g) \<longrightarrow> (\<forall>sel ans msg. SIsendt sel ans fd msg g = Some (SI_ERROR, EBADFD, [], g)))"
proof (intro conjI impI)
  assume "(fd, False) \<in> set (si_view g)"
  then obtain g1 where g1: "tr_inv g1" "si_view g1 = si_view g"
    "\<And>n ans msg. 0 < n \<Longrightarrow> SIsendt (n, False) ans fd msg g = map_option (\<lambda>(status, e, out). (status, e, out, g1)) (sendt_loop ans msg SI_ERROR [])"
    "\<And>n x ans msg. n \<le> 0 \<Longrightarrow> SIsendt (n, x) ans fd msg g = Some (SI_ERR_BLOCKED, EBUSY, [], g1)"
    "\<And>n ans msg. 0 < n \<Longrightarrow> \<exists>g2. SIsendt (n, True) ans fd msg g = Some (SI_ERROR, EBADFD, [], g2) \<and> tr_inv g2 \<and>
       si_view g2 = filter (\<lambda>x. fst x \<noteq> fd) (si_view g)"
    by (rule SIsendt_session [OF assms]) (rule that, assumption+)
  show "\<exists>g1. tr_inv g1 \<and> si_view g1 = si_view g \<and>
      (\<forall>n ans msg. 0 < n \<and> msg \<noteq> [] \<and> (\<forall>a\<in>set ans. 0 \<le> fst a) \<and> length msg \<le> taken ans \<longrightarrow>
         SIsendt (n, False) ans fd msg g = Some (SI_OK, E0, msg, g1)) \<and>
      (\<forall>n as k err ans msg. 0 < n \<and> (\<forall>a\<in>set as. 0 \<le> fst a) \<and> k < 0 \<and> taken as < length msg \<longrightarrow>
         SIsendt (n, False) (as @ (k, err) # ans) fd msg g = Some (SI_ERROR, err, take (taken as) msg, g1)) \<and>
      (\<forall>n ans. 0 < n \<longrightarrow> SIsendt (n, False) ans fd [] g = Some (SI_ERROR, E0, [], g1)) \<and>
      (\<forall>n x ans msg. n \<le> 0 \<longrightarrow> SIsendt (n, x) ans fd msg g = Some (SI_ERR_BLOCKED, EBUSY, [], g1)) \<and>
      (\<forall>n ans msg. 0 < n \<longrightarrow> (\<exists>g2. SIsendt (n, True) ans fd msg g = Some (SI_ERROR, EBADFD, [], g2) \<and> tr_inv g2 \<and>
         si_view g2 = filter (\<lambda>x. fst x \<noteq> fd) (si_view g)))"
    by (rule exI [of _ g1]) (use g1 in \<open>simp add: sendt_loop_pieces sendt_loop_fails\<close>)
next
  assume n: "(fd, False) \<notin> set (si_view g)"
  have i: "si_inv g (si_blocks g)" using assms by (simp add: tr_inv_def)
  then have "\<nexists>p b. is_session g (si_blocks g) fd p b" using is_session_view [OF i] n unfolding si_view_def by blast
  then show "\<forall>sel ans msg. SIsendt sel ans fd msg g = Some (SI_ERROR, EBADFD, [], g)" using SIsendt_bad [OF i] by blast
qed

theorem send_contract_witness:
  "(\<exists>g1 g2. SIsendt (1, False) [(2, E0), (5, E0)] 7 [1, 2, 3] demo_session = Some (SI_OK, E0, [1, 2, 3], g1) \<and> si_view g1 = [(7, False)] \<and>
     SIsendt (1, False) ([(2, E0)] @ (-1, ECONNREFUSED) # []) 7 [1, 2, 3] demo_session = Some (SI_ERROR, ECONNREFUSED, [1, 2], g1) \<and>
     SIsendt (1, True) [] 7 [1, 2, 3] demo_session = Some (SI_ERROR, EBADFD, [], g2) \<and> si_view g2 = []) \<and>
   SIsendt (1, False) [(3, E0)] 8 [1, 2, 3] demo_session = Some (SI_ERROR, EBADFD, [], demo_session)"
proof -
  have m: "(7, False) \<in> set (si_view demo_session)" "(8, False) \<notin> set (si_view demo_session)" by (simp_all add: demo_session_ok(2))
  obtain g1 where g1: "si_view g1 = si_view demo_session"
    "\<And>n ans msg. 0 < n \<and> msg \<noteq> [] \<and> (\<forall>a\<in>set ans. 0 \<le> fst a) \<and> length msg \<le> taken ans \<Longrightarrow> SIsendt (n, False) ans 7 msg demo_session = Some (SI_OK, E0, msg, g1)"
    "\<And>n as k err ans msg. 0 < n \<and> (\<forall>a\<in>set as. 0 \<le> fst a) \<and> k < 0 \<and> taken as < length msg \<Longrightarrow>
       SIsendt (n, False) (as @ (k, err) # ans) 7 msg demo_session = Some (SI_ERROR, err, take (taken as) msg, g1)"
    "\<And>n ans msg. 0 < n \<Longrightarrow> \<exists>g2. SIsendt (n, True) ans 7 msg demo_session = Some (SI_ERROR, EBADFD, [], g2) \<and> tr_inv g2 \<and>
       si_view g2 = filter (\<lambda>x. fst x \<noteq> 7) (si_view demo_session)"
    using conjunct1 [OF send_contract [OF demo_session_ok(1), of 7], rule_format, OF m(1)] by blast
  have "SIsendt (1, False) ([(2, E0)] @ (-1, ECONNREFUSED) # []) 7 [1, 2, 3] demo_session = Some (SI_ERROR, ECONNREFUSED, take (taken [(2, E0)]) [1, 2, 3], g1)"
    by (rule g1(3)) simp
  moreover have "SIsendt (1, False) [(2, E0), (5, E0)] 7 [1, 2, 3] demo_session = Some (SI_OK, E0, [1, 2, 3], g1)" by (rule g1(2)) simp
  moreover obtain g2 where "SIsendt (1, True) [] 7 [1, 2, 3] demo_session = Some (SI_ERROR, EBADFD, [], g2)" "si_view g2 = []"
    using g1(4) [of 1 "[]" "[1, 2, 3]"] by (auto simp: demo_session_ok(2))
  ultimately show ?thesis using conjunct2 [OF send_contract [OF demo_session_ok(1), of 8], rule_format, OF m(2)] g1(1)
    by (auto simp: demo_session_ok(2))
qed

text \<open>
  C31: an interrupted send breaks the stream. When a call of the kernel fails after the first bytes of a message were taken (a signal, or
  a full buffer: the test that should try again in these cases is true for every error), the send gives up and reports an error, but the
  session stays open with a part of the message on it. The next message is sent in full, and the receiver takes its
  first bytes for the rest of the first one: it is given a message nobody sent.
\<close>

theorem interrupted_send_splices:
  assumes "tr_inv g" "(fd, False) \<in> set (si_view g)" "\<forall>a\<in>set as. 0 \<le> fst a" "err = EINTR \<or> err = EAGAIN"
    "frame_ok f1" "9 \<le> taken as" "taken as < length f1" "length f1 - taken as \<le> length f2"
    "\<forall>a\<in>set bs. 0 < fst a" "length f2 \<le> taken bs"
  shows "\<exists>g1 g2 rest. SIsendt (1, False) (as @ [(-1, err)]) fd f1 g = Some (SI_ERROR, err, take (taken as) f1, g1) \<and>
    (fd, False) \<in> set (si_view g1) \<and> si_log g1 = si_log g \<and>
    SIsendt (1, False) bs fd f2 g1 = Some (SI_OK, E0, f2, g2) \<and>
    fst (deframe (take (taken as) f1 @ f2)) = (take (taken as) f1 @ take (length f1 - taken as) f2) # rest"
proof -
  let ?k = "taken as"
  obtain g1 where g1: "tr_inv g1" "si_view g1 = si_view g" "si_log g1 = si_log g"
    "\<And>n ans msg. 0 < n \<Longrightarrow> SIsendt (n, False) ans fd msg g = map_option (\<lambda>(status, e, out). (status, e, out, g1)) (sendt_loop ans msg SI_ERROR [])"
    by (rule SIsendt_session [OF assms(1,2)]) (rule that, blast+)
  have fd1: "(fd, False) \<in> set (si_view g1)" using assms(2) g1(2) by simp
  obtain g2 where g2: "\<And>n ans msg. 0 < n \<Longrightarrow> SIsendt (n, False) ans fd msg g1 = map_option (\<lambda>(status, e, out). (status, e, out, g2)) (sendt_loop ans msg SI_ERROR [])"
    by (rule SIsendt_session [OF g1(1) fd1]) (rule that, blast+)
  have "f2 \<noteq> []" using assms(7,8) by auto
  then have s2: "SIsendt (1, False) bs fd f2 g1 = Some (SI_OK, E0, f2, g2)" using g2 [of 1 bs f2] sendt_loop_pieces [OF _ assms(10), of SI_ERROR "[]"] assms(9) by force
  have s1: "SIsendt (1, False) (as @ [(-1, err)]) fd f1 g = Some (SI_ERROR, err, take ?k f1, g1)"
    using g1(4) [of 1 "as @ [(-1, err)]" f1] sendt_loop_fails [OF assms(3) _ assms(7), of "-1" err "[]" SI_ERROR "[]"] by simp
  let ?s = "take ?k f1 @ f2"
  have f: "unat (extract_mlen f1) = length f1" "9 \<le> length f1" using assms(5) by (simp_all add: frame_ok_def)
  have "extract_mlen ?s = extract_mlen f1" using extract_mlen_append [of "take ?k f1" f2] extract_mlen_take [OF assms(6), of f1] assms(6,7) by simp
  then have n: "length f1 = unat (extract_mlen ?s)" using f by simp
  have l: "length f1 \<le> length ?s" "9 \<le> length ?s" using assms(6-8) by simp_all
  have t: "take (length f1) ?s = take ?k f1 @ take (length f1 - ?k) f2" using assms(7) by simp
  have "fst (deframe ?s) = take (length f1) ?s # fst (deframe (drop (length f1) ?s))"
    using deframe_step [of ?s "length f1"] l n f(2) by simp
  then show ?thesis unfolding t using s1 s2 fd1 g1(3) by blast
qed

theorem interrupted_send_splices_witness:
  "\<exists>f g1 g2 rest. frame_ok f \<and> SIsendt (1, False) [(100, E0), (-1, EINTR)] 7 f demo_session = Some (SI_ERROR, EINTR, take 100 f, g1) \<and>
    SIsendt (1, False) [(int (length f), E0)] 7 f g1 = Some (SI_OK, E0, f, g2) \<and>
    fst (deframe (take 100 f @ f)) = (take 100 f @ take (length f - 100) f) # rest"
proof -
  obtain m b where m: "sendable m b" by (rule demo_sendable) blast
  obtain c0 :: uta_ctx and bd th where "init demo_env [] None 0 0 = Return (Inr (c0, bd, th))" by (rule demo_init)
  let ?f = "wire_frame c0 m b"
  have l: "330 \<le> length ?f" using wire_frame_spec(1) [OF m, of c0] sendable_facts(2) [OF m] by simp
  have ok: "frame_ok ?f" by (rule wire_frame_spec(2) [OF m])
  note r = interrupted_send_splices [OF demo_session_ok(1), of 7 "[(100, E0)]" EINTR ?f ?f "[(int (length ?f), E0)]"]
  have "length ?f > 0" "?f \<noteq> []" using l by auto
  then show ?thesis using r l ok by (fastforce simp: demo_session_ok(2))
qed

subsection \<open>Failed connects\<close>

lemma SIconnect_failed:
  assumes inv: "si_inv g ps" and r: "SIgenaddr (ce_gai e) abuf IPPROTO_TCP 0 SOCK_STREAM = (sa_len a, Some a)" and fd: "0 \<le> ce_socket e" and no: "\<not> conn_works e abuf a"
  obtains g' where "SIconnect e abuf g = Some (SI_ERROR, g')" "si_inv g' ps" "\<forall>q\<in>set ps. blk g' q = blk g q" "gi_flags g' = gi_flags g" "cbtab g' = cbtab g"
    "si_log g' = si_log g @ tcp_opts (ce_socket e) (tcp_flags g) @ (if tcp_flags g AND SI_TF_QUICK \<noteq> 0 then [SysOpt (ce_socket e) TCP_SYNCNT 2] else []) @ conn_failed_acts e abuf"
proof -
  obtain p g1 a' where p: "SIconn_prep e TCP_DEVICE abuf 0 g = Some (Some p, g1)" "si_inv g1 ps" "p \<notin> set ps" "blk g1 = (blk g)(p \<mapsto> conn_blk e abuf a')"
    "SIgenaddr (ce_gai e) abuf IPPROTO_TCP 0 SOCK_STREAM = (sa_len a', Some a')" "tcp_flags g1 = tcp_flags g" "gi_flags g1 = gi_flags g" "cbtab g1 = cbtab g"
    "si_log g1 = si_log g @ tcp_opts (ce_socket e) (tcp_flags g)"
    using SIconn_prep_ok [OF inv, of e abuf] r fd by force
  have a': "a' = a" using p(5) r by simp
  have b: "blk g1 p = Some (conn_blk e abuf a)" by (simp add: p(4) a')
  obtain g3 where g3: "blk g3 = blk g1" "gi_tplist g3 = gi_tplist g1" "tp_map g3 = tp_map g1" "gi_magic g3 = gi_magic g1" "cbtab g3 = cbtab g1" "gi_flags g3 = gi_flags g1"
    "length (gi_blks g3) = length (gi_blks g1)" "si_log g3 = si_log g1 @ (if tcp_flags g1 AND SI_TF_QUICK \<noteq> 0 then [SysOpt (ce_socket e) TCP_SYNCNT 2] else []) @ conn_failed_acts e abuf"
    "SIconnect e abuf g = Some (SI_ERROR, set_blk p None g3)"
    by (rule SIconnect_step [OF p(1) b fd]) (rule that, use no in \<open>auto split: if_splits\<close>)
  have pl: "p < length (gi_blks g3)" using blk_Some_less [OF b] g3(7) by simp
  have h: "blk (set_blk p None g3) = (blk g1)(p := None)" using pl g3(1) by (simp add: blk_set_fun)
  have "si_inv (set_blk p None g3) ps" by (rule si_inv_frame [OF p(2)]) (use p(3) g3 in \<open>auto simp: h\<close>)
  moreover have "\<forall>q\<in>set ps. blk (set_blk p None g3) q = blk g q" unfolding h using p(3,4) by auto
  ultimately show thesis using that [OF g3(9)] g3(5,6,8) p(6-9) by simp
qed

text \<open>
  C33: a failed connect leaks its socket where the address has to be connected to with care (an even port from 32768 on, or no port). The socket was
  opened, the connect was refused, and the caller gets an error; the block is given back and the open descriptors are
  as before, but no call closes the socket. In every other case in which the connection does not come about the socket is closed, once.
\<close>

theorem failed_connect:
  assumes "tr_inv g" "SIgenaddr (ce_gai e) abuf IPPROTO_TCP 0 SOCK_STREAM = (sa_len a, Some a)" "0 \<le> ce_socket e" "\<not> conn_works e abuf a"
  shows "\<exists>g' acts. SIconnect e abuf g = Some (SI_ERROR, g') \<and> tr_inv g' \<and> si_view g' = si_view g \<and> si_log g' = si_log g @ acts \<and>
    length (filter (\<lambda>x. x = SysClose (ce_socket e)) acts) = (if need_smartc abuf \<and> ce_connect e \<noteq> 0 then 0 else 1)"
proof -
  have i: "si_inv g (si_blocks g)" using assms(1) by (simp add: tr_inv_def)
  obtain g' where g': "SIconnect e abuf g = Some (SI_ERROR, g')" "si_inv g' (si_blocks g)" "\<forall>q\<in>set (si_blocks g). blk g' q = blk g q" "gi_flags g' = gi_flags g" "cbtab g' = cbtab g"
    "si_log g' = si_log g @ tcp_opts (ce_socket e) (tcp_flags g) @ (if tcp_flags g AND SI_TF_QUICK \<noteq> 0 then [SysOpt (ce_socket e) TCP_SYNCNT 2] else []) @ conn_failed_acts e abuf"
    by (rule SIconnect_failed [OF i assms(2-4)]) (rule that, blast+)
  have "fd_view g' (si_blocks g) = si_view g" unfolding si_view_def by (rule fd_view_cong) (use g'(3) in simp)
  then have "tr_inv g'" "si_view g' = si_view g" using tr_invI [OF g'(2)] assms(1) g'(4) cbs_ok_cong [OF g'(5)] by (simp_all add: tr_inv_def)
  then show ?thesis using g'(1,6) by (auto simp: tcp_opts_def conn_failed_acts_def)
qed

theorem failed_connect_witness:
  "\<exists>g' acts. SIconnect ((demo_conn 8)\<lparr>ce_connect := -1\<rparr>) ''h:34000'' demo_session = Some (SI_ERROR, g') \<and> si_view g' = [(7, False)] \<and>
     si_log g' = si_log demo_session @ acts \<and> SysClose 8 \<notin> set acts"
proof -
  let ?e = "(demo_conn 8)\<lparr>ce_connect := -1\<rparr>" let ?a = "Inet [10, 0, 0, 1] 4560"
  have "SIgenaddr (ce_gai ?e) ''h:34000'' IPPROTO_TCP 0 SOCK_STREAM = (sa_len ?a, Some ?a)" by code_simp
  moreover have "0 \<le> ce_socket ?e" "\<not> conn_works ?e ''h:34000'' ?a" "ce_connect ?e \<noteq> 0" "ce_socket ?e = 8" by (simp_all add: demo_conn_def conn_works_def)
  moreover have "need_smartc ''h:34000''" by code_simp
  ultimately show ?thesis using failed_connect [OF demo_session_ok(1), of ?e "''h:34000''" ?a] by (auto simp: demo_session_ok(2) filter_empty_conv)
qed

subsection \<open>The last session\<close>

lemma rm_only_block:
  assumes "si_list g [p]" "blk g p = Some b" "tp_flags b AND TPF_DELETE \<noteq> 0" "tp_fd b < 0"
  obtains g' where "SIbldpoll g = Some g'" "gi_tplist g' = Some p" "blk g' p = None" "gi_flags g' = gi_flags g" "length (gi_blks g') = length (gi_blks g)"
    "fdcount g' = -1" "gi_magic g' = gi_magic g"
proof -
  let ?g = "g\<lparr>fdcount := -1, readfds := {}, writefds := {}, execpfds := {}\<rparr>"
  have l: "gi_tplist g = Some p" "tp_prev b = None" "tp_next b = None" using assms(1,2) by (auto simp: si_list_def)
  have pl: "p < length (gi_blks g)" by (rule blk_Some_less [OF assms(2)])
  then obtain n where n: "length (gi_blks g) = Suc n" by (cases "length (gi_blks g)") auto
  have "SIrm_tpb p ?g = Some (set_blk p None ?g)" using assms(2) l by (simp add: SIrm_tpb_def)
  then have "SIbldpoll g = Some (set_blk p None ?g)" using assms(2-4) l by (simp add: SIbldpoll_def n)
  then show thesis by (rule that) (use l pl in \<open>simp_all add: set_blk_def blk_def\<close>)
qed

lemma end_of_only_session:
  assumes inv: "tr_inv g" and bs: "si_blocks g = [p]" and v: "si_view g = [(fd, False)]" and e: "delivers fd e []" and cb: "cb_disc cbs fd s = Some (SI_RET_OK, s')"
  obtains g1 b where "wait_round cbs e 0 g s = Some (0, g1, s')" "si_inv g1 [p]" "gi_flags g1 = gi_flags g" "blk g1 p = Some b" "tp_flags b AND TPF_DELETE \<noteq> 0" "tp_fd b < 0"
proof -
  have i: "si_inv g [p]" "cbs_ok g" "gi_flags g AND GIF_SHUTDOWN = 0" using inv bs by (simp_all add: tr_inv_def)
  have lp: "live g p" using v by (simp add: si_view_def fd_view_def bs split: if_splits)
  have fl: "filter (live g) [p] = [p]" using lp by simp
  obtain g1 where g1: "SIbldpoll g = Some g1" "si_inv g1 [p]" "\<And>q. q \<in> set [p] \<Longrightarrow> map_option core (blk g1 q) = map_option core (blk g q)" "gi_flags g1 = gi_flags g" "cbtab g1 = cbtab g"
    "execpfds g1 = fds_of g [p]"
    by (rule SIbldpoll_ok [OF i(1), unfolded fl]) (use lp in simp, rule that, blast+)
  have fc: "0 < fdcount g1" by (rule bldpoll_count [OF i(1) _ lp g1(1,6)]) simp
  let ?g = "g1\<lparr>readfds := we_rd e, writefds := we_wr e, execpfds := we_ex e\<rparr>"
  have i2: "si_inv ?g [p]" using si_inv_frame [OF g1(2), of ?g] by simp
  have "fd_view g1 [p] = fd_view g [p]" by (rule fd_view_cong) (rule g1(3))
  then have vw: "fd_view g1 [p] = [(fd, False)]" using v by (simp add: si_view_def bs)
  obtain b where b: "blk g1 p = Some b" "tp_fd b = fd" "tp_flags b AND TPF_LISTENFD = 0"
    using vw by (auto simp: fd_view_def live_def split: if_splits option.splits)
  have fd: "0 \<le> fd" "fd < 1024" using view_fds [OF inv, of fd False] v by simp_all
  have sq: "tp_squeue b = []" using si_inv_listen [OF g1(2) _ b(1)] fd b(2) by simp
  have nx: "tp_next b = None" "gi_tplist g1 = Some p" using si_invD(1) [OF g1(2)] b(1) by (auto simp: si_list_def)
  let ?c = "b\<lparr>tp_rcvd := tp_rcvd b + 1\<rparr>" let ?h = "set_blk p (Some ?c) ?g"
  have ih: "si_inv ?h [p]" by (rule si_inv_upd [OF i2, of p b]) (use b(1) in simp_all)
  have bh: "blk ?h p = Some ?c" using blk_Some_less [OF b(1)] by simp
  obtain g2 where g2: "SIterm p ?h = Some g2" "si_inv g2 [p]" "blk g2 = (blk ?h)(p \<mapsto> ?c\<lparr>tp_fd := -1, tp_flags := tp_flags ?c OR TPF_DELETE\<rparr>)" "gi_flags g2 = gi_flags ?h"
    by (rule SIterm_ok [OF ih _ bh]) (simp, rule that, blast+)
  have cb6: "cbtab g1 ! 6" using i(2) g1(5) by (simp add: cbs_ok_def)
  have rd: "wait_visit cbs e p 0 ?g s = Some (0, g2, s')"
    using b(1-3) fd sq e cb cb6 g2(1) by (simp add: wait_visit_def delivers_def wait_read_def read_event_def si_callback_def SIcbstat_def Let_def)
  obtain n where n: "length (gi_blks g1) = Suc n" using blk_Some_less [OF b(1)] by (cases "length (gi_blks g1)") auto
  have "wait_round cbs e 0 g s = Some (0, g2, s')"
    using g1(1,4) i(3) e nx b(1) rd fc by (simp add: wait_round_def select_count_def select_error_def Let_def delivers_def n)
  from that [OF this g2(2), of "?c\<lparr>tp_fd := -1, tp_flags := tp_flags ?c OR TPF_DELETE\<rparr>"] show thesis using g2(3,4) g1(4) by simp
qed

text \<open>A list that points to a freed block: a connect that works writes through it.\<close>

lemma dangling_connect:
  assumes d: "gi_tplist g = Some q" "blk g q = None" "q < length (gi_blks g)"
    and r: "SIgenaddr (ce_gai e) abuf IPPROTO_TCP 0 SOCK_STREAM = (sa_len a, Some a)" and w: "conn_works e abuf a"
  shows "SIconnect e abuf g = None"
proof -
  obtain p g1 where n: "SInew_tp g = (p, g1)" by fastforce
  note nt = SInew_tp_ok [OF n]
  have p: "p \<noteq> q" using n d(3) by (auto simp: SInew_tp_def)
  have fd: "0 \<le> ce_socket e" using w by (simp add: conn_works_def)
  let ?b = "conn_blk e abuf a" let ?g = "si_act (tcp_opts (ce_socket e) (tcp_flags g)) (set_blk p (Some ?b) g1)"
  have ss: "set_blk p x (set_blk p y g1) = set_blk p x g1" for x y by (simp add: set_blk_def)
  have c: "blk g1 p = Some tp_zero" by (simp add: nt(1))
  have "0 < sa_len a" by (cases a) simp_all
  then have pr: "SIconn_prep e TCP_DEVICE abuf 0 g = Some (Some p, ?g)"
    using r fd c nt(2) by (simp add: SIconn_prep_def n upd_blk_def ss conn_blk_def tp_zero_def Let_def)
  have h: "blk ?g = (blk g)(p \<mapsto> ?b)" using nt(2) by (simp add: blk_set_fun nt(1))
  have b: "blk ?g p = Some ?b" unfolding h by simp
  obtain g3 where g3: "blk g3 = blk ?g" "gi_tplist g3 = gi_tplist ?g"
    "SIconnect e abuf g =
       (if conn_works e abuf a
        then Option.bind (upd_blk p (\<lambda>b. b\<lparr>tp_flags := tp_flags b OR TPF_SESSION\<rparr>)
               (if tcp_flags ?g AND SI_TF_QUICK \<noteq> 0 then si_act [SysOpt (ce_socket e) TCP_SYNCNT (ce_syncnt e)] g3 else g3))
               (\<lambda>g6. Option.bind (tp_link p g6) (\<lambda>g7. map_option (\<lambda>g8. (ce_socket e, g8)) (SImap_fd (ce_socket e) p g7)))
        else Some (SI_ERROR, set_blk p None g3))"
    by (rule SIconnect_step [OF pr b fd]) (rule that, assumption+)
  have "tp_link p x = None" if "gi_tplist x = Some q" "blk x q = None" for x
    using that p by (cases "blk x p") (simp_all add: tp_link_def upd_blk_def blk_set_fun [OF blk_Some_less])
  moreover have "blk y q = None \<and> gi_tplist y = Some q" if "upd_blk p f (if z then si_act as g3 else g3) = Some y" for f y z as
    using that g3(1,2) h p d(1,2) blk_Some_less [of g3 p] nt(4) by (auto simp: upd_blk_def blk_set_fun split: if_splits option.splits)
  ultimately have t: "tp_link p y = None" if "upd_blk p f (if z then si_act as g3 else g3) = Some y" for f y z as using that by blast
  have "Option.bind (upd_blk p f (if z then si_act as g3 else g3)) (\<lambda>g6. Option.bind (tp_link p g6) k) = None" for f z as and k :: "ginfo \<Rightarrow> (int \<times> ginfo) option"
    by (cases "upd_blk p f (if z then si_act as g3 else g3)") (simp_all only: Option.bind.simps t)
  then show ?thesis unfolding g3(3) using w by simp
qed

text \<open>
  C32: the end of the only session of a transport without a listener leaves a pointer to freed memory. When the block of a session is the only one of the list and the peer closes the
  connection, the round reports the loss and closes the socket. The next round frees the block but leaves the list
  pointing to it, because a block without neighbours is not unlinked; it has no descriptor to offer, so its select is refused, whatever the kernel has,
  the transport is marked to be shut down, and the wait returns a good status. A shutdown and every connect that works then go through the freed block.
\<close>

theorem only_session_lost:
  assumes "tr_inv g" "si_blocks g = [p]" "si_view g = [(fd, False)]" "delivers fd e []" "cb_disc cbs fd s = Some (SI_RET_OK, s')"
  shows "\<exists>g1 g2. wait_round cbs e 0 g s = Some (0, g1, s') \<and> si_view g1 = [] \<and>
    SIwait cbs (e # e' # es) g s = Some (SI_OK, g2, s') \<and> gi_flags g2 AND GIF_SHUTDOWN \<noteq> 0 \<and> gi_tplist g2 = Some p \<and> blk g2 p = None \<and>
    SIshutdown g2 = None \<and>
    (\<forall>ce abuf a. SIgenaddr (ce_gai ce) abuf IPPROTO_TCP 0 SOCK_STREAM = (sa_len a, Some a) \<and> conn_works ce abuf a \<longrightarrow> SIconnect ce abuf g2 = None)"
proof -
  have i: "gi_magic g = 219" "gi_flags g AND GIF_SHUTDOWN = 0" using assms(1) si_invD(3) by (auto simp: tr_inv_def)
  obtain g1 b where g1: "wait_round cbs e 0 g s = Some (0, g1, s')" "si_inv g1 [p]" "gi_flags g1 = gi_flags g" "blk g1 p = Some b" "tp_flags b AND TPF_DELETE \<noteq> 0" "tp_fd b < 0"
    by (rule end_of_only_session [OF assms(1-5)])
  have l: "si_list g1 [p]" by (rule si_invD(1) [OF g1(2)])
  obtain g2 where g2: "SIbldpoll g1 = Some g2" "gi_tplist g2 = Some p" "blk g2 p = None" "gi_flags g2 = gi_flags g1" "length (gi_blks g2) = length (gi_blks g1)"
    "fdcount g2 = -1" "gi_magic g2 = gi_magic g1"
    by (rule rm_only_block [OF l g1(4-6)])
  let ?g = "g2\<lparr>readfds := we_rd e', writefds := we_wr e', execpfds := we_ex e', fdcount := 0, gi_flags := gi_flags g2 OR GIF_SHUTDOWN\<rparr>"
  have "wait_round cbs e' 0 g1 s' = Some (0, ?g, s')" using g2(1,6) by (simp add: wait_round_def select_count_def select_error_def Let_def)
  moreover have "gi_tplist g1 = Some p" using l by (simp add: si_list_def)
  ultimately have w: "SIwait cbs (e # e' # es) g s = Some (0, ?g, s')" using g1(1,3) g2(2) i by (simp add: SIwait_def)
  have d: "gi_tplist ?g = Some p" "blk ?g p = None" "p < length (gi_blks ?g)" using g2(2,3,5) blk_Some_less [OF g1(4)] by simp_all
  then obtain n where n: "length (gi_blks ?g) = Suc n" by (cases "length (gi_blks ?g)") auto
  have "SIshutdown ?g = None" using g2(7) si_invD(3) [OF g1(2)] d(1,2) n by (simp add: SIshutdown_def sishutdown_def upd_blk_def)
  moreover have "si_view g1 = []" using g1(4,5) by (simp add: si_view_def si_blocks_eq [OF g1(2)] fd_view_def live_def)
  moreover have "gi_flags ?g AND GIF_SHUTDOWN \<noteq> 0" by simp
  ultimately show ?thesis using g1(1) w d dangling_connect [OF d] by blast
qed

theorem only_session_lost_witness:
  "\<exists>g2. SIwait demo_cbs [demo_wait [(7, [])], demo_wait []] demo_session 0 = Some (SI_OK, g2, 0) \<and> SIshutdown g2 = None \<and>
     SIconnect (demo_conn 8) ''h:4560'' g2 = None"
proof -
  have b: "si_blocks demo_session = [0]" by code_simp
  have d: "delivers 7 (demo_wait [(7, [])]) []" "cb_disc demo_cbs 7 0 = Some (SI_RET_OK, 0)" by (simp_all add: delivers_def demo_wait_def demo_cbs_def)
  have "SIgenaddr (ce_gai (demo_conn 8)) ''h:4560'' IPPROTO_TCP 0 SOCK_STREAM = (sa_len (Inet [10, 0, 0, 1] 4560), Some (Inet [10, 0, 0, 1] 4560))" by code_simp
  moreover have "conn_works (demo_conn 8) ''h:4560'' (Inet [10, 0, 0, 1] 4560)" by (simp add: conn_works_def demo_conn_def)
  ultimately show ?thesis using only_session_lost [OF demo_session_ok(1) b demo_session_ok(2) d, of "demo_wait []" "[]"] by blast
qed

subsection \<open>Addresses\<close>

text \<open>
  C34: the address of an endpoint is taken apart as it was put together. White space in front is skipped; a name or number and a port with
  a colon between them, an IPv6 address in brackets with or without a port, and a port alone, which asks for an address to
  bind to, give back exactly these parts. A bracket that is not closed is an error.
\<close>

theorem genaddr_roundtrip:
  assumes "list_all is_space sp" "CHR '':'' \<notin> set host" "host \<noteq> []" "\<not> is_space (hd host)" "hd host \<noteq> CHR ''[''" "CHR '']'' \<notin> set v6"
  shows "genaddr_parse (sp @ host @ '':'' @ port) = Some (host, Some port, False) \<and> genaddr_parse (sp @ host) = Some (host, None, False) \<and>
    genaddr_parse (sp @ ''['' @ v6 @ '']:'' @ port) = Some (v6, Some port, False) \<and> genaddr_parse (sp @ ''['' @ v6 @ '']'') = Some (v6, None, False) \<and>
    genaddr_parse (sp @ '':'' @ port) = Some ([], Some port, True) \<and> genaddr_parse (sp @ ''['' @ v6) = None"
proof -
  have sp: "dropWhile is_space (sp @ x) = dropWhile is_space x" for x using assms(1) by (induction sp) auto
  obtain c h where h: "host = c # h" using assms(3) by (cases host) auto
  have c: "\<not> is_space c" "c \<noteq> CHR ''[''" "c \<noteq> CHR '':''" "CHR '':'' \<notin> set h" using assms(2,4,5) h by auto
  have t: "takeWhile (\<lambda>x. x \<noteq> CHR '':'') (h @ CHR '':'' # y) = h" "dropWhile (\<lambda>x. x \<noteq> CHR '':'') (h @ CHR '':'' # y) = CHR '':'' # y"
    "takeWhile (\<lambda>x. x \<noteq> CHR '':'') h = h" for y
    using c(4) by (induction h) auto
  have v: "takeWhile (\<lambda>x. x \<noteq> CHR '']'') (v6 @ CHR '']'' # y) = v6" "dropWhile (\<lambda>x. x \<noteq> CHR '']'') (v6 @ CHR '']'' # y) = CHR '']'' # y" for y
    using assms(6) by (induction v6) auto
  have k: "\<not> is_space (CHR '':'')" "\<not> is_space (CHR ''['')" by (simp_all add: is_space_def)
  show ?thesis using c k assms(6) by (simp add: genaddr_parse_def sp h t v Let_def)
qed

theorem genaddr_roundtrip_witness:
  "genaddr_parse ''  ric-e2term:38000'' = Some (''ric-e2term'', Some ''38000'', False) \<and> genaddr_parse ''  [::1]:4560'' = Some (''::1'', Some ''4560'', False)"
  using genaddr_roundtrip [of "''  ''" "''ric-e2term''" "''::1''" "''38000''"] genaddr_roundtrip [of "''  ''" "''ric-e2term''" "''::1''" "''4560''"] by (simp add: is_space_def)

end
