(* ===== verification/TransPoll.thy ===== *)
theory TransPoll
  imports TransProps
begin

text \<open>
  The two other ways to wait that the transport offers: a poll, which is one round of the wait for sessions and listeners, and a receive on
  one session.
\<close>

subsection \<open>Polling\<close>











subsection \<open>Receiving on one session\<close>

lemma search_session:
  assumes inv: "si_inv g ps" and ss: "is_session g ps fd p b"
  shows "tp_search (length (gi_blks g)) (\<lambda>b. tp_fd b = fd) (gi_tplist g) g = Some (Some p)"
proof -
  note l = si_invD(1) [OF inv]
  have b: "p \<in> set ps" "blk g p = Some b" "tp_fd b = fd" "0 \<le> fd" using ss by (simp_all add: is_session_def)
  have "find (\<lambda>p. tp_fd (the (blk g p)) = fd) ps \<noteq> None" using b by (auto simp: find_None_iff)
  then obtain q where q: "find (\<lambda>p. tp_fd (the (blk g p)) = fd) ps = Some q" by blast
  then have qs: "q \<in> set ps" "tp_fd (the (blk g q)) = fd" by (auto simp: find_Some_iff)
  obtain c where c: "blk g q = Some c" using si_listD(4) [OF l qs(1)] by blast
  have "q = p" by (rule sess_okD(4) [OF si_invD(2) [OF inv] qs(1) b(1) c b(2)]) (use qs(2) c b(3,4) in simp_all)
  then show ?thesis using tp_search_ok [of g "[]" ps "length (gi_blks g)" "\<lambda>b. tp_fd b = fd"] l si_listD(1,5) [OF l] q by simp
qed

text \<open>
  A receive on one session gives what the kernel has for it and leaves the transport as it was; when nothing is there it gives nothing. A session with an error
  is closed, and only this one. A select that fails shuts down all sessions, an interrupted one as well.
\<close>

theorem rcv_contract:
  assumes inv: "tr_inv g" and fd: "(fd, False) \<in> set (si_view g)"
  shows "(0 \<le> re_select e \<and> \<not> re_ex e \<and> re_rd e \<and> re_recv e = Some d \<longrightarrow> (\<exists>a. SIrcv e fd g = Some (int (length d), d, a, g))) \<and>
    (0 \<le> re_select e \<and> \<not> re_ex e \<and> \<not> re_rd e \<longrightarrow> SIrcv e fd g = Some (0, [], [], g)) \<and>
    (0 \<le> re_select e \<and> (re_ex e \<or> re_rd e \<and> re_recv e = None) \<longrightarrow>
       (\<exists>a g'. SIrcv e fd g = Some (SI_ERROR, [], a, g') \<and> tr_inv g' \<and> si_view g' = filter (\<lambda>x. fst x \<noteq> fd) (si_view g))) \<and>
    (re_select e < 0 \<longrightarrow> (\<exists>g'. SIrcv e fd g = Some (SI_ERROR, [], [], g') \<and> si_view g' = [] \<and> gi_flags g' AND GIF_SHUTDOWN \<noteq> 0))"
proof -
  have i: "si_inv g (si_blocks g)" "gi_flags g AND GIF_SHUTDOWN = 0" using inv by (simp_all add: tr_inv_def)
  obtain p b where ss: "is_session g (si_blocks g) fd p b" by (rule view_session [OF inv fd])
  have b: "p \<in> set (si_blocks g)" "blk g p = Some b" "tp_fd b = fd" using ss by (simp_all add: is_session_def)
  note f = search_session [OF i(1) ss] si_invD(3) [OF i(1)] view_fds [OF inv fd]
  obtain g1 where g1: "SIterm p g = Some g1" "si_inv g1 (si_blocks g)" "blk g1 = (blk g)(p \<mapsto> b\<lparr>tp_fd := -1, tp_flags := tp_flags b OR TPF_DELETE\<rparr>)" "gi_flags g1 = gi_flags g" "cbtab g1 = cbtab g"
    by (rule SIterm_ok [OF i(1) b(1,2)]) (rule that, blast+)
  note c = change_closed(1,2) [OF inv ss g1(2,3) _ g1(4,5)]
  let ?h = "g\<lparr>gi_flags := gi_flags g OR GIF_SHUTDOWN\<rparr>"
  have ih: "si_inv ?h (si_blocks g)" using si_inv_frame [OF i(1), of ?h] by simp
  obtain g2 where g2: "sishutdown 0 ?h = Some g2" "si_inv g2 (si_blocks g)" "\<And>p. p \<in> set (si_blocks g) \<Longrightarrow> \<not> live g2 p" "gi_flags g2 = gi_flags ?h OR GIF_SHUTDOWN"
    by (rule sishutdown_ok [OF ih, of 0]) (simp, rule that, blast+)
  have "si_view g2 = []" using g2(3) by (simp add: si_view_def si_blocks_eq [OF g2(2)] fd_view_def)
  moreover have "gi_tplist g \<noteq> None" by (rule view_tplist) (use fd in auto)
  ultimately have s: "re_select e < 0 \<longrightarrow> (\<exists>g'. SIrcv e fd g = Some (SI_ERROR, [], [], g') \<and> si_view g' = [] \<and> gi_flags g' AND GIF_SHUTDOWN \<noteq> 0)"
    using f b i(2) g2(1,4) by (simp add: SIrcv_def SIshutdown_def)
  have t: "0 \<le> re_select e \<and> (re_ex e \<or> re_rd e \<and> re_recv e = None) \<longrightarrow>
       (\<exists>a g'. SIrcv e fd g = Some (SI_ERROR, [], a, g') \<and> tr_inv g' \<and> si_view g' = filter (\<lambda>x. fst x \<noteq> fd) (si_view g))"
    using f b i(2) g1(1,4) c by (auto simp: SIrcv_def rcv_ready_def Let_def)
  show ?thesis using f b i(2) s t by (simp add: SIrcv_def rcv_ready_def Let_def)
qed

theorem rcv_contract_witness:
  "(\<exists>a. SIrcv \<lparr>re_select = 1, re_ex = False, re_rd = True, re_recv = Some [5, 6], re_from = Inet [] 0\<rparr> 7 demo_session = Some (2, [5, 6], a, demo_session)) \<and>
   (\<exists>g'. SIrcv \<lparr>re_select = -1, re_ex = False, re_rd = False, re_recv = None, re_from = Inet [] 0\<rparr> 7 demo_session = Some (SI_ERROR, [], [], g') \<and> si_view g' = [])"
  using rcv_contract [OF demo_session_ok(1), of 7 "\<lparr>re_select = 1, re_ex = False, re_rd = True, re_recv = Some [5, 6], re_from = Inet [] 0\<rparr>" "[5, 6]"]
    rcv_contract [OF demo_session_ok(1), of 7 "\<lparr>re_select = -1, re_ex = False, re_rd = False, re_recv = None, re_from = Inet [] 0\<rparr>" "[]"]
  by (auto simp: demo_session_ok(2))

end
