(* ===== verification/Spec2Isabelle.thy ===== *)
theory Spec2Isabelle
  imports FanOut CollProps WhProps TransPoll
begin

text \<open>
  RMR, the RIC message routing library (\<^verbatim>\<open>src/ric-plt-lib-rmr\<close>), in its SI95 variant: the C library every
  platform service and xApp of the near real-time RIC links to send and receive messages. This
  development models the library's own logic and proves what makes it correct. All paths below are relative to
  \<^verbatim>\<open>src/ric-plt-lib-rmr/src/rmr\<close>.

  The program. An application initialises a context (\<^verbatim>\<open>uta_ctx\<close>). A collector thread receives route
  table records from the route manager (or reads them from a seed file) and builds route tables: a key made of
  message type and subscription leads to an entry with groups of endpoints. A send looks up the entry, takes one
  endpoint of each group in turn, writes the header in network order and gives the bytes to the transport. A
  receive thread gets bytes in buffers of any size, cuts them into messages again and puts each into a ring
  the application reads from, or onto the chute of a call that waits for its answer. Wormholes are connections
  that bypass the table. The transport (SI95) keeps a block for each TCP socket in a doubly linked list, and its wait
  goes over the list in rounds: it accepts sessions, and passes what arrives and lost sessions to callbacks.

  The theories, in the order they build on one another:

  \<^item> \<open>RMR_Prelude\<close>, \<open>Bytes\<close>: word types, shared lemmas, the type \<open>outcome\<close> of loops (a value, undefined
    behaviour, or out of fuel), and memory blocks as lists of bytes.
  \<^item> \<open>Symtab\<close> (\<^verbatim>\<open>common/src/symtab.c\<close>): the hash table, chain by chain, with its statistics. Locale: a finite
    map; the table is interpreted as one, and any history of operations is shown to agree with it.
  \<^item> \<open>Ring\<close> (\<^verbatim>\<open>common/src/ring_static.c\<close>): the ring with 16 bit indices. Locale \<open>bounded_fifo\<close>, interpreted on it as
    \<open>msg_ring\<close>; a second model runs an insert and an extract store by store.
  \<^item> \<open>Tools\<close> (\<^verbatim>\<open>common/src/tools_static.c\<close>): tokens, text fields, addresses.
  \<^item> \<open>Mbuf\<close> (\<^verbatim>\<open>common/src/mbuf_api.c\<close>, \<^verbatim>\<open>si/src/sr_si_static.c\<close>): the message buffer as a record over a block of
    bytes, the header by offsets, allocation, cloning, resizing and the accessors; \<open>mbuf_wf\<close> is the invariant. A resize whose
    sizes leave the range of an \<^verbatim>\<open>int\<close> is undefined.
  \<^item> \<open>River\<close> (\<^verbatim>\<open>si/src/mt_call_si_static.c\<close>): the data callback. Its loop has fuel; the length of the
    buffer is shown to be enough for every stream of well sized messages, and a size of 0 is shown to exhaust any.
  \<^item> \<open>Route\<close> (\<^verbatim>\<open>common/src/rt_generic_static.c\<close>, \<^verbatim>\<open>si/src/rtable_si_static.c\<close>): tables, entries and endpoints.
    Pointers are indices into the lists \<open>tabs\<close>, \<open>rtes\<close> and \<open>eps\<close> of the context; a freed object is \<open>None\<close>, and
    a function that would use one is undefined.
  \<^item> \<open>RtParser\<close>: the records; \<open>Collector\<close> (\<^verbatim>\<open>common/src/rtc_static.c\<close>, \<^verbatim>\<open>common/src/alarm.c\<close>): the threads that feed
    them, and the drop alarm.
  \<^item> \<open>Send\<close>, \<open>MtCall\<close> (\<^verbatim>\<open>si/src/sr_si_static.c\<close>, \<^verbatim>\<open>si/src/rmr_si.c\<close>, \<^verbatim>\<open>common/src/mt_call_static.c\<close>), \<open>Wormhole\<close>
    (\<^verbatim>\<open>common/src/wormholes.c\<close>), \<open>Init\<close>: sending, receiving, calls, wormholes and \<open>rmr_init\<close>. A routed send loops over
    the groups of the entry with the number of groups plus one as fuel.
  \<^item> \<open>RouteInv\<close>, \<open>ParserInv\<close>: the invariant of the tables (\<open>tabs_inv\<close>: the entries a table refers to exist, reference
    counts are the number of tables that refer to an entry, the tables that exist are the active, the new and the draining
    one) and that every operation and every record keeps it.
  \<^item> \<open>RouteSys\<close>: records and senders as a step relation. Locale \<open>guarded_steps\<close>: steps that keep an invariant under a
    guard; interpreted on the record parser.
  \<^item> \<open>RouteProps\<close>, \<open>EpProps\<close>, \<open>Receive\<close>, \<open>SendProps\<close>: the properties that join these components, up to a
    message that is sent arriving as it was sent.
  \<^item> \<open>CallProps\<close>: a call, its answer by return to sender, and what the caller gets back. \<open>FanOut\<close>: a routed send gives a
    copy to the endpoint of each group whose turn it is. \<open>CollProps\<close>: tables that lack records, the seed file and the rounds of the collector.
    \<open>WhProps\<close>: the life of a wormhole.
  \<^item> \<open>Si95\<close> (\<^verbatim>\<open>si/src/si95\<close>): the transport: its blocks, connecting, listening, accepting, sending, closing, shutting
    down, and the rounds of \<open>SIwait\<close> and \<open>SIpoll\<close>. A block is an index into a store; a freed one is \<open>None\<close>. A loop over the
    list has the size of the store as fuel, which the invariant shows to be enough; \<open>None\<close> stands for the use of a freed
    block, of a negative descriptor in a descriptor set or of one beyond it. A select over a negative count of descriptors,
    what is left when the list has no open block, fails whatever the environment says.
  \<^item> \<open>Si95Inv\<close>, \<open>Si95Run\<close>: the invariant of the transport (\<open>si_inv\<close>: the list is linked in both directions, the map leads
    from the descriptor of a session to its block, no descriptor is in two blocks) and that every call keeps it.
    \<open>Si95Wait\<close>: \<open>serve\<close>, the specification of a round over the list of open descriptors, and that a round implements it.
  \<^item> \<open>Transport\<close>: histories of calls and rounds refine the specification; a second interpretation of
    \<open>guarded_steps\<close>. \<open>TransProps\<close>: the receive thread over the transport, up to a message that is sent being queued by the thread
    on the other side; what a send promises, and what goes wrong in an interrupted send, a failed connect and at the end of the last session.
    \<open>TransPoll\<close>: a poll is a round of the wait; receiving on one session.

  What the environment does is an argument: the transport's answers to a send or a connect (in the theories that do not
  model it), the kernel's answers to the system calls of the transport (\<open>conn_env\<close>, \<open>listen_env\<close>, \<open>wait_env\<close>, \<open>rcv_env\<close>), the resolver, files,
  environment variables, the clock, the contents of allocated memory (\<open>junk\<close>) and, for calls and receives that wait,
  what the receive thread does meanwhile.

  Not modelled: printing, logging and statistics output, the release of memory when a context is closed, a failure to allocate
  a transport block for a connect or a listener, \<^verbatim>\<open>si/src/si95/sialloc.c\<close> (not C that compiles, used nowhere), locks
  (operations of different threads interleave as whole steps, except in the model of the ring), and the nng and nanomsg variants. The other programs of the repository use this library;
  they are written in Go, Python and C++, and their C sources are generated codecs.
\<close>

end
